(* ===== verification/Prelude.thy ===== *)
theory Prelude
  imports Main
begin

text \<open>
  Shared vocabulary of the development: results of fallible code, database tables as lists of
  rows with a unique key, and the generic lemmas on lists and tables the components share.

  \<^item> A call that may throw returns \<open>'e + 'a\<close>: \<open>Inl e\<close> is the exception, \<open>Inr v\<close> the value.
  \<^item> A table is a list of rows in insertion order. \<open>find_by\<close> is \<open>findUnique\<close>/\<open>findFirst\<close> on one
    column, \<open>insert_row\<close> is \<open>create\<close>, \<open>modify_by\<close> is \<open>update\<close> on one column.
  \<^item> Instants are milliseconds since the epoch, as \<open>Date.getTime()\<close> gives them.
\<close>

named_theorems table_simps
named_theorems js_simps

type_synonym instant = int

section \<open>Results\<close>

fun and_then :: "'e + 'a \<Rightarrow> ('a \<Rightarrow> 'e + 'b) \<Rightarrow> 'e + 'b" where
  "and_then (Inl e) f = Inl e"
| "and_then (Inr a) f = f a"

lemma and_then_Inr_iff [simp]:
  "and_then r f = Inr b \<longleftrightarrow> (\<exists>a. r = Inr a \<and> f a = Inr b)"
  by (cases r) auto

lemma and_then_Inl_iff:
  "and_then r f = Inl e \<longleftrightarrow> r = Inl e \<or> (\<exists>a. r = Inr a \<and> f a = Inl e)"
  by (cases r) auto

fun is_ok :: "'e + 'a \<Rightarrow> bool" where
  "is_ok (Inl e) = False"
| "is_ok (Inr a) = True"

lemma is_ok_iff: "is_ok r \<longleftrightarrow> (\<exists>a. r = Inr a)"
  by (cases r) auto

section \<open>Tables\<close>

text \<open>The laws a keyed table promises its clients.\<close>

locale keyed_table =
  fixes key :: "'r \<Rightarrow> 'k"
    and lookup :: "'k \<Rightarrow> 't \<Rightarrow> 'r option"
    and insert :: "'r \<Rightarrow> 't \<Rightarrow> 't"
    and modify :: "'k \<Rightarrow> ('r \<Rightarrow> 'r) \<Rightarrow> 't \<Rightarrow> 't"
    and keys :: "'t \<Rightarrow> 'k list"
  assumes lookup_key: "lookup k t = Some r \<Longrightarrow> key r = k"
    and lookup_keys: "lookup k t \<noteq> None \<longleftrightarrow> k \<in> set (keys t)"
    and lookup_insert:
      "lookup k (insert r t) =
        (case lookup k t of Some r' \<Rightarrow> Some r' | None \<Rightarrow> if key r = k then Some r else None)"
    and keys_insert: "keys (insert r t) = keys t @ [key r]"
    and lookup_modify:
      "(\<And>r. key r = k \<Longrightarrow> key (f r) = k) \<Longrightarrow>
        lookup k' (modify k f t) = (if k' = k then map_option f (lookup k t) else lookup k' t)"
    and keys_modify:
      "(\<And>r. key r = k \<Longrightarrow> key (f r) = k) \<Longrightarrow> keys (modify k f t) = keys t"
begin

lemma insert_fresh_distinct:
  "lookup (key r) t = None \<Longrightarrow> distinct (keys t) \<Longrightarrow> distinct (keys (insert r t))"
  using lookup_keys [of "key r" t] by (simp add: keys_insert)

lemma lookup_insert_fresh:
  "lookup (key r) t = None \<Longrightarrow> lookup k (insert r t) = (if k = key r then Some r else lookup k t)"
  by (auto simp: lookup_insert split: option.split)

lemma lookup_modify_same:
  "(\<And>r. key r = k \<Longrightarrow> key (f r) = k) \<Longrightarrow> lookup k t = Some r \<Longrightarrow> lookup k (modify k f t) = Some (f r)"
  by (simp add: lookup_modify)

lemma lookup_modify_other:
  "(\<And>r. key r = k \<Longrightarrow> key (f r) = k) \<Longrightarrow> k' \<noteq> k \<Longrightarrow> lookup k' (modify k f t) = lookup k' t"
  by (simp add: lookup_modify)

end

definition find_by :: "('r \<Rightarrow> 'k) \<Rightarrow> 'k \<Rightarrow> 'r list \<Rightarrow> 'r option" where
  "find_by key k rows = find (\<lambda>r. key r = k) rows"

definition insert_row :: "'r \<Rightarrow> 'r list \<Rightarrow> 'r list" where
  "insert_row r rows = rows @ [r]"

definition modify_by :: "('r \<Rightarrow> 'k) \<Rightarrow> 'k \<Rightarrow> ('r \<Rightarrow> 'r) \<Rightarrow> 'r list \<Rightarrow> 'r list" where
  "modify_by key k f rows = map (\<lambda>r. if key r = k then f r else r) rows"

definition modify_where :: "('r \<Rightarrow> bool) \<Rightarrow> ('r \<Rightarrow> 'r) \<Rightarrow> 'r list \<Rightarrow> 'r list" where
  "modify_where P f rows = map (\<lambda>r. if P r then f r else r) rows"

lemma find_by_Nil [table_simps, simp]: "find_by key k [] = None"
  by (simp add: find_by_def)

lemma find_by_Cons [table_simps, simp]:
  "find_by key k (r # rows) = (if key r = k then Some r else find_by key k rows)"
  by (simp add: find_by_def)

lemma find_by_append [table_simps]:
  "find_by key k (xs @ ys) = (case find_by key k xs of Some r \<Rightarrow> Some r | None \<Rightarrow> find_by key k ys)"
  by (induction xs) auto

lemma find_by_None_iff: "find_by key k rows = None \<longleftrightarrow> k \<notin> key ` set rows"
  by (induction rows) auto

lemma find_by_SomeD: "find_by key k rows = Some r \<Longrightarrow> r \<in> set rows \<and> key r = k"
  by (induction rows) (auto split: if_splits)

lemma find_by_distinct:
  "distinct (map key rows) \<Longrightarrow> r \<in> set rows \<Longrightarrow> find_by key (key r) rows = Some r"
  by (induction rows) (auto simp: rev_image_eqI)

lemma find_by_modify_by [table_simps]:
  "(\<And>r. key r = k \<Longrightarrow> key (f r) = k) \<Longrightarrow>
    find_by key k' (modify_by key k f rows) =
      (if k' = k then map_option f (find_by key k rows) else find_by key k' rows)"
  by (induction rows) (auto simp: modify_by_def)

lemma keys_modify_by [table_simps]:
  "(\<And>r. key r = k \<Longrightarrow> key (f r) = k) \<Longrightarrow> map key (modify_by key k f rows) = map key rows"
  by (induction rows) (auto simp: modify_by_def)

lemma set_insert_row [table_simps, simp]: "set (insert_row r rows) = Set.insert r (set rows)"
  by (simp add: insert_row_def)

lemma map_insert_row [table_simps, simp]: "map f (insert_row r rows) = map f rows @ [f r]"
  by (simp add: insert_row_def)

lemma filter_insert_row [table_simps]:
  "filter P (insert_row r rows) = filter P rows @ (if P r then [r] else [])"
  by (simp add: insert_row_def)

lemma set_modify_by: "set (modify_by key k f rows) = (\<lambda>r. if key r = k then f r else r) ` set rows"
  by (simp add: modify_by_def)

lemma set_modify_where: "set (modify_where P f rows) = (\<lambda>r. if P r then f r else r) ` set rows"
  by (simp add: modify_where_def)

lemma length_modify_by [simp]: "length (modify_by key k f rows) = length rows"
  by (simp add: modify_by_def)

lemma length_modify_where [simp]: "length (modify_where P f rows) = length rows"
  by (simp add: modify_where_def)

lemma find_by_map_cong:
  "map (\<lambda>r. (key r, g r)) xs = map (\<lambda>r. (key r, g r)) ys \<Longrightarrow>
    map_option g (find_by key k xs) = map_option g (find_by key k ys)"
proof (induction xs arbitrary: ys)
  case (Cons x xs)
  then show ?case by (cases ys) auto
qed simp

lemma map_modify_by_keep:
  "(\<And>r. g (f r) = g r) \<Longrightarrow> map g (modify_by key k f rows) = map g rows"
  by (simp add: modify_by_def)

text \<open>Every list table with a key column is a keyed table.\<close>

lemma list_keyed_table:
  "keyed_table key (find_by key) insert_row (modify_by key) (map key)"
proof
  show "key r = k" if "find_by key k rows = Some r" for k rows r
    using find_by_SomeD [OF that] by simp
  show "(find_by key k rows \<noteq> None) = (k \<in> set (map key rows))" for k rows
    by (simp add: find_by_None_iff)
  show "find_by key k (insert_row r rows) =
      (case find_by key k rows of Some r' \<Rightarrow> Some r' | None \<Rightarrow> if key r = k then Some r else None)"
    for k r rows
    by (simp add: insert_row_def find_by_append split: option.split)
  show "map key (insert_row r rows) = map key rows @ [key r]" for r rows
    by simp
qed (rule find_by_modify_by keys_modify_by; assumption)+

section \<open>Upserts\<close>

text \<open>\<open>upsert\<close> on a unique column: \<open>update\<close> the row with the key, or \<open>create\<close> it.\<close>

definition upsert_by :: "('r \<Rightarrow> 'k) \<Rightarrow> 'k \<Rightarrow> ('r \<Rightarrow> 'r) \<Rightarrow> 'r \<Rightarrow> 'r list \<Rightarrow> 'r list" where
  "upsert_by key k f r rows =
    (case find_by key k rows of None \<Rightarrow> insert_row r rows | Some _ \<Rightarrow> modify_by key k f rows)"

lemma find_by_upsert [table_simps]:
  assumes "key r = k" "\<And>r. key r = k \<Longrightarrow> key (f r) = k"
  shows "find_by key k' (upsert_by key k f r rows) =
    (if k' = k then Some (case find_by key k rows of None \<Rightarrow> r | Some r' \<Rightarrow> f r') else find_by key k' rows)"
proof -
  have "find_by key k' (modify_by key k f rows) = (if k' = k then map_option f (find_by key k rows) else find_by key k' rows)"
    using assms(2) by (rule find_by_modify_by)
  then show ?thesis
    using assms(1) by (auto simp: upsert_by_def insert_row_def find_by_append split: option.split)
qed

lemma keys_upsert:
  assumes "key r = k" "\<And>r. key r = k \<Longrightarrow> key (f r) = k"
  shows "map key (upsert_by key k f r rows) = (if k \<in> set (map key rows) then map key rows else map key rows @ [k])"
proof -
  have "map key (modify_by key k f rows) = map key rows" using assms(2) by (rule keys_modify_by)
  then show ?thesis
    using assms(1) find_by_None_iff [of key k rows] by (auto simp: upsert_by_def split: option.split)
qed

lemma distinct_upsert:
  assumes "key r = k" "\<And>r. key r = k \<Longrightarrow> key (f r) = k" "distinct (map key rows)"
  shows "distinct (map key (upsert_by key k f r rows))"
  using keys_upsert [of key r k f rows, OF assms(1,2)] assms(3) by simp

section \<open>Lists\<close>

lemma find_append: "find P (xs @ ys) = (case find P xs of Some x \<Rightarrow> Some x | None \<Rightarrow> find P ys)"
  by (induction xs) auto

lemma find_Some_in: "find P xs = Some x \<Longrightarrow> x \<in> set xs \<and> P x"
  by (induction xs) (auto split: if_splits)

lemma filter_map_keep: "(\<And>x. P (f x) = P x) \<Longrightarrow> filter P (map f xs) = map f (filter P xs)"
  by (induction xs) auto

lemma find_map_keep: "(\<And>x. P (f x) = P x) \<Longrightarrow> find P (map f xs) = map_option f (find P xs)"
  by (induction xs) auto

lemma sort_key_Nil_iff [simp]: "sort_key f xs = [] \<longleftrightarrow> xs = []"
  by (metis length_0_conv length_sort)

lemma filter_eq_single: "distinct xs \<Longrightarrow> x \<in> set xs \<Longrightarrow> filter (\<lambda>y. y = x) xs = [x]"
  by (induction xs) (auto simp: filter_empty_conv)

lemma sum_list_filter_split:
  "sum_list (map f xs) = sum_list (map f (filter P xs)) + sum_list (map f (filter (\<lambda>x. \<not> P x) xs))"
  for f :: "'a \<Rightarrow> 'b::comm_monoid_add"
  by (induction xs) (auto simp: ac_simps)

section \<open>Counting pages\<close>

text \<open>\<open>Math.ceil(n / d)\<close> on counts is the quotient rounded up.\<close>

definition ceil_div :: "int \<Rightarrow> int \<Rightarrow> int" where
  "ceil_div n d = - ((- n) div d)"

lemma ceil_div_covers:
  fixes n d :: int
  assumes "0 < d"
  shows "n \<le> ceil_div n d * d" and "ceil_div n d * d < n + d"
  using div_mult_mod_eq [of "- n" d] pos_mod_bound [OF assms, of "- n"] pos_mod_sign [OF assms, of "- n"]
  unfolding ceil_div_def by (simp_all only: mult_minus_left)

lemma ceil_div_nonneg: "0 < d \<Longrightarrow> 0 \<le> n \<Longrightarrow> 0 \<le> ceil_div n d" for n d :: int
  using ceil_div_covers(1) [of d n] by (meson mult_neg_pos not_le order_trans)

section \<open>State machines\<close>

text \<open>
  The contract of a component with an invariant: it holds initially and every step keeps it.
  Clients get it for every reachable state, and any consequence of it with it.
\<close>

locale invariant_system =
  fixes init :: "'s \<Rightarrow> bool"
    and step :: "'s \<Rightarrow> 's \<Rightarrow> bool"
    and inv :: "'s \<Rightarrow> bool"
  assumes inv_init: "init s \<Longrightarrow> inv s"
    and inv_step: "inv s \<Longrightarrow> step s t \<Longrightarrow> inv t"
begin

lemma inv_steps: "step\<^sup>*\<^sup>* s t \<Longrightarrow> inv s \<Longrightarrow> inv t"
  by (induction rule: rtranclp_induct) (auto intro: inv_step)

lemma inv_reachable: "init s \<Longrightarrow> step\<^sup>*\<^sup>* s t \<Longrightarrow> inv t"
  by (rule inv_steps) (auto intro: inv_init)

end

end
