(* ===== verification/Js_Values.thy ===== *)
theory Js_Values
  imports Prelude Complex_Main "HOL-Library.Char_ord"
begin

text \<open>
  The JavaScript values and built-ins the modelled code relies on: parsed JSON values, numbers,
  \<open>BigInt\<close> arithmetic (division truncates towards zero, \<open>**\<close> rejects a negative exponent), decimal
  printing and parsing of integers, and the ASCII part of \<open>toLowerCase\<close> and \<open>trim\<close>.

  A JavaScript \<open>number\<close> that the code uses as a count, a ledger or an instant is an \<open>int\<close>; such
  values are below \<open>2^53\<close> in the program, where doubles are exact.
\<close>

section \<open>Values\<close>

datatype js_num = Fin rat | NaN | Infinite bool

datatype js_value =
    Jundefined
  | Jnull
  | Jbool bool
  | Jnum js_num
  | Jstr string
  | Jarr "js_value list"
  | Jobj "(string \<times> js_value) list"

text \<open>\<open>Number.isInteger\<close>, on numbers only.\<close>

fun is_integer_num :: "js_num \<Rightarrow> bool" where
  "is_integer_num (Fin q) = (of_int \<lfloor>q\<rfloor> = q)"
| "is_integer_num _ = False"

text \<open>The integer a number holds; only used behind \<open>is_integer_num\<close>.\<close>

fun num_to_int :: "js_num \<Rightarrow> int" where
  "num_to_int (Fin q) = \<lfloor>q\<rfloor>"
| "num_to_int _ = 0"

lemma is_integer_Fin_of_int [simp]: "is_integer_num (Fin (of_int i))"
  by simp

text \<open>Property read on an object: \<open>undefined\<close> when absent.\<close>

definition js_field :: "string \<Rightarrow> (string \<times> js_value) list \<Rightarrow> js_value" where
  "js_field name fields = (case map_of fields name of None \<Rightarrow> Jundefined | Some v \<Rightarrow> v)"

text \<open>Conversion to boolean, as conditions do it.\<close>

fun truthy :: "js_value \<Rightarrow> bool" where
  "truthy Jundefined = False"
| "truthy Jnull = False"
| "truthy (Jbool b) = b"
| "truthy (Jnum (Fin q)) = (q \<noteq> 0)"
| "truthy (Jnum NaN) = False"
| "truthy (Jnum (Infinite _)) = True"
| "truthy (Jstr s) = (s \<noteq> [])"
| "truthy (Jarr _) = True"
| "truthy (Jobj _) = True"

section \<open>Numbers and BigInt\<close>

definition MAX_SAFE_INTEGER :: int where
  "MAX_SAFE_INTEGER = 9007199254740991"

text \<open>Errors the language itself raises.\<close>

datatype js_error = RangeError | SyntaxError | Error string

text \<open>\<open>BigInt\<close> division truncates towards zero; HOL's \<open>div\<close> rounds down.\<close>

definition bigint_div :: "int \<Rightarrow> int \<Rightarrow> int" where
  "bigint_div n d = (if (n < 0) = (d < 0) then \<bar>n\<bar> div \<bar>d\<bar> else - (\<bar>n\<bar> div \<bar>d\<bar>))"

lemma bigint_div_nonneg [js_simps]: "0 \<le> n \<Longrightarrow> 0 < d \<Longrightarrow> bigint_div n d = n div d"
  by (simp add: bigint_div_def)

text \<open>Truncating one quotient in two can lose at most one unit.\<close>

lemma div_pos_less_two: "0 < p \<Longrightarrow> z < 2 * p \<Longrightarrow> z div p < 2"
  for z p :: int
proof (rule ccontr)
  assume p: "0 < p" and z: "z < 2 * p" and "\<not> z div p < 2"
  then have "p * 2 \<le> p * (z div p)" by (intro mult_left_mono) auto
  also have "\<dots> \<le> z"
    using mult_div_mod_eq [of p z] pos_mod_sign [OF p, of z] by linarith
  finally show False using z by simp
qed

lemma div_add_split:
  fixes x y p :: int
  assumes "0 < p"
  shows "x div p + y div p \<le> (x + y) div p" and "(x + y) div p \<le> x div p + y div p + 1"
proof -
  have "(x + y) div p = x div p + y div p + (x mod p + y mod p) div p"
    by (rule div_add1_eq)
  moreover have "0 \<le> (x mod p + y mod p) div p"
    using assms by (simp add: pos_imp_zdiv_nonneg_iff)
  moreover have "(x mod p + y mod p) div p \<le> 1"
  proof -
    have "x mod p + y mod p < 2 * p"
      using pos_mod_bound [OF assms, of x] pos_mod_bound [OF assms, of y] by linarith
    then have "(x mod p + y mod p) div p < 2"
      by (intro div_pos_less_two assms)
    then show ?thesis by simp
  qed
  ultimately show "x div p + y div p \<le> (x + y) div p"
    and "(x + y) div p \<le> x div p + y div p + 1"
    by linarith+
qed

text \<open>Quotients rounded down and up against products.\<close>

lemma le_div_iff: "0 < d \<Longrightarrow> m \<le> a div d \<longleftrightarrow> d * m \<le> a" for a d m :: int
proof
  assume d: "0 < d" and m: "m \<le> a div d"
  then have "d * m \<le> d * (a div d)" by (simp add: mult_left_mono)
  then show "d * m \<le> a" using mult_div_mod_eq [of d a] pos_mod_sign [OF d, of a] by linarith
next
  assume d: "0 < d" and m: "d * m \<le> a"
  then show "m \<le> a div d" using zdiv_mono1 [OF m d] by simp
qed

lemma ceil_quotient_le_iff: "0 < d \<Longrightarrow> (a + d - 1) div d \<le> k \<longleftrightarrow> a \<le> d * k" for a d k :: int
proof -
  assume d: "0 < d"
  have "(a + d - 1) div d \<le> k \<longleftrightarrow> \<not> (k + 1 \<le> (a + d - 1) div d)" by linarith
  also have "\<dots> \<longleftrightarrow> \<not> (d * (k + 1) \<le> a + d - 1)" by (simp only: le_div_iff [OF d])
  also have "\<dots> \<longleftrightarrow> a \<le> d * k" by (simp only: distrib_left mult_1_right) linarith
  finally show ?thesis .
qed

section \<open>Strings\<close>

definition lower_char :: "char \<Rightarrow> char" where
  "lower_char c =
    (let n = of_char c :: nat in if 65 \<le> n \<and> n \<le> 90 then char_of (n + 32) else c)"

definition to_lower :: "string \<Rightarrow> string" where
  "to_lower s = map lower_char s"

definition is_space :: "char \<Rightarrow> bool" where
  "is_space c = (let n = of_char c :: nat in n = 32 \<or> (9 \<le> n \<and> n \<le> 13))"

definition trim :: "string \<Rightarrow> string" where
  "trim s = rev (dropWhile is_space (rev (dropWhile is_space s)))"

lemma lower_char_idem [simp]: "lower_char (lower_char c) = lower_char c"
proof -
  define n :: nat where "n = of_char c"
  have "n < 256" unfolding n_def by simp
  show ?thesis
  proof (cases "65 \<le> n \<and> n \<le> 90")
    case True
    then have l: "lower_char c = char_of (n + 32)"
      by (simp add: lower_char_def n_def Let_def)
    have "of_char (char_of (n + 32) :: char) = n + 32"
      using True by (simp add: of_char_of)
    then show ?thesis using True by (simp add: l lower_char_def Let_def)
  next
    case False
    then have "lower_char c = c" by (auto simp: lower_char_def n_def Let_def)
    then show ?thesis by simp
  qed
qed

lemma to_lower_idem [simp]: "to_lower (to_lower s) = to_lower s"
  by (simp add: to_lower_def)

lemma length_to_lower [simp]: "length (to_lower s) = length s"
  by (simp add: to_lower_def)

text \<open>The pattern \<open>/^G[A-Z2-7]{55}$/\<close> of a Stellar account address.\<close>

definition base32_char :: "char \<Rightarrow> bool" where
  "base32_char c =
    (let n = of_char c :: nat in (65 \<le> n \<and> n \<le> 90) \<or> (50 \<le> n \<and> n \<le> 55))"

definition stellar_address :: "string \<Rightarrow> bool" where
  "stellar_address s =
    (case s of [] \<Rightarrow> False | c # cs \<Rightarrow> c = CHR ''G'' \<and> length cs = 55 \<and> list_all base32_char cs)"

text \<open>Splitting at a separator character, as \<open>String.split\<close> does: always at least one piece.\<close>

fun split_on :: "char \<Rightarrow> string \<Rightarrow> string list" where
  "split_on sep [] = [[]]"
| "split_on sep (c # cs) =
    (if c = sep then [] # split_on sep cs
     else case split_on sep cs of [] \<Rightarrow> [[c]] | w # ws \<Rightarrow> (c # w) # ws)"

lemma split_on_nonempty [simp]: "split_on sep s \<noteq> []"
  by (induction s) (auto split: list.splits)

lemma split_on_no_sep [simp]: "sep \<notin> set s \<Longrightarrow> split_on sep s = [s]"
  by (induction s) auto

section \<open>Decimal integers\<close>

definition digit_char :: "nat \<Rightarrow> char" where
  "digit_char d = char_of (48 + d)"

definition is_digit :: "char \<Rightarrow> bool" where
  "is_digit c = (let n = of_char c :: nat in 48 \<le> n \<and> n \<le> 57)"

definition digit_value :: "char \<Rightarrow> nat" where
  "digit_value c = of_char c - 48"

fun show_nat :: "nat \<Rightarrow> string" where
  "show_nat n = (if n < 10 then [digit_char n] else show_nat (n div 10) @ [digit_char (n mod 10)])"

declare show_nat.simps [simp del]

text \<open>\<open>BigInt.toString\<close>.\<close>

definition show_int :: "int \<Rightarrow> string" where
  "show_int i = (if i < 0 then CHR ''-'' # show_nat (nat (- i)) else show_nat (nat i))"

definition read_nat :: "string \<Rightarrow> nat" where
  "read_nat s = foldl (\<lambda>n c. 10 * n + digit_value c) 0 s"

text \<open>
  \<open>BigInt(text)\<close> on decimal text: surrounding white space is ignored, the empty text is zero, one
  sign is allowed, anything else is a \<open>SyntaxError\<close>, given here as \<open>None\<close>. (The hexadecimal,
  octal and binary literals that \<open>BigInt\<close> also accepts do not occur in the columns modelled.)
\<close>

definition read_int :: "string \<Rightarrow> int option" where
  "read_int text =
    (case trim text of
      [] \<Rightarrow> Some 0
    | c # cs \<Rightarrow>
        if c = CHR ''-'' \<or> c = CHR ''+'' then
          if cs \<noteq> [] \<and> list_all is_digit cs
          then Some (if c = CHR ''-'' then - int (read_nat cs) else int (read_nat cs))
          else None
        else if list_all is_digit (c # cs) then Some (int (read_nat (c # cs)))
        else None)"

lemma digit_char_props:
  assumes "d < 10"
  shows "is_digit (digit_char d)" and "digit_value (digit_char d) = d"
    and "\<not> is_space (digit_char d)"
    and "digit_char d \<noteq> CHR ''-''" and "digit_char d \<noteq> CHR ''+''"
    and "digit_char d \<noteq> CHR ''.''"
proof -
  have code: "of_char (digit_char d) = 48 + d"
    using assms by (simp add: digit_char_def)
  then show "is_digit (digit_char d)" and "digit_value (digit_char d) = d"
    and "\<not> is_space (digit_char d)"
    using assms by (simp_all add: is_digit_def digit_value_def is_space_def Let_def)
  have "c \<noteq> digit_char d" if "of_char c < (48 :: nat)" for c
    using that code by auto
  from this [of "CHR ''-''"] this [of "CHR ''+''"] this [of "CHR ''.''"]
  show "digit_char d \<noteq> CHR ''-''" and "digit_char d \<noteq> CHR ''+''"
    and "digit_char d \<noteq> CHR ''.''"
    by auto
qed

lemma show_nat_digits: "\<forall>c \<in> set (show_nat n). is_digit c"
proof (induction n rule: show_nat.induct)
  case (1 n)
  show ?case
  proof (cases "n < 10")
    case True
    then show ?thesis by (simp add: show_nat.simps [of n] digit_char_props)
  next
    case False
    with 1 show ?thesis by (simp add: show_nat.simps [of n] digit_char_props)
  qed
qed

lemma show_nat_nonempty [simp]: "show_nat n \<noteq> []"
  by (simp add: show_nat.simps [of n])

lemma read_nat_snoc [simp]: "read_nat (s @ [c]) = 10 * read_nat s + digit_value c"
  by (simp add: read_nat_def)

lemma read_show_nat [simp]: "read_nat (show_nat n) = n"
proof (induction n rule: show_nat.induct)
  case (1 n)
  show ?case
  proof (cases "n < 10")
    case True
    then show ?thesis by (simp add: show_nat.simps [of n] read_nat_def digit_char_props)
  next
    case False
    with 1 show ?thesis by (simp add: show_nat.simps [of n] digit_char_props)
  qed
qed

lemma is_digit_not_special:
  "is_digit c \<Longrightarrow> \<not> is_space c \<and> c \<noteq> CHR ''-'' \<and> c \<noteq> CHR ''+'' \<and> c \<noteq> CHR ''.''"
  by (auto simp: is_digit_def is_space_def Let_def)

lemma trim_no_space: "s = [] \<or> (\<not> is_space (hd s) \<and> \<not> is_space (last s)) \<Longrightarrow> trim s = s"
proof (cases "s = []")
  case False
  assume "s = [] \<or> (\<not> is_space (hd s) \<and> \<not> is_space (last s))"
  with False have "dropWhile is_space s = s" "dropWhile is_space (rev s) = rev s"
    by (simp_all add: dropWhile_eq_self_iff hd_rev)
  then show ?thesis by (simp add: trim_def)
qed (simp add: trim_def)

lemma show_nat_ends: "is_digit (hd (show_nat n))" "is_digit (last (show_nat n))"
  using show_nat_digits [of n] by (simp_all add: hd_in_set last_in_set)

lemma trim_show_int [simp]: "trim (show_int i) = show_int i"
proof -
  have "\<not> is_space (CHR ''-'')" by (simp add: is_space_def)
  moreover have "\<not> is_space (hd (show_nat n))" "\<not> is_space (last (show_nat n))" for n
    using show_nat_ends is_digit_not_special by blast+
  ultimately show ?thesis
    by (intro trim_no_space) (auto simp: show_int_def)
qed

lemma read_show_int [simp]: "read_int (show_int i) = Some i"
proof (cases "i < 0")
  case True
  have "list_all is_digit (show_nat (nat (- i)))"
    using show_nat_digits by (simp add: list_all_iff)
  with True show ?thesis
    by (simp add: read_int_def) (simp add: show_int_def)
next
  case False
  obtain c cs where s: "show_nat (nat i) = c # cs"
    by (cases "show_nat (nat i)") auto
  have d: "list_all is_digit (c # cs)"
    using show_nat_digits [of "nat i"] by (simp add: list_all_iff s)
  then have "c \<noteq> CHR ''-''" "c \<noteq> CHR ''+''" using is_digit_not_special by auto
  moreover have "read_nat (c # cs) = nat i" using read_show_nat [of "nat i"] by (simp add: s)
  ultimately show ?thesis using False d
    by (simp add: read_int_def) (simp add: show_int_def s)
qed

end
