(* ===== verification/Bonding_Curve.thy ===== *)
theory Bonding_Curve
  imports Js_Values "HOL-Library.Multiset"
begin

text \<open>
  The piecewise bonding curve of \<open>src/utils/bonding-curve.utils.ts\<close>: prices and integrals in
  stroops, exact integers (\<open>BigInt\<close>). A key has a list of milestones and a base exponent; the
  milestones cut the supply axis into bands with one exponent each.
  Optional arguments (\<open>milestones = []\<close>, \<open>baseExponent = 1\<close>) are explicit here.
\<close>

definition BASE_PRICE :: int where
  "BASE_PRICE = 1000000"

definition CURVE_K :: int where
  "CURVE_K = 100000"

record milestone =
  supplyThreshold :: int
  exponent :: int

section \<open>Validation of stored milestones\<close>

fun read_milestone :: "js_value \<Rightarrow> js_error + milestone" where
  "read_milestone (Jobj props) =
    (case (js_field ''supplyThreshold'' props, js_field ''exponent'' props) of
      (Jnum t, Jnum e) \<Rightarrow>
        if \<not> is_integer_num t \<or> num_to_int t < 0 then
          Inl (Error ''Invalid milestone supplyThreshold'')
        else if \<not> is_integer_num e \<or> num_to_int e < 0 then
          Inl (Error ''Invalid milestone exponent'')
        else Inr \<lparr>supplyThreshold = num_to_int t, exponent = num_to_int e\<rparr>
    | _ \<Rightarrow> Inl (Error ''Invalid milestone''))"
| "read_milestone (Jarr items) = Inl (Error ''Invalid milestone'')"
| "read_milestone _ = Inl (Error ''Invalid milestone'')"

fun read_milestones :: "js_value list \<Rightarrow> js_error + milestone list" where
  "read_milestones [] = Inr []"
| "read_milestones (item # items) =
    and_then (read_milestone item) (\<lambda>m.
      and_then (read_milestones items) (\<lambda>ms. Inr (m # ms)))"

text \<open>\<open>Array.sort\<close> is stable, as \<open>sort_key\<close> is.\<close>

definition validateMilestones :: "js_value \<Rightarrow> js_error + milestone list" where
  "validateMilestones raw =
    (case raw of
      Jarr items \<Rightarrow> and_then (read_milestones items) (\<lambda>ms. Inr (sort_key supplyThreshold ms))
    | _ \<Rightarrow> Inr [])"

section \<open>Spot price\<close>

fun getExponentForSupply :: "int \<Rightarrow> milestone list \<Rightarrow> int \<Rightarrow> int" where
  "getExponentForSupply supply [] baseExponent = baseExponent"
| "getExponentForSupply supply (m # ms) baseExponent =
    (if supply < supplyThreshold m then exponent m
     else getExponentForSupply supply ms baseExponent)"

text \<open>\<open>BigInt ** BigInt\<close> raises a \<open>RangeError\<close> for a negative exponent.\<close>

definition bigint_pow :: "int \<Rightarrow> int \<Rightarrow> js_error + int" where
  "bigint_pow a e = (if e < 0 then Inl RangeError else Inr (a ^ nat e))"

definition spotPrice :: "int \<Rightarrow> milestone list \<Rightarrow> int \<Rightarrow> js_error + int" where
  "spotPrice supply milestones baseExponent =
    (if supply \<le> 0 then Inr BASE_PRICE
     else
       let sorted = sort_key supplyThreshold milestones;
           e = getExponentForSupply supply sorted baseExponent
       in and_then (bigint_pow supply e) (\<lambda>v. Inr (BASE_PRICE + CURVE_K * v)))"

section \<open>Integral over a range of supplies\<close>

text \<open>A negative power and a division by zero are both \<open>RangeError\<close>s.\<close>

definition computeInterval :: "int \<Rightarrow> int \<Rightarrow> int \<Rightarrow> js_error + int" where
  "computeInterval s0 s1 e =
    (if s1 \<le> s0 then Inr 0
     else
       let p = e + 1; basePart = BASE_PRICE * (s1 - s0)
       in and_then (bigint_pow s1 p) (\<lambda>hi.
          and_then (bigint_pow s0 p) (\<lambda>lo.
            if p = 0 then Inl RangeError
            else Inr (basePart + bigint_div (CURVE_K * (hi - lo)) p))))"

record band =
  band_lo :: int
  band_hi :: int
  band_exponent :: int

fun build_bands :: "int \<Rightarrow> milestone list \<Rightarrow> int \<Rightarrow> band list" where
  "build_bands bandStart [] baseExponent =
    [\<lparr>band_lo = bandStart, band_hi = MAX_SAFE_INTEGER, band_exponent = baseExponent\<rparr>]"
| "build_bands bandStart (m # ms) baseExponent =
    (if supplyThreshold m > bandStart
     then [\<lparr>band_lo = bandStart, band_hi = supplyThreshold m, band_exponent = exponent m\<rparr>]
     else []) @ build_bands (supplyThreshold m) ms baseExponent"

text \<open>The loop over the bands, with its early exit once a band reaches \<open>b\<close>.\<close>

fun sum_bands :: "int \<Rightarrow> int \<Rightarrow> band list \<Rightarrow> int \<Rightarrow> js_error + int" where
  "sum_bands a b [] acc = Inr acc"
| "sum_bands a b (bd # bds) acc =
    (let lo = max a (band_lo bd); hi = min b (band_hi bd)
     in and_then (if lo < hi then computeInterval lo hi (band_exponent bd) else Inr 0) (\<lambda>v.
          if band_hi bd \<ge> b then Inr (acc + v) else sum_bands a b bds (acc + v)))"

definition cost :: "int \<Rightarrow> int \<Rightarrow> milestone list \<Rightarrow> int \<Rightarrow> js_error + int" where
  "cost a b milestones baseExponent =
    (if b \<le> a then Inr 0
     else sum_bands a b (build_bands 0 (sort_key supplyThreshold milestones) baseExponent) 0)"

definition buyCost :: "int \<Rightarrow> int \<Rightarrow> milestone list \<Rightarrow> int \<Rightarrow> js_error + int" where
  "buyCost supply qty milestones baseExponent =
    (if qty \<le> 0 then Inr 0 else cost supply (supply + qty) milestones baseExponent)"

definition sellProceeds :: "int \<Rightarrow> int \<Rightarrow> milestone list \<Rightarrow> int \<Rightarrow> js_error + int" where
  "sellProceeds supply qty milestones baseExponent =
    (if qty \<le> 0 then Inr 0 else cost (supply - qty) supply milestones baseExponent)"

section \<open>Well-formed curves\<close>

definition wf_milestones :: "milestone list \<Rightarrow> bool" where
  "wf_milestones ms \<longleftrightarrow> (\<forall>m \<in> set ms. 0 \<le> supplyThreshold m \<and> 0 \<le> exponent m)"

lemma read_milestone_wf:
  "read_milestone v = Inr m \<Longrightarrow> 0 \<le> supplyThreshold m \<and> 0 \<le> exponent m"
  by (cases v) (auto split: js_value.splits if_splits)

lemma read_milestones_wf: "read_milestones vs = Inr ms \<Longrightarrow> wf_milestones ms"
  by (induction vs arbitrary: ms) (auto simp: wf_milestones_def dest: read_milestone_wf)

lemma read_milestones_map:
  "read_milestones vs = Inr ms \<longleftrightarrow> map read_milestone vs = map Inr ms"
  by (induction vs arbitrary: ms) (auto simp: Cons_eq_map_conv)

lemma wf_milestones_sort [simp]: "wf_milestones (sort_key f ms) = wf_milestones ms"
  by (simp add: wf_milestones_def)

section \<open>The integral without the early exit\<close>

text \<open>The stroops one band contributes to \<open>[a, b)\<close>, and their sum.\<close>

definition interval_area :: "int \<Rightarrow> int \<Rightarrow> int \<Rightarrow> int" where
  "interval_area lo hi e =
    BASE_PRICE * (hi - lo) + (CURVE_K * (hi ^ nat (e + 1) - lo ^ nat (e + 1))) div (e + 1)"

definition band_area :: "int \<Rightarrow> int \<Rightarrow> band \<Rightarrow> int" where
  "band_area a b bd =
    (let lo = max a (band_lo bd); hi = min b (band_hi bd)
     in if lo < hi then interval_area lo hi (band_exponent bd) else 0)"

definition bands_area :: "int \<Rightarrow> int \<Rightarrow> band list \<Rightarrow> int" where
  "bands_area a b bds = sum_list (map (band_area a b) bds)"

lemma bands_area_Cons: "bands_area a b (bd # bds) = band_area a b bd + bands_area a b bds"
  by (simp add: bands_area_def)

fun bands_from :: "int \<Rightarrow> band list \<Rightarrow> bool" where
  "bands_from s [] = True"
| "bands_from s (bd # bds) =
    (s \<le> band_lo bd \<and> 0 \<le> band_exponent bd \<and> bands_from (max (band_lo bd) (band_hi bd)) bds)"

lemma bands_from_mono: "bands_from s bds \<Longrightarrow> s' \<le> s \<Longrightarrow> bands_from s' bds"
  by (cases bds) auto

lemma build_bands_from:
  assumes "sorted (map supplyThreshold ms)" "wf_milestones ms" "0 \<le> base"
    and "\<forall>m \<in> set ms. s \<le> supplyThreshold m"
  shows "bands_from s (build_bands s ms base)"
  using assms
proof (induction ms arbitrary: s)
  case Nil
  then show ?case by simp
next
  case (Cons m ms)
  then have "bands_from (supplyThreshold m) (build_bands (supplyThreshold m) ms base)"
    by (simp add: wf_milestones_def)
  then show ?case using Cons.prems
    by (auto simp: wf_milestones_def intro: bands_from_mono)
qed

lemma computeInterval_area:
  assumes "0 \<le> s0" "s0 < s1" "0 \<le> e"
  shows "computeInterval s0 s1 e = Inr (interval_area s0 s1 e)"
proof -
  have "s0 ^ nat (e + 1) \<le> s1 ^ nat (e + 1)"
    using assms by (intro power_mono) auto
  then show ?thesis using assms
    by (simp add: computeInterval_def interval_area_def bigint_pow_def Let_def bigint_div_nonneg
        CURVE_K_def)
qed

lemma bands_area_beyond: "bands_from s bds \<Longrightarrow> b \<le> s \<Longrightarrow> bands_area a b bds = 0"
  by (induction bds arbitrary: s) (auto simp: bands_area_def band_area_def Let_def)

lemma sum_bands_area:
  assumes "bands_from s bds" "0 \<le> s" "0 \<le> a"
  shows "sum_bands a b bds acc = Inr (acc + bands_area a b bds)"
  using assms
proof (induction bds arbitrary: s acc)
  case Nil
  then show ?case by (simp add: bands_area_def)
next
  case (Cons bd bds)
  have step: "(if max a (band_lo bd) < min b (band_hi bd)
      then computeInterval (max a (band_lo bd)) (min b (band_hi bd)) (band_exponent bd)
      else Inr 0) = Inr (band_area a b bd)"
    using Cons.prems by (simp add: band_area_def Let_def computeInterval_area)
  have rest: "bands_from (max (band_lo bd) (band_hi bd)) bds"
    using Cons.prems by simp
  show ?case
  proof (cases "b \<le> band_hi bd")
    case True
    then have "bands_area a b bds = 0"
      using bands_area_beyond [OF rest, of b a] by simp
    with True show ?thesis
      by (simp only: sum_bands.simps Let_def step and_then.simps) (simp add: bands_area_def)
  next
    case False
    have "0 \<le> max (band_lo bd) (band_hi bd)" using Cons.prems by auto
    then have "sum_bands a b bds (acc + band_area a b bd) =
        Inr (acc + band_area a b bd + bands_area a b bds)"
      using Cons.IH [OF rest] Cons.prems by simp
    with False show ?thesis
      by (simp only: sum_bands.simps Let_def step and_then.simps)
        (simp add: bands_area_def add.assoc)
  qed
qed

text \<open>The bands of a curve.\<close>

definition curve_bands :: "milestone list \<Rightarrow> int \<Rightarrow> band list" where
  "curve_bands ms base = build_bands 0 (sort_key supplyThreshold ms) base"

lemma curve_bands_from: "wf_milestones ms \<Longrightarrow> 0 \<le> base \<Longrightarrow> bands_from 0 (curve_bands ms base)"
  unfolding curve_bands_def
  by (rule build_bands_from) (auto simp: wf_milestones_def)

lemma cost_area:
  assumes "wf_milestones ms" "0 \<le> base" "0 \<le> a" "a \<le> b"
  shows "cost a b ms base = Inr (bands_area a b (curve_bands ms base))"
proof (cases "a = b")
  case True
  have "bands_area b b bds = 0" for bds
    by (induction bds) (auto simp: bands_area_def band_area_def Let_def)
  with True show ?thesis by (simp add: cost_def)
next
  case False
  with assms have "\<not> b \<le> a" by simp
  then show ?thesis
    using sum_bands_area [OF curve_bands_from [OF assms(1,2)], of a b 0] assms(3)
    by (simp add: cost_def curve_bands_def)
qed

section \<open>Splitting a range\<close>

lemma interval_area_split:
  assumes "0 \<le> e"
  shows "interval_area x y e + interval_area y z e \<le> interval_area x z e"
    and "interval_area x z e \<le> interval_area x y e + interval_area y z e + 1"
proof -
  define f where "f v = CURVE_K * v ^ nat (e + 1)" for v
  have p: "0 < e + 1" using assms by simp
  have sum: "CURVE_K * (z ^ nat (e + 1) - x ^ nat (e + 1)) = (f y - f x) + (f z - f y)"
    and xy: "CURVE_K * (y ^ nat (e + 1) - x ^ nat (e + 1)) = f y - f x"
    and yz: "CURVE_K * (z ^ nat (e + 1) - y ^ nat (e + 1)) = f z - f y"
    by (simp_all add: f_def algebra_simps)
  note split = div_add_split [OF p, of "f y - f x" "f z - f y"]
  have base: "BASE_PRICE * (z - x) = BASE_PRICE * (y - x) + BASE_PRICE * (z - y)"
    by (simp add: algebra_simps)
  show "interval_area x y e + interval_area y z e \<le> interval_area x z e"
    and "interval_area x z e \<le> interval_area x y e + interval_area y z e + 1"
    unfolding interval_area_def sum xy yz base using split by linarith+
qed

lemma band_area_split_outside:
  assumes "a \<le> b" "b \<le> c" "b \<le> band_lo bd \<or> band_hi bd \<le> b"
  shows "band_area a c bd = band_area a b bd + band_area b c bd"
  using assms by (auto simp: band_area_def Let_def max_def min_def)

lemma band_area_split:
  assumes "a \<le> b" "b \<le> c" "0 \<le> band_exponent bd"
  shows "band_area a b bd + band_area b c bd \<le> band_area a c bd"
    and "band_area a c bd \<le> band_area a b bd + band_area b c bd + 1"
proof -
  have "band_area a b bd + band_area b c bd \<le> band_area a c bd \<and>
      band_area a c bd \<le> band_area a b bd + band_area b c bd + 1"
  proof (cases "band_lo bd < b \<and> b < band_hi bd \<and> a < b \<and> b < c")
    case False
    then have "band_area a c bd = band_area a b bd + band_area b c bd"
      using assms band_area_split_outside [of a b c bd]
      by (auto simp: band_area_def Let_def not_less)
    then show ?thesis by simp
  next
    case True
    then show ?thesis
      using interval_area_split [OF assms(3),
          where x = "max a (band_lo bd)" and y = b and z = "min c (band_hi bd)"]
      by (auto simp: band_area_def Let_def)
  qed
  then show "band_area a b bd + band_area b c bd \<le> band_area a c bd"
    and "band_area a c bd \<le> band_area a b bd + band_area b c bd + 1"
    by simp_all
qed

lemma bands_area_split_outside:
  assumes "bands_from s bds" "a \<le> b" "b \<le> c" "b \<le> s"
  shows "bands_area a c bds = bands_area a b bds + bands_area b c bds"
  using assms
proof (induction bds arbitrary: s)
  case (Cons bd bds)
  then have "bands_area a c bds = bands_area a b bds + bands_area b c bds"
    by (intro Cons.IH [of "max (band_lo bd) (band_hi bd)"]) auto
  with Cons.prems show ?case
    using band_area_split_outside [of a b c bd] by (simp add: bands_area_def)
qed (simp add: bands_area_def)

lemma bands_area_split:
  assumes "bands_from s bds" "a \<le> b" "b \<le> c"
  shows "bands_area a b bds + bands_area b c bds \<le> bands_area a c bds \<and>
    bands_area a c bds \<le> bands_area a b bds + bands_area b c bds + 1"
  using assms
proof (induction bds arbitrary: s)
  case (Cons bd bds)
  have rest: "bands_from (max (band_lo bd) (band_hi bd)) bds" using Cons.prems by simp
  have e: "0 \<le> band_exponent bd" using Cons.prems by simp
  show ?case
  proof (cases "b < band_hi bd")
    case True
    then have "bands_area a c bds = bands_area a b bds + bands_area b c bds"
      using bands_area_split_outside [OF rest Cons.prems(2,3)] by simp
    then show ?thesis
      using band_area_split [OF Cons.prems(2,3) e] by (simp add: bands_area_def)
  next
    case False
    then have "band_area a c bd = band_area a b bd + band_area b c bd"
      using band_area_split_outside [OF Cons.prems(2,3)] by (simp add: not_less)
    with Cons.IH [OF rest Cons.prems(2,3)] show ?thesis
      unfolding bands_area_Cons by linarith
  qed
qed (simp add: bands_area_def)

text \<open>C7: Buying a quantity in two orders costs the same as buying it in one, up to a single stroop
  lost to the truncating division: \<open>x + y \<le> z \<le> x + y + 1\<close>. All three calls succeed.\<close>

theorem buyCost_split:
  assumes "wf_milestones ms" "0 \<le> base" "0 \<le> s0" "0 \<le> q1" "0 \<le> q2"
  shows "\<exists>x y z. buyCost s0 q1 ms base = Inr x \<and>
    buyCost (s0 + q1) q2 ms base = Inr y \<and>
    buyCost s0 (q1 + q2) ms base = Inr z \<and> x + y \<le> z \<and> z \<le> x + y + 1"
proof -
  let ?A = "\<lambda>a b. bands_area a b (curve_bands ms base)"
  have buy: "buyCost s q ms base = Inr (?A s (s + q))" if "0 \<le> s" "0 \<le> q" for s q
    using cost_area [OF assms(1,2), of s "s + q"] that
    by (cases "q = 0") (auto simp: buyCost_def cost_def)
  have "?A s0 (s0 + q1) + ?A (s0 + q1) (s0 + q1 + q2) \<le> ?A s0 (s0 + q1 + q2) \<and>
      ?A s0 (s0 + q1 + q2) \<le> ?A s0 (s0 + q1) + ?A (s0 + q1) (s0 + q1 + q2) + 1"
    using bands_area_split [OF curve_bands_from [OF assms(1,2)]] assms by simp
  then show ?thesis using assms by (simp add: buy add.assoc)
qed

theorem buyCost_split_witness:
  "\<exists>x y z. buyCost 0 2 [\<lparr>supplyThreshold = 3, exponent = 2\<rparr>] 1 = Inr x \<and>
    buyCost (0 + 2) 4 [\<lparr>supplyThreshold = 3, exponent = 2\<rparr>] 1 = Inr y \<and>
    buyCost 0 (2 + 4) [\<lparr>supplyThreshold = 3, exponent = 2\<rparr>] 1 = Inr z \<and> x + y \<le> z \<and> z \<le> x + y + 1"
  by (rule buyCost_split) (simp_all add: wf_milestones_def)

section \<open>Lower bounds\<close>

lemma interval_area_ge:
  assumes "0 \<le> lo" "lo \<le> hi" "0 \<le> e"
  shows "BASE_PRICE * (hi - lo) \<le> interval_area lo hi e"
proof -
  have "lo ^ nat (e + 1) \<le> hi ^ nat (e + 1)" using assms by (intro power_mono) auto
  then have "0 \<le> CURVE_K * (hi ^ nat (e + 1) - lo ^ nat (e + 1))" by (simp add: CURVE_K_def)
  then have "0 \<le> CURVE_K * (hi ^ nat (e + 1) - lo ^ nat (e + 1)) div (e + 1)"
    using assms by (simp add: pos_imp_zdiv_nonneg_iff)
  then show ?thesis by (simp add: interval_area_def)
qed

lemma bands_area_raise:
  "bands_from s bds \<Longrightarrow> a \<le> s \<Longrightarrow> bands_area a b bds = bands_area s b bds"
proof (induction bds arbitrary: s)
  case (Cons bd bds)
  have rest: "bands_from (max (band_lo bd) (band_hi bd)) bds" using Cons.prems by simp
  let ?m = "max (band_lo bd) (band_hi bd)"
  have "a \<le> ?m" "s \<le> ?m" "bands_from s bds"
    using Cons.prems bands_from_mono [OF rest, of s] by auto
  then have "bands_area a b bds = bands_area s b bds" using Cons.IH Cons.prems by blast
  then show ?case using Cons.prems by (simp add: bands_area_def band_area_def)
qed (simp add: bands_area_def)

lemma build_bands_area_ge:
  assumes "sorted (map supplyThreshold ms)" "wf_milestones ms" "0 \<le> base"
    and "\<forall>m \<in> set ms. s \<le> supplyThreshold m"
    and "0 \<le> s" "s \<le> a" "a \<le> b" "b \<le> MAX_SAFE_INTEGER"
  shows "BASE_PRICE * (b - a) \<le> bands_area a b (build_bands s ms base)"
  using assms
proof (induction ms arbitrary: s a)
  case Nil
  then show ?case using interval_area_ge [of a b base]
    by (auto simp: bands_area_def band_area_def Let_def)
next
  case (Cons m ms)
  let ?t = "supplyThreshold m" and ?rest = "build_bands (supplyThreshold m) ms base"
  have st: "s \<le> ?t" "0 \<le> ?t" "0 \<le> exponent m"
    and IH: "\<And>a. ?t \<le> a \<Longrightarrow> a \<le> b \<Longrightarrow> BASE_PRICE * (b - a) \<le> bands_area a b ?rest"
    using Cons.prems Cons.IH [of ?t] by (auto simp: wf_milestones_def)
  have from_t: "bands_from ?t ?rest"
    by (rule build_bands_from) (use Cons.prems in \<open>auto simp: wf_milestones_def\<close>)
  show ?case
  proof (cases "a < ?t")
    case False
    then show ?thesis using IH [of a] Cons.prems
      by (auto simp: bands_area_def band_area_def Let_def)
  next
    case True
    let ?bd = "\<lparr>band_lo = s, band_hi = ?t, band_exponent = exponent m\<rparr>"
    have area: "bands_area a b (build_bands s (m # ms) base) = band_area a b ?bd + bands_area ?t b ?rest"
      using True Cons.prems bands_area_raise [OF from_t, of a b] by (simp add: bands_area_def)
    show ?thesis
    proof (cases "b \<le> ?t")
      case True
      then show ?thesis
        using area bands_area_beyond [OF from_t, of b] interval_area_ge [of a b "exponent m"] Cons.prems st
        by (auto simp: band_area_def Let_def)
    next
      case False
      then have "BASE_PRICE * (b - ?t) \<le> bands_area ?t b ?rest" using IH [of ?t] by simp
      moreover have "BASE_PRICE * (?t - a) \<le> band_area a b ?bd"
        using interval_area_ge [of a ?t "exponent m"] \<open>a < ?t\<close> False Cons.prems st
        by (auto simp: band_area_def Let_def)
      ultimately show ?thesis using area by (simp add: algebra_simps)
    qed
  qed
qed

text \<open>Every key costs at least the base price: an order of \<open>q\<close> keys that stays within the safe
  integers succeeds and costs \<open>q * BASE_PRICE\<close> stroops or more, whatever the bands.\<close>

theorem buyCost_at_least_base:
  assumes "wf_milestones ms" "0 \<le> base" "0 \<le> s0" "0 \<le> q" "s0 + q \<le> MAX_SAFE_INTEGER"
  shows "\<exists>c. buyCost s0 q ms base = Inr c \<and> q * BASE_PRICE \<le> c"
proof -
  have "BASE_PRICE * q \<le> bands_area s0 (s0 + q) (curve_bands ms base)"
    using build_bands_area_ge [of "sort_key supplyThreshold ms" base 0 s0 "s0 + q"] assms
    by (simp add: curve_bands_def wf_milestones_def)
  then show ?thesis
    using cost_area [OF assms(1,2), of s0 "s0 + q"] assms
    by (auto simp: buyCost_def mult.commute)
qed

theorem buyCost_at_least_base_witness:
  "\<exists>c. buyCost 5 10 [\<lparr>supplyThreshold = 8, exponent = 1\<rparr>] 2 = Inr c \<and> 10 * BASE_PRICE \<le> c"
  by (rule buyCost_at_least_base) (simp_all add: wf_milestones_def MAX_SAFE_INTEGER_def)

section \<open>The integral against the spot price\<close>

lemma power_step_ge: "0 \<le> s \<Longrightarrow> int (Suc n) * s ^ n \<le> (s + 1) ^ Suc n - s ^ Suc n" for s :: int
proof (induction n)
  case (Suc n)
  have "(s + 1) * (s ^ Suc n + int (Suc n) * s ^ n) \<le> (s + 1) * (s + 1) ^ Suc n"
    using Suc by (intro mult_left_mono) auto
  moreover have "0 \<le> int (Suc n) * s ^ n" using Suc.prems by simp
  ultimately show ?case by (simp add: algebra_simps)
qed simp

lemma power_step_le: "0 \<le> s \<Longrightarrow> (s + 1) ^ Suc n - s ^ Suc n \<le> int (Suc n) * (s + 1) ^ n" for s :: int
proof (induction n)
  case (Suc n)
  have "s * ((s + 1) ^ Suc n - s ^ Suc n) \<le> s * (int (Suc n) * (s + 1) ^ n)"
    using Suc by (intro mult_left_mono) auto
  moreover have "0 \<le> int (Suc n) * (s + 1) ^ n" using Suc.prems by simp
  ultimately show ?case by (simp add: algebra_simps)
qed simp

lemma unit_interval_area:
  assumes "0 \<le> s" "0 \<le> e"
  shows "BASE_PRICE + CURVE_K * s ^ nat e \<le> interval_area s (s + 1) e"
    and "interval_area s (s + 1) e \<le> BASE_PRICE + CURVE_K * (s + 1) ^ nat e"
proof -
  let ?d = "(s + 1) ^ Suc (nat e) - s ^ Suc (nat e)"
  have p: "nat (e + 1) = Suc (nat e)" "e + 1 = int (Suc (nat e))" "0 < e + 1"
    using assms by auto
  have "CURVE_K * (int (Suc (nat e)) * s ^ nat e) \<le> CURVE_K * ?d"
    by (intro mult_left_mono power_step_ge assms) (simp add: CURVE_K_def)
  then have "(e + 1) * (CURVE_K * s ^ nat e) \<le> CURVE_K * ?d"
    unfolding p(2) by (simp only: ac_simps)
  then have "(e + 1) * (CURVE_K * s ^ nat e) div (e + 1) \<le> CURVE_K * ?d div (e + 1)"
    using p(3) by (intro zdiv_mono1) auto
  then show "BASE_PRICE + CURVE_K * s ^ nat e \<le> interval_area s (s + 1) e"
    using p(3) by (simp only: interval_area_def p(1)) simp
  have "CURVE_K * ?d \<le> CURVE_K * (int (Suc (nat e)) * (s + 1) ^ nat e)"
    by (intro mult_left_mono power_step_le assms) (simp add: CURVE_K_def)
  then have "CURVE_K * ?d \<le> (e + 1) * (CURVE_K * (s + 1) ^ nat e)"
    unfolding p(2) by (simp only: ac_simps)
  then have "CURVE_K * ?d div (e + 1) \<le> (e + 1) * (CURVE_K * (s + 1) ^ nat e) div (e + 1)"
    using p(3) by (intro zdiv_mono1) auto
  then show "interval_area s (s + 1) e \<le> BASE_PRICE + CURVE_K * (s + 1) ^ nat e"
    using p(3) by (simp only: interval_area_def p(1)) simp
qed

lemma unit_bands_area:
  assumes "sorted (map supplyThreshold ms)" "wf_milestones ms" "0 \<le> base"
    and "\<forall>m \<in> set ms. t \<le> supplyThreshold m" "0 \<le> t" "t \<le> s" "s < MAX_SAFE_INTEGER"
  shows "bands_area s (s + 1) (build_bands t ms base) =
    interval_area s (s + 1) (getExponentForSupply s ms base)"
  using assms
proof (induction ms arbitrary: t)
  case Nil
  then show ?case by (auto simp: bands_area_def band_area_def Let_def)
next
  case (Cons m ms)
  let ?t = "supplyThreshold m" and ?rest = "build_bands (supplyThreshold m) ms base"
  show ?case
  proof (cases "s < ?t")
    case True
    have "bands_from ?t ?rest"
      by (rule build_bands_from) (use Cons.prems in \<open>auto simp: wf_milestones_def\<close>)
    then have "bands_area s (s + 1) ?rest = 0" using True by (intro bands_area_beyond) auto
    with True Cons.prems show ?thesis by (auto simp: bands_area_def band_area_def Let_def)
  next
    case False
    then have "bands_area s (s + 1) ?rest = interval_area s (s + 1) (getExponentForSupply s ms base)"
      using Cons.prems by (intro Cons.IH) (auto simp: wf_milestones_def)
    with False Cons.prems show ?thesis by (auto simp: bands_area_def band_area_def Let_def)
  qed
qed

lemma getExponentForSupply_nonneg:
  "wf_milestones ms \<Longrightarrow> 0 \<le> base \<Longrightarrow> 0 \<le> getExponentForSupply s ms base"
  by (induction ms) (auto simp: wf_milestones_def)

lemma sorted_wf_sort:
  "wf_milestones ms \<Longrightarrow> \<forall>m \<in> set (sort_key supplyThreshold ms). 0 \<le> supplyThreshold m"
  by (auto simp: wf_milestones_def)

text \<open>The two lookups of the curve agree: the price of the next single key, computed through the
  clipped bands, lies between the spot price at the current supply and, while no milestone is
  crossed, the spot price one key later.\<close>

theorem unit_cost_between_spot_prices:
  assumes "wf_milestones ms" "0 \<le> base" "0 < s" "s < MAX_SAFE_INTEGER"
    and "spotPrice s ms base = Inr p"
  shows "\<exists>c. buyCost s 1 ms base = Inr c \<and> p \<le> c \<and>
    (getExponentForSupply (s + 1) (sort_key supplyThreshold ms) base =
       getExponentForSupply s (sort_key supplyThreshold ms) base \<longrightarrow>
     (\<exists>p'. spotPrice (s + 1) ms base = Inr p' \<and> c \<le> p'))"
proof -
  let ?e = "getExponentForSupply s (sort_key supplyThreshold ms) base"
  have e: "0 \<le> ?e" using assms by (intro getExponentForSupply_nonneg) auto
  have "cost s (s + 1) ms base = Inr (interval_area s (s + 1) ?e)"
    using cost_area [OF assms(1,2), of s "s + 1"] assms
      unit_bands_area [of "sort_key supplyThreshold ms" base 0 s] sorted_wf_sort [OF assms(1)]
    by (simp add: curve_bands_def)
  moreover have "p = BASE_PRICE + CURVE_K * s ^ nat ?e"
    using assms e by (auto simp: spotPrice_def Let_def bigint_pow_def)
  ultimately show ?thesis
    using unit_interval_area [of s ?e] e assms
    by (auto simp: buyCost_def spotPrice_def Let_def bigint_pow_def)
qed

theorem unit_cost_between_spot_prices_witness:
  "\<exists>c. buyCost 4 1 [\<lparr>supplyThreshold = 9, exponent = 2\<rparr>] 1 = Inr c \<and> 2600000 \<le> c \<and>
    (getExponentForSupply (4 + 1) (sort_key supplyThreshold [\<lparr>supplyThreshold = 9, exponent = 2\<rparr>]) 1 =
       getExponentForSupply 4 (sort_key supplyThreshold [\<lparr>supplyThreshold = 9, exponent = 2\<rparr>]) 1 \<longrightarrow>
     (\<exists>p'. spotPrice (4 + 1) [\<lparr>supplyThreshold = 9, exponent = 2\<rparr>] 1 = Inr p' \<and> c \<le> p'))"
  by (rule unit_cost_between_spot_prices)
    (simp_all add: wf_milestones_def MAX_SAFE_INTEGER_def spotPrice_def bigint_pow_def
      BASE_PRICE_def CURVE_K_def)

section \<open>Validation\<close>

text \<open>C22: \<open>validateMilestones\<close> on a stored array either throws because some item is malformed, or
  returns the array's milestones, none lost or added, sorted and well-formed, on which a purchase
  never throws.\<close>

theorem validateMilestones_correct:
  "(is_ok (validateMilestones (Jarr items)) \<longleftrightarrow> list_all (\<lambda>v. is_ok (read_milestone v)) items) \<and>
   (\<forall>ms. validateMilestones (Jarr items) = Inr ms \<longrightarrow>
     sorted (map supplyThreshold ms) \<and> wf_milestones ms \<and>
     mset (map Inr ms) = mset (map read_milestone items) \<and>
     (\<forall>base s0 q. 0 \<le> base \<and> 0 \<le> s0 \<longrightarrow> is_ok (buyCost s0 q ms base)))"
proof (intro conjI allI impI)
  have ok: "is_ok (read_milestones vs) \<longleftrightarrow> list_all (\<lambda>v. is_ok (read_milestone v)) vs" for vs
    by (induction vs) (auto simp: is_ok_iff)
  then show "is_ok (validateMilestones (Jarr items)) \<longleftrightarrow> list_all (\<lambda>v. is_ok (read_milestone v)) items"
    by (simp add: validateMilestones_def is_ok_iff flip: ok)
next
  fix ms assume "validateMilestones (Jarr items) = Inr ms"
  then obtain xs where xs: "read_milestones items = Inr xs" "ms = sort_key supplyThreshold xs"
    by (auto simp: validateMilestones_def)
  then show "sorted (map supplyThreshold ms)" by simp
  show wf: "wf_milestones ms" using xs by (simp add: read_milestones_wf)
  have "mset (map Inr ms) = mset (map Inr xs)" by (simp add: xs)
  then show "mset (map Inr ms) = mset (map read_milestone items)"
    using xs(1) unfolding read_milestones_map by simp
  fix base s0 q :: int assume "0 \<le> base \<and> 0 \<le> s0"
  then show "is_ok (buyCost s0 q ms base)"
    using cost_area [OF wf, of base s0 "s0 + q"] by (auto simp: buyCost_def)
qed

theorem validateMilestones_correct_witness:
  "validateMilestones (Jarr [Jobj [(''supplyThreshold'', Jnum (Fin 9)), (''exponent'', Jnum (Fin 2))]]) =
     Inr [\<lparr>supplyThreshold = 9, exponent = 2\<rparr>] \<and>
   is_ok (buyCost 4 1 [\<lparr>supplyThreshold = 9, exponent = 2\<rparr>] 1)"
proof -
  have v: "validateMilestones (Jarr [Jobj [(''supplyThreshold'', Jnum (Fin 9)), (''exponent'', Jnum (Fin 2))]]) =
     Inr [\<lparr>supplyThreshold = 9, exponent = 2\<rparr>]"
    by (simp add: validateMilestones_def js_field_def)
  have "(0::int) \<le> 1 \<and> (0::int) \<le> 4" by simp
  with v show ?thesis
    using validateMilestones_correct
      [of "[Jobj [(''supplyThreshold'', Jnum (Fin 9)), (''exponent'', Jnum (Fin 2))]]"] by blast
qed

end
