(* ===== verification/Js_Double.thy ===== *)
theory Js_Double
  imports Js_Values "HOL-Library.Log_Nat"
begin

text \<open>
  The rounding of JavaScript's \<open>number\<close> arithmetic: an operation on doubles returns the exact
  rational result rounded to 53 significant bits, ties to even (\<open>fl\<close>). Overflow to infinity and
  subnormal results (magnitudes above \<open>2^1024\<close> or below \<open>2^-1022\<close>) are outside the model: no
  quantity of the program comes near them.
\<close>

definition round_even :: "rat \<Rightarrow> int" where
  "round_even x =
    (let f = \<lfloor>x\<rfloor>; r = x - of_int f
     in if r < 1 / 2 \<or> (r = 1 / 2 \<and> even f) then f else f + 1)"

text \<open>The exponent of a positive rational: \<open>2 powi ilog2 x \<le> x < 2 powi (ilog2 x + 1)\<close>.\<close>

definition ilog2 :: "rat \<Rightarrow> int" where
  "ilog2 x =
    (let (n, d) = quotient_of x;
         k = int (floorlog 2 (nat n)) - int (floorlog 2 (nat d))
     in if 2 powi k \<le> x then k else k - 1)"

definition fl :: "rat \<Rightarrow> rat" where
  "fl x =
    (if x = 0 then 0
     else let u = 2 powi (ilog2 \<bar>x\<bar> - 52) in sgn x * (of_int (round_even (\<bar>x\<bar> / u)) * u))"

text \<open>\<open>Math.round\<close>: to the nearest integer, halves upwards.\<close>

definition js_round :: "rat \<Rightarrow> int" where
  "js_round x = \<lfloor>x + 1 / 2\<rfloor>"

lemma round_even_bounds: "\<lfloor>x\<rfloor> \<le> round_even x" "round_even x \<le> \<lfloor>x\<rfloor> + 1"
  by (auto simp: round_even_def Let_def)

lemma round_even_of_int [simp]: "round_even (of_int i) = i"
  by (simp add: round_even_def)

lemma round_even_mono: "x \<le> y \<Longrightarrow> round_even x \<le> round_even y"
proof -
  assume le: "x \<le> y"
  then have fle: "\<lfloor>x\<rfloor> \<le> \<lfloor>y\<rfloor>" by (rule floor_mono)
  show ?thesis
  proof (cases "\<lfloor>x\<rfloor> = \<lfloor>y\<rfloor>")
    case True
    with le show ?thesis by (auto simp: round_even_def Let_def)
  next
    case False
    with fle have "\<lfloor>x\<rfloor> + 1 \<le> \<lfloor>y\<rfloor>" by simp
    then show ?thesis using round_even_bounds [of x] round_even_bounds [of y] by linarith
  qed
qed

lemma powi2_pos [simp]: "0 < (2::rat) powi k"
  by (simp add: zero_less_power_int)

lemma powi2_mono: "j \<le> k \<Longrightarrow> (2::rat) powi j \<le> 2 powi k"
  by (rule power_int_increasing) auto

lemma powi2_add: "(2::rat) powi j * 2 powi k = 2 powi (j + k)"
  by (simp add: power_int_add)

lemma ilog2_bounds:
  assumes "0 < x"
  shows "2 powi ilog2 x \<le> x" and "x < 2 powi (ilog2 x + 1)"
proof -
  obtain n d where q: "quotient_of x = (n, d)" by fastforce
  have d: "0 < d" using quotient_of_denom_pos [OF q] .
  have x: "x = of_int n / of_int d" using quotient_of_div [OF q] .
  then have n: "0 < n" using assms d by (simp add: zero_less_divide_iff)
  let ?a = "floorlog 2 (nat n)" and ?b = "floorlog 2 (nat d)"
  let ?k = "int ?a - int ?b"
  have na: "2 ^ (?a - 1) \<le> nat n \<and> nat n < 2 ^ ?a" and ap: "1 \<le> ?a"
    using floorlog_bounds [of "nat n" 2] n by (auto simp: floorlog_def)
  have nb: "2 ^ (?b - 1) \<le> nat d \<and> nat d < 2 ^ ?b" and bp: "1 \<le> ?b"
    using floorlog_bounds [of "nat d" 2] d by (auto simp: floorlog_def)
  have r: "(2::rat) ^ (m) = 2 powi int m" for m by simp
  have na': "(2::rat) powi (int ?a - 1) \<le> of_int n" "(of_int n :: rat) < 2 powi int ?a"
  proof -
    have "(of_nat (2 ^ (?a - 1)) :: rat) \<le> of_nat (nat n)" using na by (intro of_nat_mono) simp
    then show "(2::rat) powi (int ?a - 1) \<le> of_int n" using n ap
      by (simp add: r of_nat_diff)
    have "(of_nat (nat n) :: rat) < of_nat (2 ^ ?a)" using na by (simp only: of_nat_less_iff)
    then show "(of_int n :: rat) < 2 powi int ?a" using n by simp
  qed
  have nb': "(2::rat) powi (int ?b - 1) \<le> of_int d" "(of_int d :: rat) < 2 powi int ?b"
  proof -
    have "(of_nat (2 ^ (?b - 1)) :: rat) \<le> of_nat (nat d)" using nb by (intro of_nat_mono) simp
    then show "(2::rat) powi (int ?b - 1) \<le> of_int d" using d bp
      by (simp add: r of_nat_diff)
    have "(of_nat (nat d) :: rat) < of_nat (2 ^ ?b)" using nb by (simp only: of_nat_less_iff)
    then show "(of_int d :: rat) < 2 powi int ?b" using d by simp
  qed
  have d0: "(0::rat) < of_int d" using d by simp
  have lo: "2 powi (?k - 1) \<le> x"
  proof -
    have "(2::rat) powi (?k - 1) * of_int d \<le> 2 powi (?k - 1) * 2 powi int ?b"
      using nb'(2) by (intro mult_left_mono) auto
    also have "\<dots> = 2 powi (int ?a - 1)" unfolding powi2_add by (rule arg_cong) simp
    finally show ?thesis using na'(1) d0 by (simp add: x pos_le_divide_eq)
  qed
  have hi: "x < 2 powi (?k + 1)"
  proof -
    have "(2::rat) powi int ?a = 2 powi (?k + 1) * 2 powi (int ?b - 1)"
      unfolding powi2_add by (rule arg_cong) simp
    also have "\<dots> \<le> 2 powi (?k + 1) * of_int d"
      using nb'(1) by (intro mult_left_mono) (auto intro: less_imp_le)
    finally have "of_int n < 2 powi (?k + 1) * (of_int d :: rat)" by (rule less_le_trans [OF na'(2)])
    then show ?thesis unfolding x using d0 by (simp only: pos_divide_less_eq)
  qed
  show "2 powi ilog2 x \<le> x" and "x < 2 powi (ilog2 x + 1)"
    using lo hi by (auto simp: ilog2_def q Let_def)
qed

lemma ilog2_mono:
  assumes "0 < x" "x \<le> y"
  shows "ilog2 x \<le> ilog2 y"
proof (rule ccontr)
  assume "\<not> ilog2 x \<le> ilog2 y"
  then have "2 powi (ilog2 y + 1) \<le> (2::rat) powi ilog2 x" by (intro powi2_mono) simp
  with ilog2_bounds [of x] ilog2_bounds [of y] assms show False by linarith
qed

lemma fl_0 [simp]: "fl 0 = 0"
  by (simp add: fl_def)

lemma fl_pos_bounds:
  assumes "0 < x"
  shows "2 powi ilog2 x \<le> fl x" and "fl x \<le> 2 powi (ilog2 x + 1)"
proof -
  let ?u = "2 powi (ilog2 x - 52) :: rat"
  have u: "0 < ?u" by simp
  have "2 ^ 52 * ?u = 2 powi ilog2 x" "2 ^ 53 * ?u = 2 powi (ilog2 x + 1)"
    by (simp_all add: power_int_diff power_int_add)
  then have m: "of_int (2 ^ 52) \<le> x / ?u" "x / ?u \<le> of_int (2 ^ 53)"
    using ilog2_bounds [OF assms] u by (simp_all add: pos_le_divide_eq pos_divide_le_eq)
  have "2 ^ 52 \<le> round_even (x / ?u)" "round_even (x / ?u) \<le> 2 ^ 53"
    using round_even_mono [OF m(1)] round_even_mono [OF m(2)]
    unfolding round_even_of_int by simp_all
  then have "of_int (2 ^ 52) \<le> (of_int (round_even (x / ?u)) :: rat)"
    "(of_int (round_even (x / ?u)) :: rat) \<le> of_int (2 ^ 53)"
    by (simp_all only: of_int_le_iff)
  then have "(2 ^ 52 :: rat) \<le> of_int (round_even (x / ?u))" "of_int (round_even (x / ?u)) \<le> (2 ^ 53 :: rat)"
    by (simp_all only: of_int_power of_int_numeral)
  then have "2 ^ 52 * ?u \<le> of_int (round_even (x / ?u)) * ?u" "of_int (round_even (x / ?u)) * ?u \<le> 2 ^ 53 * ?u"
    using less_imp_le [OF u] by (auto intro: mult_right_mono)
  then have "2 powi ilog2 x \<le> of_int (round_even (x / ?u)) * ?u"
    "of_int (round_even (x / ?u)) * ?u \<le> 2 powi (ilog2 x + 1)"
    unfolding \<open>2 ^ 52 * ?u = 2 powi ilog2 x\<close> \<open>2 ^ 53 * ?u = 2 powi (ilog2 x + 1)\<close> .
  moreover have "fl x = of_int (round_even (x / ?u)) * ?u"
    using assms by (simp add: fl_def Let_def)
  ultimately show "2 powi ilog2 x \<le> fl x" and "fl x \<le> 2 powi (ilog2 x + 1)"
    by (simp_all only:)
qed

lemma fl_nonneg: "0 \<le> x \<Longrightarrow> 0 \<le> fl x"
proof (cases "x = 0")
  case False
  assume "0 \<le> x"
  with False have "2 powi ilog2 x \<le> fl x" by (intro fl_pos_bounds) simp
  moreover have "(0::rat) < 2 powi ilog2 x" by (rule powi2_pos)
  ultimately show ?thesis by linarith
qed simp

lemma fl_mono_nonneg:
  assumes "0 \<le> x" "x \<le> y"
  shows "fl x \<le> fl y"
proof (cases "x = 0")
  case True
  then show ?thesis using fl_nonneg [of y] assms by simp
next
  case False
  with assms have pos: "0 < x" "0 < y" by auto
  show ?thesis
  proof (cases "ilog2 x = ilog2 y")
    case True
    let ?u = "2 powi (ilog2 y - 52) :: rat"
    have "x / ?u \<le> y / ?u" using assms by (intro divide_right_mono) (auto intro: less_imp_le)
    then have "of_int (round_even (x / ?u)) * ?u \<le> of_int (round_even (y / ?u)) * ?u"
      by (intro mult_right_mono) (auto intro: round_even_mono less_imp_le)
    then show ?thesis using pos True by (simp add: fl_def Let_def)
  next
    case False
    with ilog2_mono [OF pos(1) assms(2)] have "(2::rat) powi (ilog2 x + 1) \<le> 2 powi ilog2 y"
      by (intro powi2_mono) simp
    then show ?thesis using fl_pos_bounds [OF pos(1)] fl_pos_bounds [OF pos(2)] by linarith
  qed
qed

text \<open>Integers of at most 53 bits are doubles.\<close>

lemma fl_of_int:
  assumes "0 \<le> i" "i < 2 ^ 53"
  shows "fl (of_int i) = of_int i"
proof (cases "i = 0")
  case False
  let ?x = "of_int i :: rat" and ?e = "ilog2 (of_int i :: rat) - 52"
  have pos: "0 < ?x" using assms False by simp
  have "?x < of_int (2 ^ 53)" using assms(2) by (simp only: of_int_less_iff)
  then have "?x < 2 powi 53" by simp
  moreover have "2 powi ilog2 ?x \<le> ?x" using ilog2_bounds(1) [OF pos] .
  ultimately have "ilog2 ?x < 53"
    using powi2_mono [of 53 "ilog2 ?x"] by (cases "ilog2 ?x < 53") auto
  then have e: "?e \<le> 0" by simp
  define k where "k = nat (- ?e)"
  have "(2::rat) powi ?e * 2 powi int k = 2 powi 0"
    unfolding powi2_add using e by (intro arg_cong [where f = "power_int 2"]) (simp add: k_def)
  then have inv: "(2::rat) powi ?e * 2 ^ k = 1" by simp
  then have "?x / 2 powi ?e = ?x * 2 ^ k"
    by (simp add: field_simps)
  also have "\<dots> = of_int (i * 2 ^ k)" by simp
  finally have "round_even (?x / 2 powi ?e) = i * 2 ^ k" by (simp only: round_even_of_int)
  then have "fl ?x = of_int (i * 2 ^ k) * 2 powi ?e" using pos by (simp add: fl_def Let_def)
  also have "\<dots> = ?x * (2 powi ?e * 2 ^ k)" by simp
  finally show ?thesis unfolding inv by simp
qed simp

lemma fl_le_int: "0 \<le> x \<Longrightarrow> x \<le> of_int i \<Longrightarrow> i < 2 ^ 53 \<Longrightarrow> fl x \<le> of_int i"
  using fl_mono_nonneg [of x "of_int i"] fl_of_int [of i]
  by (metis of_int_0_le_iff order_trans)

lemma js_round_bounds: "of_int i \<le> x \<Longrightarrow> i \<le> js_round x" "x \<le> of_int i \<Longrightarrow> js_round x \<le> i"
  by (auto simp: js_round_def le_floor_iff floor_le_iff)

lemma fl_minus [simp]: "fl (- x) = - fl x"
  by (cases x "0 :: rat" rule: linorder_cases) (auto simp: fl_def Let_def)

lemma powi2_strict_mono: "j < k \<Longrightarrow> (2::rat) powi j < 2 powi k"
  by (rule power_int_strict_increasing) auto

lemma ilog2_unique:
  assumes "2 powi k \<le> x" "x < 2 powi (k + 1)"
  shows "ilog2 x = k"
proof -
  have "(0::rat) < 2 powi k" by simp
  with assms have "0 < x" by linarith
  note b = ilog2_bounds [OF this]
  have "(2::rat) powi k < 2 powi (ilog2 x + 1)" "(2::rat) powi ilog2 x < 2 powi (k + 1)" using assms b by linarith+
  then have "\<not> ilog2 x + 1 \<le> k" "\<not> k + 1 \<le> ilog2 x"
    using powi2_mono [of "ilog2 x + 1" k] powi2_mono [of "k + 1" "ilog2 x"] by linarith+
  then show ?thesis by simp
qed

text \<open>A double is its own nearest double.\<close>

lemma fl_grid:
  assumes "2 ^ 52 \<le> m" "m < 2 ^ 53"
  shows "fl (of_int m * 2 powi (k - 52)) = of_int m * 2 powi (k - 52)"
proof -
  let ?u = "2 powi (k - 52) :: rat" and ?x = "of_int m * 2 powi (k - 52) :: rat"
  have u: "0 < ?u" by simp
  have c: "2 ^ 52 * ?u = 2 powi k" "2 ^ 53 * ?u = 2 powi (k + 1)"
    by (simp_all add: power_int_diff power_int_add)
  have "of_int (2 ^ 52) \<le> (of_int m :: rat)" "(of_int m :: rat) < of_int (2 ^ 53)"
    using assms by (simp_all only: of_int_le_iff of_int_less_iff)
  then have m: "2 ^ 52 \<le> (of_int m :: rat)" "(of_int m :: rat) < 2 ^ 53" by simp_all
  have "2 powi k \<le> ?x" "?x < 2 powi (k + 1)"
    unfolding c [symmetric] using m u by (auto intro: mult_right_mono mult_strict_right_mono less_imp_le)
  then have e: "ilog2 ?x = k" by (rule ilog2_unique)
  have "0 < (of_int m :: rat)" using m(1) by (rule less_le_trans [rotated]) simp
  then have "0 < ?x" using u by (intro mult_pos_pos)
  then have "fl ?x = of_int (round_even (?x / ?u)) * ?u" by (simp add: fl_def Let_def e)
  also have "?x / ?u = of_int m" using u by simp
  finally show ?thesis by simp
qed

lemma fl_fl [simp]: "fl (fl x) = fl x"
proof -
  have pos: "fl (fl x) = fl x" if x: "0 < x" for x
  proof -
    let ?k = "ilog2 x" and ?u = "2 powi (ilog2 x - 52) :: rat"
    define m where "m = round_even (x / ?u)"
    have flx: "fl x = of_int m * ?u" using x by (simp add: fl_def Let_def m_def)
    have u: "0 < ?u" by simp
    have "2 powi ?k \<le> fl x" "fl x \<le> 2 powi (?k + 1)" using fl_pos_bounds [OF x] .
    moreover have "2 ^ 52 * ?u = 2 powi ?k" "2 ^ 53 * ?u = 2 powi (?k + 1)"
      by (simp_all add: power_int_diff power_int_add)
    ultimately have "2 ^ 52 * ?u \<le> of_int m * ?u" "of_int m * ?u \<le> 2 ^ 53 * ?u" unfolding flx by simp_all
    then have "2 ^ 52 \<le> (of_int m :: rat)" "(of_int m :: rat) \<le> 2 ^ 53" using u by (simp_all only: mult_le_cancel_right_pos)
    then have "of_int (2 ^ 52) \<le> (of_int m :: rat)" "(of_int m :: rat) \<le> of_int (2 ^ 53)" by simp_all
    then have m: "2 ^ 52 \<le> m" "m \<le> 2 ^ 53" by (simp_all only: of_int_le_iff)
    show ?thesis
    proof (cases "m = 2 ^ 53")
      case True
      have "fl x = of_int (2 ^ 52) * 2 powi (?k + 1 - 52)"
        unfolding flx True by (simp add: power_int_diff power_int_add)
      then show ?thesis using fl_grid [of "2 ^ 52" "?k + 1"] by simp
    next
      case False
      then show ?thesis unfolding flx using fl_grid [of m ?k] m by simp
    qed
  qed
  show ?thesis
  proof (cases x "0 :: rat" rule: linorder_cases)
    case less
    then show ?thesis using pos [of "- x"] by simp
  qed (use pos in auto)
qed

lemma fl_whole: "\<bar>i\<bar> < 2 ^ 53 \<Longrightarrow> fl (of_int i) = of_int i"
  using fl_of_int [of i] fl_of_int [of "- i"] by (cases "0 \<le> i") auto

section \<open>Seven places\<close>

text \<open>\<open>x.toFixed(7)\<close> as the number it prints, of a magnitude below \<open>10^21\<close>, and \<open>Number(x.toFixed(7))\<close>.\<close>

definition to_fixed7 :: "rat \<Rightarrow> rat" where
  "to_fixed7 x = (if x < 0 then - of_int (js_round (- x * 10 ^ 7)) else of_int (js_round (x * 10 ^ 7))) / 10 ^ 7"

definition round7 :: "rat \<Rightarrow> rat" where
  "round7 x = fl (to_fixed7 x)"

lemma round_even_near: "\<bar>of_int (round_even x) - x\<bar> \<le> 1 / 2"
proof -
  have "of_int \<lfloor>x\<rfloor> \<le> x" "x < of_int \<lfloor>x\<rfloor> + 1" by linarith+
  then show ?thesis unfolding round_even_def Let_def abs_le_iff by (simp add: not_less) linarith
qed

lemma fl_near:
  assumes "0 \<le> x"
  shows "\<bar>fl x - x\<bar> \<le> x / 2 ^ 53"
proof (cases "x = 0")
  case False
  with assms have x: "0 < x" by simp
  let ?u = "2 powi (ilog2 x - 52) :: rat"
  have u: "0 < ?u" by simp
  have ux: "?u * 2 ^ 52 \<le> x" using ilog2_bounds(1) [OF x] by (simp add: power_int_diff)
  have "\<bar>of_int (round_even (x / ?u)) - x / ?u\<bar> * ?u \<le> 1 / 2 * ?u"
    using u by (intro mult_right_mono round_even_near) simp
  moreover have "\<bar>of_int (round_even (x / ?u)) - x / ?u\<bar> * ?u = \<bar>fl x - x\<bar>"
  proof -
    have "fl x - x = (of_int (round_even (x / ?u)) - x / ?u) * ?u"
      using x u by (simp add: fl_def Let_def left_diff_distrib)
    then show ?thesis using u by (simp only: abs_mult abs_of_pos)
  qed
  ultimately show ?thesis using ux by simp
qed simp

lemma js_round_near: "\<bar>of_int (js_round x) - x\<bar> \<le> 1 / 2"
  unfolding js_round_def by linarith

lemma to_fixed7_near: "0 \<le> x \<Longrightarrow> \<bar>to_fixed7 x - x\<bar> \<le> 1 / (2 * 10 ^ 7)"
  using js_round_near [of "x * 10 ^ 7"] by (simp add: to_fixed7_def abs_le_iff field_simps)

lemma to_fixed7_nonneg: "0 \<le> x \<Longrightarrow> 0 \<le> to_fixed7 x"
  using js_round_bounds(1) [of 0 "x * 10 ^ 7"] by (simp add: to_fixed7_def)

lemma js_round_of_int [simp]: "js_round (of_int i) = i"
  unfolding js_round_def by linarith

lemma to_fixed7_whole: "to_fixed7 (of_int i) = of_int i"
proof -
  have r: "js_round (of_int j * 10 ^ 7) = j * 10 ^ 7" for j
    using js_round_of_int [of "j * 10 ^ 7"] by (simp only: of_int_mult of_int_power of_int_numeral)
  have "- of_int i * (10::rat) ^ 7 = of_int (- i) * 10 ^ 7" by simp
  then show ?thesis unfolding to_fixed7_def by (simp only: r) simp
qed

lemma round7_whole: "\<bar>i\<bar> < 2 ^ 53 \<Longrightarrow> round7 (of_int i) = of_int i"
  by (simp add: round7_def to_fixed7_whole fl_whole)

end
