(* ===== verification/Circuit_Breaker.thy ===== *)
theory Circuit_Breaker
  imports Js_Double
begin

text \<open>
  The per-dependency circuit breaker of \<open>src/utils/circuit-breaker.utils.ts\<close>.

  The object's private fields are the record \<open>breaker\<close>; a method is a function of the resolved
  configuration, the clock (\<open>Date.now()\<close>, read once per synchronous method) and the breaker. A
  method that awaits (\<open>execute\<close>, \<open>probe\<close>) is split at the \<open>await\<close> into the part before and the part
  after it, because other calls may run in between. Log lines are not modelled.
\<close>

section \<open>Configuration\<close>

datatype circuit_state = CLOSED | OPEN | HALF_OPEN

text \<open>\<open>CircuitBreakerOptions\<close>: every field is optional.\<close>

record breaker_options =
  o_failureThreshold :: "rat option"
  o_failureRateThreshold :: "rat option"
  o_windowMs :: "rat option"
  o_cooldownMs :: "rat option"
  o_minRequestsForRate :: "rat option"
  o_probe :: bool
  o_autoProbe :: "bool option"

record dependency_config =
  d_failureThreshold :: rat
  d_failureRateThreshold :: rat
  d_cooldownMs :: rat
  d_windowMs :: rat

record breaker_config =
  failureThreshold :: rat
  failureRateThreshold :: rat
  cooldownMs :: rat
  windowMs :: rat
  minRequestsForRate :: rat
  autoProbe :: bool
  probeFn :: bool
  suppressProbe :: bool

definition upper_char :: "char \<Rightarrow> char" where
  "upper_char c = (let n = of_char c :: nat in if 97 \<le> n \<and> n \<le> 122 then char_of (n - 32) else c)"

definition is_upper_alnum :: "char \<Rightarrow> bool" where
  "is_upper_alnum c = (let n = of_char c :: nat in (65 \<le> n \<and> n \<le> 90) \<or> (48 \<le> n \<and> n \<le> 57))"

definition is_lower_alnum :: "char \<Rightarrow> bool" where
  "is_lower_alnum c = (let n = of_char c :: nat in (97 \<le> n \<and> n \<le> 122) \<or> (48 \<le> n \<and> n \<le> 57))"

definition normalize_env_name :: "string \<Rightarrow> string" where
  "normalize_env_name s = map (\<lambda>c. if is_upper_alnum c then c else CHR ''_'') (map upper_char s)"

text \<open>
  \<open>readEnvNumber\<close>: the first of the variables that holds a positive number. \<open>env key\<close> is
  \<open>Number(value)\<close> of the variable, \<open>None\<close> when it is unset, empty or not a finite number.
\<close>

fun readEnvNumber :: "(string \<Rightarrow> rat option) \<Rightarrow> string list \<Rightarrow> rat option" where
  "readEnvNumber env [] = None"
| "readEnvNumber env (key # keys) =
    (case env key of
      Some parsed \<Rightarrow> if 0 < parsed then Some parsed else readEnvNumber env keys
    | None \<Rightarrow> readEnvNumber env keys)"

definition resolveDependencyConfig :: "(string \<Rightarrow> rat option) \<Rightarrow> string \<Rightarrow> dependency_config" where
  "resolveDependencyConfig env dependencyName =
    (let normalized = normalize_env_name dependencyName;
         read = (\<lambda>suffix. readEnvNumber env
           [''CIRCUIT_BREAKER_'' @ normalized @ ''_'' @ suffix,
            ''CIRCUIT_'' @ normalized @ ''_'' @ suffix,
            ''CIRCUIT_BREAKER_'' @ suffix]);
         or_default = (\<lambda>v d. case v of Some x \<Rightarrow> x | None \<Rightarrow> d);
         cooldownSeconds = or_default (read ''COOLDOWN_SECONDS'') 30;
         windowSeconds = or_default (read ''WINDOW_SECONDS'') 60
     in \<lparr>d_failureThreshold = or_default (read ''FAILURE_THRESHOLD'') 5,
         d_failureRateThreshold = or_default (read ''RATE_THRESHOLD'') 50,
         d_cooldownMs = fl (cooldownSeconds * 1000),
         d_windowMs = fl (windowSeconds * 1000)\<rparr>)"

definition resolvedConfig :: "dependency_config \<Rightarrow> breaker_options \<Rightarrow> bool \<Rightarrow> breaker_config" where
  "resolvedConfig dynamic opts testMode =
    (let or_dyn = (\<lambda>v d. case v of Some x \<Rightarrow> x | None \<Rightarrow> d);
         threshold = or_dyn (o_failureThreshold opts) (d_failureThreshold dynamic)
     in \<lparr>failureThreshold = threshold,
         failureRateThreshold = or_dyn (o_failureRateThreshold opts) (d_failureRateThreshold dynamic),
         cooldownMs = or_dyn (o_cooldownMs opts) (d_cooldownMs dynamic),
         windowMs = or_dyn (o_windowMs opts) (d_windowMs dynamic),
         minRequestsForRate = or_dyn (o_minRequestsForRate opts) (max threshold 5),
         autoProbe = (case o_autoProbe opts of Some x \<Rightarrow> x | None \<Rightarrow> True),
         probeFn = o_probe opts,
         suppressProbe = (testMode \<and> o_autoProbe opts \<noteq> Some True)\<rparr>)"

section \<open>The breaker\<close>

record rolling_event =
  timestamp :: instant
  success :: bool

record breaker =
  state :: circuit_state
  consecutiveFailures :: nat
  lastFailure :: "instant option"
  lastSuccess :: "instant option"
  lastProbe :: "instant option"
  openedAt :: "instant option"
  halfOpenInFlight :: bool
  rollingEvents :: "rolling_event list"
  probeTimer :: "rat option"

definition new_breaker :: breaker where
  "new_breaker = \<lparr>state = CLOSED, consecutiveFailures = 0, lastFailure = None, lastSuccess = None,
    lastProbe = None, openedAt = None, halfOpenInFlight = False, rollingEvents = [],
    probeTimer = None\<rparr>"

definition transitionToHalfOpen :: "breaker \<Rightarrow> breaker" where
  "transitionToHalfOpen b = b\<lparr>state := HALF_OPEN, halfOpenInFlight := False\<rparr>"

definition getState :: "breaker_config \<Rightarrow> instant \<Rightarrow> breaker \<Rightarrow> circuit_state \<times> breaker" where
  "getState cfg now b =
    (let b' =
      (if state b = OPEN then
         let elapsed = now - (case openedAt b of Some t \<Rightarrow> t | None \<Rightarrow> 0)
         in if of_int elapsed \<ge> cooldownMs cfg \<and> \<not> halfOpenInFlight b
            then transitionToHalfOpen b else b
       else b)
     in (state b', b'))"

definition isOpen :: "breaker_config \<Rightarrow> instant \<Rightarrow> breaker \<Rightarrow> bool \<times> breaker" where
  "isOpen cfg now b = (let (s, b') = getState cfg now b in (s = OPEN, b'))"

definition getRemainingCooldownMs :: "breaker_config \<Rightarrow> instant \<Rightarrow> breaker \<Rightarrow> rat" where
  "getRemainingCooldownMs cfg now b =
    (case openedAt b of
      None \<Rightarrow> 0
    | Some t \<Rightarrow> if state b \<noteq> OPEN then 0 else max 0 (fl (cooldownMs cfg - of_int (now - t))))"

definition getRemainingCooldownSeconds :: "breaker_config \<Rightarrow> instant \<Rightarrow> breaker \<Rightarrow> int" where
  "getRemainingCooldownSeconds cfg now b = max 1 \<lceil>fl (getRemainingCooldownMs cfg now b / 1000)\<rceil>"

definition cleanRollingWindow :: "breaker_config \<Rightarrow> instant \<Rightarrow> breaker \<Rightarrow> breaker" where
  "cleanRollingWindow cfg now b =
    (let cutoff = fl (of_int now - windowMs cfg)
     in b\<lparr>rollingEvents := filter (\<lambda>e. of_int (timestamp e) \<ge> cutoff) (rollingEvents b)\<rparr>)"

definition failure_rate :: "rolling_event list \<Rightarrow> int" where
  "failure_rate events =
    (if length events = 0 then 0
     else
       let failures = length (filter (\<lambda>e. \<not> success e) events)
       in js_round (fl (fl (of_nat failures / of_nat (length events)) * 100)))"

definition getFailureRate :: "breaker_config \<Rightarrow> instant \<Rightarrow> breaker \<Rightarrow> int \<times> breaker" where
  "getFailureRate cfg now b =
    (let b' = cleanRollingWindow cfg now b in (failure_rate (rollingEvents b'), b'))"

definition clearProbeTimer :: "breaker \<Rightarrow> breaker" where
  "clearProbeTimer b = b\<lparr>probeTimer := None\<rparr>"

text \<open>The timer field holds the instant at which the recovery probe is due.\<close>

definition scheduleRecoveryProbe :: "breaker_config \<Rightarrow> instant \<Rightarrow> breaker \<Rightarrow> breaker" where
  "scheduleRecoveryProbe cfg now b =
    (if \<not> autoProbe cfg \<or> \<not> probeFn cfg then b
     else if suppressProbe cfg then b
     else
       let b' = clearProbeTimer b; delay = max 50 (getRemainingCooldownMs cfg now b')
       in b'\<lparr>probeTimer := Some (of_int now + delay)\<rparr>)"

definition transitionToOpen :: "breaker_config \<Rightarrow> instant \<Rightarrow> breaker \<Rightarrow> breaker" where
  "transitionToOpen cfg now b =
    scheduleRecoveryProbe cfg now
      (b\<lparr>state := OPEN, openedAt := Some now, halfOpenInFlight := False\<rparr>)"

definition transitionToClosed :: "breaker \<Rightarrow> breaker" where
  "transitionToClosed b =
    clearProbeTimer
      (b\<lparr>state := CLOSED, consecutiveFailures := 0, halfOpenInFlight := False, openedAt := None\<rparr>)"

definition recordSuccess :: "breaker_config \<Rightarrow> instant \<Rightarrow> breaker \<Rightarrow> breaker" where
  "recordSuccess cfg now b =
    (let b1 = b\<lparr>lastSuccess := Some now, consecutiveFailures := 0\<rparr>;
         b2 = cleanRollingWindow cfg now b1;
         b3 = b2\<lparr>rollingEvents := rollingEvents b2 @ [\<lparr>timestamp = now, success = True\<rparr>]\<rparr>
     in if state b3 = HALF_OPEN then transitionToClosed b3 else b3)"

definition recordFailure :: "breaker_config \<Rightarrow> instant \<Rightarrow> breaker \<Rightarrow> breaker" where
  "recordFailure cfg now b =
    (let b1 = b\<lparr>consecutiveFailures := consecutiveFailures b + 1, lastFailure := Some now\<rparr>;
         b2 = cleanRollingWindow cfg now b1;
         b3 = b2\<lparr>rollingEvents := rollingEvents b2 @ [\<lparr>timestamp = now, success = False\<rparr>]\<rparr>
     in if state b3 = HALF_OPEN then transitionToOpen cfg now b3
        else if state b3 = CLOSED then
          let (rate, b4) = getFailureRate cfg now b3;
              hasEnoughRequests = of_nat (length (rollingEvents b4)) \<ge> minRequestsForRate cfg
          in if of_nat (consecutiveFailures b4) \<ge> failureThreshold cfg \<or>
                (hasEnoughRequests \<and> of_int rate > failureRateThreshold cfg)
             then transitionToOpen cfg now b4 else b4
        else b3)"

text \<open>\<open>CircuitBreakerOpenError\<close> carries the seconds after which to retry.\<close>

definition open_error_retry_after :: "rat \<Rightarrow> int" where
  "open_error_retry_after retryAfterSeconds = max 1 \<lceil>retryAfterSeconds\<rceil>"

definition reject_open :: "breaker_config \<Rightarrow> instant \<Rightarrow> breaker \<Rightarrow> int" where
  "reject_open cfg now b = open_error_retry_after (of_int (getRemainingCooldownSeconds cfg now b))"

definition checkState :: "breaker_config \<Rightarrow> instant \<Rightarrow> breaker \<Rightarrow> (int + unit) \<times> breaker" where
  "checkState cfg now b =
    (let (s, b') = getState cfg now b
     in (if s = OPEN then Inl (reject_open cfg now b') else Inr (), b'))"

section \<open>Guarded execution\<close>

text \<open>How a call was let through: normally, or as the probe of a half-open circuit.\<close>

datatype admission = Admit_closed | Admit_probe

definition execute_admit ::
  "breaker_config \<Rightarrow> instant \<Rightarrow> breaker \<Rightarrow> (int + admission) \<times> breaker" where
  "execute_admit cfg now b =
    (let (s, b') = getState cfg now b
     in if s = OPEN then (Inl (reject_open cfg now b'), b')
        else if s = HALF_OPEN then
          if halfOpenInFlight b' then (Inl (reject_open cfg now b'), b')
          else (Inr Admit_probe, b'\<lparr>halfOpenInFlight := True, lastProbe := Some now\<rparr>)
        else (Inr Admit_closed, b'))"

definition execute_settle ::
  "breaker_config \<Rightarrow> instant \<Rightarrow> admission \<Rightarrow> bool \<Rightarrow> breaker \<Rightarrow> breaker" where
  "execute_settle cfg now adm succeeded b =
    (let b' = (if succeeded then recordSuccess cfg now b else recordFailure cfg now b)
     in case adm of Admit_probe \<Rightarrow> b'\<lparr>halfOpenInFlight := False\<rparr> | Admit_closed \<Rightarrow> b')"

datatype 'e call_error = Circuit_open int | Action_failed 'e

text \<open>
  One whole call: \<open>action\<close> is the awaited work, which returns a value or throws and may leave the
  breaker changed by other calls; \<open>t1\<close> is the clock when it settles.
\<close>

definition execute ::
  "breaker_config \<Rightarrow> instant \<Rightarrow> (breaker \<Rightarrow> ('e + 'a) \<times> breaker) \<Rightarrow> instant \<Rightarrow> breaker \<Rightarrow>
    ('e call_error + 'a) \<times> breaker" where
  "execute cfg t0 action t1 b =
    (case execute_admit cfg t0 b of
      (Inl retryAfter, b1) \<Rightarrow> (Inl (Circuit_open retryAfter), b1)
    | (Inr adm, b1) \<Rightarrow>
        (case action b1 of
          (Inr v, b2) \<Rightarrow> (Inr v, execute_settle cfg t1 adm True b2)
        | (Inl e, b2) \<Rightarrow> (Inl (Action_failed e), execute_settle cfg t1 adm False b2)))"

section \<open>Recovery probe\<close>

datatype probe_outcome = Probe_ok | Probe_false | Probe_throws

definition probe_begin :: "instant \<Rightarrow> breaker \<Rightarrow> breaker" where
  "probe_begin now b =
    (let b' = (if state b = OPEN then transitionToHalfOpen b else b)
     in b'\<lparr>halfOpenInFlight := True, lastProbe := Some now\<rparr>)"

definition probe_settle ::
  "breaker_config \<Rightarrow> instant \<Rightarrow> probe_outcome \<Rightarrow> breaker \<Rightarrow> bool \<times> breaker" where
  "probe_settle cfg now res b =
    (case res of
      Probe_false \<Rightarrow> (False, (transitionToOpen cfg now b)\<lparr>halfOpenInFlight := False\<rparr>)
    | Probe_ok \<Rightarrow> (True, (transitionToClosed b)\<lparr>halfOpenInFlight := False\<rparr>)
    | Probe_throws \<Rightarrow> (False, (transitionToOpen cfg now b)\<lparr>halfOpenInFlight := False\<rparr>))"

definition probe ::
  "breaker_config \<Rightarrow> instant \<Rightarrow> (breaker \<Rightarrow> probe_outcome \<times> breaker) \<Rightarrow> instant \<Rightarrow> breaker \<Rightarrow>
    bool \<times> breaker" where
  "probe cfg t0 fn t1 b =
    (if \<not> probeFn cfg then (True, b)
     else let (res, b2) = fn (probe_begin t0 b) in probe_settle cfg t1 res b2)"

section \<open>Metrics and reset\<close>

record breaker_metrics =
  m_state :: circuit_state
  m_failureCount :: nat
  m_lastFailure :: "instant option"
  m_lastSuccess :: "instant option"
  m_lastProbe :: "instant option"
  m_failureRate :: int
  m_totalRequestsInWindow :: nat
  m_cooldownRemainingMs :: rat
  m_retryAfterSeconds :: int
  m_failureThreshold :: rat
  m_failureRateThreshold :: rat
  m_cooldownSeconds :: int
  m_windowSeconds :: int

definition getMetrics :: "breaker_config \<Rightarrow> instant \<Rightarrow> breaker \<Rightarrow> breaker_metrics \<times> breaker" where
  "getMetrics cfg now b =
    (let (s, b1) = getState cfg now b;
         cooldownRemaining = getRemainingCooldownMs cfg now b1;
         (rate, b2) = getFailureRate cfg now b1
     in (\<lparr>m_state = s, m_failureCount = consecutiveFailures b2, m_lastFailure = lastFailure b2,
          m_lastSuccess = lastSuccess b2, m_lastProbe = lastProbe b2, m_failureRate = rate,
          m_totalRequestsInWindow = length (rollingEvents b2),
          m_cooldownRemainingMs = cooldownRemaining,
          m_retryAfterSeconds = \<lceil>fl (cooldownRemaining / 1000)\<rceil>,
          m_failureThreshold = failureThreshold cfg,
          m_failureRateThreshold = failureRateThreshold cfg,
          m_cooldownSeconds = js_round (fl (cooldownMs cfg / 1000)),
          m_windowSeconds = js_round (fl (windowMs cfg / 1000))\<rparr>, b2))"

definition reset_breaker :: "breaker \<Rightarrow> breaker" where
  "reset_breaker b =
    (clearProbeTimer b)\<lparr>state := CLOSED, consecutiveFailures := 0, lastFailure := None,
      lastSuccess := None, lastProbe := None, openedAt := None, halfOpenInFlight := False,
      rollingEvents := []\<rparr>"

section \<open>The registry\<close>

datatype dependency = Soroban_rpc | Horizon | Redis | Database

definition circuitBreakers :: "string \<Rightarrow> dependency option" where
  "circuitBreakers name =
    map_of [(''soroban_rpc'', Soroban_rpc), (''horizon'', Horizon), (''redis'', Redis),
      (''database'', Database)] name"

definition getCircuitBreaker :: "string \<Rightarrow> dependency option" where
  "getCircuitBreaker name =
    (let normalized = map (\<lambda>c. if is_lower_alnum c then c else CHR ''_'') (to_lower name)
     in if normalized = ''db'' \<or> normalized = ''database_pool'' then Some Database
        else if normalized = ''soroban'' \<or> normalized = ''sorobanrpc'' then Some Soroban_rpc
        else circuitBreakers normalized)"

definition resetAllCircuitBreakers :: "(dependency \<Rightarrow> breaker) \<Rightarrow> dependency \<Rightarrow> breaker" where
  "resetAllCircuitBreakers breakers d = reset_breaker (breakers d)"

section \<open>Every interleaving of calls\<close>

text \<open>
  What any party may do to a breaker between two awaits: the public methods, and the two halves of
  \<open>execute\<close> and \<open>probe\<close>. The step relation lets them come in any order at a clock that never goes
  back, so it contains every interleaving of concurrent calls, and more.
\<close>

datatype breaker_op =
    Op_getState
  | Op_recordSuccess
  | Op_recordFailure
  | Op_openCircuit
  | Op_halfOpenCircuit
  | Op_closeCircuit
  | Op_getFailureRate
  | Op_checkState
  | Op_execute_admit
  | Op_execute_settle admission bool
  | Op_probe_begin
  | Op_probe_settle probe_outcome
  | Op_getMetrics
  | Op_reset
  | Op_destroy

fun apply_op :: "breaker_config \<Rightarrow> instant \<Rightarrow> breaker_op \<Rightarrow> breaker \<Rightarrow> breaker" where
  "apply_op cfg now Op_getState b = snd (getState cfg now b)"
| "apply_op cfg now Op_recordSuccess b = recordSuccess cfg now b"
| "apply_op cfg now Op_recordFailure b = recordFailure cfg now b"
| "apply_op cfg now Op_openCircuit b = transitionToOpen cfg now b"
| "apply_op cfg now Op_halfOpenCircuit b = transitionToHalfOpen b"
| "apply_op cfg now Op_closeCircuit b = transitionToClosed b"
| "apply_op cfg now Op_getFailureRate b = snd (getFailureRate cfg now b)"
| "apply_op cfg now Op_checkState b = snd (checkState cfg now b)"
| "apply_op cfg now Op_execute_admit b = snd (execute_admit cfg now b)"
| "apply_op cfg now (Op_execute_settle adm ok) b = execute_settle cfg now adm ok b"
| "apply_op cfg now Op_probe_begin b = probe_begin now b"
| "apply_op cfg now (Op_probe_settle res) b = snd (probe_settle cfg now res b)"
| "apply_op cfg now Op_getMetrics b = snd (getMetrics cfg now b)"
| "apply_op cfg now Op_reset b = reset_breaker b"
| "apply_op cfg now Op_destroy b = clearProbeTimer b"

inductive breaker_step :: "breaker_config \<Rightarrow> instant \<times> breaker \<Rightarrow> instant \<times> breaker \<Rightarrow> bool"
  for cfg where
  op: "now \<le> now' \<Longrightarrow> breaker_step cfg (now, b) (now', apply_op cfg now' p b)"

inductive_cases breaker_stepE: "breaker_step cfg (now, b) t"

definition breaker_init :: "instant \<times> breaker \<Rightarrow> bool" where
  "breaker_init s \<longleftrightarrow> snd s = new_breaker"

definition breaker_inv :: "breaker_config \<Rightarrow> instant \<times> breaker \<Rightarrow> bool" where
  "breaker_inv cfg s \<longleftrightarrow>
    (case s of (now, b) \<Rightarrow>
      (state b = OPEN \<longrightarrow> (\<exists>t \<le> now. openedAt b = Some t) \<and> \<not> halfOpenInFlight b) \<and>
      (state b = CLOSED \<longrightarrow>
        openedAt b = None \<and> of_nat (consecutiveFailures b) < failureThreshold cfg) \<and>
      (\<forall>e \<in> set (rollingEvents b). timestamp e \<le> now))"

lemma breaker_inv_mono: "breaker_inv cfg (now, b) \<Longrightarrow> now \<le> now' \<Longrightarrow> breaker_inv cfg (now', b)"
  by (force simp: breaker_inv_def)

lemmas transition_defs =
  transitionToHalfOpen_def transitionToOpen_def transitionToClosed_def scheduleRecoveryProbe_def
  clearProbeTimer_def

text \<open>One lemma per kind of operation.\<close>

lemma inv_halfOpen: "breaker_inv cfg (now, b) \<Longrightarrow> breaker_inv cfg (now, transitionToHalfOpen b)"
  by (simp add: breaker_inv_def transition_defs)

lemma inv_open: "breaker_inv cfg (now, b) \<Longrightarrow> breaker_inv cfg (now, transitionToOpen cfg now b)"
  by (simp add: breaker_inv_def transition_defs Let_def)

lemma inv_closed:
  "0 < failureThreshold cfg \<Longrightarrow> breaker_inv cfg (now, b) \<Longrightarrow> breaker_inv cfg (now, transitionToClosed b)"
  by (simp add: breaker_inv_def transition_defs)

lemma inv_getState: "breaker_inv cfg (now, b) \<Longrightarrow> breaker_inv cfg (now, snd (getState cfg now b))"
  by (simp add: getState_def Let_def inv_halfOpen)

lemma inv_clean: "breaker_inv cfg (now, b) \<Longrightarrow> breaker_inv cfg (now, cleanRollingWindow cfg now b)"
  by (auto simp: breaker_inv_def cleanRollingWindow_def Let_def)

lemma inv_recordSuccess:
  "0 < failureThreshold cfg \<Longrightarrow> breaker_inv cfg (now, b) \<Longrightarrow> breaker_inv cfg (now, recordSuccess cfg now b)"
  by (auto simp: breaker_inv_def recordSuccess_def cleanRollingWindow_def Let_def transition_defs)

lemma inv_recordFailure:
  assumes "breaker_inv cfg (now, b)"
  shows "breaker_inv cfg (now, recordFailure cfg now b)"
proof -
  define b3 where "b3 =
    (let b2 = cleanRollingWindow cfg now
        (b\<lparr>consecutiveFailures := consecutiveFailures b + 1, lastFailure := Some now\<rparr>)
     in b2\<lparr>rollingEvents := rollingEvents b2 @ [\<lparr>timestamp = now, success = False\<rparr>]\<rparr>)"
  have eq: "recordFailure cfg now b =
    (if state b3 = HALF_OPEN then transitionToOpen cfg now b3
     else if state b3 = CLOSED then
       let b4 = cleanRollingWindow cfg now b3 in
       if of_nat (consecutiveFailures b4) \<ge> failureThreshold cfg \<or>
          (of_nat (length (rollingEvents b4)) \<ge> minRequestsForRate cfg \<and>
           of_int (failure_rate (rollingEvents b4)) > failureRateThreshold cfg)
       then transitionToOpen cfg now b4 else b4
     else b3)"
    unfolding recordFailure_def b3_def by (simp add: Let_def getFailureRate_def)
  have "breaker_inv cfg (now, transitionToOpen cfg now b3)"
    "breaker_inv cfg (now, transitionToOpen cfg now (cleanRollingWindow cfg now b3))"
    "state b3 = OPEN \<Longrightarrow> breaker_inv cfg (now, b3)"
    using assms
    by (auto simp: b3_def breaker_inv_def cleanRollingWindow_def Let_def transition_defs)
  moreover have "\<not> of_nat (consecutiveFailures (cleanRollingWindow cfg now b3)) \<ge> failureThreshold cfg \<Longrightarrow>
      state b3 = CLOSED \<Longrightarrow> breaker_inv cfg (now, cleanRollingWindow cfg now b3)"
    using assms by (auto simp: b3_def breaker_inv_def cleanRollingWindow_def Let_def)
  ultimately show ?thesis unfolding eq Let_def
    by (cases "state b3") auto
qed

lemma inv_execute_admit:
  "breaker_inv cfg (now, b) \<Longrightarrow> breaker_inv cfg (now, snd (execute_admit cfg now b))"
proof -
  assume inv: "breaker_inv cfg (now, b)"
  obtain s b' where g: "getState cfg now b = (s, b')" by fastforce
  then have "s = state b'" by (auto simp: getState_def Let_def)
  then show ?thesis using inv_getState [OF inv]
    by (simp add: execute_admit_def g breaker_inv_def)
qed

lemma inv_flight_False: "breaker_inv cfg (now, b) \<Longrightarrow> breaker_inv cfg (now, b\<lparr>halfOpenInFlight := False\<rparr>)"
  by (simp add: breaker_inv_def)

lemma inv_probe_begin: "breaker_inv cfg (now, b) \<Longrightarrow> breaker_inv cfg (now, probe_begin now b)"
  by (auto simp: breaker_inv_def probe_begin_def transition_defs Let_def)

lemma inv_apply_op:
  assumes "0 < failureThreshold cfg" "breaker_inv cfg (now, b)"
  shows "breaker_inv cfg (now, apply_op cfg now p b)"
proof -
  note keep = inv_getState inv_recordSuccess inv_recordFailure inv_open inv_halfOpen inv_closed
    inv_clean inv_execute_admit inv_flight_False inv_probe_begin assms
  show ?thesis
  proof (cases p)
    case Op_checkState
    then show ?thesis using inv_getState [OF assms(2)]
      by (cases "getState cfg now b") (simp add: checkState_def)
  next
    case (Op_execute_settle adm ok)
    then show ?thesis by (cases adm) (auto simp: execute_settle_def Let_def intro!: keep)
  next
    case (Op_probe_settle res)
    then show ?thesis by (cases res) (auto simp: probe_settle_def intro!: keep)
  next
    case Op_getMetrics
    obtain s b1 where "getState cfg now b = (s, b1)" by fastforce
    with Op_getMetrics show ?thesis using inv_clean [OF inv_getState [OF assms(2)]]
      by (simp add: getMetrics_def getFailureRate_def Let_def)
  next
    case Op_reset
    then show ?thesis using assms by (simp add: reset_breaker_def breaker_inv_def)
  next
    case Op_destroy
    then show ?thesis using assms by (simp add: clearProbeTimer_def breaker_inv_def)
  qed (auto simp: getFailureRate_def Let_def intro!: keep)
qed

text \<open>
  \<open>resolveDependencyConfig\<close> only yields positive thresholds; the interface is instantiated for every
  such configuration, and a configuration with another threshold is left alone.
\<close>

interpretation breaker_sys: invariant_system
  "\<lambda>s. breaker_init s \<and> 0 < failureThreshold cfg" "breaker_step cfg"
  "\<lambda>s. 0 < failureThreshold cfg \<and> breaker_inv cfg s" for cfg
proof
  show "0 < failureThreshold cfg \<and> breaker_inv cfg s"
    if "breaker_init s \<and> 0 < failureThreshold cfg" for s
    using that by (cases s) (auto simp: breaker_init_def breaker_inv_def new_breaker_def)
  show "0 < failureThreshold cfg \<and> breaker_inv cfg t"
    if "0 < failureThreshold cfg \<and> breaker_inv cfg s" "breaker_step cfg s t" for s t
    using that by (cases s) (auto elim!: breaker_stepE intro: inv_apply_op breaker_inv_mono)
qed

text \<open>C8: In every state any interleaving of calls can reach from a new breaker, a closed circuit has
  no opening time and fewer consecutive failures than the threshold, an open circuit knows when it
  opened and has no probe in flight, and no recorded event lies in the future.\<close>

theorem breaker_reachable_inv:
  assumes "0 < failureThreshold cfg" "(breaker_step cfg)\<^sup>*\<^sup>* (t0, new_breaker) (now, b)"
  shows "(state b = CLOSED \<longrightarrow> openedAt b = None \<and> of_nat (consecutiveFailures b) < failureThreshold cfg) \<and>
    (state b = OPEN \<longrightarrow> (\<exists>t \<le> now. openedAt b = Some t) \<and> \<not> halfOpenInFlight b) \<and>
    (\<forall>e \<in> set (rollingEvents b). timestamp e \<le> now)"
  using breaker_sys.inv_reachable [of "(t0, new_breaker)" cfg "(now, b)"] assms
  by (auto simp: breaker_init_def breaker_inv_def)

definition sample_config :: breaker_config where
  "sample_config = \<lparr>failureThreshold = 2, failureRateThreshold = 50, cooldownMs = 30000,
    windowMs = 60000, minRequestsForRate = 5, autoProbe = True, probeFn = False,
    suppressProbe = False\<rparr>"

theorem breaker_reachable_inv_witness:
  "(state (snd (5 :: instant, transitionToOpen sample_config 5 new_breaker)) = OPEN) \<and>
   (\<exists>t \<le> 5. openedAt (transitionToOpen sample_config 5 new_breaker) = Some t)"
proof -
  let ?b = "transitionToOpen sample_config 5 new_breaker"
  have "breaker_step sample_config (0, new_breaker) (5, apply_op sample_config 5 Op_openCircuit new_breaker)"
    by (rule breaker_step.op) simp
  then have r: "(breaker_step sample_config)\<^sup>*\<^sup>* (0, new_breaker) (5, ?b)" by simp
  have th: "0 < failureThreshold sample_config" by (simp add: sample_config_def)
  have st: "state ?b = OPEN" by (simp add: transition_defs sample_config_def)
  then show ?thesis using breaker_reachable_inv [OF th r] by simp
qed

section \<open>Tripping, rejecting, recovering\<close>

lemma state_transitionToOpen [simp]: "state (transitionToOpen cfg now b) = OPEN"
  by (simp add: transition_defs Let_def)

lemma recordFailure_not_closed: "state b \<noteq> CLOSED \<Longrightarrow> state (recordFailure cfg now b) = OPEN"
  by (cases "state b") (simp_all add: recordFailure_def cleanRollingWindow_def Let_def)

lemma recordFailure_closed:
  assumes "state b = CLOSED"
  shows "state (recordFailure cfg now b) = OPEN \<or>
    (state (recordFailure cfg now b) = CLOSED \<and>
     consecutiveFailures (recordFailure cfg now b) = consecutiveFailures b + 1 \<and>
     of_nat (consecutiveFailures b + 1) < failureThreshold cfg)"
  using assms
  by (auto simp: recordFailure_def cleanRollingWindow_def getFailureRate_def Let_def not_le)

definition record_failures :: "breaker_config \<Rightarrow> instant list \<Rightarrow> breaker \<Rightarrow> breaker" where
  "record_failures cfg ts b = foldl (\<lambda>b t. recordFailure cfg t b) b ts"

lemma record_failures_open: "state b = OPEN \<Longrightarrow> state (record_failures cfg ts b) = OPEN"
proof (induction ts arbitrary: b)
  case (Cons t ts)
  then show ?case using recordFailure_not_closed [of b cfg t] by (simp add: record_failures_def)
qed (simp add: record_failures_def)

text \<open>Whatever the state and the history of the breaker, as many failures in a row as the
  threshold open the circuit (or find it open already).\<close>

theorem consecutive_failures_open:
  assumes "failureThreshold cfg \<le> of_nat (length ts)" "ts \<noteq> []"
  shows "state (record_failures cfg ts b) = OPEN"
proof -
  have "state (record_failures cfg ts b) = OPEN"
    if "failureThreshold cfg \<le> of_nat (consecutiveFailures b + length ts)" "ts \<noteq> []" for ts b
    using that
  proof (induction ts arbitrary: b)
    case (Cons t ts)
    let ?b = "recordFailure cfg t b"
    show ?case
    proof (cases "state ?b = OPEN")
      case True
      then show ?thesis using record_failures_open [of ?b cfg ts] by (simp add: record_failures_def)
    next
      case False
      then have "state b = CLOSED" using recordFailure_not_closed by blast
      with recordFailure_closed [of b cfg t] False
      have b': "consecutiveFailures ?b = consecutiveFailures b + 1"
        and lt: "of_nat (consecutiveFailures b + 1) < failureThreshold cfg" by auto
      have "ts \<noteq> []" using Cons.prems(1) lt by (cases ts) auto
      moreover have "failureThreshold cfg \<le> of_nat (consecutiveFailures ?b + length ts)"
        using Cons.prems(1) b' by simp
      ultimately have "state (record_failures cfg ts ?b) = OPEN" by (intro Cons.IH)
      then show ?thesis by (simp add: record_failures_def)
    qed
  qed simp
  moreover have "failureThreshold cfg \<le> of_nat (consecutiveFailures b + length ts)"
    using assms(1) by (simp add: add_increasing)
  ultimately show ?thesis using assms(2) by blast
qed

theorem consecutive_failures_open_witness:
  "state (record_failures sample_config [10, 20] new_breaker) = OPEN"
  by (rule consecutive_failures_open) (simp_all add: sample_config_def)

text \<open>While the circuit is open and cooling down, a guarded call fails at once with a positive
  retry delay: the action is not run (the breaker it would get is irrelevant) and the breaker does
  not change. The same holds in a half-open circuit whose probe is in flight.\<close>

theorem execute_fast_fail:
  assumes "(state b = OPEN \<and> openedAt b = Some t \<and> of_int (t0 - t) < cooldownMs cfg) \<or>
    (state b = HALF_OPEN \<and> halfOpenInFlight b)"
  shows "\<exists>r \<ge> 1. execute cfg t0 action t1 b = (Inl (Circuit_open r), b)"
proof -
  have "getState cfg t0 b = (state b, b)" using assms by (auto simp: getState_def Let_def)
  moreover have "1 \<le> reject_open cfg t0 b" by (simp add: reject_open_def open_error_retry_after_def)
  ultimately show ?thesis using assms by (auto simp: execute_def execute_admit_def)
qed

theorem execute_fast_fail_witness:
  "\<exists>r \<ge> 1. execute sample_config 20 (\<lambda>b. (Inr (), b)) 21 (new_breaker\<lparr>state := OPEN, openedAt := Some 10\<rparr>) =
    (Inl (Circuit_open r) :: unit call_error + unit, new_breaker\<lparr>state := OPEN, openedAt := Some 10\<rparr>)"
  by (rule execute_fast_fail [where t = 10]) (simp add: sample_config_def new_breaker_def)

text \<open>C18: Recovery: from every reachable open state, once the cooldown has elapsed the next guarded
  call is let through as the probe, and when nothing else touches the breaker meanwhile, a success
  closes the circuit with the failure count cleared and a failure opens it anew from that instant.\<close>

theorem breaker_recovers:
  assumes "0 < failureThreshold cfg" "(breaker_step cfg)\<^sup>*\<^sup>* (s0, new_breaker) (now, b)"
    and "state b = OPEN" "openedAt b = Some t" "cooldownMs cfg \<le> of_int (t0 - t)"
  shows "(\<exists>b'. execute cfg t0 (\<lambda>b. (Inr v, b)) t1 b = (Inr v, b') \<and>
      state b' = CLOSED \<and> consecutiveFailures b' = 0 \<and> openedAt b' = None) \<and>
    (\<exists>b'. execute cfg t0 (\<lambda>b. (Inl e, b)) t1 b = (Inl (Action_failed e), b') \<and>
      state b' = OPEN \<and> openedAt b' = Some t1)"
proof -
  have "\<not> halfOpenInFlight b"
    using breaker_sys.inv_reachable [of "(s0, new_breaker)" cfg "(now, b)"] assms
    by (auto simp: breaker_init_def breaker_inv_def)
  then have admit: "execute_admit cfg t0 b =
      (Inr Admit_probe, (transitionToHalfOpen b)\<lparr>halfOpenInFlight := True, lastProbe := Some t0\<rparr>)"
    using assms by (simp add: execute_admit_def getState_def transitionToHalfOpen_def)
  show ?thesis
    by (simp add: execute_def admit execute_settle_def recordSuccess_def recordFailure_def
        cleanRollingWindow_def transition_defs Let_def)
qed

lemma sample_open_reachable:
  "(breaker_step sample_config)\<^sup>*\<^sup>* (0, new_breaker) (5, transitionToOpen sample_config 5 new_breaker)"
  using breaker_step.op [of 0 5 sample_config new_breaker Op_openCircuit] by simp

theorem breaker_recovers_witness:
  "(\<exists>b'. execute sample_config 40000 (\<lambda>b. (Inr (), b)) 40100 (transitionToOpen sample_config 5 new_breaker) =
      (Inr () :: unit call_error + unit, b') \<and>
      state b' = CLOSED \<and> consecutiveFailures b' = 0 \<and> openedAt b' = None) \<and>
   (\<exists>b'. execute sample_config 40000 (\<lambda>b. (Inl (), b)) 40100 (transitionToOpen sample_config 5 new_breaker) =
      (Inl (Action_failed ()) :: unit call_error + unit, b') \<and>
      state b' = OPEN \<and> openedAt b' = Some 40100)"
  by (rule breaker_recovers [OF _ sample_open_reachable, where t = 5])
    (simp_all add: sample_config_def transition_defs)

text \<open>The failure rate compared with the threshold is a percentage: the double rounding of
  \<open>Math.round(failures / length * 100)\<close> never leaves \<open>0..100\<close>.\<close>

theorem failure_rate_percent: "0 \<le> failure_rate events \<and> failure_rate events \<le> 100"
proof (cases "events = []")
  case True
  then show ?thesis by (simp add: failure_rate_def)
next
  case False
  let ?f = "length (filter (\<lambda>e. \<not> success e) events)" and ?n = "length events"
  let ?q = "of_nat ?f / of_nat ?n :: rat"
  have q: "0 \<le> ?q" "?q \<le> of_int 1"
    using False length_filter_le [of "\<lambda>e. \<not> success e" events] by (simp_all add: divide_le_eq)
  have "0 \<le> fl ?q" using q by (intro fl_nonneg)
  moreover have "fl ?q \<le> of_int 1" using q by (intro fl_le_int) simp_all
  ultimately have p: "0 \<le> fl ?q * 100" "fl ?q * 100 \<le> of_int 100" by simp_all
  have "of_int 0 \<le> fl (fl ?q * 100)" using fl_nonneg [OF p(1)] by simp
  moreover have "fl (fl ?q * 100) \<le> of_int 100" by (rule fl_le_int [OF p]) simp
  ultimately have "0 \<le> js_round (fl (fl ?q * 100)) \<and> js_round (fl (fl ?q * 100)) \<le> 100"
    by (intro conjI js_round_bounds)
  then show ?thesis using False by (simp add: failure_rate_def)
qed

end
