(* ===== verification/Audit_Log.thy ===== *)
theory Audit_Log
  imports Js_Values
begin

text \<open>
  The two audit trails the services write to: \<open>AuditEvent\<close> rows (\<open>src/utils/audit.utils.ts\<close>) and
  \<open>AuditLog\<close> rows (\<open>src/modules/admin/audit-log.service.ts\<close>). Both writers swallow a failed insert;
  the model takes the inserts to succeed. Metadata is kept as a JSON value.
\<close>

record audit_event =
  ae_actor :: string
  ae_action :: string
  ae_target :: string
  ae_targetId :: string
  ae_metadata :: js_value

record audit_entry =
  al_actorWallet :: string
  al_actionType :: string
  al_targetId :: string
  al_payload :: js_value

record audit =
  auditEvents :: "audit_event list"
  auditLog :: "audit_entry list"

definition emitAuditEvent :: "string \<Rightarrow> string \<Rightarrow> string \<Rightarrow> string \<Rightarrow> js_value \<Rightarrow> audit \<Rightarrow> audit" where
  "emitAuditEvent actor action tgt targetId metadata a =
    a\<lparr>auditEvents := auditEvents a @
      [\<lparr>ae_actor = actor, ae_action = action, ae_target = tgt, ae_targetId = targetId,
        ae_metadata = metadata\<rparr>]\<rparr>"

definition createAuditEntry :: "string \<Rightarrow> string \<Rightarrow> string \<Rightarrow> js_value \<Rightarrow> audit \<Rightarrow> audit" where
  "createAuditEntry actorWallet actionType targetId payload a =
    a\<lparr>auditLog := auditLog a @
      [\<lparr>al_actorWallet = actorWallet, al_actionType = actionType, al_targetId = targetId,
        al_payload = payload\<rparr>]\<rparr>"

text \<open>The pair of writes every admin operation makes.\<close>

definition audit_both ::
  "string \<Rightarrow> string \<Rightarrow> string \<Rightarrow> string \<Rightarrow> js_value \<Rightarrow> js_value \<Rightarrow> audit \<Rightarrow> audit" where
  "audit_both actor action tgt targetId metadata payload a =
    createAuditEntry actor action targetId payload (emitAuditEvent actor action tgt targetId metadata a)"

end
