(* ===== verification/Multisig.thy ===== *)
theory Multisig
  imports Audit_Log
begin

text \<open>
  The multi-signature proposal queue of \<open>src/modules/admin/multisig-proposal.service.ts\<close>: proposals
  are created pending, collect signatures of authorized admins, execute when the threshold is met,
  or are rejected. The database is the record \<open>multisig_db\<close>; a Prisma transaction is one step.
  Generated values (row ids, the clock, the random suffix of a proposal id) and the environment
  variable \<open>ADMIN_MULTISIG_WALLETS\<close> are arguments. \<open>executeProposal\<close> only writes a log line in the
  source (its body is a placeholder), so executing changes the status and the audit trails.
\<close>

record proposal =
  p_id :: string
  proposalId :: string
  changeType :: string
  payload :: js_value
  status :: string
  threshold :: int
  totalSigners :: int
  proposedBy :: string
  proposedAt :: instant
  executedAt :: "instant option"
  rejectedAt :: "instant option"
  rejectedBy :: "string option"
  rejectionReason :: "string option"
  createdAt :: instant

record signature =
  s_id :: string
  s_proposalId :: string
  signer :: string
  signedAt :: instant

record multisig_db =
  proposals :: "proposal list"
  signatures :: "signature list"
  trail :: audit

datatype multisig_error =
    Invalid_threshold
  | Invalid_totalSigners
  | Invalid_proposer_address
  | Invalid_signer_address
  | Invalid_rejector_address
  | MultisigProposalNotFoundError string
  | MultisigProposalInvalidStateError string string string
  | MultisigSignerNotAuthorizedError string
  | MultisigDuplicateSignatureError string string
  | Unique_constraint_violation

interpretation proposal_table: keyed_table
  proposalId "find_by proposalId" insert_row "modify_by proposalId" "map proposalId"
  by (rule list_keyed_table)

section \<open>Signers\<close>

definition parseMultisigAdminWallets :: "string option \<Rightarrow> string list" where
  "parseMultisigAdminWallets raw =
    (case raw of
      None \<Rightarrow> []
    | Some s \<Rightarrow>
        if s = [] then []
        else filter (\<lambda>w. length w > 0) (map trim (split_on (CHR '','') s)))"

definition validateStellarAddress :: "string \<Rightarrow> bool" where
  "validateStellarAddress address = stellar_address address"

definition isAuthorizedSigner :: "string option \<Rightarrow> string \<Rightarrow> bool" where
  "isAuthorizedSigner env who =
    (let adminWallets = parseMultisigAdminWallets env
     in if adminWallets = [] then stellar_address who
        else to_lower who \<in> set (map to_lower adminWallets))"

section \<open>Creating\<close>

record proposal_input =
  in_changeType :: string
  in_payload :: js_value
  in_threshold :: "int option"
  in_totalSigners :: "int option"
  in_proposedBy :: string

definition signatures_of :: "string \<Rightarrow> multisig_db \<Rightarrow> signature list" where
  "signatures_of pid db = filter (\<lambda>s. s_proposalId s = pid) (signatures db)"

text \<open>\<open>serializeProposal\<close>: the row with its signatures and their number.\<close>

record proposal_result =
  r_proposal :: proposal
  r_signatures :: "signature list"
  r_approvalCount :: nat

definition serializeProposal :: "proposal \<Rightarrow> signature list \<Rightarrow> proposal_result" where
  "serializeProposal p sigs =
    \<lparr>r_proposal = p\<lparr>payload := (if payload p = Jnull then Jobj [] else payload p)\<rparr>,
     r_signatures = sigs, r_approvalCount = length sigs\<rparr>"

definition createMultisigProposal ::
  "instant \<Rightarrow> string \<Rightarrow> string \<Rightarrow> proposal_input \<Rightarrow> multisig_db \<Rightarrow>
    multisig_error + proposal_result \<times> multisig_db" where
  "createMultisigProposal now rand rowId input db =
    (let th = (case in_threshold input of Some x \<Rightarrow> x | None \<Rightarrow> 2);
         ts = (case in_totalSigners input of Some x \<Rightarrow> x | None \<Rightarrow> 3)
     in if th < 1 \<or> th > ts then Inl Invalid_threshold
        else if ts < 1 then Inl Invalid_totalSigners
        else if \<not> validateStellarAddress (in_proposedBy input) then Inl Invalid_proposer_address
        else
          let pid = ''msig-'' @ show_int now @ ''-'' @ rand;
              p = \<lparr>p_id = rowId, proposalId = pid, changeType = in_changeType input,
                   payload = in_payload input, status = ''pending'', threshold = th,
                   totalSigners = ts, proposedBy = in_proposedBy input, proposedAt = now,
                   executedAt = None, rejectedAt = None, rejectedBy = None,
                   rejectionReason = None, createdAt = now\<rparr>;
              meta = Jobj [(''proposalId'', Jstr pid), (''changeType'', Jstr (in_changeType input)),
                (''payload'', in_payload input), (''threshold'', Jnum (Fin (of_int th))),
                (''totalSigners'', Jnum (Fin (of_int ts)))]
          in if find_by proposalId pid (proposals db) \<noteq> None then Inl Unique_constraint_violation
             else Inr (serializeProposal p [],
               db\<lparr>proposals := insert_row p (proposals db),
                  trail := audit_both (in_proposedBy input) ''multisig_proposal_created''
                    ''MultisigProposal'' pid meta meta (trail db)\<rparr>))"

section \<open>Reading\<close>

definition getMultisigProposalById :: "string \<Rightarrow> multisig_db \<Rightarrow> multisig_error + proposal_result" where
  "getMultisigProposalById pid db =
    (case find_by proposalId pid (proposals db) of
      None \<Rightarrow> Inl (MultisigProposalNotFoundError pid)
    | Some p \<Rightarrow> Inr (serializeProposal p (sort_key signedAt (signatures_of pid db))))"

record queue_page =
  q_items :: "proposal_result list"
  q_page :: int
  q_limit :: int
  q_totalCount :: int
  q_totalPages :: int
  q_hasNextPage :: bool
  q_hasPrevPage :: bool

definition queue_rows :: "string option \<Rightarrow> multisig_db \<Rightarrow> proposal list" where
  "queue_rows st db =
    sort_key (\<lambda>p. - createdAt p)
      (case st of
        None \<Rightarrow> proposals db
      | Some s \<Rightarrow> if s = [] then proposals db else filter (\<lambda>p. status p = s) (proposals db))"

definition getMultisigProposalQueue ::
  "string option \<Rightarrow> int option \<Rightarrow> int option \<Rightarrow> multisig_db \<Rightarrow> queue_page" where
  "getMultisigProposalQueue st page limit db =
    (let safePage = max 1 (case page of Some n \<Rightarrow> n | None \<Rightarrow> 1);
         safeLimit = min 100 (max 1 (case limit of Some n \<Rightarrow> n | None \<Rightarrow> 20));
         skip = (safePage - 1) * safeLimit;
         rows = queue_rows st db;
         found = take (nat safeLimit) (drop (nat skip) rows);
         totalCount = int (length rows);
         totalPages = ceil_div totalCount safeLimit
     in \<lparr>q_items = map (\<lambda>p. serializeProposal p (sort_key signedAt (signatures_of (proposalId p) db))) found,
         q_page = safePage, q_limit = safeLimit, q_totalCount = totalCount,
         q_totalPages = totalPages, q_hasNextPage = safePage < totalPages,
         q_hasPrevPage = safePage > 1\<rparr>)"

section \<open>Signing and rejecting\<close>

record sign_result =
  sr_proposalId :: string
  sr_status :: string
  sr_approvalCount :: int
  sr_threshold :: int
  sr_executed :: bool
  sr_signature :: signature

definition sign_metadata :: "proposal \<Rightarrow> string \<Rightarrow> int \<Rightarrow> bool \<Rightarrow> js_value" where
  "sign_metadata p who approvalCount executed =
    (let counts = [(''approvalCount'', Jnum (Fin (of_int approvalCount))),
                   (''threshold'', Jnum (Fin (of_int (threshold p))))]
     in if executed then
          Jobj ([(''proposalId'', Jstr (proposalId p)), (''changeType'', Jstr (changeType p)),
            (''payload'', payload p), (''finalSigner'', Jstr who)] @ counts)
        else Jobj ([(''proposalId'', Jstr (proposalId p)), (''signer'', Jstr who)] @ counts))"

definition signMultisigProposal ::
  "string option \<Rightarrow> instant \<Rightarrow> string \<Rightarrow> string \<Rightarrow> string \<Rightarrow> multisig_db \<Rightarrow>
    multisig_error + sign_result \<times> multisig_db" where
  "signMultisigProposal env now sigId pid who db =
    (if \<not> validateStellarAddress who then Inl Invalid_signer_address
     else if \<not> isAuthorizedSigner env who then Inl (MultisigSignerNotAuthorizedError who)
     else
       case find_by proposalId pid (proposals db) of
         None \<Rightarrow> Inl (MultisigProposalNotFoundError pid)
       | Some p \<Rightarrow>
           if status p \<noteq> ''pending'' then
             Inl (MultisigProposalInvalidStateError pid (status p) ''sign'')
           else
             let sigs = signatures_of pid db
             in if find (\<lambda>s. to_lower (signer s) = to_lower who) sigs \<noteq> None then
                  Inl (MultisigDuplicateSignatureError pid who)
                else
                  let sig = \<lparr>s_id = sigId, s_proposalId = pid, signer = who, signedAt = now\<rparr>;
                      approvalCount = int (length sigs) + 1;
                      executed = (approvalCount \<ge> threshold p);
                      action = (if executed then ''multisig_proposal_executed''
                                else ''multisig_proposal_signed'');
                      meta = sign_metadata p who approvalCount executed;
                      newStatus = (if executed then ''executed'' else status p)
                  in Inr (\<lparr>sr_proposalId = pid, sr_status = newStatus,
                           sr_approvalCount = approvalCount, sr_threshold = threshold p,
                           sr_executed = executed, sr_signature = sig\<rparr>,
                       db\<lparr>signatures := insert_row sig (signatures db),
                          proposals :=
                            (if executed
                             then modify_by proposalId pid
                               (\<lambda>p. p\<lparr>status := ''executed'', executedAt := Some now\<rparr>) (proposals db)
                             else proposals db),
                          trail := audit_both who action ''MultisigProposal'' pid meta meta (trail db)\<rparr>))"

record reject_result =
  rr_proposalId :: string
  rr_status :: string
  rr_rejectedAt :: instant
  rr_rejectedBy :: string
  rr_rejectionReason :: "string option"

definition rejectMultisigProposal ::
  "string option \<Rightarrow> instant \<Rightarrow> string \<Rightarrow> string \<Rightarrow> string option \<Rightarrow> multisig_db \<Rightarrow>
    multisig_error + reject_result \<times> multisig_db" where
  "rejectMultisigProposal env now pid rejector reason db =
    (if \<not> validateStellarAddress rejector then Inl Invalid_rejector_address
     else if \<not> isAuthorizedSigner env rejector then Inl (MultisigSignerNotAuthorizedError rejector)
     else
       case find_by proposalId pid (proposals db) of
         None \<Rightarrow> Inl (MultisigProposalNotFoundError pid)
       | Some p \<Rightarrow>
           if status p \<noteq> ''pending'' then
             Inl (MultisigProposalInvalidStateError pid (status p) ''reject'')
           else
             let meta = Jobj [(''proposalId'', Jstr pid), (''changeType'', Jstr (changeType p)),
                   (''payload'', payload p), (''rejectedBy'', Jstr rejector),
                   (''reason'', case reason of None \<Rightarrow> Jnull | Some r \<Rightarrow> Jstr r)]
             in Inr (\<lparr>rr_proposalId = pid, rr_status = ''rejected'', rr_rejectedAt = now,
                      rr_rejectedBy = rejector, rr_rejectionReason = reason\<rparr>,
                  db\<lparr>proposals := modify_by proposalId pid
                       (\<lambda>p. p\<lparr>status := ''rejected'', rejectedAt := Some now,
                              rejectedBy := Some rejector, rejectionReason := reason\<rparr>) (proposals db),
                     trail := audit_both rejector ''multisig_proposal_rejected''
                       ''MultisigProposal'' pid meta meta (trail db)\<rparr>))"

section \<open>The queue as a state machine\<close>

inductive multisig_step :: "string option \<Rightarrow> multisig_db \<Rightarrow> multisig_db \<Rightarrow> bool" for env where
  create: "createMultisigProposal now rand rowId input db = Inr (r, db') \<Longrightarrow> multisig_step env db db'"
| sign: "signMultisigProposal env now sigId pid who db = Inr (sr, db') \<Longrightarrow> multisig_step env db db'"
| reject: "rejectMultisigProposal env now pid who reason db = Inr (rr, db') \<Longrightarrow> multisig_step env db db'"

definition multisig_init :: "multisig_db \<Rightarrow> bool" where
  "multisig_init db \<longleftrightarrow> proposals db = [] \<and> signatures db = []"

text \<open>
  What holds of one proposal and its signatures: the signers are authorized and distinct up to
  letter case, and the status agrees with their number.
\<close>

definition proposal_ok :: "string option \<Rightarrow> proposal \<Rightarrow> signature list \<Rightarrow> bool" where
  "proposal_ok env p sigs \<longleftrightarrow>
    1 \<le> threshold p \<and> threshold p \<le> totalSigners p \<and>
    distinct (map (\<lambda>s. to_lower (signer s)) sigs) \<and>
    (\<forall>s \<in> set sigs. stellar_address (signer s) \<and> isAuthorizedSigner env (signer s)) \<and>
    (status p = ''pending'' \<and> int (length sigs) < threshold p \<or>
     status p = ''executed'' \<and> int (length sigs) = threshold p \<and> executedAt p \<noteq> None \<or>
     status p = ''rejected'' \<and> int (length sigs) < threshold p \<and> rejectedAt p \<noteq> None)"

definition multisig_inv :: "string option \<Rightarrow> multisig_db \<Rightarrow> bool" where
  "multisig_inv env db \<longleftrightarrow>
    distinct (map proposalId (proposals db)) \<and>
    (\<forall>s \<in> set (signatures db). find_by proposalId (s_proposalId s) (proposals db) \<noteq> None) \<and>
    (\<forall>pid p. find_by proposalId pid (proposals db) = Some p \<longrightarrow>
      proposal_ok env p (signatures_of pid db))"

lemma signatures_of_fresh:
  "multisig_inv env db \<Longrightarrow> find_by proposalId pid (proposals db) = None \<Longrightarrow> signatures_of pid db = []"
  by (auto simp: multisig_inv_def signatures_of_def filter_empty_conv)

lemma create_inv:
  assumes inv: "multisig_inv env db"
    and ok: "createMultisigProposal now rand rowId input db = Inr (r, db')"
  shows "multisig_inv env db'"
proof -
  from ok obtain p au where db': "db' = db\<lparr>proposals := insert_row p (proposals db), trail := au\<rparr>"
    and fresh: "find_by proposalId (proposalId p) (proposals db) = None"
    and p: "1 \<le> threshold p" "threshold p \<le> totalSigners p" "status p = ''pending''"
    by (auto simp: createMultisigProposal_def Let_def split: if_splits)
  have "proposal_ok env p []" using p by (simp add: proposal_ok_def)
  then show ?thesis
    using inv signatures_of_fresh [OF inv fresh] proposal_table.insert_fresh_distinct [OF fresh]
    by (auto simp: multisig_inv_def db' signatures_of_def proposal_table.lookup_insert_fresh [OF fresh])
qed

lemma signatures_of_sign:
  "signatures_of k (db\<lparr>signatures := insert_row sig (signatures db), proposals := ps, trail := au\<rparr>) =
    signatures_of k db @ (if s_proposalId sig = k then [sig] else [])"
  by (simp add: signatures_of_def filter_insert_row)

lemma sign_okE:
  assumes "signMultisigProposal env now sigId pid who db = Inr (r, db')"
  obtains p au where "find_by proposalId pid (proposals db) = Some p" "status p = ''pending''"
    "stellar_address who" "isAuthorizedSigner env who"
    "\<forall>s \<in> set (signatures_of pid db). to_lower (signer s) \<noteq> to_lower who"
    "db' = db\<lparr>signatures := insert_row
          \<lparr>s_id = sigId, s_proposalId = pid, signer = who, signedAt = now\<rparr> (signatures db),
        proposals := modify_by proposalId pid
          (\<lambda>q. if int (length (signatures_of pid db)) + 1 \<ge> threshold p
            then q\<lparr>status := ''executed'', executedAt := Some now\<rparr> else q) (proposals db),
        trail := au\<rparr>"
proof -
  have same: "modify_by proposalId pid (\<lambda>q. q) ps = ps" for ps :: "proposal list"
    by (simp add: modify_by_def)
  show ?thesis
    using assms that
    by (fastforce simp: signMultisigProposal_def validateStellarAddress_def Let_def find_None_iff same
        split: if_splits option.splits)
qed

lemma sign_inv:
  assumes inv: "multisig_inv env db"
    and ok: "signMultisigProposal env now sigId pid who db = Inr (r, db')"
  shows "multisig_inv env db'"
proof -
  from ok obtain p au where p: "find_by proposalId pid (proposals db) = Some p" "status p = ''pending''"
    and who: "stellar_address who" "isAuthorizedSigner env who"
    and dup: "\<forall>s \<in> set (signatures_of pid db). to_lower (signer s) \<noteq> to_lower who"
    and db': "db' = db\<lparr>signatures := insert_row
          \<lparr>s_id = sigId, s_proposalId = pid, signer = who, signedAt = now\<rparr> (signatures db),
        proposals := modify_by proposalId pid
          (\<lambda>q. if int (length (signatures_of pid db)) + 1 \<ge> threshold p
            then q\<lparr>status := ''executed'', executedAt := Some now\<rparr> else q) (proposals db),
        trail := au\<rparr>"
    by (rule sign_okE)
  define sig where "sig = \<lparr>s_id = sigId, s_proposalId = pid, signer = who, signedAt = now\<rparr>"
  define upd :: "proposal \<Rightarrow> proposal" where "upd = (\<lambda>q. if int (length (signatures_of pid db)) + 1 \<ge> threshold p
      then q\<lparr>status := ''executed'', executedAt := Some now\<rparr> else q)"
  have keep: "proposalId (upd q) = proposalId q" for q by (simp add: upd_def)
  have P: "proposals db' = modify_by proposalId pid upd (proposals db)"
    and S: "signatures db' = insert_row sig (signatures db)"
    by (simp_all add: db' upd_def sig_def)
  have sigs: "signatures_of k db' = signatures_of k db @ (if k = pid then [sig] else [])" for k
    unfolding db' by (subst signatures_of_sign) (simp add: sig_def)
  have look: "find_by proposalId k (proposals db') =
      (if k = pid then Some (upd p) else find_by proposalId k (proposals db))" for k
    unfolding P using p(1) by (subst proposal_table.lookup_modify) (auto simp: keep)
  have keys: "map proposalId (proposals db') = map proposalId (proposals db)"
    unfolding P by (rule proposal_table.keys_modify) (simp add: keep)
  have "proposal_ok env p (signatures_of pid db)" using inv p by (simp add: multisig_inv_def)
  then have new: "proposal_ok env (upd p) (signatures_of pid db @ [sig])"
    using p(2) who dup by (auto simp: proposal_ok_def upd_def sig_def)
  have "distinct (map proposalId (proposals db'))"
    using inv by (simp add: keys multisig_inv_def)
  moreover have "\<forall>s \<in> set (signatures db'). find_by proposalId (s_proposalId s) (proposals db') \<noteq> None"
    using inv by (simp add: S look multisig_inv_def sig_def)
  moreover have "\<forall>k q. find_by proposalId k (proposals db') = Some q \<longrightarrow>
      proposal_ok env q (signatures_of k db')"
    using inv new by (simp add: look sigs multisig_inv_def)
  ultimately show ?thesis unfolding multisig_inv_def by blast
qed

lemma reject_okE:
  assumes "rejectMultisigProposal env now pid who reason db = Inr (r, db')"
  obtains p au where "find_by proposalId pid (proposals db) = Some p" "status p = ''pending''"
    "db' = db\<lparr>proposals := modify_by proposalId pid
        (\<lambda>p. p\<lparr>status := ''rejected'', rejectedAt := Some now, rejectedBy := Some who,
          rejectionReason := reason\<rparr>) (proposals db), trail := au\<rparr>"
  using assms by (auto simp: rejectMultisigProposal_def Let_def split: if_splits option.splits)

lemma reject_inv:
  assumes inv: "multisig_inv env db"
    and ok: "rejectMultisigProposal env now pid who reason db = Inr (r, db')"
  shows "multisig_inv env db'"
proof -
  let ?rej = "\<lambda>p. p\<lparr>status := ''rejected'', rejectedAt := Some now, rejectedBy := Some who,
    rejectionReason := reason\<rparr>"
  obtain p au where p: "find_by proposalId pid (proposals db) = Some p" "status p = ''pending''"
    and db': "db' = db\<lparr>proposals := modify_by proposalId pid ?rej (proposals db), trail := au\<rparr>"
    using ok by (rule reject_okE)
  have look: "find_by proposalId k (modify_by proposalId pid ?rej (proposals db)) =
      (if k = pid then Some (?rej p) else find_by proposalId k (proposals db))" for k
    using p(1) by (simp add: proposal_table.lookup_modify)
  have keys: "map proposalId (modify_by proposalId pid ?rej (proposals db)) = map proposalId (proposals db)"
    by (rule proposal_table.keys_modify) simp
  have "proposal_ok env p (signatures_of pid db)" using inv p by (simp add: multisig_inv_def)
  then show ?thesis using inv p
    by (auto simp: multisig_inv_def proposal_ok_def look keys db' signatures_of_def)
qed

interpretation multisig_sys: invariant_system multisig_init "multisig_step env" "multisig_inv env" for env
proof
  show "multisig_inv env db" if "multisig_init db" for db
    using that by (simp add: multisig_init_def multisig_inv_def)
  show "multisig_inv env db'" if "multisig_inv env db" "multisig_step env db db'" for db db'
    using that(2,1) by cases (auto intro: create_inv sign_inv reject_inv)
qed

section \<open>Properties\<close>

inductive_cases multisig_stepE: "multisig_step env db db'"

lemma step_keeps_decided:
  assumes "multisig_step env db db'" "find_by proposalId pid (proposals db) = Some p"
    "status p \<noteq> ''pending''"
  shows "find_by proposalId pid (proposals db') = Some p \<and> signatures_of pid db' = signatures_of pid db"
  using assms(1)
proof (rule multisig_stepE)
  fix now rand rowId input r
  assume "createMultisigProposal now rand rowId input db = Inr (r, db')"
  then obtain q au where "db' = db\<lparr>proposals := insert_row q (proposals db), trail := au\<rparr>"
    and "find_by proposalId (proposalId q) (proposals db) = None"
    by (auto simp: createMultisigProposal_def Let_def split: if_splits)
  then show ?thesis using assms(2)
    by (auto simp: signatures_of_def proposal_table.lookup_insert_fresh)
next
  fix now sigId k who r
  assume "signMultisigProposal env now sigId k who db = Inr (r, db')"
  then obtain q au where q: "find_by proposalId k (proposals db) = Some q" "status q = ''pending''"
    and db': "db' = db\<lparr>signatures := insert_row
          \<lparr>s_id = sigId, s_proposalId = k, signer = who, signedAt = now\<rparr> (signatures db),
        proposals := modify_by proposalId k
          (\<lambda>p. if int (length (signatures_of k db)) + 1 \<ge> threshold q
            then p\<lparr>status := ''executed'', executedAt := Some now\<rparr> else p) (proposals db),
        trail := au\<rparr>"
    by (rule sign_okE)
  from q assms have "pid \<noteq> k" by auto
  then show ?thesis using assms(2) unfolding db'
    by (subst signatures_of_sign) (simp add: proposal_table.lookup_modify)
next
  fix now k who reason r
  assume "rejectMultisigProposal env now k who reason db = Inr (r, db')"
  then obtain q au where q: "find_by proposalId k (proposals db) = Some q" "status q = ''pending''"
    and db': "db' = db\<lparr>proposals := modify_by proposalId k
        (\<lambda>p. p\<lparr>status := ''rejected'', rejectedAt := Some now, rejectedBy := Some who,
          rejectionReason := reason\<rparr>) (proposals db), trail := au\<rparr>"
    by (rule reject_okE)
  from q assms have "pid \<noteq> k" by auto
  then show ?thesis using assms(2)
    by (simp add: db' signatures_of_def proposal_table.lookup_modify)
qed

text \<open>Signing a proposal by several wallets in turn.\<close>

fun sign_all ::
  "string option \<Rightarrow> instant \<Rightarrow> string \<Rightarrow> string list \<Rightarrow> multisig_db \<Rightarrow> multisig_error + multisig_db" where
  "sign_all env now pid [] db = Inr db"
| "sign_all env now pid (w # ws) db =
    and_then (signMultisigProposal env now w pid w db) (\<lambda>(r, db'). sign_all env now pid ws db')"

lemma sign_ok:
  assumes "stellar_address who" "isAuthorizedSigner env who"
    "find_by proposalId pid (proposals db) = Some p" "status p = ''pending''"
    "\<forall>s \<in> set (signatures_of pid db). to_lower (signer s) \<noteq> to_lower who"
  shows "\<exists>r db'. signMultisigProposal env now sigId pid who db = Inr (r, db')"
  using assms by (simp add: signMultisigProposal_def validateStellarAddress_def Let_def find_None_iff)

lemma sign_effect:
  assumes "signMultisigProposal env now sigId pid who db = Inr (r, db')"
    "find_by proposalId pid (proposals db) = Some p"
  shows "find_by proposalId pid (proposals db') =
      Some (if threshold p \<le> int (length (signatures_of pid db)) + 1
        then p\<lparr>status := ''executed'', executedAt := Some now\<rparr> else p)"
    and "\<exists>s. signer s = who \<and> signatures_of pid db' = signatures_of pid db @ [s]"
proof -
  from assms(1) obtain q au where q: "find_by proposalId pid (proposals db) = Some q"
    and db': "db' = db\<lparr>signatures := insert_row
          \<lparr>s_id = sigId, s_proposalId = pid, signer = who, signedAt = now\<rparr> (signatures db),
        proposals := modify_by proposalId pid
          (\<lambda>p. if int (length (signatures_of pid db)) + 1 \<ge> threshold q
            then p\<lparr>status := ''executed'', executedAt := Some now\<rparr> else p) (proposals db),
        trail := au\<rparr>"
    by (rule sign_okE)
  have [simp]: "q = p" using q assms(2) by simp
  show "find_by proposalId pid (proposals db') =
      Some (if threshold p \<le> int (length (signatures_of pid db)) + 1
        then p\<lparr>status := ''executed'', executedAt := Some now\<rparr> else p)"
    using assms(2) by (simp add: db' proposal_table.lookup_modify)
  show "\<exists>s. signer s = who \<and> signatures_of pid db' = signatures_of pid db @ [s]"
    unfolding db' by (subst signatures_of_sign) simp
qed

lemma sign_all_executes:
  assumes "find_by proposalId pid (proposals db) = Some p" "status p = ''pending''"
    "distinct (map to_lower ws)" "\<forall>w \<in> set ws. stellar_address w \<and> isAuthorizedSigner env w"
    "\<forall>s \<in> set (signatures_of pid db). to_lower (signer s) \<notin> to_lower ` set ws"
    "ws \<noteq> []" "int (length (signatures_of pid db)) + int (length ws) = threshold p"
  shows "\<exists>db'. sign_all env now pid ws db = Inr db' \<and>
    find_by proposalId pid (proposals db') = Some (p\<lparr>status := ''executed'', executedAt := Some now\<rparr>)"
  using assms
proof (induction ws arbitrary: db)
  case Nil
  then show ?case by blast
next
  case (Cons w ws)
  have "\<exists>r db'. signMultisigProposal env now w pid w db = Inr (r, db')"
    by (rule sign_ok [OF _ _ Cons.prems(1,2)]) (use Cons.prems(4,5) in auto)
  then obtain r db1 where s: "signMultisigProposal env now w pid w db = Inr (r, db1)"
    by blast
  note eff = sign_effect [OF s Cons.prems(1)]
  show ?case
  proof (cases "ws = []")
    case True
    then show ?thesis using Cons.prems(7) s eff(1) by simp
  next
    case False
    then have "length ws > 0" by (rule length_greater_0_conv [THEN iffD2])
    then have below: "\<not> threshold p \<le> int (length (signatures_of pid db)) + 1"
      using Cons.prems(7) unfolding list.size by linarith
    have "\<exists>db'. sign_all env now pid ws db1 = Inr db' \<and>
      find_by proposalId pid (proposals db') = Some (p\<lparr>status := ''executed'', executedAt := Some now\<rparr>)"
      by (rule Cons.IH) (use Cons.prems False eff below in auto)
    then show ?thesis by (simp add: s)
  qed
qed


lemma queue_pages:
  assumes "0 < n"
  shows "concat (map (\<lambda>i. map f (take n (drop (i * n) xs))) [0..<k]) = map f (take (k * n) xs)"
proof (induction k)
  case (Suc k)
  have "take (Suc k * n) xs = take (k * n) xs @ take n (drop (k * n) xs)"
    by (subst take_add [symmetric]) (simp add: add.commute)
  then show ?case by (simp add: Suc)
qed simp


text \<open>A decided proposal is final: once executed or rejected, no later sequence of operations
  changes its row or its signatures.\<close>

theorem decided_proposal_final:
  assumes "find_by proposalId pid (proposals db) = Some p" "status p \<noteq> ''pending''"
    and "(multisig_step env)\<^sup>*\<^sup>* db db'"
  shows "getMultisigProposalById pid db' = getMultisigProposalById pid db"
proof -
  from assms(3) have "find_by proposalId pid (proposals db') = Some p \<and> signatures_of pid db' = signatures_of pid db"
    by (induction rule: rtranclp_induct) (use assms(1,2) step_keeps_decided in auto)
  then show ?thesis using assms(1) by (simp add: getMultisigProposalById_def)
qed

text \<open>C17: The queue makes progress: if the missing number of further authorized wallets, distinct up to
  letter case and from the earlier signers, sign a pending proposal one after another, every call
  succeeds and the last one executes the proposal.\<close>

theorem quorum_of_signers_executes:
  assumes "find_by proposalId pid (proposals db) = Some p" "status p = ''pending''"
    and "distinct (map to_lower ws)" "\<forall>w \<in> set ws. stellar_address w \<and> isAuthorizedSigner env w"
    and "\<forall>s \<in> set (signatures_of pid db). to_lower (signer s) \<notin> to_lower ` set ws"
    and "ws \<noteq> []" "int (length (signatures_of pid db)) + int (length ws) = threshold p"
  shows "\<exists>db'. sign_all env now pid ws db = Inr db' \<and>
    find_by proposalId pid (proposals db') = Some (p\<lparr>status := ''executed'', executedAt := Some now\<rparr>)"
  using assms by (rule sign_all_executes)

text \<open>Reading the queue page by page returns every matching proposal exactly once: the pages
  1..totalPages, for any requested page size, concatenate to the whole filtered queue in order, and
  exactly the last page says there is no next one.\<close>

theorem queue_pages_tile:
  "concat (map (\<lambda>i. q_items (getMultisigProposalQueue st (Some (int i + 1)) per db))
      [0..<nat (q_totalPages (getMultisigProposalQueue st None per db))]) =
    map (\<lambda>p. serializeProposal p (sort_key signedAt (signatures_of (proposalId p) db)))
      (queue_rows st db) \<and>
    (\<forall>i. q_hasNextPage (getMultisigProposalQueue st (Some (int i + 1)) per db) \<longleftrightarrow>
      int i + 1 < q_totalPages (getMultisigProposalQueue st None per db))"
proof -
  define rows where "rows = queue_rows st db"
  define n where "n = min 100 (max 1 (case per of Some n \<Rightarrow> n | None \<Rightarrow> (20::int)))"
  define f where "f = (\<lambda>p. serializeProposal p (sort_key signedAt (signatures_of (proposalId p) db)))"
  have n: "0 < n" "0 < nat n" by (simp_all add: n_def split: option.split)
  have skip: "nat (int i * n) = i * nat n" for i using n by (simp add: nat_mult_distrib)
  have items: "q_items (getMultisigProposalQueue st (Some (int i + 1)) per db) =
      map f (take (nat n) (drop (i * nat n) rows))" for i
    by (simp add: getMultisigProposalQueue_def Let_def n_def [symmetric] f_def rows_def skip)
  have pages: "q_totalPages (getMultisigProposalQueue st pg per db) = ceil_div (int (length rows)) n" for pg
    by (simp add: getMultisigProposalQueue_def Let_def n_def [symmetric] rows_def)
  have "int (length rows) \<le> ceil_div (int (length rows)) n * n" by (rule ceil_div_covers(1) [OF n(1)])
  then have "length rows \<le> nat (ceil_div (int (length rows)) n) * nat n"
    using n by (simp add: nat_mult_distrib [symmetric] ceil_div_nonneg le_nat_iff)
  then have "concat (map (\<lambda>i. map f (take (nat n) (drop (i * nat n) rows)))
      [0..<nat (ceil_div (int (length rows)) n)]) = map f rows"
    by (simp add: queue_pages n)
  moreover have "q_hasNextPage (getMultisigProposalQueue st (Some (int i + 1)) per db) \<longleftrightarrow>
      int i + 1 < ceil_div (int (length rows)) n" for i
    by (simp add: getMultisigProposalQueue_def Let_def n_def [symmetric] rows_def)
  ultimately show ?thesis by (simp add: items pages f_def [symmetric] rows_def)
qed

section \<open>Witnesses\<close>

definition example_wallet :: "char \<Rightarrow> string" where
  "example_wallet c = CHR ''G'' # replicate 55 c"

definition example_input :: proposal_input where
  "example_input = \<lparr>in_changeType = ''fee'', in_payload = Jnull, in_threshold = None,
    in_totalSigners = None, in_proposedBy = example_wallet (CHR ''A'')\<rparr>"

definition empty_db :: multisig_db where
  "empty_db = \<lparr>proposals = [], signatures = [], trail = \<lparr>auditEvents = [], auditLog = []\<rparr>\<rparr>"

definition after_create :: multisig_db where
  "after_create = snd (projr (createMultisigProposal 5 ''abc'' ''r1'' example_input empty_db))"

definition after_sign :: multisig_db where
  "after_sign = snd (projr (signMultisigProposal None 6 ''s1'' ''msig-5-abc''
    (example_wallet (CHR ''A'')) after_create))"

definition after_execute :: multisig_db where
  "after_execute = snd (projr (signMultisigProposal None 7 ''s2'' ''msig-5-abc''
    (example_wallet (CHR ''B'')) after_sign))"

lemma Inr_projr: "is_ok r \<Longrightarrow> r = Inr (fst (projr r), snd (projr r))"
  by (cases r) auto

lemma example_run: "(multisig_step None)\<^sup>*\<^sup>* empty_db after_execute"
proof -
  have "is_ok (createMultisigProposal 5 ''abc'' ''r1'' example_input empty_db)" by code_simp
  then have 1: "multisig_step None empty_db after_create"
    unfolding after_create_def by (rule multisig_step.create [OF Inr_projr])
  have "is_ok (signMultisigProposal None 6 ''s1'' ''msig-5-abc'' (example_wallet (CHR ''A'')) after_create)"
    by code_simp
  then have 2: "multisig_step None after_create after_sign"
    unfolding after_sign_def by (rule multisig_step.sign [OF Inr_projr])
  have "is_ok (signMultisigProposal None 7 ''s2'' ''msig-5-abc'' (example_wallet (CHR ''B'')) after_sign)"
    by code_simp
  then have 3: "multisig_step None after_sign after_execute"
    unfolding after_execute_def by (rule multisig_step.sign [OF Inr_projr])
  from 1 2 3 show ?thesis by (meson converse_rtranclp_into_rtranclp rtranclp.rtrancl_refl)
qed

lemma example_lookup:
  "find_by proposalId ''msig-5-abc'' (proposals after_execute) \<noteq> None"
  by code_simp


definition after_second :: multisig_db where
  "after_second = snd (projr (createMultisigProposal 8 ''xyz'' ''r2'' example_input after_execute))"

lemma example_second: "(multisig_step None)\<^sup>*\<^sup>* after_execute after_second"
proof -
  have "is_ok (createMultisigProposal 8 ''xyz'' ''r2'' example_input after_execute)" by code_simp
  then have "multisig_step None after_execute after_second"
    unfolding after_second_def by (rule multisig_step.create [OF Inr_projr])
  then show ?thesis by blast
qed

theorem decided_proposal_final_witness:
  "length (proposals after_second) = 2 \<and>
    getMultisigProposalById ''msig-5-abc'' after_second = getMultisigProposalById ''msig-5-abc'' after_execute"
proof -
  obtain p where p: "find_by proposalId ''msig-5-abc'' (proposals after_execute) = Some p"
    using example_lookup by blast
  have "status (the (find_by proposalId ''msig-5-abc'' (proposals after_execute))) \<noteq> ''pending''"
    by code_simp
  then have s: "status p \<noteq> ''pending''" by (simp add: p)
  have "length (proposals after_second) = 2" by code_simp
  then show ?thesis using decided_proposal_final [OF p s example_second] by simp
qed

theorem quorum_of_signers_executes_witness:
  "\<exists>db'. sign_all None 9 ''msig-5-abc'' [example_wallet (CHR ''A''), example_wallet (CHR ''B'')] after_create = Inr db' \<and>
    map_option status (find_by proposalId ''msig-5-abc'' (proposals db')) = Some ''executed''"
proof -
  have "find_by proposalId ''msig-5-abc'' (proposals after_create) \<noteq> None" by code_simp
  then obtain p where p: "find_by proposalId ''msig-5-abc'' (proposals after_create) = Some p" by blast
  have "status (the (find_by proposalId ''msig-5-abc'' (proposals after_create))) = ''pending''"
    and "threshold (the (find_by proposalId ''msig-5-abc'' (proposals after_create))) = 2"
    by code_simp+
  then have q: "status p = ''pending''" "threshold p = 2" by (simp_all add: p)
  have d: "distinct (map to_lower [example_wallet (CHR ''A''), example_wallet (CHR ''B'')])" by code_simp
  have a: "\<forall>w \<in> set [example_wallet (CHR ''A''), example_wallet (CHR ''B'')].
      stellar_address w \<and> isAuthorizedSigner None w" by code_simp
  have s: "signatures_of ''msig-5-abc'' after_create = []" by code_simp
  show ?thesis
    using quorum_of_signers_executes [OF p q(1) d a, where now = 9] by (auto simp: s q(2))
qed

end
