(* ===== verification/Decimal_Lib.thy ===== *)
theory Decimal_Lib
  imports Js_Values
begin

text \<open>
  The two conversions of the Decimal library of \<open>@prisma/client\<close> that the services use on
  \<open>Decimal\<close> columns: \<open>dec_text\<close> is \<open>String(d)\<close>, \<open>dec_parse\<close> is \<open>new Decimal(text)\<close>. A column holds
  the rational number itself; the library is an argument of the definitions that convert.
\<close>

record decimal_lib =
  dec_text :: "rat \<Rightarrow> string"
  dec_parse :: "string \<Rightarrow> rat"

text \<open>
  Documented behaviour on whole numbers: below \<open>10^21\<close> they print as plain digits, and plain digits
  parse to the number they denote.
\<close>

definition decimal_plain :: "decimal_lib \<Rightarrow> bool" where
  "decimal_plain dec \<longleftrightarrow> (\<forall>n::int. 0 \<le> n \<and> n < 10 ^ 21 \<longrightarrow>
    dec_text dec (of_int n) = show_int n \<and> dec_parse dec (show_int n) = of_int n)"

text \<open>A library with this behaviour, for concrete runs.\<close>

definition floor_decimals :: decimal_lib where
  "floor_decimals = \<lparr>dec_text = (\<lambda>r. show_int \<lfloor>r\<rfloor>),
    dec_parse = (\<lambda>t. case read_int t of Some n \<Rightarrow> of_int n | None \<Rightarrow> 0)\<rparr>"

lemma floor_decimals_plain: "decimal_plain floor_decimals"
  by (simp add: decimal_plain_def floor_decimals_def)

end
