(* ===== verification/Pagination.thy ===== *)
theory Pagination
  imports Prelude Complex_Main
begin

text \<open>
  The pagination helpers of \<open>src/utils/pagination.utils.ts\<close>: page and offset metadata, the cursor
  query helper, and the over-fetch envelope. Numbers are rationals where the code takes their
  floor; counts stay below \<open>2^53\<close>, so \<open>Math.ceil\<close> of a quotient of counts is \<open>ceil_div\<close>.
\<close>

section \<open>Page and offset metadata\<close>

record pagination_meta =
  page :: int
  pageSize :: int
  totalItems :: int
  totalPages :: int
  hasNextPage :: bool
  hasPreviousPage :: bool

definition buildPaginationMeta :: "rat \<Rightarrow> rat \<Rightarrow> rat \<Rightarrow> pagination_meta" where
  "buildPaginationMeta pg sz items =
    (let safePageSize = max 1 \<lfloor>sz\<rfloor>;
         safeTotalItems = max 0 \<lfloor>items\<rfloor>;
         pages = ceil_div safeTotalItems safePageSize;
         safePage = (if pages = 0 then 1 else min pages (max 1 \<lfloor>pg\<rfloor>))
     in \<lparr>page = safePage, pageSize = safePageSize, totalItems = safeTotalItems,
         totalPages = pages, hasNextPage = safePage < pages, hasPreviousPage = safePage > 1\<rparr>)"

record offset_meta =
  limit :: int
  offset :: int
  totalRows :: int
  hasMore :: bool
  searchTerm :: "string option"

definition buildOffsetPaginationMeta :: "rat \<Rightarrow> rat \<Rightarrow> rat \<Rightarrow> string option \<Rightarrow> offset_meta" where
  "buildOffsetPaginationMeta lim' off items search =
    (let safeLimit = max 1 \<lfloor>lim'\<rfloor>;
         safeOffset = max 0 \<lfloor>off\<rfloor>;
         safeTotal = max 0 \<lfloor>items\<rfloor>
     in \<lparr>limit = safeLimit, offset = safeOffset, totalRows = safeTotal,
         hasMore = safeOffset + safeLimit < safeTotal, searchTerm = search\<rparr>)"

section \<open>Cursor pages\<close>

text \<open>The arguments a cursor query gets; \<open>skip\<close> is 0 when absent.\<close>

record 'k query_args =
  take_rows :: nat
  skip_rows :: nat
  cursor :: "'k option"

record ('r, 'k) cursor_page =
  page_data :: "'r list"
  nextCursor :: "'k option"
  page_hasMore :: bool

definition paginateQuery ::
  "('r \<Rightarrow> 'k) \<Rightarrow> ('k query_args \<Rightarrow> 'r list) \<Rightarrow> 'k option \<Rightarrow> nat \<Rightarrow> ('r, 'k) cursor_page" where
  "paginateQuery getCursor query cur lim' =
    (let args = (case cur of
           None \<Rightarrow> \<lparr>take_rows = lim' + 1, skip_rows = 0, cursor = None\<rparr>
         | Some k \<Rightarrow> \<lparr>take_rows = lim' + 1, skip_rows = 1, cursor = Some k\<rparr>);
         results = query args;
         more = length results > lim';
         data = (if more then take lim' results else results)
     in \<lparr>page_data = data,
         nextCursor = (if data \<noteq> [] \<and> more then Some (getCursor (last data)) else None),
         page_hasMore = more\<rparr>)"

record 'r page_envelope =
  items :: "'r list"
  has_more :: bool
  next_cursor :: "string option"

text \<open>An empty page has no last row: \<open>cursorFn\<close> is then called on \<open>undefined\<close> and throws, which can
  only happen with \<open>limit = 0\<close>; it is the value \<open>Inl ()\<close>.\<close>

definition buildPaginatedResponse :: "'r list \<Rightarrow> nat \<Rightarrow> ('r \<Rightarrow> string) \<Rightarrow> unit + 'r page_envelope" where
  "buildPaginatedResponse rows lim' cursorFn =
    (if length rows > lim' then
       let pg = take lim' rows
       in if pg = [] then Inl ()
          else Inr \<lparr>items = pg, has_more = True, next_cursor = Some (cursorFn (last pg))\<rparr>
     else Inr \<lparr>items = rows, has_more = False, next_cursor = None\<rparr>)"

text \<open>
  What Prisma's \<open>findMany\<close> returns for a cursor on the ordered result \<open>rows\<close>: the window that starts
  at the cursor row, nothing when that row is gone.
\<close>

definition cursor_window :: "('r \<Rightarrow> 'k) \<Rightarrow> 'r list \<Rightarrow> 'k query_args \<Rightarrow> 'r list" where
  "cursor_window key rows args =
    take (take_rows args) (drop (skip_rows args)
      (case cursor args of None \<Rightarrow> rows | Some k \<Rightarrow> dropWhile (\<lambda>r. key r \<noteq> k) rows))"

text \<open>A client that follows \<open>nextCursor\<close> until it is absent.\<close>

fun follow_pages :: "nat \<Rightarrow> ('k option \<Rightarrow> ('r, 'k) cursor_page) \<Rightarrow> 'k option \<Rightarrow> 'r list list option" where
  "follow_pages 0 get cur = None"
| "follow_pages (Suc n) get cur =
    (case nextCursor (get cur) of
      None \<Rightarrow> Some [page_data (get cur)]
    | Some k \<Rightarrow> map_option (\<lambda>ps. page_data (get cur) # ps) (follow_pages n get (Some k)))"

lemma dropWhile_to_key:
  assumes "distinct (map key (xs @ r # ys))"
  shows "dropWhile (\<lambda>x. key x \<noteq> key r) (xs @ r # ys) = r # ys"
  using assms by (induction xs) auto

lemma paginate_window:
  assumes "distinct (map key rows)" "rows = xs @ ys" "0 < n"
    and "cur = (if xs = [] then None else Some (key (last xs)))"
  shows "paginateQuery key (cursor_window key rows) cur n =
    \<lparr>page_data = take n ys,
     nextCursor = (if n < length ys then Some (key (last (xs @ take n ys))) else None),
     page_hasMore = n < length ys\<rparr>"
proof -
  have win: "cursor_window key rows \<lparr>take_rows = Suc n, skip_rows = (if xs = [] then 0 else 1), cursor = cur\<rparr> =
      take (Suc n) ys"
  proof (cases xs rule: rev_cases)
    case (snoc zs r)
    have "dropWhile (\<lambda>x. key x \<noteq> key r) rows = r # ys"
      using dropWhile_to_key [of key zs r ys] assms(1,2) snoc by simp
    then show ?thesis by (simp add: cursor_window_def assms(4) snoc)
  qed (simp add: cursor_window_def assms(2,4))
  show ?thesis
    using win assms(3)
    by (cases "xs = []") (auto simp: paginateQuery_def Let_def assms(4) min_def last_append)
qed

lemma follow_all:
  assumes "distinct (map key rows)" "0 < n"
  shows "rows = xs @ ys \<Longrightarrow> cur = (if xs = [] then None else Some (key (last xs))) \<Longrightarrow> length ys < f \<Longrightarrow>
    \<exists>ps. follow_pages f (\<lambda>c. paginateQuery key (cursor_window key rows) c n) cur = Some ps \<and>
      concat ps = ys \<and> (\<forall>p \<in> set ps. length p \<le> n)"
proof (induction f arbitrary: xs ys cur)
  case (Suc f)
  note page = paginate_window [OF assms(1) Suc.prems(1) assms(2) Suc.prems(2)]
  show ?case
  proof (cases "n < length ys")
    case True
    have "\<exists>ps. follow_pages f (\<lambda>c. paginateQuery key (cursor_window key rows) c n)
        (Some (key (last (xs @ take n ys)))) = Some ps \<and> concat ps = drop n ys \<and> (\<forall>p \<in> set ps. length p \<le> n)"
      by (rule Suc.IH [of "xs @ take n ys"]) (use Suc.prems True assms(2) in auto)
    then show ?thesis using True by (auto simp: page)
  qed (simp add: page)
qed simp

text \<open>Cursor pagination is complete: over an ordered result with unique cursors and any page size of
  at least one, following \<open>nextCursor\<close> from the first page stops, and the pages hold every row once,
  in order, at most \<open>limit\<close> on each.\<close>

theorem cursor_pages_complete:
  assumes "distinct (map key rows)" "0 < n"
  shows "\<exists>ps. follow_pages (Suc (length rows)) (\<lambda>c. paginateQuery key (cursor_window key rows) c n) None = Some ps \<and>
    concat ps = rows \<and> (\<forall>p \<in> set ps. length p \<le> n)"
  using follow_all [OF assms, of "[]" rows None "Suc (length rows)"] by simp

theorem cursor_pages_complete_witness:
  "\<exists>ps. follow_pages 6 (\<lambda>c. paginateQuery id (cursor_window id [5, 3, 9, 1, (7::nat)]) c 2) None = Some ps \<and>
    concat ps = [5, 3, 9, 1, 7]"
  using cursor_pages_complete [of id "[5, 3, 9, 1, (7::nat)]" 2] by (auto simp: eval_nat_numeral)

text \<open>Page metadata is consistent for every input: the size is at least one, the page lies between
  1 and the last page, the pages just cover the items, and the next/previous flags are exact.\<close>

theorem pagination_meta_consistent:
  fixes pg sz items' :: rat
  defines "r \<equiv> buildPaginationMeta pg sz items'"
  shows "1 \<le> pageSize r \<and> 0 \<le> totalItems r \<and>
    1 \<le> page r \<and> page r \<le> max 1 (totalPages r) \<and>
    totalItems r \<le> totalPages r * pageSize r \<and> totalPages r * pageSize r < totalItems r + pageSize r \<and>
    (hasNextPage r \<longleftrightarrow> page r * pageSize r < totalItems r) \<and> (hasPreviousPage r \<longleftrightarrow> page r \<noteq> 1)"
proof -
  define s where "s = max 1 \<lfloor>sz\<rfloor>"
  define n where "n = max 0 \<lfloor>items'\<rfloor>"
  have pos: "0 < s" "0 \<le> n" by (simp_all add: s_def n_def)
  note cov = ceil_div_covers [OF pos(1), of n]
  have nn: "0 \<le> ceil_div n s" by (rule ceil_div_nonneg [OF pos])
  define p where "p = (if ceil_div n s = 0 then 1 else min (ceil_div n s) (max 1 \<lfloor>pg\<rfloor>))"
  have p: "1 \<le> p" "p \<le> max 1 (ceil_div n s)" using nn by (auto simp: p_def)
  have next_iff: "p < ceil_div n s \<longleftrightarrow> p * s < n"
  proof
    assume "p < ceil_div n s"
    then have "(p + 1) * s \<le> ceil_div n s * s" using pos by (intro mult_right_mono) auto
    then show "p * s < n" using cov(2) by (simp add: algebra_simps)
  next
    assume "p * s < n"
    then have "p * s < ceil_div n s * s" using cov(1) by simp
    then show "p < ceil_div n s" using pos by (simp add: mult_less_cancel_right)
  qed
  have "r = \<lparr>page = p, pageSize = s, totalItems = n, totalPages = ceil_div n s,
      hasNextPage = p < ceil_div n s, hasPreviousPage = p > 1\<rparr>"
    by (simp add: r_def buildPaginationMeta_def Let_def s_def n_def p_def)
  then show ?thesis using pos cov p next_iff by (auto simp: s_def)
qed

end
