(* ===== verification/Governance.thy ===== *)
theory Governance
  imports Js_Double Decimal_Lib Pagination
begin

text \<open>
  Snapshot voting on governance proposals: \<open>src/modules/governance/governance-proposals.service.ts\<close>
  and the shared tally arithmetic of \<open>src/utils/vote-tally.utils.ts\<close>. The tables the service uses are
  the record \<open>gov_db\<close>. \<open>Decimal\<close> columns are rationals; the two conversions of the Decimal library,
  \<open>String(d)\<close> and \<open>new Decimal(text)\<close>, are the parameter \<open>dec\<close> of the operations that use them.
  Clock readings and random suffixes are arguments. Date fields of results stay instants.

  Casting a vote reads outside its transaction first, so it is two definitions, \<open>vote_check\<close> and
  \<open>vote_commit\<close>; \<open>castGovernanceVote\<close> runs them one after the other, and the step relation
  \<open>gov_step\<close> lets any other operation happen in between.
\<close>

section \<open>Tally arithmetic\<close>

record vote_tally =
  totalVotingWeight :: string
  results :: "string \<rightharpoonup> string"

text \<open>\<open>toBigInt\<close> of the tally file: unset and empty text are zero, other text is parsed or throws.\<close>

definition tally_toBigInt :: "string option \<Rightarrow> js_error + int" where
  "tally_toBigInt v =
    (case v of
      None \<Rightarrow> Inr 0
    | Some t \<Rightarrow> if t = [] then Inr 0
                else (case read_int t of None \<Rightarrow> Inl SyntaxError | Some n \<Rightarrow> Inr n))"

definition applyVoteWeight :: "vote_tally \<Rightarrow> string \<Rightarrow> string \<Rightarrow> js_error + vote_tally" where
  "applyVoteWeight current weight opt =
    and_then (tally_toBigInt (Some weight)) (\<lambda>w.
    and_then (tally_toBigInt (Some (totalVotingWeight current))) (\<lambda>t.
    and_then (tally_toBigInt (results current opt)) (\<lambda>r.
      Inr \<lparr>totalVotingWeight = show_int (t + w),
           results = (results current)(opt \<mapsto> show_int (r + w))\<rparr>)))"

section \<open>Exact integer helpers\<close>

definition toIntegerString :: "string option \<Rightarrow> string" where
  "toIntegerString v =
    (case v of
      None \<Rightarrow> ''0''
    | Some t \<Rightarrow> let whole = hd (split_on (CHR ''.'') t)
                in if whole = [] \<or> whole = ''-'' then ''0'' else whole)"

definition toBigInt :: "string option \<Rightarrow> int" where
  "toBigInt v = (case read_int (toIntegerString v) of Some n \<Rightarrow> n | None \<Rightarrow> 0)"

definition DEFAULT_QUORUM_BPS :: int where "DEFAULT_QUORUM_BPS = 3000"

definition BPS_DENOMINATOR :: int where "BPS_DENOMINATOR = 10000"

definition quorumRequiredWeight :: "string \<Rightarrow> int \<Rightarrow> string" where
  "quorumRequiredWeight totalWeight bps' =
    (let tot = toBigInt (Some totalWeight);
         bps = max 0 bps'
     in if tot \<le> 0 \<or> bps \<le> 0 then ''0''
        else show_int (bigint_div (tot * bps + BPS_DENOMINATOR - 1) BPS_DENOMINATOR))"

definition leadingOption :: "string list \<Rightarrow> (string \<rightharpoonup> string) \<Rightarrow> string option \<times> string" where
  "leadingOption opts res =
    (let (best, weight) = foldl
       (\<lambda>(opt, weight) candidate.
          let candidateWeight = toBigInt (Some (case res candidate of Some t \<Rightarrow> t | None \<Rightarrow> ''0''))
          in if opt = None \<or> candidateWeight > weight then (Some candidate, candidateWeight)
             else (opt, weight))
       (None, 0) opts
     in (best, show_int weight))"

datatype proposal_status = Active | Passed | Failed | Quorum_not_met | Executed

record outcome_input =
  oi_options :: "string list"
  oi_results :: "string \<rightharpoonup> string"
  oi_castWeight :: string
  oi_snapshotTotalWeight :: string
  oi_quorumBps :: int

definition evaluateProposalOutcome :: "outcome_input \<Rightarrow> proposal_status" where
  "evaluateProposalOutcome i =
    (let cast = toBigInt (Some (oi_castWeight i));
         eligible = toBigInt (Some (oi_snapshotTotalWeight i))
     in if eligible \<le> 0 \<or> cast \<le> 0 then Quorum_not_met
        else
          let required = toBigInt (Some (quorumRequiredWeight (oi_snapshotTotalWeight i) (oi_quorumBps i)))
          in if required > 0 \<and> cast < required then Quorum_not_met
             else
               let (_, leadingWeight) = leadingOption (oi_options i) (oi_results i)
               in if toBigInt (Some leadingWeight) * 2 > cast then Passed else Failed)"

section \<open>Tables\<close>

record gov_proposal =
  g_id :: string
  g_keyId :: string
  g_proposalId :: string
  g_title :: string
  g_options :: "string list option"
  g_tally :: vote_tally
  g_snapshotLedger :: int
  g_snapshotTotalWeight :: "string option"
  g_quorumBps :: "int option"
  g_expiresAt :: instant
  g_closedAt :: "instant option"
  g_executedAt :: "instant option"
  g_status :: proposal_status
  g_createdAt :: instant

record snapshot_row =
  sn_keyId :: string
  sn_proposalId :: string
  sn_wallet :: string
  sn_weight :: rat

record vote_row =
  v_keyId :: string
  v_proposalId :: string
  v_voter :: string
  v_optionIndex :: nat
  v_weight :: rat
  v_createdAt :: instant

record stake_row =
  st_wallet :: string
  st_keyId :: "string option"
  st_amount :: rat
  st_lockedAt :: instant
  st_unlocksAt :: "instant option"
  st_unstakedAt :: "instant option"

record activity_row =
  act_type :: string
  act_actor :: string
  act_creatorId :: string
  act_proposalId :: string

record gov_db =
  creators :: "(string \<times> string \<times> string) list"
  stellarWallets :: "(string \<times> string) list"
  gprops :: "gov_proposal list"
  snapshots :: "snapshot_row list"
  votes :: "vote_row list"
  stakes :: "stake_row list"
  indexedLedgers :: "(int \<times> instant) list"
  activities :: "activity_row list"

datatype gov_error =
    GovernanceProposalNotFoundError string
  | VotingPeriodEndedError string
  | NoSnapshotVotingPowerError string
  | DuplicateGovernanceVoteError
  | InvalidVoteOptionError int nat
  | GovernanceKeyNotFoundError string
  | WalletNotRegisteredError string
  | NotKeyCreatorError
  | Unique_violation
  | Language_error js_error

text \<open>
  Documented behaviour of the library on amounts with at most seven decimal places: from one (and
  at zero) up to \<open>10^21\<close> a value prints in plain notation, so its text up to the point is its whole
  part; a positive value below one prints as \<open>0.\<close> and decimals, or as a digit with the exponent
  \<open>e-7\<close>, and neither reads as a positive integer; decimal digits parse to the number they denote.
\<close>

definition seven_places :: "rat \<Rightarrow> bool" where
  "seven_places r \<longleftrightarrow> of_int \<lfloor>r * 10 ^ 7\<rfloor> = r * 10 ^ 7"

definition decimal_laws :: "decimal_lib \<Rightarrow> bool" where
  "decimal_laws dec \<longleftrightarrow>
    (\<forall>r. seven_places r \<and> (r = 0 \<or> 1 \<le> r) \<and> r < 10 ^ 21 \<longrightarrow>
      toIntegerString (Some (dec_text dec r)) = show_int \<lfloor>r\<rfloor>) \<and>
    (\<forall>r. seven_places r \<and> 0 < r \<and> r < 1 \<longrightarrow> toBigInt (Some (dec_text dec r)) = 0) \<and>
    (\<forall>n::int. 0 \<le> n \<and> n < 10 ^ 21 \<longrightarrow> dec_parse dec (show_int n) = of_int n)"

text \<open>The columns of a proposal read back with their defaults.\<close>

definition options_of :: "gov_proposal \<Rightarrow> string list" where
  "options_of p = (case g_options p of Some os \<Rightarrow> os | None \<Rightarrow> [])"

definition outcome_of :: "gov_proposal \<Rightarrow> proposal_status" where
  "outcome_of p = evaluateProposalOutcome
    \<lparr>oi_options = options_of p, oi_results = results (g_tally p),
     oi_castWeight = totalVotingWeight (g_tally p),
     oi_snapshotTotalWeight = (case g_snapshotTotalWeight p of Some t \<Rightarrow> t | None \<Rightarrow> ''0''),
     oi_quorumBps = (case g_quorumBps p of Some b \<Rightarrow> b | None \<Rightarrow> DEFAULT_QUORUM_BPS)\<rparr>"

section \<open>Snapshot capture\<close>

definition getSnapshotLedger :: "gov_db \<Rightarrow> int" where
  "getSnapshotLedger db =
    (case sort_key (\<lambda>l. - snd l) (indexedLedgers db) of [] \<Rightarrow> 0 | l # _ \<Rightarrow> fst l)"

definition counted_stakes :: "string \<Rightarrow> instant \<Rightarrow> gov_db \<Rightarrow> stake_row list" where
  "counted_stakes keyId asOf db =
    filter (\<lambda>s. st_keyId s = Some keyId \<and> st_amount s > 0 \<and> st_lockedAt s \<le> asOf \<and>
      (case st_unlocksAt s of None \<Rightarrow> True | Some u \<Rightarrow> u > asOf)) (stakes db)"

definition computeStakedBalancesForKey ::
  "decimal_lib \<Rightarrow> string \<Rightarrow> instant \<Rightarrow> gov_db \<Rightarrow> (string \<times> string) list" where
  "computeStakedBalancesForKey dec keyId asOf db =
    (let rows = counted_stakes keyId asOf db;
         grouped = map (\<lambda>w. (w, sum_list (map st_amount (filter (\<lambda>s. st_wallet s = w) rows))))
           (remdups (map st_wallet rows))
     in filter (\<lambda>(w, weight). toBigInt (Some weight) > 0)
          (map (\<lambda>(w, amount). (w, toIntegerString (Some (dec_text dec amount)))) grouped))"

section \<open>Status and DTO\<close>

definition resolveProposalStatus :: "gov_proposal \<Rightarrow> instant \<Rightarrow> proposal_status" where
  "resolveProposalStatus p now =
    (if g_status p = Executed \<or> g_executedAt p \<noteq> None then Executed
     else if g_status p \<noteq> Active then g_status p
     else if now < g_expiresAt p then Active
     else outcome_of p)"

record proposal_dto =
  dto_row :: gov_proposal
  dto_options :: "string list"
  dto_status :: proposal_status
  dto_snapshotTotalWeight :: string
  dto_quorumBps :: int
  dto_quorumPercent :: rat
  dto_quorumRequired :: string
  dto_quorumMet :: bool
  dto_winningOption :: "string option"
  dto_participationRate :: "rat option"
  dto_timeRemaining :: int

definition proposalToDto :: "gov_proposal \<Rightarrow> instant \<Rightarrow> proposal_dto" where
  "proposalToDto p now =
    (let snapTotal = (case g_snapshotTotalWeight p of Some t \<Rightarrow> t | None \<Rightarrow> ''0'');
         bps = (case g_quorumBps p of Some b \<Rightarrow> b | None \<Rightarrow> DEFAULT_QUORUM_BPS);
         cast = toBigInt (Some (totalVotingWeight (g_tally p)));
         eligible = toBigInt (Some snapTotal);
         required = quorumRequiredWeight snapTotal bps
     in \<lparr>dto_row = p, dto_options = options_of p, dto_status = resolveProposalStatus p now,
         dto_snapshotTotalWeight = snapTotal, dto_quorumBps = bps,
         dto_quorumPercent = fl (of_int bps / 100), dto_quorumRequired = required,
         dto_quorumMet = (eligible > 0 \<and> toBigInt (Some required) \<le> cast),
         dto_winningOption = fst (leadingOption (options_of p) (results (g_tally p))),
         dto_participationRate =
           (if eligible > 0 then Some (fl (fl (of_int cast) / fl (of_int eligible))) else None),
         dto_timeRemaining = max 0 ((g_expiresAt p - now) div 1000)\<rparr>)"

section \<open>Creating\<close>

record create_input =
  ci_keyId :: string
  ci_title :: string
  ci_options :: "string list"
  ci_durationDays :: int
  ci_quorumBps :: "int option"

definition prop_key :: "gov_proposal \<Rightarrow> string \<times> string" where
  "prop_key p = (g_keyId p, g_proposalId p)"

interpretation gprop_table: keyed_table
  prop_key "find_by prop_key" insert_row "modify_by prop_key" "map prop_key"
  by (rule list_keyed_table)

definition createGovernanceProposal ::
  "decimal_lib \<Rightarrow> instant \<Rightarrow> string \<Rightarrow> string \<Rightarrow> create_input \<Rightarrow> string \<Rightarrow> gov_db \<Rightarrow>
    gov_error + gov_proposal \<times> gov_db" where
  "createGovernanceProposal dec now rand rowId input proposerWallet db =
    (case find (\<lambda>(cid, handle, u). cid = ci_keyId input \<or> handle = ci_keyId input) (creators db) of
      None \<Rightarrow> Inl (GovernanceKeyNotFoundError (ci_keyId input))
    | Some (resolvedKeyId, _, creatorUser) \<Rightarrow>
        (case map_of (stellarWallets db) proposerWallet of
          None \<Rightarrow> Inl (WalletNotRegisteredError proposerWallet)
        | Some userId \<Rightarrow>
            if userId \<noteq> creatorUser then Inl NotKeyCreatorError
            else
              let quorumBps = (case ci_quorumBps input of Some b \<Rightarrow> b | None \<Rightarrow> DEFAULT_QUORUM_BPS);
                  expiresAt = now + ci_durationDays input * 24 * 60 * 60 * 1000;
                  pid = ''prop-'' @ resolvedKeyId @ ''-'' @ show_int now @ ''-'' @ rand;
                  initialResults = foldl (\<lambda>m opt. m(opt \<mapsto> ''0'')) (\<lambda>_. None) (ci_options input);
                  weights = computeStakedBalancesForKey dec resolvedKeyId now db;
                  tot = foldl (\<lambda>acc (w, weight). acc + toBigInt (Some weight)) 0 weights;
                  p = \<lparr>g_id = rowId, g_keyId = resolvedKeyId, g_proposalId = pid,
                       g_title = ci_title input, g_options = Some (ci_options input),
                       g_tally = \<lparr>totalVotingWeight = ''0'', results = initialResults\<rparr>,
                       g_snapshotLedger = getSnapshotLedger db,
                       g_snapshotTotalWeight = Some (show_int tot), g_quorumBps = Some quorumBps,
                       g_expiresAt = expiresAt, g_closedAt = None, g_executedAt = None,
                       g_status = Active, g_createdAt = now\<rparr>;
                  rows = map (\<lambda>(w, weight). \<lparr>sn_keyId = resolvedKeyId, sn_proposalId = pid,
                       sn_wallet = w, sn_weight = dec_parse dec weight\<rparr>) weights
              in if find_by prop_key (resolvedKeyId, pid) (gprops db) \<noteq> None \<or>
                    (\<exists>s \<in> set (snapshots db). sn_keyId s = resolvedKeyId \<and> sn_proposalId s = pid \<and>
                      (\<exists>r \<in> set rows. sn_wallet r = sn_wallet s))
                 then Inl Unique_violation
                 else Inr (p, db\<lparr>gprops := insert_row p (gprops db),
                        snapshots := snapshots db @ rows,
                        activities := activities db @ [\<lparr>act_type = ''GOVERNANCE_PROPOSAL_CREATED'',
                          act_actor = proposerWallet, act_creatorId = resolvedKeyId,
                          act_proposalId = pid\<rparr>]\<rparr>)))"

section \<open>Voting\<close>

definition findProposal :: "string \<Rightarrow> gov_db \<Rightarrow> gov_proposal option" where
  "findProposal param db = find (\<lambda>p. g_id p = param \<or> g_proposalId p = param) (gprops db)"

definition find_snapshot :: "string \<Rightarrow> string \<Rightarrow> string \<Rightarrow> gov_db \<Rightarrow> snapshot_row option" where
  "find_snapshot keyId pid wallet db =
    find (\<lambda>s. sn_keyId s = keyId \<and> sn_proposalId s = pid \<and> sn_wallet s = wallet) (snapshots db)"

definition find_vote :: "string \<Rightarrow> string \<Rightarrow> string \<Rightarrow> gov_db \<Rightarrow> vote_row option" where
  "find_vote keyId pid wallet db =
    find (\<lambda>v. v_keyId v = keyId \<and> v_proposalId v = pid \<and> v_voter v = wallet) (votes db)"

definition snapshot_weight :: "decimal_lib \<Rightarrow> snapshot_row option \<Rightarrow> string" where
  "snapshot_weight dec s = toIntegerString (map_option (\<lambda>s. dec_text dec (sn_weight s)) s)"

text \<open>What the checks before the transaction hand to it.\<close>

record ballot =
  b_keyId :: string
  b_proposalId :: string
  b_wallet :: string
  b_optionIndex :: nat
  b_option :: string
  b_weight :: string

definition vote_check ::
  "decimal_lib \<Rightarrow> instant \<Rightarrow> string \<Rightarrow> string \<Rightarrow> int \<Rightarrow> gov_db \<Rightarrow> gov_error + ballot" where
  "vote_check dec now param wallet optionIndex db =
    (case findProposal param db of
      None \<Rightarrow> Inl (GovernanceProposalNotFoundError param)
    | Some p \<Rightarrow>
        if g_status p \<noteq> Active \<or> now \<ge> g_expiresAt p then Inl (VotingPeriodEndedError (g_proposalId p))
        else
          let opts = options_of p
          in if optionIndex < 0 \<or> optionIndex \<ge> int (length opts)
             then Inl (InvalidVoteOptionError optionIndex (length opts))
             else
               let weight = snapshot_weight dec (find_snapshot (g_keyId p) (g_proposalId p) wallet db)
               in if toBigInt (Some weight) \<le> 0 then Inl (NoSnapshotVotingPowerError wallet)
                  else if find_vote (g_keyId p) (g_proposalId p) wallet db \<noteq> None
                  then Inl DuplicateGovernanceVoteError
                  else Inr \<lparr>b_keyId = g_keyId p, b_proposalId = g_proposalId p, b_wallet = wallet,
                            b_optionIndex = nat optionIndex, b_option = opts ! nat optionIndex,
                            b_weight = weight\<rparr>)"

text \<open>The transaction: the unique key of a vote turns a second insert into the duplicate error.\<close>

definition vote_commit ::
  "decimal_lib \<Rightarrow> instant \<Rightarrow> ballot \<Rightarrow> gov_db \<Rightarrow> gov_error + vote_tally \<times> gov_db" where
  "vote_commit dec now b db =
    (let k = (b_keyId b, b_proposalId b)
     in case find_by prop_key k (gprops db) of
          None \<Rightarrow> Inl (VotingPeriodEndedError (b_proposalId b))
        | Some p \<Rightarrow>
            if g_status p \<noteq> Active \<or> now \<ge> g_expiresAt p
            then Inl (VotingPeriodEndedError (b_proposalId b))
            else
              (case applyVoteWeight (g_tally p) (b_weight b) (b_option b) of
                Inl e \<Rightarrow> Inl (Language_error e)
              | Inr tallies \<Rightarrow>
                  if find_vote (b_keyId b) (b_proposalId b) (b_wallet b) db \<noteq> None
                  then Inl DuplicateGovernanceVoteError
                  else Inr (tallies, db\<lparr>
                    gprops := modify_by prop_key k (\<lambda>p. p\<lparr>g_tally := tallies\<rparr>) (gprops db),
                    votes := votes db @ [\<lparr>v_keyId = b_keyId b, v_proposalId = b_proposalId b,
                      v_voter = b_wallet b, v_optionIndex = b_optionIndex b,
                      v_weight = dec_parse dec (b_weight b), v_createdAt = now\<rparr>],
                    activities := activities db @ [\<lparr>act_type = ''GOVERNANCE_VOTE_CAST'',
                      act_actor = b_wallet b, act_creatorId = b_keyId b,
                      act_proposalId = b_proposalId b\<rparr>]\<rparr>)))"

definition castGovernanceVote ::
  "decimal_lib \<Rightarrow> instant \<Rightarrow> instant \<Rightarrow> string \<Rightarrow> string \<Rightarrow> int \<Rightarrow> gov_db \<Rightarrow>
    gov_error + (ballot \<times> vote_tally) \<times> gov_db" where
  "castGovernanceVote dec now now' param wallet optionIndex db =
    and_then (vote_check dec now param wallet optionIndex db) (\<lambda>b.
    and_then (vote_commit dec now' b db) (\<lambda>(tallies, db'). Inr ((b, tallies), db')))"

section \<open>Closing\<close>

record close_result =
  scanned :: nat
  outcomes :: "proposal_status \<Rightarrow> nat"

definition due_proposals :: "instant \<Rightarrow> gov_db \<Rightarrow> gov_proposal list" where
  "due_proposals now db = filter (\<lambda>p. g_status p = Active \<and> g_expiresAt p \<le> now) (gprops db)"

definition close_one :: "instant \<Rightarrow> gov_proposal \<Rightarrow> close_result \<times> gov_db \<Rightarrow> close_result \<times> gov_db" where
  "close_one now p s =
    (let (r, db) = s;
         outcome = outcome_of p
     in (r\<lparr>outcomes := (outcomes r)(outcome := outcomes r outcome + 1)\<rparr>,
         db\<lparr>gprops := modify_by g_id (g_id p)
              (\<lambda>q. q\<lparr>g_status := outcome, g_closedAt := Some now\<rparr>) (gprops db)\<rparr>))"

definition closeDueProposals :: "instant \<Rightarrow> gov_db \<Rightarrow> close_result \<times> gov_db" where
  "closeDueProposals now db =
    (let due = due_proposals now db
     in fold (close_one now) due (\<lparr>scanned = length due, outcomes = (\<lambda>_. 0)\<rparr>, db))"

section \<open>Reading\<close>

record weight_result =
  wr_keyId :: string
  wr_proposalId :: string
  wr_wallet :: string
  wr_weight :: string
  wr_snapshotLedger :: int
  wr_snapshotTotalWeight :: string

definition snapshot_total_text :: "gov_proposal \<Rightarrow> string" where
  "snapshot_total_text p = (case g_snapshotTotalWeight p of Some t \<Rightarrow> t | None \<Rightarrow> ''0'')"

definition getGovernanceVotingWeight ::
  "decimal_lib \<Rightarrow> string \<Rightarrow> string \<Rightarrow> gov_db \<Rightarrow> gov_error + weight_result" where
  "getGovernanceVotingWeight dec param wallet db =
    (case findProposal param db of
      None \<Rightarrow> Inl (GovernanceProposalNotFoundError param)
    | Some p \<Rightarrow> Inr \<lparr>wr_keyId = g_keyId p, wr_proposalId = g_proposalId p, wr_wallet = wallet,
        wr_weight = snapshot_weight dec (find_snapshot (g_keyId p) (g_proposalId p) wallet db),
        wr_snapshotLedger = g_snapshotLedger p, wr_snapshotTotalWeight = snapshot_total_text p\<rparr>)"

record vote_dto =
  vd_voter :: string
  vd_optionIndex :: nat
  vd_option :: "string option"
  vd_weight :: string
  vd_votedAt :: instant

record breakdown_item =
  bi_optionIndex :: nat
  bi_option :: string
  bi_weight :: string
  bi_voteCount :: nat
  bi_percentage :: "rat option"

record proposal_detail =
  pd_dto :: proposal_dto
  pd_votes :: "vote_dto list"
  pd_voteBreakdown :: "breakdown_item list"

definition vote_to_dto :: "decimal_lib \<Rightarrow> string list \<Rightarrow> vote_row \<Rightarrow> vote_dto" where
  "vote_to_dto dec opts v =
    \<lparr>vd_voter = v_voter v, vd_optionIndex = v_optionIndex v,
     vd_option = (if v_optionIndex v < length opts then Some (opts ! v_optionIndex v) else None),
     vd_weight = toIntegerString (Some (dec_text dec (v_weight v))), vd_votedAt = v_createdAt v\<rparr>"

definition getGovernanceProposal ::
  "decimal_lib \<Rightarrow> instant \<Rightarrow> string \<Rightarrow> gov_db \<Rightarrow> gov_error + proposal_detail" where
  "getGovernanceProposal dec now param db =
    (case findProposal param db of
      None \<Rightarrow> Inl (GovernanceProposalNotFoundError param)
    | Some p \<Rightarrow>
        let vs = sort_key v_createdAt
              (filter (\<lambda>v. v_keyId v = g_keyId p \<and> v_proposalId v = g_proposalId p) (votes db));
            opts = options_of p;
            res = results (g_tally p);
            cast = toBigInt (Some (totalVotingWeight (g_tally p)));
            weightForOption = (\<lambda>i. toIntegerString
              (Some (case res (opts ! i) of Some t \<Rightarrow> t | None \<Rightarrow> ''0'')))
        in Inr \<lparr>pd_dto = proposalToDto p now, pd_votes = map (vote_to_dto dec opts) vs,
             pd_voteBreakdown = map (\<lambda>i. \<lparr>bi_optionIndex = i, bi_option = opts ! i,
               bi_weight = weightForOption i,
               bi_voteCount = length (filter (\<lambda>v. v_optionIndex v = i) vs),
               bi_percentage =
                 (if cast > 0 then Some (fl (fl (of_int (toBigInt (Some (weightForOption i)))) / fl (of_int cast)))
                  else None)\<rparr>) [0..<length opts]\<rparr>)"

record wallet_vote_result =
  wv_keyId :: string
  wv_proposalId :: string
  wv_wallet :: string
  wv_hasVoted :: bool
  wv_vote :: "vote_dto option"
  wv_weight :: string
  wv_snapshotLedger :: int
  wv_snapshotTotalWeight :: string

definition getGovernanceWalletVote ::
  "decimal_lib \<Rightarrow> string \<Rightarrow> string \<Rightarrow> gov_db \<Rightarrow> gov_error + wallet_vote_result" where
  "getGovernanceWalletVote dec param wallet db =
    (case findProposal param db of
      None \<Rightarrow> Inl (GovernanceProposalNotFoundError param)
    | Some p \<Rightarrow>
        let snapshot = find_snapshot (g_keyId p) (g_proposalId p) wallet db;
            vote = find_vote (g_keyId p) (g_proposalId p) wallet db
        in Inr \<lparr>wv_keyId = g_keyId p, wv_proposalId = g_proposalId p, wv_wallet = wallet,
             wv_hasVoted = (vote \<noteq> None), wv_vote = map_option (vote_to_dto dec (options_of p)) vote,
             wv_weight = snapshot_weight dec snapshot, wv_snapshotLedger = g_snapshotLedger p,
             wv_snapshotTotalWeight = snapshot_total_text p\<rparr>)"

section \<open>Listing\<close>

record list_options =
  lo_status :: "proposal_status option"
  lo_keyId :: "string option"
  lo_cursor :: "string option"

record list_result =
  lr_items :: "proposal_dto list"
  lr_next_cursor :: "string option"
  lr_has_more :: bool

definition listGovernanceProposals ::
  "instant \<Rightarrow> instant \<Rightarrow> list_options \<Rightarrow> gov_db \<Rightarrow> list_result \<times> gov_db" where
  "listGovernanceProposals now now' opts db =
    (let db' = snd (closeDueProposals now db);
         rows = sort_key (\<lambda>p. - g_createdAt p)
           (filter (\<lambda>p. (case lo_status opts of None \<Rightarrow> True | Some s \<Rightarrow> g_status p = s) \<and>
              (case lo_keyId opts of None \<Rightarrow> True | Some k \<Rightarrow> k = [] \<or> g_keyId p = k)) (gprops db'));
         cur = (case lo_cursor opts of None \<Rightarrow> None | Some c \<Rightarrow> if c = [] then None else Some c);
         pg = paginateQuery g_id (cursor_window g_id rows) cur 20
     in (\<lparr>lr_items = map (\<lambda>p. proposalToDto p now') (page_data pg),
          lr_next_cursor = (if page_hasMore pg then nextCursor pg else None),
          lr_has_more = page_hasMore pg\<rparr>, db'))"

section \<open>The outcome\<close>

lemma show_int_plain: "CHR ''.'' \<notin> set (show_int n)" "show_int n \<noteq> []" "show_int n \<noteq> ''-''"
proof -
  have d: "c \<noteq> CHR ''.''" "c \<noteq> CHR ''-''" if "c \<in> set (show_nat k)" for c k
    using show_nat_digits that is_digit_not_special by blast+
  then show "CHR ''.'' \<notin> set (show_int n)"
    by (auto simp: show_int_def)
  show "show_int n \<noteq> []" by (simp add: show_int_def)
  show "show_int n \<noteq> ''-''"
    using d(2) [OF hd_in_set [OF show_nat_nonempty]] by (auto simp: show_int_def) (metis list.sel(1))
qed

lemma toIntegerString_show [simp]: "toIntegerString (Some (show_int n)) = show_int n"
  by (simp add: toIntegerString_def show_int_plain Let_def)

lemma toBigInt_show [simp]: "toBigInt (Some (show_int n)) = n"
  by (simp add: toBigInt_def)

lemma show_int_digit: "show_int 0 = ''0''"
  by code_simp

lemma toBigInt_zero [simp]: "toBigInt (Some ''0'') = 0"
  using toBigInt_show [of 0] by (simp add: show_int_digit)

text \<open>The weight of an option as the outcome reads it.\<close>

definition option_weight :: "(string \<rightharpoonup> string) \<Rightarrow> string \<Rightarrow> int" where
  "option_weight res c = toBigInt (Some (case res c of Some t \<Rightarrow> t | None \<Rightarrow> ''0''))"

lemma leading_fold:
  fixes res :: "string \<rightharpoonup> string"
  defines "step \<equiv> \<lambda>(opt, weight) candidate.
    let candidateWeight = toBigInt (Some (case res candidate of Some t \<Rightarrow> t | None \<Rightarrow> ''0''))
    in if opt = None \<or> candidateWeight > weight then (Some candidate, candidateWeight) else (opt, weight)"
  shows "opts \<noteq> [] \<Longrightarrow> \<exists>o'. foldl step (None, 0) opts = (Some o', option_weight res o') \<and>
    o' \<in> set opts \<and> (\<forall>c \<in> set opts. option_weight res c \<le> option_weight res o')"
proof (induction opts rule: rev_induct)
  case (snoc c opts)
  show ?case
  proof (cases "opts = []")
    case True
    then show ?thesis by (simp add: step_def option_weight_def Let_def)
  next
    case False
    then obtain o' where "foldl step (None, 0) opts = (Some o', option_weight res o')" "o' \<in> set opts"
      "\<forall>c \<in> set opts. option_weight res c \<le> option_weight res o'"
      using snoc.IH by blast
    then show ?thesis by (auto simp: step_def option_weight_def Let_def)
  qed
qed simp

lemma leadingOption_max:
  "opts \<noteq> [] \<Longrightarrow> \<exists>o' \<in> set opts. leadingOption opts res = (Some o', show_int (option_weight res o')) \<and>
    (\<forall>c \<in> set opts. option_weight res c \<le> option_weight res o')"
  using leading_fold [of opts res] by (auto simp: leadingOption_def)

lemma quorum_bound:
  "0 < tot \<Longrightarrow> 0 < b \<Longrightarrow> c < bigint_div (tot * b + BPS_DENOMINATOR - 1) BPS_DENOMINATOR \<longleftrightarrow> c * 10000 < tot * b"
  for tot b c :: int
proof -
  assume a: "0 < tot" "0 < b"
  define z where "z = tot * b"
  have "0 < z" using a by (simp add: z_def)
  then have "bigint_div (z + BPS_DENOMINATOR - 1) BPS_DENOMINATOR = (z + 9999) div 10000"
    by (simp add: BPS_DENOMINATOR_def js_simps)
  moreover have "c < (z + 9999) div 10000 \<longleftrightarrow> c * 10000 < z"
    using mult_div_mod_eq [of 10000 "z + 9999"] pos_mod_bound [of 10000 "z + 9999"]
      pos_mod_sign [of 10000 "z + 9999"] by linarith
  ultimately show ?thesis by (simp add: z_def)
qed

lemma quorum_positive:
  "0 < tot \<Longrightarrow> 0 < b \<Longrightarrow> 0 < bigint_div (tot * b + BPS_DENOMINATOR - 1) BPS_DENOMINATOR" for tot b :: int
  by (simp add: quorum_bound)

text \<open>C11: The outcome of a proposal is what the documentation promises, computed on exact integers: the
  quorum is missed when no weight is eligible or cast or when the cast weight times 10000 is below
  the eligible weight times the quorum in basis points; otherwise the proposal passes exactly when
  some option holds more than half of the cast weight.\<close>

theorem evaluateProposalOutcome_exact:
  fixes i :: outcome_input
  defines "cast \<equiv> toBigInt (Some (oi_castWeight i))"
    and "eligible \<equiv> toBigInt (Some (oi_snapshotTotalWeight i))"
  shows "evaluateProposalOutcome i =
    (if eligible \<le> 0 \<or> cast \<le> 0 \<or> cast * 10000 < eligible * oi_quorumBps i then Quorum_not_met
     else if \<exists>c \<in> set (oi_options i). 2 * option_weight (oi_results i) c > cast then Passed else Failed)"
proof (cases "eligible \<le> 0 \<or> cast \<le> 0")
  case True
  then show ?thesis by (auto simp: evaluateProposalOutcome_def cast_def eligible_def)
next
  case False
  define req where "req = toBigInt (Some (quorumRequiredWeight (oi_snapshotTotalWeight i) (oi_quorumBps i)))"
  have req: "req > 0 \<and> cast < req \<longleftrightarrow> cast * 10000 < eligible * oi_quorumBps i"
  proof (cases "oi_quorumBps i \<le> 0")
    case True
    then have "eligible * oi_quorumBps i \<le> 0" using False by (simp add: mult_nonneg_nonpos)
    then show ?thesis using True False by (simp add: req_def quorumRequiredWeight_def)
  next
    case bps: False
    then have "req = bigint_div (eligible * oi_quorumBps i + BPS_DENOMINATOR - 1) BPS_DENOMINATOR"
      using False by (simp add: req_def quorumRequiredWeight_def eligible_def [symmetric])
    then show ?thesis using quorum_bound quorum_positive bps False by simp
  qed
  have lead: "(case leadingOption (oi_options i) (oi_results i) of (_, w) \<Rightarrow> toBigInt (Some w) * 2 > cast) \<longleftrightarrow>
      (\<exists>c \<in> set (oi_options i). 2 * option_weight (oi_results i) c > cast)"
  proof (cases "oi_options i = []")
    case True
    then show ?thesis using False by (simp add: leadingOption_def show_int_digit)
  next
    case ne: False
    from leadingOption_max [OF ne, of "oi_results i"] show ?thesis by force
  qed
  show ?thesis
    using False req lead
    by (auto simp: evaluateProposalOutcome_def cast_def [symmetric] eligible_def [symmetric]
        req_def [symmetric] Let_def split: prod.splits)
qed

section \<open>Closing\<close>

lemma close_one_gprops:
  "gprops (snd (close_one now p (r, db))) =
    modify_by g_id (g_id p) (\<lambda>q. q\<lparr>g_status := outcome_of p, g_closedAt := Some now\<rparr>) (gprops db)"
  by (simp add: close_one_def Let_def)

lemma close_fold:
  assumes "distinct (map g_id ds)"
  shows "snd (fold (close_one now) ds (r, db)) = db\<lparr>gprops := map (\<lambda>q.
      case find_by g_id (g_id q) ds of
        None \<Rightarrow> q
      | Some p \<Rightarrow> q\<lparr>g_status := outcome_of p, g_closedAt := Some now\<rparr>) (gprops db)\<rparr>"
  using assms
proof (induction ds arbitrary: r db)
  case (Cons p ds)
  have fresh: "find_by g_id (g_id p) ds = None"
    using Cons.prems by (auto simp: find_by_None_iff)
  obtain r' where one: "close_one now p (r, db) = (r', db\<lparr>gprops := modify_by g_id (g_id p)
      (\<lambda>q. q\<lparr>g_status := outcome_of p, g_closedAt := Some now\<rparr>) (gprops db)\<rparr>)"
    by (simp add: close_one_def Let_def)
  show ?case
    using Cons fresh by (auto simp: one modify_by_def split: option.splits)
qed simp

lemma find_by_filter_distinct:
  "distinct (map key rows) \<Longrightarrow> q \<in> set rows \<Longrightarrow>
    find_by key (key q) (filter P rows) = (if P q then Some q else None)"
  by (induction rows) (auto simp: find_by_None_iff rev_image_eqI)

lemma closeDue_rows:
  assumes "distinct (map g_id (gprops db))"
  shows "snd (closeDueProposals now db) = db\<lparr>gprops := map (\<lambda>p.
    if g_status p = Active \<and> g_expiresAt p \<le> now
    then p\<lparr>g_status := outcome_of p, g_closedAt := Some now\<rparr> else p) (gprops db)\<rparr>"
proof -
  have "distinct (map g_id (due_proposals now db))"
    using assms by (simp add: due_proposals_def distinct_map_filter)
  note fold = close_fold [OF this]
  have "(case find_by g_id (g_id q) (due_proposals now db) of None \<Rightarrow> q
      | Some p \<Rightarrow> q\<lparr>g_status := outcome_of p, g_closedAt := Some now\<rparr>) =
    (if g_status q = Active \<and> g_expiresAt q \<le> now
     then q\<lparr>g_status := outcome_of q, g_closedAt := Some now\<rparr> else q)" if "q \<in> set (gprops db)" for q
    by (simp add: due_proposals_def find_by_filter_distinct [OF assms that])
  then show ?thesis
    unfolding closeDueProposals_def Let_def fold by (simp cong: map_cong)
qed

lemma closeDue_counts_fold:
  "outcomes (fst (fold (close_one now) ds (r, db))) s =
    outcomes r s + length (filter (\<lambda>p. outcome_of p = s) ds)"
  by (induction ds arbitrary: r db) (auto simp: close_one_def Let_def)

lemma close_scanned_fold: "scanned (fst (fold (close_one now) ds (r, db))) = scanned r"
  by (induction ds arbitrary: r db) (auto simp: close_one_def Let_def)

lemma outcome_of_not_active: "outcome_of p \<noteq> Active" "outcome_of p \<noteq> Executed"
  by (auto simp: outcome_of_def evaluateProposalOutcome_def Let_def split: prod.splits)

text \<open>C15: The closing sweep closes exactly the proposals that are active and past their deadline, each
  with the outcome of its own tally, counts every outcome, leaves none open past the deadline, and a
  second sweep at the same time finds nothing and changes nothing.\<close>

theorem closeDueProposals_closes_exactly_due:
  assumes "distinct (map g_id (gprops db))" and "closeDueProposals now db = (r, db')"
  shows "db' = db\<lparr>gprops := map (\<lambda>p.
      if g_status p = Active \<and> g_expiresAt p \<le> now
      then p\<lparr>g_status := outcome_of p, g_closedAt := Some now\<rparr> else p) (gprops db)\<rparr> \<and>
    scanned r = length (due_proposals now db) \<and>
    (\<forall>s. outcomes r s = length (filter (\<lambda>p. outcome_of p = s) (due_proposals now db))) \<and>
    (\<forall>p \<in> set (gprops db'). g_status p = Active \<longrightarrow> now < g_expiresAt p) \<and>
    closeDueProposals now db' = (\<lparr>scanned = 0, outcomes = (\<lambda>_. 0)\<rparr>, db')"
proof -
  let ?f = "\<lambda>p. if g_status p = Active \<and> g_expiresAt p \<le> now
      then p\<lparr>g_status := outcome_of p, g_closedAt := Some now\<rparr> else p"
  have db': "db' = db\<lparr>gprops := map ?f (gprops db)\<rparr>"
    using closeDue_rows [OF assms(1), of now] assms(2) by simp
  have r: "r = fst (closeDueProposals now db)" using assms(2) by simp
  have open_after: "\<forall>p \<in> set (gprops db'). g_status p = Active \<longrightarrow> now < g_expiresAt p"
    by (auto simp: db' outcome_of_not_active)
  then have "due_proposals now db' = []"
    by (auto simp: due_proposals_def filter_empty_conv)
  then have "closeDueProposals now db' = (\<lparr>scanned = 0, outcomes = (\<lambda>_. 0)\<rparr>, db')"
    by (simp add: closeDueProposals_def)
  with db' open_after show ?thesis
    by (simp add: r closeDueProposals_def Let_def closeDue_counts_fold close_scanned_fold)
qed

section \<open>The voting system\<close>

definition votes_of :: "string \<times> string \<Rightarrow> gov_db \<Rightarrow> vote_row list" where
  "votes_of k db = filter (\<lambda>v. (v_keyId v, v_proposalId v) = k) (votes db)"

definition snapshots_of :: "string \<times> string \<Rightarrow> gov_db \<Rightarrow> snapshot_row list" where
  "snapshots_of k db = filter (\<lambda>s. (sn_keyId s, sn_proposalId s) = k) (snapshots db)"

definition weight_sum :: "vote_row list \<Rightarrow> int" where
  "weight_sum vs = sum_list (map (\<lambda>v. \<lfloor>v_weight v\<rfloor>) vs)"

definition snapshot_sum :: "snapshot_row list \<Rightarrow> int" where
  "snapshot_sum ss = sum_list (map (\<lambda>s. \<lfloor>sn_weight s\<rfloor>) ss)"

definition whole_weight :: "rat \<Rightarrow> bool" where
  "whole_weight w \<longleftrightarrow> of_int \<lfloor>w\<rfloor> = w \<and> 0 < w \<and> w < 10 ^ 21"

definition prop_ok :: "gov_proposal \<Rightarrow> snapshot_row list \<Rightarrow> vote_row list \<Rightarrow> bool" where
  "prop_ok p ss vs \<longleftrightarrow>
    (\<forall>s \<in> set ss. whole_weight (sn_weight s)) \<and> distinct (map sn_wallet ss) \<and>
    g_snapshotTotalWeight p = Some (show_int (snapshot_sum ss)) \<and>
    distinct (map v_voter vs) \<and>
    (\<forall>v \<in> set vs. v_optionIndex v < length (options_of p) \<and>
      (\<exists>s \<in> set ss. sn_wallet s = v_voter v \<and> sn_weight s = v_weight v)) \<and>
    totalVotingWeight (g_tally p) = show_int (weight_sum vs) \<and>
    (\<forall>c. results (g_tally p) c =
      (if c \<in> set (options_of p)
       then Some (show_int (weight_sum (filter (\<lambda>v. options_of p ! v_optionIndex v = c) vs))) else None))"

definition gov_inv :: "gov_db \<Rightarrow> bool" where
  "gov_inv db \<longleftrightarrow>
    distinct (map prop_key (gprops db)) \<and> distinct (map g_id (gprops db)) \<and>
    (\<forall>v \<in> set (votes db). (v_keyId v, v_proposalId v) \<in> prop_key ` set (gprops db)) \<and>
    (\<forall>s \<in> set (snapshots db). (sn_keyId s, sn_proposalId s) \<in> prop_key ` set (gprops db)) \<and>
    (\<forall>p \<in> set (gprops db). prop_ok p (snapshots_of (prop_key p) db) (votes_of (prop_key p) db))"

definition ballot_ok :: "gov_db \<Rightarrow> ballot \<Rightarrow> bool" where
  "ballot_ok db b \<longleftrightarrow> (\<exists>p \<in> set (gprops db). prop_key p = (b_keyId b, b_proposalId b) \<and>
    b_optionIndex b < length (options_of p) \<and> b_option b = options_of p ! b_optionIndex b \<and>
    (\<exists>s \<in> set (snapshots_of (prop_key p) db).
      sn_wallet s = b_wallet b \<and> b_weight b = show_int \<lfloor>sn_weight s\<rfloor>))"

text \<open>The staking table: amounts have seven places and their sum fits the column type.\<close>

definition stakes_ok :: "stake_row list \<Rightarrow> bool" where
  "stakes_ok ss \<longleftrightarrow> (\<forall>s \<in> set ss. seven_places (st_amount s)) \<and>
    sum_list (map (\<lambda>s. max 0 (st_amount s)) ss) < 10 ^ 21"

text \<open>A state: the database and the ballots that have passed the checks but not yet committed.\<close>

inductive gov_step :: "decimal_lib \<Rightarrow> gov_db \<times> ballot list \<Rightarrow> gov_db \<times> ballot list \<Rightarrow> bool" for dec where
  create: "createGovernanceProposal dec now rand rowId input who db = Inr (p, db') \<Longrightarrow>
    rowId \<notin> g_id ` set (gprops db) \<Longrightarrow> gov_step dec (db, bs) (db', bs)"
| check: "vote_check dec now param who i db = Inr b \<Longrightarrow> gov_step dec (db, bs) (db, b # bs)"
| commit: "b \<in> set bs \<Longrightarrow> vote_commit dec now b db = Inr (t, db') \<Longrightarrow>
    gov_step dec (db, bs) (db', remove1 b bs)"
| close: "gov_step dec (db, bs) (snd (closeDueProposals now db), bs)"
| stake: "stakes_ok ss \<Longrightarrow> gov_step dec (db, bs) (db\<lparr>stakes := ss\<rparr>, bs)"

definition gov_init :: "gov_db \<times> ballot list \<Rightarrow> bool" where
  "gov_init s \<longleftrightarrow> gprops (fst s) = [] \<and> votes (fst s) = [] \<and> snapshots (fst s) = [] \<and>
    stakes_ok (stakes (fst s)) \<and> snd s = []"

definition gov_sys_inv :: "gov_db \<times> ballot list \<Rightarrow> bool" where
  "gov_sys_inv s \<longleftrightarrow> gov_inv (fst s) \<and> stakes_ok (stakes (fst s)) \<and> (\<forall>b \<in> set (snd s). ballot_ok (fst s) b)"

subsection \<open>Votes\<close>

lemma prop_ok_cong:
  "g_options p' = g_options p \<Longrightarrow> g_tally p' = g_tally p \<Longrightarrow>
    g_snapshotTotalWeight p' = g_snapshotTotalWeight p \<Longrightarrow> prop_ok p' ss vs = prop_ok p ss vs"
  by (simp add: prop_ok_def options_of_def)

lemma seven_places_of_int: "seven_places (of_int k)"
proof -
  have "(of_int k :: rat) * 10 ^ 7 = of_int (k * 10 ^ 7)" by simp
  then show ?thesis unfolding seven_places_def by (simp only: floor_of_int)
qed

lemma ballot_ok_mono:
  assumes "\<And>q. q \<in> set (gprops db) \<Longrightarrow>
      \<exists>q' \<in> set (gprops db'). prop_key q' = prop_key q \<and> options_of q' = options_of q"
    and "\<And>k. set (snapshots_of k db) \<subseteq> set (snapshots_of k db')" and "ballot_ok db b"
  shows "ballot_ok db' b"
  using assms(3) unfolding ballot_ok_def by (metis assms(1,2) subsetD)

lemma whole_text:
  assumes "decimal_laws dec" "whole_weight w"
  shows "toIntegerString (Some (dec_text dec w)) = show_int \<lfloor>w\<rfloor>"
    and "dec_parse dec (show_int \<lfloor>w\<rfloor>) = w"
proof -
  from assms(2) have w: "w = of_int \<lfloor>w\<rfloor>" "0 < \<lfloor>w\<rfloor>" "\<lfloor>w\<rfloor> < 10 ^ 21"
    by (auto simp: whole_weight_def floor_less_iff)
  have "seven_places w" using seven_places_of_int [of "\<lfloor>w\<rfloor>"] w(1) by metis
  moreover have "1 \<le> w" using w(2) by linarith
  ultimately show "toIntegerString (Some (dec_text dec w)) = show_int \<lfloor>w\<rfloor>"
    using assms by (simp add: decimal_laws_def whole_weight_def)
  show "dec_parse dec (show_int \<lfloor>w\<rfloor>) = w"
    using assms(1) w by (simp add: decimal_laws_def)
qed

lemma check_ballot_ok:
  assumes "decimal_laws dec" "gov_inv db" "vote_check dec now param who i db = Inr b"
  shows "ballot_ok db b"
proof -
  from assms(3) obtain p where p: "findProposal param db = Some p"
    and i: "0 \<le> i" "i < int (length (options_of p))"
    and pos: "0 < toBigInt (Some (snapshot_weight dec (find_snapshot (g_keyId p) (g_proposalId p) who db)))"
    and b: "b = \<lparr>b_keyId = g_keyId p, b_proposalId = g_proposalId p, b_wallet = who,
      b_optionIndex = nat i, b_option = options_of p ! nat i,
      b_weight = snapshot_weight dec (find_snapshot (g_keyId p) (g_proposalId p) who db)\<rparr>"
    by (auto simp: vote_check_def Let_def split: option.splits if_splits)
  have in_db: "p \<in> set (gprops db)"
    using p find_Some_in unfolding findProposal_def by metis
  obtain s where s: "find_snapshot (g_keyId p) (g_proposalId p) who db = Some s"
    using pos by (cases "find_snapshot (g_keyId p) (g_proposalId p) who db")
      (auto simp: snapshot_weight_def toIntegerString_def)
  then have s_in: "s \<in> set (snapshots_of (prop_key p) db)" "sn_wallet s = who"
    by (auto simp: find_snapshot_def snapshots_of_def prop_key_def dest!: find_Some_in)
  then have "whole_weight (sn_weight s)"
    using assms(2) in_db by (auto simp: gov_inv_def prop_ok_def)
  then have "b_weight b = show_int \<lfloor>sn_weight s\<rfloor>"
    using whole_text(1) [OF assms(1)] by (simp add: b s snapshot_weight_def)
  with in_db s_in i show ?thesis
    by (auto simp: ballot_ok_def b prop_key_def)
qed

lemma vote_commit_okE:
  assumes "vote_commit dec now b db = Inr (t, db')"
  obtains p acts where "find_by prop_key (b_keyId b, b_proposalId b) (gprops db) = Some p"
    "g_status p = Active" "now < g_expiresAt p"
    "applyVoteWeight (g_tally p) (b_weight b) (b_option b) = Inr t"
    "find_vote (b_keyId b) (b_proposalId b) (b_wallet b) db = None"
    "db' = db\<lparr>
      gprops := modify_by prop_key (b_keyId b, b_proposalId b) (\<lambda>p. p\<lparr>g_tally := t\<rparr>) (gprops db),
      votes := votes db @ [\<lparr>v_keyId = b_keyId b, v_proposalId = b_proposalId b,
        v_voter = b_wallet b, v_optionIndex = b_optionIndex b,
        v_weight = dec_parse dec (b_weight b), v_createdAt = now\<rparr>],
      activities := acts\<rparr>"
  using assms by (auto simp: vote_commit_def Let_def split: option.splits if_splits sum.splits)

lemma applyVoteWeight_show:
  assumes "totalVotingWeight t = show_int m" "results t c = Some (show_int n)"
  shows "applyVoteWeight t (show_int w) c =
    Inr \<lparr>totalVotingWeight = show_int (m + w), results = (results t)(c \<mapsto> show_int (n + w))\<rparr>"
  using assms by (simp add: applyVoteWeight_def tally_toBigInt_def show_int_plain)

lemma prop_ok_vote:
  assumes ok: "prop_ok p ss vs" and s: "s \<in> set ss" "sn_wallet s = v_voter v" "sn_weight s = v_weight v"
    and fresh: "v_voter v \<notin> v_voter ` set vs" and i: "v_optionIndex v < length (options_of p)"
    and t: "applyVoteWeight (g_tally p) (show_int \<lfloor>v_weight v\<rfloor>) (options_of p ! v_optionIndex v) = Inr t"
  shows "prop_ok (p\<lparr>g_tally := t\<rparr>) ss (vs @ [v])"
proof -
  let ?c = "options_of p ! v_optionIndex v"
  let ?n = "weight_sum (filter (\<lambda>v. options_of p ! v_optionIndex v = ?c) vs)"
  have opts: "options_of (p\<lparr>g_tally := t\<rparr>) = options_of p" by (simp add: options_of_def)
  have "results (g_tally p) ?c = Some (show_int ?n)"
    using ok i by (simp add: prop_ok_def)
  then have t': "t = \<lparr>totalVotingWeight = show_int (weight_sum vs + \<lfloor>v_weight v\<rfloor>),
      results = (results (g_tally p))(?c \<mapsto> show_int (?n + \<lfloor>v_weight v\<rfloor>))\<rparr>"
    using ok t applyVoteWeight_show by (simp add: prop_ok_def)
  show ?thesis
    using ok s fresh i unfolding prop_ok_def opts
    by (auto simp: t' weight_sum_def)
qed

lemma commit_inv:
  assumes laws: "decimal_laws dec" and inv: "gov_inv db" and b: "ballot_ok db b"
    and ok: "vote_commit dec now b db = Inr (t, db')"
  shows "gov_inv db'" and "stakes db' = stakes db" and "ballot_ok db b' \<Longrightarrow> ballot_ok db' b'"
proof -
  let ?k = "(b_keyId b, b_proposalId b)"
  from ok obtain p acts where p: "find_by prop_key ?k (gprops db) = Some p"
    and t: "applyVoteWeight (g_tally p) (b_weight b) (b_option b) = Inr t"
    and fresh: "find_vote (b_keyId b) (b_proposalId b) (b_wallet b) db = None"
    and db'_raw: "db' = db\<lparr>gprops := modify_by prop_key ?k (\<lambda>p. p\<lparr>g_tally := t\<rparr>) (gprops db),
      votes := votes db @ [\<lparr>v_keyId = b_keyId b, v_proposalId = b_proposalId b,
        v_voter = b_wallet b, v_optionIndex = b_optionIndex b,
        v_weight = dec_parse dec (b_weight b), v_createdAt = now\<rparr>], activities := acts\<rparr>"
    by (rule vote_commit_okE)
  from find_by_SomeD [OF p] have p_in: "p \<in> set (gprops db)" "prop_key p = ?k" by auto
  from b p_in inv obtain s where i: "b_optionIndex b < length (options_of p)" "b_option b = options_of p ! b_optionIndex b"
    and s: "s \<in> set (snapshots_of ?k db)" "sn_wallet s = b_wallet b" "b_weight b = show_int \<lfloor>sn_weight s\<rfloor>"
    unfolding ballot_ok_def gov_inv_def by (metis find_by_distinct option.inject p)
  have okp: "prop_ok p (snapshots_of ?k db) (votes_of ?k db)"
    using inv p_in by (auto simp: gov_inv_def)
  then have whole: "whole_weight (sn_weight s)" using s(1) by (simp add: prop_ok_def)
  define v where "v = \<lparr>v_keyId = b_keyId b, v_proposalId = b_proposalId b,
        v_voter = b_wallet b, v_optionIndex = b_optionIndex b, v_weight = sn_weight s, v_createdAt = now\<rparr>"
  let ?f = "\<lambda>q. if prop_key q = ?k then q\<lparr>g_tally := t\<rparr> else q"
  have G: "gprops db' = map ?f (gprops db)" and V: "votes db' = votes db @ [v]"
    and S: "snapshots db' = snapshots db" and St: "stakes db' = stakes db"
    by (simp_all add: db'_raw modify_by_def v_def s(3) whole_text(2) [OF laws whole])
  have keys: "map prop_key (map ?f qs) = map prop_key qs" "map g_id (map ?f qs) = map g_id qs" for qs
    by (auto simp: prop_key_def)
  have vk: "votes_of k db' = votes_of k db @ (if k = ?k then [v] else [])" for k
    by (auto simp: votes_of_def V v_def)
  have sk: "snapshots_of k db' = snapshots_of k db" for k
    by (simp add: snapshots_of_def S)
  have vote_ok: "prop_ok (p\<lparr>g_tally := t\<rparr>) (snapshots_of ?k db) (votes_of ?k db @ [v])"
  proof (rule prop_ok_vote [OF okp s(1)])
    show "v_voter v \<notin> v_voter ` set (votes_of ?k db)"
      using fresh by (auto simp: v_def votes_of_def find_vote_def find_None_iff)
    show "applyVoteWeight (g_tally p) (show_int \<lfloor>v_weight v\<rfloor>) (options_of p ! v_optionIndex v) = Inr t"
      using t by (simp add: v_def s(3) i(2))
  qed (simp_all add: v_def s(2) i(1))
  have "prop_ok q (snapshots_of (prop_key q) db') (votes_of (prop_key q) db')"
    if "q \<in> set (gprops db')" for q
  proof -
    from that obtain q0 where q0: "q0 \<in> set (gprops db)" "q = ?f q0" by (auto simp: G)
    have kq: "prop_key q = prop_key q0" using q0(2) by (simp add: prop_key_def split: if_splits)
    show ?thesis
    proof (cases "prop_key q0 = ?k")
      case True
      then have "q0 = p"
        using inv q0(1) p find_by_distinct [of prop_key "gprops db" q0] by (simp add: gov_inv_def)
      with True q0(2) have "q = p\<lparr>g_tally := t\<rparr>" by simp
      moreover have "prop_key q = ?k" using kq True by simp
      ultimately show ?thesis unfolding sk vk using vote_ok by metis
    next
      case False
      then show ?thesis using inv q0 by (simp add: kq sk vk gov_inv_def)
    qed
  qed
  note props = this
  have K: "map prop_key (gprops db') = map prop_key (gprops db)" "map g_id (gprops db') = map g_id (gprops db)"
    unfolding G by (rule keys)+
  have KS: "prop_key ` set (gprops db') = prop_key ` set (gprops db)"
    using arg_cong [OF K(1), of set] by simp
  have "(v_keyId v, v_proposalId v) \<in> prop_key ` set (gprops db)"
    using p_in by (simp add: v_def image_iff) metis
  then show "gov_inv db'"
    using inv props unfolding gov_inv_def K KS by (simp add: V S)
  show "stakes db' = stakes db" by (rule St)
  show "ballot_ok db' b'" if old: "ballot_ok db b'"
  proof (rule ballot_ok_mono [OF _ _ old])
    fix q assume "q \<in> set (gprops db)"
    moreover have "prop_key (?f q) = prop_key q" "options_of (?f q) = options_of q"
      by (simp_all add: prop_key_def options_of_def)
    ultimately show "\<exists>q' \<in> set (gprops db'). prop_key q' = prop_key q \<and> options_of q' = options_of q"
      unfolding G list.set_map by blast
  qed (simp add: sk)
qed

subsection \<open>Snapshots\<close>

lemma hd_split_no_sep: "sep \<notin> set (hd (split_on sep t))"
  by (induction t) (auto split: list.splits)

lemma toIntegerString_idem [simp]:
  "toIntegerString (Some (toIntegerString v)) = toIntegerString v"
proof (cases v)
  case (Some t)
  then show ?thesis using hd_split_no_sep [of "CHR ''.''" t]
    by (auto simp: toIntegerString_def Let_def)
qed (simp add: toIntegerString_def)

lemma toBigInt_toIntegerString [simp]: "toBigInt (Some (toIntegerString v)) = toBigInt v"
  by (simp add: toBigInt_def)

lemma seven_places_add: "seven_places a \<Longrightarrow> seven_places b \<Longrightarrow> seven_places (a + b)"
  unfolding seven_places_def by (simp add: distrib_right) (metis floor_of_int of_int_add)

lemma seven_places_sum: "\<forall>x \<in> set xs. seven_places x \<Longrightarrow> seven_places (sum_list xs)"
  using seven_places_of_int [of 0] by (induction xs) (auto intro: seven_places_add)

lemma sum_list_filter_le:
  "(\<And>x. x \<in> set xs \<Longrightarrow> P x \<Longrightarrow> f x \<le> g x) \<Longrightarrow> (\<And>x. x \<in> set xs \<Longrightarrow> (0::rat) \<le> g x) \<Longrightarrow>
    sum_list (map f (filter P xs)) \<le> sum_list (map g xs)"
proof (induction xs)
  case (Cons x xs)
  then have "sum_list (map f (filter P xs)) \<le> sum_list (map g xs)" by simp
  then show ?case using Cons.prems(1) [of x] Cons.prems(2) [of x] by auto
qed simp

text \<open>The staked amount of a wallet that a snapshot taken now counts.\<close>

definition staked_amount :: "string \<Rightarrow> instant \<Rightarrow> gov_db \<Rightarrow> string \<Rightarrow> rat" where
  "staked_amount keyId asOf db w =
    sum_list (map st_amount (filter (\<lambda>s. st_wallet s = w) (counted_stakes keyId asOf db)))"

lemma staked_amount_range:
  assumes "stakes_ok (stakes db)" "w \<in> set (map st_wallet (counted_stakes keyId asOf db))"
  shows "seven_places (staked_amount keyId asOf db w)"
    and "0 < staked_amount keyId asOf db w" and "staked_amount keyId asOf db w < 10 ^ 21"
proof -
  let ?rows = "filter (\<lambda>s. st_wallet s = w) (counted_stakes keyId asOf db)"
  show "seven_places (staked_amount keyId asOf db w)"
    unfolding staked_amount_def
    by (rule seven_places_sum) (use assms(1) in \<open>auto simp: stakes_ok_def counted_stakes_def\<close>)
  have "?rows \<noteq> []" using assms(2) by (auto simp: filter_empty_conv)
  moreover have "\<forall>x \<in> set (map st_amount ?rows). 0 < x" by (auto simp: counted_stakes_def)
  moreover have "xs \<noteq> [] \<Longrightarrow> \<forall>x \<in> set xs. 0 < x \<Longrightarrow> 0 < sum_list xs" for xs :: "rat list"
    by (induction xs) (auto intro: add_pos_nonneg sum_list_nonneg less_imp_le)
  ultimately show "0 < staked_amount keyId asOf db w" by (simp add: staked_amount_def)
  have "staked_amount keyId asOf db w \<le> sum_list (map (\<lambda>s. max 0 (st_amount s)) (stakes db))"
    unfolding staked_amount_def counted_stakes_def filter_filter
    by (rule sum_list_filter_le) auto
  then show "staked_amount keyId asOf db w < 10 ^ 21" using assms(1) by (simp add: stakes_ok_def)
qed

lemma computeStaked_entries:
  assumes laws: "decimal_laws dec" and ok: "stakes_ok (stakes db)"
  shows "distinct (map fst (computeStakedBalancesForKey dec keyId asOf db))"
    and "(w, wt) \<in> set (computeStakedBalancesForKey dec keyId asOf db) \<longleftrightarrow>
      w \<in> st_wallet ` set (counted_stakes keyId asOf db) \<and> 1 \<le> staked_amount keyId asOf db w \<and>
      wt = show_int \<lfloor>staked_amount keyId asOf db w\<rfloor>"
proof -
  let ?g = "\<lambda>w. (w, toIntegerString (Some (dec_text dec (staked_amount keyId asOf db w))))"
  have comp: "computeStakedBalancesForKey dec keyId asOf db =
      filter (\<lambda>(w, weight). toBigInt (Some weight) > 0)
        (map ?g (remdups (map st_wallet (counted_stakes keyId asOf db))))"
    by (simp add: computeStakedBalancesForKey_def Let_def staked_amount_def comp_def)
  have "map fst (map ?g ws) = ws" for ws by (induction ws) auto
  then show "distinct (map fst (computeStakedBalancesForKey dec keyId asOf db))"
    unfolding comp by (intro distinct_map_filter) simp
  have printed: "toBigInt (Some (dec_text dec (staked_amount keyId asOf db w))) > 0 \<longleftrightarrow>
        1 \<le> staked_amount keyId asOf db w"
      "1 \<le> staked_amount keyId asOf db w \<Longrightarrow>
        toIntegerString (Some (dec_text dec (staked_amount keyId asOf db w))) =
          show_int \<lfloor>staked_amount keyId asOf db w\<rfloor>"
    if "w \<in> set (map st_wallet (counted_stakes keyId asOf db))" for w
  proof -
    note range = staked_amount_range [OF ok that]
    show plain: "1 \<le> staked_amount keyId asOf db w \<Longrightarrow>
        toIntegerString (Some (dec_text dec (staked_amount keyId asOf db w))) =
          show_int \<lfloor>staked_amount keyId asOf db w\<rfloor>"
      using laws range by (simp add: decimal_laws_def)
    show "toBigInt (Some (dec_text dec (staked_amount keyId asOf db w))) > 0 \<longleftrightarrow>
        1 \<le> staked_amount keyId asOf db w"
    proof (cases "1 \<le> staked_amount keyId asOf db w")
      case True
      then have "0 < \<lfloor>staked_amount keyId asOf db w\<rfloor>" by linarith
      moreover have "toBigInt (Some (dec_text dec (staked_amount keyId asOf db w))) =
          \<lfloor>staked_amount keyId asOf db w\<rfloor>"
        using plain [OF True] by (metis toBigInt_show toBigInt_toIntegerString)
      ultimately show ?thesis using True by metis
    next
      case False
      then show ?thesis using laws range by (simp add: decimal_laws_def)
    qed
  qed
  show "(w, wt) \<in> set (computeStakedBalancesForKey dec keyId asOf db) \<longleftrightarrow>
      w \<in> st_wallet ` set (counted_stakes keyId asOf db) \<and> 1 \<le> staked_amount keyId asOf db w \<and>
      wt = show_int \<lfloor>staked_amount keyId asOf db w\<rfloor>"
    unfolding comp using printed [of w] by auto
qed

lemma createGovernance_okE:
  assumes "createGovernanceProposal dec now rand rowId input who db = Inr (p, db')"
  obtains keyId pid weights acts where
    "weights = computeStakedBalancesForKey dec keyId now db"
    "find_by prop_key (keyId, pid) (gprops db) = None"
    "p = \<lparr>g_id = rowId, g_keyId = keyId, g_proposalId = pid, g_title = ci_title input,
      g_options = Some (ci_options input),
      g_tally = \<lparr>totalVotingWeight = ''0'',
        results = foldl (\<lambda>m opt. m(opt \<mapsto> ''0'')) (\<lambda>_. None) (ci_options input)\<rparr>,
      g_snapshotLedger = getSnapshotLedger db,
      g_snapshotTotalWeight = Some (show_int (foldl (\<lambda>acc (w, weight). acc + toBigInt (Some weight)) 0 weights)),
      g_quorumBps = Some (case ci_quorumBps input of Some b \<Rightarrow> b | None \<Rightarrow> DEFAULT_QUORUM_BPS),
      g_expiresAt = now + ci_durationDays input * 24 * 60 * 60 * 1000, g_closedAt = None,
      g_executedAt = None, g_status = Active, g_createdAt = now\<rparr>"
    "db' = db\<lparr>gprops := insert_row p (gprops db), snapshots := snapshots db @
      map (\<lambda>(w, weight). \<lparr>sn_keyId = keyId, sn_proposalId = pid, sn_wallet = w,
        sn_weight = dec_parse dec weight\<rparr>) weights, activities := acts\<rparr>"
  using assms
  by (fastforce simp: createGovernanceProposal_def Let_def split: option.splits if_splits)

lemma initial_results:
  "foldl (\<lambda>m opt. m(opt \<mapsto> ''0'')) m0 opts c = (if c \<in> set opts then Some ''0'' else m0 c)"
  by (induction opts arbitrary: m0) auto

lemma foldl_weights:
  "foldl (\<lambda>acc (w, weight). acc + toBigInt (Some weight)) z ws =
    z + sum_list (map (\<lambda>(w, weight). toBigInt (Some weight)) ws)"
  by (induction ws arbitrary: z) auto

lemma gov_create_inv:
  assumes laws: "decimal_laws dec" and stakes: "stakes_ok (stakes db)" and inv: "gov_inv db"
    and ok: "createGovernanceProposal dec now rand rowId input who db = Inr (p, db')"
    and fresh_id: "rowId \<notin> g_id ` set (gprops db)"
  shows "gov_inv db'" and "stakes db' = stakes db" and "ballot_ok db b \<Longrightarrow> ballot_ok db' b"
proof -
  from ok obtain keyId pid weights acts where W: "weights = computeStakedBalancesForKey dec keyId now db"
    and fresh: "find_by prop_key (keyId, pid) (gprops db) = None"
    and p: "p = \<lparr>g_id = rowId, g_keyId = keyId, g_proposalId = pid, g_title = ci_title input,
      g_options = Some (ci_options input),
      g_tally = \<lparr>totalVotingWeight = ''0'',
        results = foldl (\<lambda>m opt. m(opt \<mapsto> ''0'')) (\<lambda>_. None) (ci_options input)\<rparr>,
      g_snapshotLedger = getSnapshotLedger db,
      g_snapshotTotalWeight = Some (show_int (foldl (\<lambda>acc (w, weight). acc + toBigInt (Some weight)) 0 weights)),
      g_quorumBps = Some (case ci_quorumBps input of Some b \<Rightarrow> b | None \<Rightarrow> DEFAULT_QUORUM_BPS),
      g_expiresAt = now + ci_durationDays input * 24 * 60 * 60 * 1000, g_closedAt = None,
      g_executedAt = None, g_status = Active, g_createdAt = now\<rparr>"
    and db'_raw: "db' = db\<lparr>gprops := insert_row p (gprops db), snapshots := snapshots db @
      map (\<lambda>(w, weight). \<lparr>sn_keyId = keyId, sn_proposalId = pid, sn_wallet = w,
        sn_weight = dec_parse dec weight\<rparr>) weights, activities := acts\<rparr>"
    by (rule createGovernance_okE)
  define rows where "rows = map (\<lambda>(w, weight). \<lparr>sn_keyId = keyId, sn_proposalId = pid, sn_wallet = w,
        sn_weight = dec_parse dec weight\<rparr>) weights"
  have G: "gprops db' = insert_row p (gprops db)" and V: "votes db' = votes db"
    and S: "snapshots db' = snapshots db @ rows" and St: "stakes db' = stakes db"
    by (simp_all add: db'_raw rows_def)
  have kp: "prop_key p = (keyId, pid)" "g_id p = rowId" "options_of p = ci_options input"
    by (simp_all add: p prop_key_def options_of_def)
  have new_key: "(keyId, pid) \<notin> prop_key ` set (gprops db)"
    using fresh by (simp add: find_by_None_iff)
  have entry: "\<exists>n. wt = show_int n \<and> 0 < n \<and> n < 10 ^ 21" if "(w, wt) \<in> set weights" for w wt
  proof -
    have e: "w \<in> st_wallet ` set (counted_stakes keyId now db)" "1 \<le> staked_amount keyId now db w"
      "wt = show_int \<lfloor>staked_amount keyId now db w\<rfloor>"
      using that computeStaked_entries(2) [OF laws stakes] by (simp_all add: W)
    moreover have "staked_amount keyId now db w < 10 ^ 21"
      using staked_amount_range(3) [OF stakes] e(1) by simp
    ultimately have "0 < \<lfloor>staked_amount keyId now db w\<rfloor>" "\<lfloor>staked_amount keyId now db w\<rfloor> < 10 ^ 21"
      by (simp_all add: floor_less_iff)
    then show ?thesis using e(3) by blast
  qed
  have weight: "whole_weight (dec_parse dec wt) \<and> \<lfloor>dec_parse dec wt\<rfloor> = toBigInt (Some wt)"
    if wt_in: "(w, wt) \<in> set weights" for w wt
  proof -
    obtain n where n: "wt = show_int n" "0 < n" "n < 10 ^ 21" using entry [OF wt_in] by blast
    then have "dec_parse dec wt = of_int n" using laws by (simp add: decimal_laws_def)
    moreover have "(of_int n :: rat) < of_int (10 ^ 21)" using n(3) by (simp only: of_int_less_iff)
    ultimately show ?thesis using n by (simp add: whole_weight_def)
  qed
  have rows_ok: "\<forall>s \<in> set rows. whole_weight (sn_weight s)"
    using weight by (auto simp: rows_def)
  have "map sn_wallet rows = map fst weights" by (auto simp: rows_def)
  then have rows_distinct: "distinct (map sn_wallet rows)"
    using computeStaked_entries(1) [OF laws stakes] by (simp add: W)
  have "map (\<lambda>s. \<lfloor>sn_weight s\<rfloor>) rows = map (\<lambda>(w, weight). toBigInt (Some weight)) weights"
    using weight by (auto simp: rows_def)
  then have rows_sum: "snapshot_sum rows = foldl (\<lambda>acc (w, weight). acc + toBigInt (Some weight)) 0 weights"
    by (simp add: snapshot_sum_def foldl_weights)
  have no_votes: "votes_of (keyId, pid) db' = []" and no_old: "snapshots_of (keyId, pid) db = []"
    using inv new_key by (auto simp: gov_inv_def votes_of_def snapshots_of_def V filter_empty_conv)
  have rows_key: "filter (\<lambda>s. (sn_keyId s, sn_proposalId s) = k) rows = (if k = (keyId, pid) then rows else [])" for k
    by (auto simp: rows_def filter_id_conv filter_empty_conv)
  have sk: "snapshots_of k db' = snapshots_of k db @ (if k = (keyId, pid) then rows else [])" for k
    using rows_key by (simp add: snapshots_of_def S)
  have vk: "votes_of k db' = votes_of k db" for k by (simp add: votes_of_def V)
  have "prop_ok p (snapshots_of (prop_key p) db') (votes_of (prop_key p) db')"
    using rows_ok rows_distinct rows_sum
    by (simp add: kp(1) no_votes sk no_old prop_ok_def weight_sum_def kp(3))
      (simp add: p show_int_digit initial_results)
  moreover have "prop_ok q (snapshots_of (prop_key q) db') (votes_of (prop_key q) db')"
    if "q \<in> set (gprops db)" for q
  proof -
    have "prop_key q \<noteq> (keyId, pid)" using that new_key by (metis imageI)
    then show ?thesis using that inv by (simp add: gov_inv_def sk vk)
  qed
  moreover have "\<forall>s \<in> set rows. (sn_keyId s, sn_proposalId s) = prop_key p"
    by (auto simp: rows_def kp)
  moreover have "distinct (map prop_key (gprops db'))" "distinct (map g_id (gprops db'))"
    using inv new_key fresh_id by (simp_all add: gov_inv_def G kp)
  ultimately show "gov_inv db'"
    using inv unfolding gov_inv_def by (auto simp: G V S)
  show "stakes db' = stakes db" by (rule St)
  show "ballot_ok db b \<Longrightarrow> ballot_ok db' b"
    by (erule ballot_ok_mono [rotated 2]) (auto simp: G sk)
qed

lemma close_inv:
  assumes inv: "gov_inv db"
  shows "gov_inv (snd (closeDueProposals now db))"
    and "stakes (snd (closeDueProposals now db)) = stakes db"
    and "ballot_ok db b \<Longrightarrow> ballot_ok (snd (closeDueProposals now db)) b"
proof -
  define f where "f = (\<lambda>p. if g_status p = Active \<and> g_expiresAt p \<le> now
      then p\<lparr>g_status := outcome_of p, g_closedAt := Some now\<rparr> else p)"
  have rows: "snd (closeDueProposals now db) = db\<lparr>gprops := map f (gprops db)\<rparr>"
    using closeDue_rows [of db now] inv by (simp add: gov_inv_def f_def)
  have f: "prop_key (f p) = prop_key p" "g_id (f p) = g_id p" "options_of (f p) = options_of p"
    "prop_ok (f p) ss vs = prop_ok p ss vs" for p ss vs
    by (simp_all add: f_def prop_key_def options_of_def prop_ok_def)
  have same: "snapshots_of k (db\<lparr>gprops := ps\<rparr>) = snapshots_of k db"
      "votes_of k (db\<lparr>gprops := ps\<rparr>) = votes_of k db" for k ps
    by (simp_all add: snapshots_of_def votes_of_def)
  have keys: "map prop_key (map f ps) = map prop_key ps" "map g_id (map f ps) = map g_id ps" for ps
    by (simp_all add: f)
  have key_set: "prop_key ` f ` X = prop_key ` X" for X
    by (simp add: image_image f)
  show "gov_inv (snd (closeDueProposals now db))"
    using inv unfolding rows gov_inv_def same by (simp add: keys key_set f same del: map_map)
  show "stakes (snd (closeDueProposals now db)) = stakes db" by (simp add: rows)
  show "ballot_ok db b \<Longrightarrow> ballot_ok (snd (closeDueProposals now db)) b"
    unfolding rows by (erule ballot_ok_mono [rotated 2]) (auto simp: f same)
qed

lemma gov_sys_step:
  assumes laws: "decimal_laws dec" and inv: "gov_sys_inv s" and step: "gov_step dec s t"
  shows "gov_sys_inv t"
  using step
proof cases
  case (create now rand rowId input who db p db' bs)
  have "gov_inv db" "stakes_ok (stakes db)" "\<forall>b \<in> set bs. ballot_ok db b"
    using inv by (simp_all add: gov_sys_inv_def create(1))
  then show ?thesis
    using gov_create_inv [OF laws _ _ create(3,4)] by (simp add: gov_sys_inv_def create(2))
next
  case (check now param who i db b bs)
  have "gov_inv db" "stakes_ok (stakes db)" "\<forall>b \<in> set bs. ballot_ok db b"
    using inv by (simp_all add: gov_sys_inv_def check(1))
  then show ?thesis
    using check_ballot_ok [OF laws _ check(3)] by (simp add: gov_sys_inv_def check(2))
next
  case (commit b bs now db v db')
  have "gov_inv db" "stakes_ok (stakes db)" "\<forall>b \<in> set bs. ballot_ok db b"
    using inv by (simp_all add: gov_sys_inv_def commit(1))
  moreover have "b' \<in> set bs" if "b' \<in> set (remove1 b bs)" for b'
    using that by (rule set_mp [OF set_remove1_subset])
  ultimately show ?thesis
    using commit_inv [OF laws _ _ commit(4)] commit(3) by (simp add: gov_sys_inv_def commit(2))
next
  case (close db bs now)
  have "gov_inv db" "stakes_ok (stakes db)" "\<forall>b \<in> set bs. ballot_ok db b"
    using inv by (simp_all add: gov_sys_inv_def close(1))
  then show ?thesis using close_inv by (simp add: gov_sys_inv_def close(2))
next
  case (stake ss db bs)
  have "gov_inv db" "\<forall>b \<in> set bs. ballot_ok db b"
    using inv by (simp_all add: gov_sys_inv_def stake(1))
  moreover have "gov_inv (db\<lparr>stakes := ss\<rparr>) = gov_inv db" "ballot_ok (db\<lparr>stakes := ss\<rparr>) b = ballot_ok db b" for b
    by (simp_all add: gov_inv_def ballot_ok_def votes_of_def snapshots_of_def)
  ultimately show ?thesis using stake(3) by (simp add: gov_sys_inv_def stake(2))
qed

interpretation gov_sys: invariant_system gov_init "gov_step dec" "\<lambda>s. decimal_laws dec \<longrightarrow> gov_sys_inv s" for dec
proof
  show "decimal_laws dec \<longrightarrow> gov_sys_inv s" if "gov_init s" for s
    using that by (auto simp: gov_init_def gov_sys_inv_def gov_inv_def)
qed (blast intro: gov_sys_step)

section \<open>Properties of the voting system\<close>

lemma cast_le_eligible:
  assumes "prop_ok p ss vs"
  shows "weight_sum vs \<le> snapshot_sum ss"
proof -
  define W where "W = (\<lambda>w. \<lfloor>sn_weight (the (find_by sn_wallet w ss))\<rfloor>)"
  have ds: "distinct (map sn_wallet ss)" and dv: "distinct (map v_voter vs)"
    using assms by (simp_all add: prop_ok_def)
  have m: "map (\<lambda>s. \<lfloor>sn_weight s\<rfloor>) ss = map W (map sn_wallet ss)"
    using find_by_distinct [OF ds] by (simp add: W_def)
  have "snapshot_sum ss = sum W (set (map sn_wallet ss))"
    unfolding snapshot_sum_def m by (rule sum_list_distinct_conv_sum_set [OF ds])
  then have S: "snapshot_sum ss = sum W (sn_wallet ` set ss)" by simp
  have backed: "\<exists>s \<in> set ss. sn_wallet s = v_voter v \<and> sn_weight s = v_weight v" if "v \<in> set vs" for v
    using assms that by (simp add: prop_ok_def)
  have "\<lfloor>v_weight v\<rfloor> = W (v_voter v)" if "v \<in> set vs" for v
    using backed [OF that] find_by_distinct [OF ds] by (metis W_def option.sel)
  then have m: "map (\<lambda>v. \<lfloor>v_weight v\<rfloor>) vs = map W (map v_voter vs)" by simp
  have "weight_sum vs = sum W (set (map v_voter vs))"
    unfolding weight_sum_def m by (rule sum_list_distinct_conv_sum_set [OF dv])
  then have V: "weight_sum vs = sum W (v_voter ` set vs)" by simp
  show ?thesis unfolding S V
  proof (rule sum_mono2)
    show "v_voter ` set vs \<subseteq> sn_wallet ` set ss" using backed by force
    fix w assume "w \<in> sn_wallet ` set ss - v_voter ` set vs"
    then obtain s where "s \<in> set ss" "w = sn_wallet s" by blast
    moreover have "0 < sn_weight s" using assms \<open>s \<in> set ss\<close> by (simp add: prop_ok_def whole_weight_def)
    ultimately show "0 \<le> W w" using find_by_distinct [OF ds] by (simp add: W_def)
  qed simp
qed


definition same_ballot :: "gov_proposal \<Rightarrow> gov_proposal \<Rightarrow> bool" where
  "same_ballot p q \<longleftrightarrow> g_id q = g_id p \<and> prop_key q = prop_key p \<and>
    g_snapshotLedger q = g_snapshotLedger p \<and> g_snapshotTotalWeight q = g_snapshotTotalWeight p"

lemma findProposal_map:
  assumes "gprops db' = map f (gprops db)" "\<And>p. same_ballot p (f p)" "findProposal param db = Some p"
  shows "findProposal param db' = Some (f p)"
  using assms(1,3) assms(2) find_map_keep [of "\<lambda>p. g_id p = param \<or> g_proposalId p = param" f "gprops db"]
  by (simp add: findProposal_def same_ballot_def prop_key_def)

lemma step_keeps_weight:
  assumes step: "gov_step dec (db, bs) (db', bs')" and p: "findProposal param db = Some p"
    and ids: "distinct (map g_id (gprops db))"
  shows "\<exists>q. findProposal param db' = Some q \<and> same_ballot p q \<and>
    find_snapshot (g_keyId p) (g_proposalId p) w db' = find_snapshot (g_keyId p) (g_proposalId p) w db"
  using step
proof cases
  case (create now rand rowId input who p')
  from create(2) obtain keyId pid weights acts where
    fresh: "find_by prop_key (keyId, pid) (gprops db) = None"
    and db': "db' = db\<lparr>gprops := insert_row p' (gprops db), snapshots := snapshots db @
      map (\<lambda>(w, weight). \<lparr>sn_keyId = keyId, sn_proposalId = pid, sn_wallet = w,
        sn_weight = dec_parse dec weight\<rparr>) weights, activities := acts\<rparr>"
    by (rule createGovernance_okE)
  have "p \<in> set (gprops db)" using p find_Some_in unfolding findProposal_def by metis
  then have "(g_keyId p, g_proposalId p) \<noteq> (keyId, pid)"
    using fresh by (auto simp: find_by_None_iff prop_key_def image_iff)
  then have "find (\<lambda>s. sn_keyId s = g_keyId p \<and> sn_proposalId s = g_proposalId p \<and> sn_wallet s = w)
      (map (\<lambda>(w, weight). \<lparr>sn_keyId = keyId, sn_proposalId = pid, sn_wallet = w,
        sn_weight = dec_parse dec weight\<rparr>) weights) = None"
    by (auto simp: find_None_iff)
  then show ?thesis
    using p by (auto simp: db' findProposal_def find_snapshot_def insert_row_def find_append same_ballot_def
        split: option.splits)
next
  case (check now param who i b)
  then show ?thesis using p by (simp add: same_ballot_def)
next
  case (commit b now v)
  from commit(3) obtain acts vs where db': "db' = db\<lparr>
      gprops := modify_by prop_key (b_keyId b, b_proposalId b) (\<lambda>p. p\<lparr>g_tally := v\<rparr>) (gprops db),
      votes := vs, activities := acts\<rparr>"
    by (rule vote_commit_okE) blast
  define f where "f = (\<lambda>q. if prop_key q = (b_keyId b, b_proposalId b) then q\<lparr>g_tally := v\<rparr> else q)"
  have "findProposal param db' = Some (f p)"
    by (rule findProposal_map [OF _ _ p]) (auto simp: db' modify_by_def f_def same_ballot_def prop_key_def)
  then show ?thesis by (auto simp: db' f_def find_snapshot_def same_ballot_def prop_key_def)
next
  case (close now)
  define f where "f = (\<lambda>p. if g_status p = Active \<and> g_expiresAt p \<le> now
      then p\<lparr>g_status := outcome_of p, g_closedAt := Some now\<rparr> else p)"
  have db': "db' = db\<lparr>gprops := map f (gprops db)\<rparr>"
    using closeDue_rows [OF ids] close by (simp add: f_def)
  have same: "same_ballot p (f p)" for p by (simp add: f_def same_ballot_def prop_key_def)
  have "findProposal param db' = Some (f p)"
    by (rule findProposal_map [OF _ same p]) (simp add: db')
  then show ?thesis using same [of p] by (simp add: db' find_snapshot_def)
next
  case (stake ss)
  then show ?thesis using p by (auto simp: findProposal_def find_snapshot_def same_ballot_def)
qed

text \<open>C16: A wallet's voting weight on a proposal is frozen when the proposal is created: whatever happens
  afterwards (stakes moved, votes cast, proposals created or closed), reading the weight gives the
  same answer.\<close>

theorem voting_weight_frozen:
  assumes "decimal_laws dec" "gov_init s0" "(gov_step dec)\<^sup>*\<^sup>* s0 (db, bs)"
    and "(gov_step dec)\<^sup>*\<^sup>* (db, bs) (db', bs')" and "findProposal param db \<noteq> None"
  shows "getGovernanceVotingWeight dec param wallet db' = getGovernanceVotingWeight dec param wallet db"
proof -
  obtain p where p: "findProposal param db = Some p" using assms(5) by blast
  have "gov_sys_inv (db, bs)" using gov_sys.inv_reachable [OF assms(2,3)] assms(1) by blast
  moreover have "\<exists>q. findProposal param (fst t) = Some q \<and> same_ballot p q \<and>
      find_snapshot (g_keyId p) (g_proposalId p) wallet (fst t) = find_snapshot (g_keyId p) (g_proposalId p) wallet db"
    if "(gov_step dec)\<^sup>*\<^sup>* (db, bs) t" "gov_sys_inv (db, bs)" for t
    using that
  proof (induction rule: rtranclp_induct)
    case base
    then show ?case by (simp add: p same_ballot_def)
  next
    case (step t u)
    obtain q where q: "findProposal param (fst t) = Some q" "same_ballot p q"
      "find_snapshot (g_keyId p) (g_proposalId p) wallet (fst t) = find_snapshot (g_keyId p) (g_proposalId p) wallet db"
      using step.IH step.prems by blast
    have "gov_sys_inv t"
      using gov_sys.inv_steps [OF step.hyps(1)] step.prems assms(1) by blast
    then have ids: "distinct (map g_id (gprops (fst t)))" by (simp add: gov_sys_inv_def gov_inv_def)
    have "gov_step dec (fst t, snd t) (fst u, snd u)" using step.hyps(2) by simp
    from step_keeps_weight [OF this q(1) ids, of wallet] q show ?case
      by (auto simp: same_ballot_def prop_key_def)
  qed
  ultimately obtain q where "findProposal param db' = Some q" "same_ballot p q"
    "find_snapshot (g_keyId p) (g_proposalId p) wallet db' = find_snapshot (g_keyId p) (g_proposalId p) wallet db"
    using assms(4) by fastforce
  then show ?thesis
    by (simp add: getGovernanceVotingWeight_def p same_ballot_def prop_key_def snapshot_total_text_def)
qed

text \<open>A position that has been unstaked counts like an active one: setting \<open>unstakedAt\<close> on any
  positions changes no snapshot. (The documentation promises the sum of active positions; a position
  without an unlock time can be unstaked at any moment and keeps its voting weight.)\<close>

theorem unstaked_positions_still_counted:
  "computeStakedBalancesForKey dec keyId asOf
      (db\<lparr>stakes := modify_where P (\<lambda>s. s\<lparr>st_unstakedAt := Some t\<rparr>) (stakes db)\<rparr>) =
    computeStakedBalancesForKey dec keyId asOf db"
proof -
  let ?f = "\<lambda>s. if P s then s\<lparr>st_unstakedAt := Some t\<rparr> else s"
  have "counted_stakes keyId asOf (db\<lparr>stakes := modify_where P (\<lambda>s. s\<lparr>st_unstakedAt := Some t\<rparr>) (stakes db)\<rparr>) =
      map ?f (counted_stakes keyId asOf db)"
    unfolding counted_stakes_def modify_where_def
    by (simp add: filter_map comp_def if_distrib cong: if_cong)
  moreover have "map st_wallet (map ?f ss) = map st_wallet ss"
    "map st_amount (filter (\<lambda>s. st_wallet s = w) (map ?f ss)) = map st_amount (filter (\<lambda>s. st_wallet s = w) ss)" for w ss
    by (induction ss) auto
  ultimately show ?thesis
    unfolding computeStakedBalancesForKey_def Let_def by (simp only:)
qed

section \<open>Witnesses\<close>

definition example_dec :: decimal_lib where
  "example_dec = \<lparr>dec_text = (\<lambda>r. show_int \<lfloor>r\<rfloor>),
    dec_parse = (\<lambda>t. case read_int t of Some n \<Rightarrow> of_int n | None \<Rightarrow> 0)\<rparr>"

lemma example_dec_laws: "decimal_laws example_dec"
proof -
  have "\<lfloor>r\<rfloor> = 0" if "0 < r" "r < 1" for r :: rat
    using that by (simp add: floor_eq_iff)
  then show ?thesis by (simp add: decimal_laws_def example_dec_def)
qed

definition example_start :: gov_db where
  "example_start = \<lparr>creators = [(''k'', ''h'', ''u'')], stellarWallets = [(''W'', ''u'')], gprops = [],
    snapshots = [], votes = [],
    stakes = [\<lparr>st_wallet = ''A'', st_keyId = Some ''k'', st_amount = 3, st_lockedAt = 5, st_unlocksAt = None,
       st_unstakedAt = None\<rparr>,
      \<lparr>st_wallet = ''B'', st_keyId = Some ''k'', st_amount = 2, st_lockedAt = 5, st_unlocksAt = Some 1000,
       st_unstakedAt = None\<rparr>],
    indexedLedgers = [(10, 5)], activities = []\<rparr>"

definition example_create :: create_input where
  "example_create = \<lparr>ci_keyId = ''h'', ci_title = ''t'', ci_options = [''yes'', ''no''],
    ci_durationDays = 1, ci_quorumBps = None\<rparr>"

definition created :: gov_db where
  "created = snd (projr (createGovernanceProposal example_dec 100 ''x'' ''id1'' example_create ''W'' example_start))"

definition example_ballot :: ballot where
  "example_ballot = projr (vote_check example_dec 200 ''id1'' ''A'' 0 created)"

definition voted :: gov_db where
  "voted = snd (projr (vote_commit example_dec 300 example_ballot created))"

lemma Inr_pair: "is_ok r \<Longrightarrow> r = Inr (fst (projr r), snd (projr r))"
  by (cases r) auto

lemma Inr_val: "is_ok r \<Longrightarrow> r = Inr (projr r)"
  by (cases r) auto

lemma example_init: "gov_init (example_start, [])"
proof -
  have "seven_places 3" "seven_places 2" using seven_places_of_int [of 3] seven_places_of_int [of 2] by simp_all
  then show ?thesis by (simp add: gov_init_def example_start_def stakes_ok_def)
qed

lemma example_created: "(gov_step example_dec)\<^sup>*\<^sup>* (example_start, []) (created, [])"
proof -
  have "is_ok (createGovernanceProposal example_dec 100 ''x'' ''id1'' example_create ''W'' example_start)"
    by code_simp
  then have "gov_step example_dec (example_start, []) (created, [])"
    unfolding created_def by (rule gov_step.create [OF Inr_pair]) (simp add: example_start_def)
  then show ?thesis by blast
qed

lemma example_voted: "(gov_step example_dec)\<^sup>*\<^sup>* (created, []) (voted, [])"
proof -
  have "is_ok (vote_check example_dec 200 ''id1'' ''A'' 0 created)" by code_simp
  then have "gov_step example_dec (created, []) (created, [example_ballot])"
    unfolding example_ballot_def by (rule gov_step.check [OF Inr_val])
  moreover have "is_ok (vote_commit example_dec 300 example_ballot created)" by code_simp
  then have "gov_step example_dec (created, [example_ballot]) (voted, remove1 example_ballot [example_ballot])"
    unfolding voted_def by (intro gov_step.commit [OF _ Inr_pair]) simp_all
  ultimately show ?thesis by (simp add: converse_rtranclp_into_rtranclp)
qed


theorem voting_weight_frozen_witness:
  "getGovernanceVotingWeight example_dec ''id1'' ''A'' voted = getGovernanceVotingWeight example_dec ''id1'' ''A'' created \<and>
    map_option totalVotingWeight (map_option g_tally (findProposal ''id1'' voted)) = Some ''3''"
proof -
  have "findProposal ''id1'' created \<noteq> None" by code_simp
  moreover have "map_option totalVotingWeight (map_option g_tally (findProposal ''id1'' voted)) = Some ''3''"
    by code_simp
  ultimately show ?thesis
    using voting_weight_frozen [OF example_dec_laws example_init example_created example_voted] by simp
qed

theorem closeDueProposals_closes_exactly_due_witness:
  "map g_status (gprops (snd (closeDueProposals 90000000 voted))) = [Passed] \<and>
    closeDueProposals 90000000 (snd (closeDueProposals 90000000 voted)) =
      (\<lparr>scanned = 0, outcomes = (\<lambda>_. 0)\<rparr>, snd (closeDueProposals 90000000 voted))"
proof -
  have ids: "distinct (map g_id (gprops voted))" by code_simp
  obtain r db' where e: "closeDueProposals 90000000 voted = (r, db')" by fastforce
  from closeDueProposals_closes_exactly_due [OF ids e]
  have "closeDueProposals 90000000 db' = (\<lparr>scanned = 0, outcomes = (\<lambda>_. 0)\<rparr>, db')" by blast
  moreover have "map g_status (gprops (snd (closeDueProposals 90000000 voted))) = [Passed]" by code_simp
  ultimately show ?thesis by (simp only: e snd_conv)
qed

end
