(* ===== verification/Auctions.thy ===== *)
theory Auctions
  imports Js_Values Js_Double
begin

text \<open>
  English auctions: \<open>src/modules/auctions/auction.service.ts\<close>. Amounts are \<open>Decimal(20, 7)\<close> columns.
  Writing \<open>String(amount)\<close> into such a column is the parameter \<open>enc\<close> (the library prints the double,
  the database rounds it to seven places); reading it with \<open>Number\<close> rounds to the nearest double,
  \<open>fl\<close>. A bid reads the auction outside its transaction, so it is two definitions, \<open>bid_check\<close> and
  \<open>bid_commit\<close>, which \<open>submitBid\<close> runs one after the other.
\<close>

record auction =
  au_id :: string
  au_keyId :: string
  au_status :: string
  minimumBid :: "rat option"
  minimumIncrement :: "rat option"
  currentBid :: "rat option"
  currentBidder :: "string option"
  winnerWallet :: "string option"
  au_closedAt :: "instant option"
  au_updatedAt :: instant

record auction_bid =
  bid_id :: string
  bid_auctionId :: string
  bidderId :: string
  bid_amount :: rat
  bid_status :: string
  refundedAt :: "instant option"
  bid_createdAt :: instant

record outbid_event =
  ob_auctionId :: string
  previousBidder :: string
  newBidder :: string
  previousAmount :: rat
  newAmount :: rat

record auction_db =
  auctions :: "auction list"
  bids :: "auction_bid list"
  registeredKeys :: "(string \<times> string) list"
  emitted :: "outbid_event list"

datatype auction_error =
    AuctionNotFoundError string
  | AuctionClosedError string
  | Bid_not_positive
  | Bid_below rat rat rat
  | Record_not_found

interpretation auction_table: keyed_table
  au_id "find_by au_id" insert_row "modify_by au_id" "map au_id"
  by (rule list_keyed_table)

section \<open>Ordering of bids\<close>

text \<open>\<open>orderBy: [{ amount: 'desc' }, { createdAt: 'asc' }]\<close> as a linear order.\<close>

datatype bid_rank = Bid_rank (rank_amount: rat) (rank_time: instant)

instantiation bid_rank :: linorder
begin

definition less_eq_bid_rank :: "bid_rank \<Rightarrow> bid_rank \<Rightarrow> bool" where
  "r \<le> s \<longleftrightarrow> rank_amount s < rank_amount r \<or> (rank_amount r = rank_amount s \<and> rank_time r \<le> rank_time s)"

definition less_bid_rank :: "bid_rank \<Rightarrow> bid_rank \<Rightarrow> bool" where
  "r < s \<longleftrightarrow> rank_amount s < rank_amount r \<or> (rank_amount r = rank_amount s \<and> rank_time r < rank_time s)"

instance
  by standard (auto simp: less_eq_bid_rank_def less_bid_rank_def intro: bid_rank.expand)

end

definition bid_order :: "auction_bid \<Rightarrow> bid_rank" where
  "bid_order b = Bid_rank (bid_amount b) (bid_createdAt b)"

section \<open>Operations\<close>

definition toNumber :: "rat option \<Rightarrow> rat" where
  "toNumber v = (case v of None \<Rightarrow> 0 | Some q \<Rightarrow> fl q)"

definition bids_of :: "string \<Rightarrow> auction_db \<Rightarrow> auction_bid list" where
  "bids_of aid db = filter (\<lambda>b. bid_auctionId b = aid) (bids db)"

definition getAuctionBids :: "string \<Rightarrow> auction_db \<Rightarrow> auction_bid list" where
  "getAuctionBids aid db = sort_key bid_order (bids_of aid db)"

definition minimum_allowed :: "auction \<Rightarrow> rat" where
  "minimum_allowed a =
    fl (toNumber (case currentBid a of Some c \<Rightarrow> Some c | None \<Rightarrow> minimumBid a) + toNumber (minimumIncrement a))"

text \<open>What the checks hand to the transaction: the amount, and the bidder and bid it read.\<close>

record checked_bid =
  cb_auctionId :: string
  cb_bidder :: string
  cb_amount :: rat
  cb_previousBidder :: "string option"
  cb_currentBid :: rat

definition bid_check :: "string \<Rightarrow> string \<Rightarrow> js_num \<Rightarrow> auction_db \<Rightarrow> auction_error + checked_bid" where
  "bid_check aid bidder amount db =
    (case find_by au_id aid (auctions db) of
      None \<Rightarrow> Inl (AuctionNotFoundError aid)
    | Some a \<Rightarrow>
        if au_status a \<noteq> ''OPEN'' then Inl (AuctionClosedError aid)
        else
          case amount of
            Fin q \<Rightarrow>
              if q \<le> 0 then Inl Bid_not_positive
              else
                let current = toNumber (case currentBid a of Some c \<Rightarrow> Some c | None \<Rightarrow> minimumBid a)
                in if q < minimum_allowed a
                   then Inl (Bid_below (minimum_allowed a) current (toNumber (minimumIncrement a)))
                   else Inr \<lparr>cb_auctionId = aid, cb_bidder = bidder, cb_amount = q,
                             cb_previousBidder = currentBidder a, cb_currentBid = current\<rparr>
          | _ \<Rightarrow> Inl Bid_not_positive)"

definition emitAuctionOutbidEvent :: "outbid_event \<Rightarrow> auction_db \<Rightarrow> auction_db" where
  "emitAuctionOutbidEvent e db = db\<lparr>emitted := emitted db @ [e]\<rparr>"

definition bid_commit ::
  "(rat \<Rightarrow> rat) \<Rightarrow> instant \<Rightarrow> string \<Rightarrow> checked_bid \<Rightarrow> auction_db \<Rightarrow> auction_bid \<times> auction_db" where
  "bid_commit enc now bidId c db =
    (let b = \<lparr>bid_id = bidId, bid_auctionId = cb_auctionId c, bidderId = cb_bidder c,
              bid_amount = enc (cb_amount c), bid_status = ''ACTIVE'', refundedAt = None,
              bid_createdAt = now\<rparr>;
         db' = db\<lparr>bids := insert_row b (bids db),
                  auctions := modify_by au_id (cb_auctionId c)
                    (\<lambda>a. a\<lparr>currentBid := Some (enc (cb_amount c)), currentBidder := Some (cb_bidder c),
                           au_updatedAt := now\<rparr>) (auctions db)\<rparr>
     in (b, case cb_previousBidder c of
              None \<Rightarrow> db'
            | Some prev \<Rightarrow>
                if prev \<noteq> [] \<and> prev \<noteq> cb_bidder c then
                  emitAuctionOutbidEvent \<lparr>ob_auctionId = cb_auctionId c, previousBidder = prev,
                    newBidder = cb_bidder c, previousAmount = cb_currentBid c,
                    newAmount = cb_amount c\<rparr> db'
                else db'))"

definition submitBid ::
  "(rat \<Rightarrow> rat) \<Rightarrow> instant \<Rightarrow> string \<Rightarrow> string \<Rightarrow> string \<Rightarrow> js_num \<Rightarrow> auction_db \<Rightarrow>
    auction_error + auction_bid \<times> auction_db" where
  "submitBid enc now bidId aid bidder amount db =
    and_then (bid_check aid bidder amount db) (\<lambda>c. Inr (bid_commit enc now bidId c db))"

record close_outcome =
  co_id :: string
  co_status :: string
  co_winnerWallet :: "string option"

definition winner_bid :: "string \<Rightarrow> auction_db \<Rightarrow> auction_bid option" where
  "winner_bid aid db =
    (case sort_key bid_order (filter (\<lambda>b. bid_status b = ''ACTIVE'') (bids_of aid db)) of
      [] \<Rightarrow> None | b # _ \<Rightarrow> Some b)"

definition closeAuction ::
  "instant \<Rightarrow> string \<Rightarrow> auction_db \<Rightarrow> auction_error + close_outcome \<times> auction_db" where
  "closeAuction now aid db =
    (case find_by au_id aid (auctions db) of
      None \<Rightarrow> Inl (AuctionNotFoundError aid)
    | Some a \<Rightarrow>
        let active = sort_key bid_order (filter (\<lambda>b. bid_status b = ''ACTIVE'') (bids_of aid db));
            winner = winner_bid aid db;
            losing = map bid_id (filter (\<lambda>b. winner = None \<or> bid_id b \<noteq> bid_id (the winner)) active);
            db' = db\<lparr>bids := modify_where (\<lambda>b. bid_id b \<in> set losing)
                       (\<lambda>b. b\<lparr>bid_status := ''REFUNDED'', refundedAt := Some now\<rparr>) (bids db),
                     auctions := modify_by au_id aid
                       (\<lambda>a. a\<lparr>au_status := ''CLOSED'', winnerWallet := map_option bidderId winner,
                              au_closedAt := Some now, au_updatedAt := now\<rparr>) (auctions db)\<rparr>;
            out = \<lparr>co_id = aid, co_status = ''CLOSED'', co_winnerWallet = map_option bidderId winner\<rparr>
        in if au_keyId a \<noteq> [] \<and> winner \<noteq> None then
             (if find_by fst (au_keyId a) (registeredKeys db) = None then Inl Record_not_found
              else Inr (out, db'\<lparr>registeredKeys :=
                modify_by fst (au_keyId a) (\<lambda>(k, _). (k, ''ACTIVE'')) (registeredKeys db)\<rparr>))
           else Inr (out, db'))"

section \<open>Closing\<close>

lemma sort_hd_min:
  assumes "sort_key f xs = y # ys"
  shows "y \<in> set xs" and "x \<in> set xs \<Longrightarrow> f y \<le> f x"
proof -
  have s: "set xs = set (y # ys)" by (metis assms set_sort)
  then show "y \<in> set xs" by simp
  have "sorted (map f (y # ys))" by (metis assms sorted_sort_key)
  then show "x \<in> set xs \<Longrightarrow> f y \<le> f x" using s by auto
qed

lemma winner_bid_None: "winner_bid aid db = None \<longleftrightarrow> (\<forall>b \<in> set (bids_of aid db). bid_status b \<noteq> ''ACTIVE'')"
proof -
  have "winner_bid aid db = None \<longleftrightarrow> filter (\<lambda>b. bid_status b = ''ACTIVE'') (bids_of aid db) = []"
    unfolding winner_bid_def by (cases "sort_key bid_order (filter (\<lambda>b. bid_status b = ''ACTIVE'') (bids_of aid db))")
      (simp_all, metis list.distinct(1) sort_key_Nil_iff)
  then show ?thesis by (simp add: filter_empty_conv)
qed

lemma winner_bid_Some:
  assumes "winner_bid aid db = Some w"
  shows "w \<in> set (bids_of aid db) \<and> bid_status w = ''ACTIVE'' \<and>
    (\<forall>b \<in> set (bids_of aid db). bid_status b = ''ACTIVE'' \<longrightarrow>
      bid_amount b < bid_amount w \<or> (bid_amount w = bid_amount b \<and> bid_createdAt w \<le> bid_createdAt b))"
proof -
  obtain ys where s: "sort_key bid_order (filter (\<lambda>b. bid_status b = ''ACTIVE'') (bids_of aid db)) = w # ys"
    using assms by (auto simp: winner_bid_def split: list.splits)
  from sort_hd_min(1) [OF s] sort_hd_min(2) [OF s]
  show ?thesis by (auto simp: bid_order_def less_eq_bid_rank_def)
qed

lemma losing_ids:
  assumes "distinct (map bid_id (bids db))" "b \<in> set (bids db)"
  shows "bid_id b \<in> set (map bid_id (filter (\<lambda>b. winner_bid aid db = None \<or> bid_id b \<noteq> bid_id (the (winner_bid aid db)))
      (sort_key bid_order (filter (\<lambda>b. bid_status b = ''ACTIVE'') (bids_of aid db))))) \<longleftrightarrow>
    bid_auctionId b = aid \<and> bid_status b = ''ACTIVE'' \<and> winner_bid aid db \<noteq> Some b"
proof -
  have inj: "c = b" if "c \<in> set (bids db)" "bid_id c = bid_id b" for c
    using assms that by (metis find_by_distinct option.inject)
  have win_in: "c \<in> set (bids db)" if "winner_bid aid db = Some c" for c
    using winner_bid_Some [OF that] by (simp add: bids_of_def)
  have no_win: "winner_bid aid db \<noteq> None" if "bid_auctionId b = aid" "bid_status b = ''ACTIVE''"
    using assms(2) that by (auto simp: winner_bid_None bids_of_def)
  have mem: "bid_id b \<in> set (map bid_id (filter P (sort_key bid_order (filter (\<lambda>b. bid_status b = ''ACTIVE'') (bids_of aid db))))) \<longleftrightarrow>
      bid_auctionId b = aid \<and> bid_status b = ''ACTIVE'' \<and> P b" (is "?l \<longleftrightarrow> ?r") for P
  proof
    assume ?l
    then obtain c where "c \<in> set (bids db)" "bid_id c = bid_id b" "bid_auctionId c = aid"
      "bid_status c = ''ACTIVE''" "P c"
      by (auto simp: bids_of_def)
    then show ?r using inj by blast
  next
    assume ?r
    then have "b \<in> set (filter P (sort_key bid_order (filter (\<lambda>b. bid_status b = ''ACTIVE'') (bids_of aid db))))"
      using assms(2) by (simp add: bids_of_def)
    then show ?l by (simp only: list.set_map imageI)
  qed
  have "(winner_bid aid db = None \<or> bid_id b \<noteq> bid_id (the (winner_bid aid db))) \<longleftrightarrow>
      winner_bid aid db \<noteq> Some b"
    if "bid_auctionId b = aid" "bid_status b = ''ACTIVE''"
    using no_win [OF that] win_in inj by (cases "winner_bid aid db") auto
  then show ?thesis unfolding mem by (intro conj_cong refl)
qed

text \<open>C14: Closing an auction settles it: the winner is the bidder of an active bid no other active bid
  beats (an equal one only later), every other active bid of the auction is refunded, bids of other
  auctions and bids already refunded stay as they are, and closing it again changes no bid and names
  the same winner.\<close>

theorem closeAuction_settles:
  assumes ids: "distinct (map bid_id (bids db))" and ok: "closeAuction now aid db = Inr (r, db')"
  shows "bids db' = map (\<lambda>b. if bid_auctionId b = aid \<and> bid_status b = ''ACTIVE'' \<and> winner_bid aid db \<noteq> Some b
      then b\<lparr>bid_status := ''REFUNDED'', refundedAt := Some now\<rparr> else b) (bids db) \<and>
    co_winnerWallet r = map_option bidderId (winner_bid aid db) \<and>
    (\<forall>w. winner_bid aid db = Some w \<longrightarrow> w \<in> set (bids db') \<and> (\<forall>b \<in> set (bids_of aid db).
      bid_status b = ''ACTIVE'' \<longrightarrow> bid_amount b \<le> bid_amount w)) \<and>
    winner_bid aid db' = winner_bid aid db"
proof -
  let ?f = "\<lambda>b. if bid_auctionId b = aid \<and> bid_status b = ''ACTIVE'' \<and> winner_bid aid db \<noteq> Some b
      then b\<lparr>bid_status := ''REFUNDED'', refundedAt := Some now\<rparr> else b"
  have bids: "bids db' = map ?f (bids db)"
    using ok losing_ids [OF ids, of _ aid]
    by (auto simp: closeAuction_def Let_def modify_where_def split: option.splits if_splits)
  have r: "co_winnerWallet r = map_option bidderId (winner_bid aid db)"
    using ok by (auto simp: closeAuction_def Let_def split: option.splits if_splits)
  have mine: "bids_of aid db' = map ?f (bids_of aid db)"
    unfolding bids_of_def bids by (rule filter_map_keep) simp
  have w: "w \<in> set (bids db') \<and> (\<forall>b \<in> set (bids_of aid db). bid_status b = ''ACTIVE'' \<longrightarrow> bid_amount b \<le> bid_amount w)"
    if "winner_bid aid db = Some w" for w
    using winner_bid_Some [OF that] that by (auto simp: bids bids_of_def image_iff)
  have "winner_bid aid db' = winner_bid aid db"
  proof (cases "winner_bid aid db")
    case None
    then have "\<forall>b \<in> set (bids_of aid db). bid_status b \<noteq> ''ACTIVE''" by (simp only: winner_bid_None)
    then have "winner_bid aid db' = None" unfolding winner_bid_None mine by simp
    with None show ?thesis by simp
  next
    case (Some w)
    have "filter (\<lambda>b. bid_status b = ''ACTIVE'') (map ?f xs) = filter (\<lambda>b. b = w) xs"
      if "set xs \<subseteq> set (bids_of aid db)" for xs
      using that winner_bid_Some [OF Some] by (induction xs) (auto simp: Some bids_of_def)
    moreover have "distinct (map bid_id (bids_of aid db))"
      using ids by (simp add: bids_of_def distinct_map_filter)
    then have "filter (\<lambda>b. b = w) (bids_of aid db) = [w]"
      using winner_bid_Some [OF Some] by (simp add: distinct_map filter_eq_single)
    ultimately have "filter (\<lambda>b. bid_status b = ''ACTIVE'') (bids_of aid db') = [w]"
      unfolding mine by simp
    then have "winner_bid aid db' = Some w" unfolding winner_bid_def by simp
    with Some show ?thesis by simp
  qed
  with bids r w show ?thesis by blast
qed

section \<open>Bidding one at a time\<close>

text \<open>A positive double that survives the column: written, rounded to seven places and read back.\<close>

definition storable :: "(rat \<Rightarrow> rat) \<Rightarrow> rat \<Rightarrow> bool" where
  "storable enc q \<longleftrightarrow> fl q = q \<and> 0 < enc q \<and> fl (enc q) = q"

lemma storable_mono:
  assumes "storable enc a" "storable enc b" "a \<le> b"
  shows "enc a \<le> enc b"
proof (rule ccontr)
  assume "\<not> enc a \<le> enc b"
  then have "fl (enc b) \<le> fl (enc a)" using assms(2) by (intro fl_mono_nonneg) (auto simp: storable_def)
  then have "a = b" using assms by (simp add: storable_def)
  with \<open>\<not> enc a \<le> enc b\<close> show False by simp
qed

inductive auction_step :: "(rat \<Rightarrow> rat) \<Rightarrow> auction_db \<Rightarrow> auction_db \<Rightarrow> bool" for enc where
  bid: "submitBid enc now bidId aid who (Fin q) db = Inr (b, db') \<Longrightarrow> storable enc q \<Longrightarrow> auction_step enc db db'"
| close: "closeAuction now aid db = Inr (r, db') \<Longrightarrow> auction_step enc db db'"

text \<open>The amounts of an auction's bids rise, and the auction shows the last of them.\<close>

definition auction_ok :: "(rat \<Rightarrow> rat) \<Rightarrow> auction \<Rightarrow> auction_bid list \<Rightarrow> bool" where
  "auction_ok enc a bs \<longleftrightarrow>
    (\<forall>i. minimumIncrement a = Some i \<longrightarrow> 0 \<le> i) \<and>
    sorted (map bid_amount bs) \<and>
    (\<forall>b \<in> set bs. \<exists>q. storable enc q \<and> bid_amount b = enc q) \<and>
    currentBid a = (if bs = [] then None else Some (bid_amount (last bs))) \<and>
    currentBidder a = (if bs = [] then None else Some (bidderId (last bs)))"

definition auction_inv :: "(rat \<Rightarrow> rat) \<Rightarrow> auction_db \<Rightarrow> bool" where
  "auction_inv enc db \<longleftrightarrow>
    (\<forall>aid a. find_by au_id aid (auctions db) = Some a \<longrightarrow> auction_ok enc a (bids_of aid db))"

definition auction_init :: "auction_db \<Rightarrow> bool" where
  "auction_init db \<longleftrightarrow> bids db = [] \<and> (\<forall>a \<in> set (auctions db).
    currentBid a = None \<and> currentBidder a = None \<and> (\<forall>i. minimumIncrement a = Some i \<longrightarrow> 0 \<le> i))"

lemma bid_commit_rows:
  "bids (snd (bid_commit enc now bidId c db)) = bids db @ [fst (bid_commit enc now bidId c db)]"
  "auctions (snd (bid_commit enc now bidId c db)) = modify_by au_id (cb_auctionId c)
     (\<lambda>a. a\<lparr>currentBid := Some (enc (cb_amount c)), currentBidder := Some (cb_bidder c),
            au_updatedAt := now\<rparr>) (auctions db)"
  "bid_auctionId (fst (bid_commit enc now bidId c db)) = cb_auctionId c"
  "bid_amount (fst (bid_commit enc now bidId c db)) = enc (cb_amount c)"
  "bidderId (fst (bid_commit enc now bidId c db)) = cb_bidder c"
  by (simp_all add: bid_commit_def Let_def insert_row_def emitAuctionOutbidEvent_def split: option.split)

lemma bid_check_okE:
  assumes "bid_check aid who (Fin q) db = Inr c"
  obtains a where "find_by au_id aid (auctions db) = Some a" "au_status a = ''OPEN''" "0 < q"
    "minimum_allowed a \<le> q" "cb_auctionId c = aid" "cb_amount c = q" "cb_bidder c = who"
    "cb_previousBidder c = currentBidder a"
  using assms by (auto simp: bid_check_def Let_def not_less not_le split: option.splits if_splits)

lemma allowed_at_least_current:
  assumes "auction_ok enc a bs" "bs \<noteq> []" "minimum_allowed a \<le> q" "storable enc q"
  shows "bid_amount (last bs) \<le> enc q"
proof -
  obtain q0 where q0: "storable enc q0" "bid_amount (last bs) = enc q0"
    using assms(1) last_in_set [OF assms(2)] unfolding auction_ok_def by blast
  then have "0 \<le> enc q0" and "fl (enc q0) = q0" by (simp_all add: storable_def)
  then have pos: "0 \<le> q0" using fl_nonneg [of "enc q0"] by simp
  have "0 \<le> toNumber (minimumIncrement a)"
    using assms(1) by (auto simp: auction_ok_def toNumber_def fl_nonneg split: option.split)
  then have "fl q0 \<le> fl (q0 + toNumber (minimumIncrement a))" using pos by (intro fl_mono_nonneg) auto
  also have "\<dots> = minimum_allowed a"
    using assms(1,2) q0 by (simp add: minimum_allowed_def auction_ok_def toNumber_def storable_def)
  finally have "q0 \<le> q" using q0 assms(3) by (simp add: storable_def)
  then show ?thesis using storable_mono q0 assms(4) by simp
qed

lemma bid_keeps_inv:
  assumes inv: "auction_inv enc db" and ok: "submitBid enc now bidId aid who (Fin q) db = Inr (b, db')"
    and q: "storable enc q"
  shows "auction_inv enc db'"
proof -
  from ok obtain c where c: "bid_check aid who (Fin q) db = Inr c"
    and commit: "bid_commit enc now bidId c db = (b, db')"
    by (auto simp: submitBid_def)
  from c obtain a where a: "find_by au_id aid (auctions db) = Some a" "minimum_allowed a \<le> q"
    and cf: "cb_auctionId c = aid" "cb_amount c = q" "cb_bidder c = who"
    by (rule bid_check_okE)
  note rows = bid_commit_rows [of enc now bidId c db, unfolded commit fst_conv snd_conv cf]
  have mine: "bids_of k db' = bids_of k db @ (if k = aid then [b] else [])" for k
    by (simp add: bids_of_def rows)
  let ?f = "\<lambda>a. a\<lparr>currentBid := Some (enc q), currentBidder := Some who, au_updatedAt := now\<rparr>"
  have look: "find_by au_id k (auctions db') = (if k = aid then Some (?f a) else find_by au_id k (auctions db))" for k
    unfolding rows(2) using a(1) by (subst auction_table.lookup_modify) auto
  have old: "auction_ok enc a (bids_of aid db)" using inv a(1) by (simp add: auction_inv_def)
  have "\<forall>x \<in> set (bids_of aid db). bid_amount x \<le> enc q"
  proof
    fix x assume x: "x \<in> set (bids_of aid db)"
    then have "bid_amount x \<le> bid_amount (last (bids_of aid db))"
      using old by (cases "bids_of aid db" rule: rev_cases) (auto simp: auction_ok_def sorted_append)
    also have "\<dots> \<le> enc q"
      by (rule allowed_at_least_current [OF old _ a(2) q]) (use x in auto)
    finally show "bid_amount x \<le> enc q" .
  qed
  then have "auction_ok enc (?f a) (bids_of aid db @ [b])"
    using old q by (auto simp: auction_ok_def sorted_append rows)
  then show ?thesis using inv by (simp add: auction_inv_def look mine)
qed

lemma closeAuction_rows:
  assumes "closeAuction now aid db = Inr (r, db')"
  obtains losing w where "bids db' = modify_where (\<lambda>b. bid_id b \<in> losing)
      (\<lambda>b. b\<lparr>bid_status := ''REFUNDED'', refundedAt := Some now\<rparr>) (bids db)"
    "auctions db' = modify_by au_id aid (\<lambda>a. a\<lparr>au_status := ''CLOSED'', winnerWallet := w,
      au_closedAt := Some now, au_updatedAt := now\<rparr>) (auctions db)"
  using assms by (auto simp: closeAuction_def Let_def split: option.splits if_splits)

lemma close_keeps_inv:
  assumes inv: "auction_inv enc db" and ok: "closeAuction now aid db = Inr (r, db')"
  shows "auction_inv enc db'"
proof -
  from ok obtain losing w where B: "bids db' = modify_where (\<lambda>b. bid_id b \<in> losing)
      (\<lambda>b. b\<lparr>bid_status := ''REFUNDED'', refundedAt := Some now\<rparr>) (bids db)"
    and A: "auctions db' = modify_by au_id aid (\<lambda>a. a\<lparr>au_status := ''CLOSED'', winnerWallet := w,
      au_closedAt := Some now, au_updatedAt := now\<rparr>) (auctions db)"
    by (rule closeAuction_rows)
  define f :: "auction_bid \<Rightarrow> auction_bid" where "f = (\<lambda>b. if bid_id b \<in> losing then b\<lparr>bid_status := ''REFUNDED'', refundedAt := Some now\<rparr> else b)"
  have mine: "bids_of k db' = map f (bids_of k db)" for k
    unfolding bids_of_def B modify_where_def f_def by (rule filter_map_keep) simp
  have f: "bid_amount (f b) = bid_amount b" "bidderId (f b) = bidderId b" for b by (simp_all add: f_def)
  define g :: "auction \<Rightarrow> auction" where "g = (\<lambda>a. a\<lparr>au_status := ''CLOSED'', winnerWallet := w,
      au_closedAt := Some now, au_updatedAt := now\<rparr>)"
  have "auction_ok enc (g a) (map f bs) = auction_ok enc a bs"
      "auction_ok enc a (map f bs) = auction_ok enc a bs" for a bs
    by (simp_all add: auction_ok_def f g_def comp_def last_map)
  moreover have "find_by au_id k (auctions db') =
      (if k = aid then map_option g (find_by au_id aid (auctions db)) else find_by au_id k (auctions db))" for k
    unfolding A g_def by (rule auction_table.lookup_modify) simp
  ultimately show ?thesis
    using inv by (auto simp: auction_inv_def mine split: if_splits)
qed

interpretation auction_sys: invariant_system auction_init "auction_step enc" "auction_inv enc" for enc
proof
  show "auction_inv enc db" if "auction_init db" for db
    using that by (auto simp: auction_init_def auction_inv_def auction_ok_def bids_of_def dest!: find_by_SomeD)
  show "auction_inv enc db'" if "auction_inv enc db" "auction_step enc db db'" for db db'
    using that(2,1) by cases (auto intro: bid_keeps_inv close_keeps_inv)
qed

section \<open>Properties of bidding\<close>

text \<open>C12: While bids are checked and committed one at a time, the auction always shows its highest bid:
  the amounts of the accepted bids never fall, \<open>currentBid\<close> is the largest of them and
  \<open>currentBidder\<close> made the last one.\<close>

theorem current_bid_is_highest:
  assumes "auction_init db0" "(auction_step enc)\<^sup>*\<^sup>* db0 db" "find_by au_id aid (auctions db) = Some a"
  shows "sorted (map bid_amount (bids_of aid db)) \<and>
    currentBid a = (if bids_of aid db = [] then None else Some (Max (bid_amount ` set (bids_of aid db)))) \<and>
    currentBidder a = (if bids_of aid db = [] then None else Some (bidderId (last (bids_of aid db))))"
proof -
  have ok: "auction_ok enc a (bids_of aid db)"
    using auction_sys.inv_reachable [OF assms(1,2)] assms(3) by (simp add: auction_inv_def)
  have "Max (bid_amount ` set (bids_of aid db)) = bid_amount (last (bids_of aid db))"
    if "bids_of aid db \<noteq> []"
  proof (rule Max_eqI)
    show "bid_amount (last (bids_of aid db)) \<in> bid_amount ` set (bids_of aid db)" using that by simp
    show "y \<le> bid_amount (last (bids_of aid db))" if y: "y \<in> bid_amount ` set (bids_of aid db)" for y
      using ok y by (cases "bids_of aid db" rule: rev_cases) (auto simp: auction_ok_def sorted_append)
  qed simp
  then show ?thesis using ok by (simp add: auction_ok_def)
qed

definition example_auction :: auction_db where
  "example_auction = \<lparr>auctions = [\<lparr>au_id = ''a'', au_keyId = ''k'', au_status = ''OPEN'', minimumBid = Some 10,
      minimumIncrement = Some 1, currentBid = None, currentBidder = None, winnerWallet = None,
      au_closedAt = None, au_updatedAt = 0\<rparr>], bids = [], registeredKeys = [(''k'', ''PENDING'')], emitted = []\<rparr>"

definition checked :: "string \<Rightarrow> rat \<Rightarrow> checked_bid" where
  "checked who q = projr (bid_check ''a'' who (Fin q) example_auction)"

definition raced :: auction_db where
  "raced = snd (bid_commit id 6 ''b2'' (checked ''W2'' 20) (snd (bid_commit id 5 ''b1'' (checked ''W1'' 100) example_auction)))"

text \<open>Two overlapping bids can lower the auction: a bid of 100 and a bid of 20 both pass the checks
  on the untouched auction, and when 100 commits before 20 the auction shows 20 with the wrong bidder
  although the bid of 100 is active; a bid of 21 is accepted next.\<close>

theorem overlapping_bids_lower_current:
  "bid_check ''a'' ''W1'' (Fin 100) example_auction = Inr (checked ''W1'' 100) \<and>
    bid_check ''a'' ''W2'' (Fin 20) example_auction = Inr (checked ''W2'' 20) \<and>
    map (\<lambda>b. (bid_amount b, bid_status b)) (bids_of ''a'' raced) = [(100, ''ACTIVE''), (20, ''ACTIVE'')] \<and>
    map (\<lambda>a. (currentBid a, currentBidder a)) (auctions raced) = [(Some 20, Some ''W2'')] \<and>
    is_ok (bid_check ''a'' ''W3'' (Fin 21) raced)"
proof -
  have "bid_check ''a'' ''W1'' (Fin 100) example_auction = Inr (checked ''W1'' 100)" by code_simp
  moreover have "bid_check ''a'' ''W2'' (Fin 20) example_auction = Inr (checked ''W2'' 20)" by code_simp
  moreover have "map (\<lambda>b. (bid_amount b, bid_status b)) (bids_of ''a'' raced) = [(100, ''ACTIVE''), (20, ''ACTIVE'')]"
    by code_simp
  moreover have "map (\<lambda>a. (currentBid a, currentBidder a)) (auctions raced) = [(Some 20, Some ''W2'')]"
    by code_simp
  moreover have "is_ok (bid_check ''a'' ''W3'' (Fin 21) raced)" by code_simp
  ultimately show ?thesis by blast
qed

section \<open>Witnesses\<close>

lemma Inr_pair_projr: "is_ok r \<Longrightarrow> r = Inr (fst (projr r), snd (projr r))"
  by (cases r) auto

definition one_bid :: auction_db where
  "one_bid = snd (projr (submitBid id 5 ''b1'' ''a'' ''W1'' (Fin 100) example_auction))"

theorem current_bid_is_highest_witness:
  "currentBid (the (find_by au_id ''a'' (auctions one_bid))) = Some (Max (bid_amount ` set (bids_of ''a'' one_bid)))"
proof -
  have "auction_init example_auction" by (simp add: auction_init_def example_auction_def)
  moreover have "is_ok (submitBid id 5 ''b1'' ''a'' ''W1'' (Fin 100) example_auction)" by code_simp
  then have "auction_step id example_auction one_bid"
    unfolding one_bid_def
  proof (rule auction_step.bid [OF Inr_pair_projr])
    have "fl 100 = 100" by code_simp
    then show "storable id 100" by (simp add: storable_def)
  qed
  then have "(auction_step id)\<^sup>*\<^sup>* example_auction one_bid" by blast
  moreover have "find_by au_id ''a'' (auctions one_bid) \<noteq> None" by code_simp
  then obtain a where a: "find_by au_id ''a'' (auctions one_bid) = Some a" by blast
  moreover have "bids_of ''a'' one_bid \<noteq> []" by code_simp
  ultimately show ?thesis
    using current_bid_is_highest [of example_auction id one_bid "''a''" a] by simp
qed

theorem closeAuction_settles_witness:
  "winner_bid ''a'' raced \<noteq> None \<and>
    co_winnerWallet (fst (projr (closeAuction 9 ''a'' raced))) = map_option bidderId (winner_bid ''a'' raced)"
proof -
  have "distinct (map bid_id (bids raced))" by code_simp
  moreover have "is_ok (closeAuction 9 ''a'' raced)" by code_simp
  then have "closeAuction 9 ''a'' raced =
      Inr (fst (projr (closeAuction 9 ''a'' raced)), snd (projr (closeAuction 9 ''a'' raced)))"
    by (rule Inr_pair_projr)
  moreover have "winner_bid ''a'' raced \<noteq> None" by code_simp
  ultimately show ?thesis using closeAuction_settles [of raced 9 "''a''"] by blast
qed

end
