(* ===== verification/Redis_Cache.thy ===== *)
theory Redis_Cache
  imports Js_Values Circuit_Breaker
begin

text \<open>
  The cache layer of \<open>src/utils/redis.utils.ts\<close>. The state is what Redis holds, a map from keys to
  texts with an expiry instant, and the Redis circuit breaker the layer consults and feeds. Each
  call takes the breaker configuration, the state of the connection during the command (no client,
  command answered, command failed) and the clock. Opening and closing the client is not modelled.

  \<open>JSON.stringify\<close> and \<open>JSON.parse\<close> are the record \<open>json_lib\<close>; the matching of glob patterns by
  \<open>SCAN MATCH\<close>, which Redis does, is the argument \<open>glob\<close>.
\<close>

record cell =
  cell_text :: string
  cell_expires :: instant

type_synonym store = "string \<rightharpoonup> cell"

section \<open>Commands\<close>

definition redis_get :: "instant \<Rightarrow> string \<Rightarrow> store \<Rightarrow> string option" where
  "redis_get now key m =
    (case m key of None \<Rightarrow> None | Some c \<Rightarrow> if now < cell_expires c then Some (cell_text c) else None)"

definition redis_set :: "instant \<Rightarrow> string \<Rightarrow> string \<Rightarrow> int \<Rightarrow> store \<Rightarrow> store" where
  "redis_set now key v ttlSeconds m = m(key \<mapsto> \<lparr>cell_text = v, cell_expires = now + ttlSeconds * 1000\<rparr>)"

definition redis_set_nx :: "instant \<Rightarrow> string \<Rightarrow> string \<Rightarrow> int \<Rightarrow> store \<Rightarrow> bool \<times> store" where
  "redis_set_nx now key v ttlSeconds m =
    (if redis_get now key m = None then (True, redis_set now key v ttlSeconds m) else (False, m))"

definition redis_del :: "string list \<Rightarrow> store \<Rightarrow> store" where
  "redis_del ks m = (\<lambda>k. if k \<in> set ks then None else m k)"

text \<open>What a cache of expiring values promises its clients.\<close>

locale expiring_cache =
  fixes get :: "instant \<Rightarrow> string \<Rightarrow> 's \<Rightarrow> 'v option"
    and put :: "instant \<Rightarrow> string \<Rightarrow> 'v \<Rightarrow> int \<Rightarrow> 's \<Rightarrow> 's"
    and claim :: "instant \<Rightarrow> string \<Rightarrow> 'v \<Rightarrow> int \<Rightarrow> 's \<Rightarrow> bool \<times> 's"
    and remove :: "string list \<Rightarrow> 's \<Rightarrow> 's"
  assumes get_put: "get t' k' (put t k v ttl s) =
      (if k' = k then if t' < t + ttl * 1000 then Some v else None else get t' k' s)"
    and claim_put: "claim t k v ttl s = (if get t k s = None then (True, put t k v ttl s) else (False, s))"
    and get_remove: "get t k (remove ks s) = (if k \<in> set ks then None else get t k s)"
    and get_expires: "t \<le> t' \<Longrightarrow> get t' k s \<noteq> None \<Longrightarrow> get t k s \<noteq> None"
begin

text \<open>A claimed key cannot be claimed again before it expires or is removed.\<close>

lemma claim_exclusive:
  "claim t k v ttl s = (True, s') \<Longrightarrow> t' < t + ttl * 1000 \<Longrightarrow> claim t' k v' ttl' s' = (False, s')"
  by (auto simp: claim_put get_put split: if_splits)

lemma claim_after_remove: "k \<in> set ks \<Longrightarrow> fst (claim t k v ttl (remove ks s))"
  by (simp add: claim_put get_remove)

lemma claim_other: "k' \<noteq> k \<Longrightarrow> get t' k' (snd (claim t k v ttl s)) = get t' k' s"
  by (simp add: claim_put get_put)

end

interpretation redis: expiring_cache redis_get redis_set redis_set_nx redis_del
  by standard (auto simp: redis_get_def redis_set_def redis_set_nx_def redis_del_def split: option.splits if_splits)

section \<open>The guarded operations\<close>

datatype connection = Disabled | Up | Down

record cache =
  cells :: store
  redisCircuitBreaker :: breaker

record json_lib =
  stringify :: "js_value \<Rightarrow> string"
  parse :: "string \<Rightarrow> js_value option"

definition cacheGet ::
  "breaker_config \<Rightarrow> connection \<Rightarrow> instant \<Rightarrow> string \<Rightarrow> cache \<Rightarrow> string option \<times> cache" where
  "cacheGet cfg conn now key s =
    (let (is_open, b) = isOpen cfg now (redisCircuitBreaker s); s1 = s\<lparr>redisCircuitBreaker := b\<rparr>
     in if is_open then (None, s1)
        else case conn of
          Disabled \<Rightarrow> (None, s1)
        | Up \<Rightarrow> (redis_get now key (cells s1), s1\<lparr>redisCircuitBreaker := recordSuccess cfg now b\<rparr>)
        | Down \<Rightarrow> (None, s1\<lparr>redisCircuitBreaker := recordFailure cfg now b\<rparr>))"

definition cacheGetRaw ::
  "breaker_config \<Rightarrow> connection \<Rightarrow> instant \<Rightarrow> string \<Rightarrow> cache \<Rightarrow> string option \<times> cache" where
  "cacheGetRaw cfg conn now key s = cacheGet cfg conn now key s"

definition cacheGetJson ::
  "json_lib \<Rightarrow> breaker_config \<Rightarrow> connection \<Rightarrow> instant \<Rightarrow> string \<Rightarrow> cache \<Rightarrow> js_value option \<times> cache" where
  "cacheGetJson json cfg conn now key s =
    (let (raw, s1) = cacheGet cfg conn now key s
     in case raw of
          None \<Rightarrow> (None, s1)
        | Some t \<Rightarrow> (case parse json t of None \<Rightarrow> None | Some v \<Rightarrow> if v = Jnull then None else Some v, s1))"

definition cacheSetJson ::
  "json_lib \<Rightarrow> breaker_config \<Rightarrow> connection \<Rightarrow> instant \<Rightarrow> string \<Rightarrow> js_value \<Rightarrow> int \<Rightarrow> cache \<Rightarrow> cache" where
  "cacheSetJson json cfg conn now key v ttlSeconds s =
    (let (is_open, b) = isOpen cfg now (redisCircuitBreaker s); s1 = s\<lparr>redisCircuitBreaker := b\<rparr>
     in if is_open then s1
        else case conn of
          Disabled \<Rightarrow> s1
        | Up \<Rightarrow> s1\<lparr>cells := redis_set now key (stringify json v) ttlSeconds (cells s1),
                  redisCircuitBreaker := recordSuccess cfg now b\<rparr>
        | Down \<Rightarrow> s1\<lparr>redisCircuitBreaker := recordFailure cfg now b\<rparr>)"

definition cacheSetRaw :: "connection \<Rightarrow> instant \<Rightarrow> string \<Rightarrow> string \<Rightarrow> int \<Rightarrow> cache \<Rightarrow> cache" where
  "cacheSetRaw conn now key v ttlSeconds s =
    (case conn of Up \<Rightarrow> s\<lparr>cells := redis_set now key v ttlSeconds (cells s)\<rparr> | _ \<Rightarrow> s)"

definition cacheSetRawNx ::
  "breaker_config \<Rightarrow> connection \<Rightarrow> instant \<Rightarrow> string \<Rightarrow> string \<Rightarrow> int \<Rightarrow> cache \<Rightarrow> bool \<times> cache" where
  "cacheSetRawNx cfg conn now key v ttlSeconds s =
    (let (is_open, b) = isOpen cfg now (redisCircuitBreaker s); s1 = s\<lparr>redisCircuitBreaker := b\<rparr>
     in if is_open then (True, s1)
        else case conn of
          Disabled \<Rightarrow> (True, s1)
        | Up \<Rightarrow> (let (ok, m) = redis_set_nx now key v ttlSeconds (cells s1)
                 in (ok, s1\<lparr>cells := m, redisCircuitBreaker := recordSuccess cfg now b\<rparr>))
        | Down \<Rightarrow> (True, s1\<lparr>redisCircuitBreaker := recordFailure cfg now b\<rparr>))"

text \<open>Literal keys are deleted a hundred at a time, keys matching a pattern as \<open>SCAN\<close> finds them.\<close>

definition is_pattern :: "string \<Rightarrow> bool" where
  "is_pattern k = (CHR ''*'' \<in> set k \<or> CHR ''?'' \<in> set k \<or> CHR ''['' \<in> set k)"

function del_chunks :: "string list \<Rightarrow> store \<Rightarrow> store" where
  "del_chunks ks m = (if ks = [] then m else del_chunks (drop 100 ks) (redis_del (take 100 ks) m))"
  by auto
termination by (relation "measure (\<lambda>(ks, _). length ks)") (auto simp: length_greater_0_conv)

declare del_chunks.simps [simp del]

definition del_matching :: "(string \<Rightarrow> string \<Rightarrow> bool) \<Rightarrow> string \<Rightarrow> store \<Rightarrow> store" where
  "del_matching glob pattern m = (\<lambda>k. if glob pattern k then None else m k)"

definition cacheInvalidate ::
  "(string \<Rightarrow> string \<Rightarrow> bool) \<Rightarrow> connection \<Rightarrow> string list \<Rightarrow> cache \<Rightarrow> cache" where
  "cacheInvalidate glob conn keysOrPatterns s =
    (if conn = Disabled \<or> keysOrPatterns = [] then s
     else if conn = Down then s
     else
       let patterns = filter is_pattern keysOrPatterns;
           literalKeys = filter (\<lambda>k. \<not> is_pattern k) keysOrPatterns
       in s\<lparr>cells := fold (del_matching glob) patterns (del_chunks literalKeys (cells s))\<rparr>)"

section \<open>Facts about the layer\<close>

lemma del_chunks_eq: "del_chunks ks m = redis_del ks m"
proof (induction ks m rule: del_chunks.induct)
  case (1 ks m)
  show ?case
  proof (cases "ks = []")
    case True
    then show ?thesis by (subst del_chunks.simps) (simp add: redis_del_def)
  next
    case False
    have "set ks = set (take 100 ks) \<union> set (drop 100 ks)"
      by (metis append_take_drop_id set_append)
    with False 1 show ?thesis
      by (subst del_chunks.simps) (auto simp: redis_del_def)
  qed
qed

lemma fold_del_matching: "fold (del_matching glob) ps m = (\<lambda>k. if \<exists>p \<in> set ps. glob p k then None else m k)"
  by (induction ps arbitrary: m) (auto simp: del_matching_def)

text \<open>Invalidation removes exactly the literal keys given and every key a given pattern matches, and
  leaves all other entries and the breaker alone.\<close>

theorem cacheInvalidate_exact:
  "cells (cacheInvalidate glob Up ks s) =
    (\<lambda>k. if (k \<in> set ks \<and> \<not> is_pattern k) \<or> (\<exists>p \<in> set ks. is_pattern p \<and> glob p k) then None else cells s k) \<and>
  redisCircuitBreaker (cacheInvalidate glob conn ks s) = redisCircuitBreaker s"
  by (auto simp: cacheInvalidate_def del_chunks_eq fold_del_matching redis_del_def fun_eq_iff)

lemma cacheInvalidate_literal:
  "\<not> is_pattern k \<Longrightarrow> conn \<noteq> Down \<Longrightarrow> cells s = Map.empty \<or> conn = Up \<Longrightarrow>
    cells (cacheInvalidate glob conn [k] s) k = None"
  by (auto simp: cacheInvalidate_def del_chunks_eq redis_del_def)

text \<open>Without Redis nothing is ever stored, and every read misses.\<close>

lemma cacheGet_miss: "cells s key = None \<Longrightarrow> fst (cacheGet cfg conn now key s) = None"
  by (auto simp: cacheGet_def Let_def redis_get_def isOpen_def split: prod.splits connection.splits)

lemma cacheGet_cells [simp]: "cells (snd (cacheGet cfg conn now key s)) = cells s"
  by (auto simp: cacheGet_def Let_def split: prod.splits connection.splits)

lemma cacheGetJson_cells [simp]: "cells (snd (cacheGetJson json cfg conn now key s)) = cells s"
  by (auto simp: cacheGetJson_def Let_def split: prod.splits option.splits) (metis cacheGet_cells snd_conv)+

lemma cacheGetJson_miss: "cells s key = None \<Longrightarrow> fst (cacheGetJson json cfg conn now key s) = None"
  using cacheGet_miss [of s key cfg conn now]
  by (auto simp: cacheGetJson_def Let_def split: prod.splits option.splits)

end
