(* ===== verification/Nonce.thy ===== *)
theory Nonce
  imports Redis_Cache
begin

text \<open>
  Replay protection by per-wallet nonces: \<open>src/modules/nonce/nonce.service.ts\<close> with the tracked
  state and the default provider of \<open>nonce.contract.ts\<close>. What the contract answers over RPC is the
  argument \<open>chain\<close> (\<open>None\<close> when not configured or unreadable); building and decoding the RPC
  envelope is not modelled. Consuming awaits the cache between its checks and its commit, so it is
  two definitions, \<open>consume_check\<close> and \<open>consume_commit\<close>; \<open>consumeWalletNonce\<close> runs them in a row.
\<close>

record nonce_state =
  inMemoryConsumedNonces :: "string set"
  trackedOnChainNonces :: "string \<rightharpoonup> int"
  nonce_cache :: cache

text \<open>The environment of a call: breaker settings, JSON, the connection, the clock (as
  an instant and as ISO text) and the TTL setting.\<close>

record nonce_env =
  env_breaker :: breaker_config
  env_json :: json_lib
  env_glob :: "string \<Rightarrow> string \<Rightarrow> bool"
  env_conn :: connection
  env_now :: instant
  env_isoNow :: string
  env_nonceTtl :: "int option"

datatype nonce_error =
    NonceAlreadyConsumedError string int
  | NonceMismatchError string int int

definition CONSUMED_NONCE_TTL_SECONDS :: int where "CONSUMED_NONCE_TTL_SECONDS = 86400"

definition DEFAULT_NONCE_CACHE_TTL_SECONDS :: int where "DEFAULT_NONCE_CACHE_TTL_SECONDS = 30"

definition currentNonceCacheKey :: "string \<Rightarrow> string" where
  "currentNonceCacheKey wallet = ''nonce:current:'' @ wallet"

definition consumedNonceCacheKey :: "string \<Rightarrow> int \<Rightarrow> string" where
  "consumedNonceCacheKey wallet nonce = ''nonce:consumed:'' @ wallet @ '':'' @ show_int nonce"

definition getTrackedOnChainNonce :: "string \<Rightarrow> nonce_state \<Rightarrow> int" where
  "getTrackedOnChainNonce wallet s = (case trackedOnChainNonces s wallet of Some n \<Rightarrow> n | None \<Rightarrow> 0)"

definition setTrackedOnChainNonce :: "string \<Rightarrow> int \<Rightarrow> nonce_state \<Rightarrow> nonce_state" where
  "setTrackedOnChainNonce wallet n s = s\<lparr>trackedOnChainNonces := (trackedOnChainNonces s)(wallet \<mapsto> n)\<rparr>"

definition resetNonceStateForTests :: "nonce_state \<Rightarrow> nonce_state" where
  "resetNonceStateForTests s = s\<lparr>inMemoryConsumedNonces := {}, trackedOnChainNonces := Map.empty\<rparr>"

definition defaultNonceContractProvider :: "int option \<Rightarrow> string \<Rightarrow> nonce_state \<Rightarrow> int" where
  "defaultNonceContractProvider chain wallet s =
    (case chain of Some n \<Rightarrow> n | None \<Rightarrow> getTrackedOnChainNonce wallet s)"

record nonce_info =
  ni_wallet :: string
  ni_nonce :: js_num
  ni_cached :: bool

definition getWalletNonce ::
  "nonce_env \<Rightarrow> int option \<Rightarrow> string \<Rightarrow> nonce_state \<Rightarrow> nonce_info \<times> nonce_state" where
  "getWalletNonce e chain wallet s =
    (let key = currentNonceCacheKey wallet;
         (cached, c1) = cacheGetJson (env_json e) (env_breaker e) (env_conn e) (env_now e) key (nonce_cache s);
         s1 = s\<lparr>nonce_cache := c1\<rparr>;
         hit = (case cached of
             Some (Jobj props) \<Rightarrow> (case js_field ''nonce'' props of Jnum n \<Rightarrow> Some n | _ \<Rightarrow> None)
           | _ \<Rightarrow> None)
     in case hit of
          Some n \<Rightarrow> (\<lparr>ni_wallet = wallet, ni_nonce = n, ni_cached = True\<rparr>, s1)
        | None \<Rightarrow>
            let onChainNonce = defaultNonceContractProvider chain wallet s1;
                ttl = (case env_nonceTtl e of Some t \<Rightarrow> t | None \<Rightarrow> DEFAULT_NONCE_CACHE_TTL_SECONDS);
                c2 = cacheSetJson (env_json e) (env_breaker e) (env_conn e) (env_now e) key
                  (Jobj [(''nonce'', Jnum (Fin (of_int onChainNonce)))]) ttl (nonce_cache s1)
            in (\<lparr>ni_wallet = wallet, ni_nonce = Fin (of_int onChainNonce), ni_cached = False\<rparr>,
                s1\<lparr>nonce_cache := c2\<rparr>))"

definition isNonceConsumed :: "nonce_env \<Rightarrow> string \<Rightarrow> int \<Rightarrow> nonce_state \<Rightarrow> bool \<times> nonce_state" where
  "isNonceConsumed e wallet nonce s =
    (let key = consumedNonceCacheKey wallet nonce
     in if key \<in> inMemoryConsumedNonces s then (True, s)
        else
          let (cached, c1) = cacheGetJson (env_json e) (env_breaker e) (env_conn e) (env_now e) key (nonce_cache s)
          in (cached \<noteq> None, s\<lparr>nonce_cache := c1\<rparr>))"

text \<open>Comparisons of the caller's nonce with a JavaScript number, \<open>NaN\<close> included.\<close>

fun num_less :: "int \<Rightarrow> js_num \<Rightarrow> bool" where
  "num_less n (Fin q) = (of_int n < q)"
| "num_less n (Infinite pos) = pos"
| "num_less n NaN = False"

fun num_int :: "js_num \<Rightarrow> int" where
  "num_int (Fin q) = \<lfloor>q\<rfloor>"
| "num_int _ = 0"

definition consume_check ::
  "nonce_env \<Rightarrow> int option \<Rightarrow> string \<Rightarrow> int \<Rightarrow> nonce_state \<Rightarrow> (nonce_error + unit) \<times> nonce_state" where
  "consume_check e chain wallet nonce s =
    (let (consumed, s1) = isNonceConsumed e wallet nonce s
     in if consumed then (Inl (NonceAlreadyConsumedError wallet nonce), s1)
        else
          let (current, s2) = getWalletNonce e chain wallet s1
          in if num_less nonce (ni_nonce current) then (Inl (NonceAlreadyConsumedError wallet nonce), s2)
             else if Fin (of_int nonce) \<noteq> ni_nonce current
             then (Inl (NonceMismatchError wallet (num_int (ni_nonce current)) nonce), s2)
             else (Inr (), s2))"

record consume_result =
  cr_wallet :: string
  cr_consumedNonce :: int
  cr_nextNonce :: int

definition consume_commit ::
  "nonce_env \<Rightarrow> string \<Rightarrow> int \<Rightarrow> string option \<Rightarrow> nonce_state \<Rightarrow> consume_result \<times> nonce_state" where
  "consume_commit e wallet nonce action s =
    (let consumedKey = consumedNonceCacheKey wallet nonce;
         s1 = s\<lparr>inMemoryConsumedNonces := insert consumedKey (inMemoryConsumedNonces s)\<rparr>;
         c1 = cacheSetJson (env_json e) (env_breaker e) (env_conn e) (env_now e) consumedKey
           (Jobj [(''wallet'', Jstr wallet), (''nonce'', Jnum (Fin (of_int nonce))),
             (''action'', Jstr (case action of Some a \<Rightarrow> a | None \<Rightarrow> ''signed_action'')),
             (''consumedAt'', Jstr (env_isoNow e))])
           CONSUMED_NONCE_TTL_SECONDS (nonce_cache s1);
         nextNonce = nonce + 1;
         s2 = setTrackedOnChainNonce wallet nextNonce (s1\<lparr>nonce_cache := c1\<rparr>);
         c2 = cacheInvalidate (env_glob e) (env_conn e) [currentNonceCacheKey wallet] (nonce_cache s2)
     in (\<lparr>cr_wallet = wallet, cr_consumedNonce = nonce, cr_nextNonce = nextNonce\<rparr>, s2\<lparr>nonce_cache := c2\<rparr>))"

definition consumeWalletNonce ::
  "nonce_env \<Rightarrow> int option \<Rightarrow> string \<Rightarrow> int \<Rightarrow> string option \<Rightarrow> nonce_state \<Rightarrow>
    (nonce_error + consume_result) \<times> nonce_state" where
  "consumeWalletNonce e chain wallet nonce action s =
    (case consume_check e chain wallet nonce s of
      (Inl err, s1) \<Rightarrow> (Inl err, s1)
    | (Inr _, s1) \<Rightarrow> (let (r, s2) = consume_commit e wallet nonce action s1 in (Inr r, s2)))"

definition validateSignedActionNonce ::
  "nonce_env \<Rightarrow> int option \<Rightarrow> string \<Rightarrow> int \<Rightarrow> string option \<Rightarrow> nonce_state \<Rightarrow>
    (nonce_error + consume_result) \<times> nonce_state" where
  "validateSignedActionNonce e chain wallet nonce action s = consumeWalletNonce e chain wallet nonce action s"

section \<open>Single use\<close>

inductive nonce_step :: "nonce_state \<Rightarrow> nonce_state \<Rightarrow> bool" where
  get: "nonce_step s (snd (getWalletNonce e chain w s))"
| check: "nonce_step s (snd (consume_check e chain w n s))"
| commit: "nonce_step s (snd (consume_commit e w n a s))"

lemma getWalletNonce_mem [simp]:
  "inMemoryConsumedNonces (snd (getWalletNonce e chain w s)) = inMemoryConsumedNonces s"
  "trackedOnChainNonces (snd (getWalletNonce e chain w s)) = trackedOnChainNonces s"
  by (auto simp: getWalletNonce_def Let_def split: prod.splits option.splits js_value.splits)

lemma isNonceConsumed_mem [simp]:
  "inMemoryConsumedNonces (snd (isNonceConsumed e w n s)) = inMemoryConsumedNonces s"
  "trackedOnChainNonces (snd (isNonceConsumed e w n s)) = trackedOnChainNonces s"
  by (auto simp: isNonceConsumed_def Let_def split: prod.splits)

lemma consume_check_mem [simp]:
  "inMemoryConsumedNonces (snd (consume_check e chain w n s)) = inMemoryConsumedNonces s"
proof -
  obtain b s1 where i: "isNonceConsumed e w n s = (b, s1)" by fastforce
  obtain v s2 where g: "getWalletNonce e chain w s1 = (v, s2)" by fastforce
  show ?thesis
    using getWalletNonce_mem(1) [of e chain w s1] isNonceConsumed_mem(1) [of e w n s]
    by (simp add: consume_check_def i g)
qed

lemma consume_commit_mem [simp]:
  "inMemoryConsumedNonces (snd (consume_commit e w n a s)) =
    insert (consumedNonceCacheKey w n) (inMemoryConsumedNonces s)"
  "trackedOnChainNonces (snd (consume_commit e w n a s)) = (trackedOnChainNonces s)(w \<mapsto> n + 1)"
  by (simp_all add: consume_commit_def Let_def setTrackedOnChainNonce_def)

lemma steps_keep_consumed:
  "nonce_step\<^sup>*\<^sup>* s t \<Longrightarrow> k \<in> inMemoryConsumedNonces s \<Longrightarrow> k \<in> inMemoryConsumedNonces t"
  by (induction rule: rtranclp_induct) (auto elim!: nonce_step.cases)

lemma consumed_rejected:
  assumes "consumedNonceCacheKey w n \<in> inMemoryConsumedNonces s"
  shows "consumeWalletNonce e chain w n a s = (Inl (NonceAlreadyConsumedError w n), s)"
  using assms by (simp add: consumeWalletNonce_def consume_check_def isNonceConsumed_def)

lemma consume_okE:
  assumes "consumeWalletNonce e chain w n a s = (Inr r, t)"
  obtains s1 where "consume_check e chain w n s = (Inr (), s1)" "consume_commit e w n a s1 = (r, t)"
  using assms by (auto simp: consumeWalletNonce_def split: prod.splits sum.splits)

text \<open>C9: A nonce is good for one use: after a call that consumed it has returned, whatever other calls
  of the service run (their checks and commits interleaved in any order, Redis up, down or switched
  off, the contract answering anything), consuming the same nonce of the same wallet is rejected as
  already consumed.\<close>

theorem nonce_single_use:
  assumes "consumeWalletNonce e chain w n a s = (Inr r, s1)" and "nonce_step\<^sup>*\<^sup>* s1 s2"
  shows "consumeWalletNonce e' chain' w n a' s2 = (Inl (NonceAlreadyConsumedError w n), s2)"
proof -
  obtain s0 where "consume_commit e w n a s0 = (r, s1)"
    using assms(1) by (rule consume_okE)
  then have "consumedNonceCacheKey w n \<in> inMemoryConsumedNonces s1"
    using consume_commit_mem(1) [of e w n a s0] by simp
  then show ?thesis using steps_keep_consumed [OF assms(2)] consumed_rejected by blast
qed

lemma commit_clears_current:
  assumes "env_conn e = Up" "\<not> is_pattern w"
  shows "cells (nonce_cache (snd (consume_commit e w n a s))) (currentNonceCacheKey w) = None"
  using assms
  by (auto simp: consume_commit_def Let_def setTrackedOnChainNonce_def currentNonceCacheKey_def is_pattern_def
      cacheInvalidate_def del_chunks_eq redis_del_def)

lemma get_uncached:
  assumes "cells (nonce_cache s) (currentNonceCacheKey w) = None"
  shows "fst (getWalletNonce e chain w s) = \<lparr>ni_wallet = w,
    ni_nonce = Fin (of_int (defaultNonceContractProvider chain w s)), ni_cached = False\<rparr>"
  using cacheGetJson_miss [OF assms, of "env_json e" "env_breaker e" "env_conn e" "env_now e"]
  by (auto simp: getWalletNonce_def Let_def defaultNonceContractProvider_def getTrackedOnChainNonce_def
      split: prod.splits option.splits)

lemma check_fresh:
  assumes "consumedNonceCacheKey w m \<notin> inMemoryConsumedNonces t"
    "cells (nonce_cache t) (consumedNonceCacheKey w m) = None"
    "cells (nonce_cache t) (currentNonceCacheKey w) = None"
  shows "fst (consume_check e chain w m t) =
    (if m < defaultNonceContractProvider chain w t then Inl (NonceAlreadyConsumedError w m)
     else if m \<noteq> defaultNonceContractProvider chain w t
     then Inl (NonceMismatchError w (defaultNonceContractProvider chain w t) m) else Inr ())"
proof -
  obtain v c1 where j: "cacheGetJson (env_json e) (env_breaker e) (env_conn e) (env_now e)
      (consumedNonceCacheKey w m) (nonce_cache t) = (v, c1)" by fastforce
  have "v = None" using cacheGetJson_miss [OF assms(2)] j by (metis fst_conv)
  then have i: "isNonceConsumed e w m t = (False, t\<lparr>nonce_cache := c1\<rparr>)"
    using assms(1) by (simp add: isNonceConsumed_def j)
  have "cells c1 = cells (nonce_cache t)" using cacheGetJson_cells j by (metis snd_conv)
  then have "cells (nonce_cache (t\<lparr>nonce_cache := c1\<rparr>)) (currentNonceCacheKey w) = None"
    using assms(3) by simp
  from get_uncached [OF this, of e chain]
  have g: "ni_nonce (fst (getWalletNonce e chain w (t\<lparr>nonce_cache := c1\<rparr>))) =
      Fin (of_int (defaultNonceContractProvider chain w t))"
    by (simp add: defaultNonceContractProvider_def getTrackedOnChainNonce_def split: option.split)
  obtain info s2 where s2: "getWalletNonce e chain w (t\<lparr>nonce_cache := c1\<rparr>) = (info, s2)" by fastforce
  with g have "ni_nonce info = Fin (of_int (defaultNonceContractProvider chain w t))" by simp
  then show ?thesis by (simp add: consume_check_def i s2)
qed

text \<open>Consuming advances the expected nonce: after a successful call with Redis reachable and no
  contract configured, the wallet's nonce reads one more than the consumed one, uncached; asking for
  the consumed nonce is a replay, and asking for a later one than the next names the next one as
  expected.\<close>

theorem consume_advances:
  assumes ok: "consumeWalletNonce e chain w n a s = (Inr r, t)"
    and up: "env_conn e = Up" "\<not> is_pattern w"
  shows "r = \<lparr>cr_wallet = w, cr_consumedNonce = n, cr_nextNonce = n + 1\<rparr> \<and>
    fst (getWalletNonce e' None w t) = \<lparr>ni_wallet = w, ni_nonce = Fin (of_int (n + 1)), ni_cached = False\<rparr> \<and>
    fst (consumeWalletNonce e' None w n a' t) = Inl (NonceAlreadyConsumedError w n) \<and>
    (\<forall>m > n + 1. consumedNonceCacheKey w m \<notin> inMemoryConsumedNonces t \<and>
        cells (nonce_cache t) (consumedNonceCacheKey w m) = None \<longrightarrow>
      fst (consumeWalletNonce e' None w m a' t) = Inl (NonceMismatchError w (n + 1) m))"
proof -
  obtain s1 where c: "consume_commit e w n a s1 = (r, t)" using ok by (rule consume_okE)
  then have t: "t = snd (consume_commit e w n a s1)" by simp
  have clear: "cells (nonce_cache t) (currentNonceCacheKey w) = None"
    using commit_clears_current [OF up] by (simp add: t)
  have tracked: "defaultNonceContractProvider None w t = n + 1"
    by (simp add: t defaultNonceContractProvider_def getTrackedOnChainNonce_def)
  have "fst (consumeWalletNonce e' None w m a' t) = Inl (NonceMismatchError w (n + 1) m)"
    if m: "m > n + 1" "consumedNonceCacheKey w m \<notin> inMemoryConsumedNonces t"
      "cells (nonce_cache t) (consumedNonceCacheKey w m) = None" for m
  proof -
    show ?thesis
      using m(1) check_fresh [OF m(2,3) clear, of e' None] tracked
      by (auto simp: consumeWalletNonce_def split: prod.splits)
  qed
  moreover have "consumedNonceCacheKey w n \<in> inMemoryConsumedNonces t" by (simp add: t)
  then have "fst (consumeWalletNonce e' None w n a' t) = Inl (NonceAlreadyConsumedError w n)"
    using consumed_rejected by simp
  moreover have "r = \<lparr>cr_wallet = w, cr_consumedNonce = n, cr_nextNonce = n + 1\<rparr>"
    using c by (simp add: consume_commit_def Let_def)
  ultimately show ?thesis using get_uncached [OF clear, of e' None] tracked by simp
qed

section \<open>Overlapping consumers\<close>

definition example_env :: "connection \<Rightarrow> nonce_env" where
  "example_env conn = \<lparr>env_breaker = sample_config,
    env_json = \<lparr>stringify = (\<lambda>_. ''{}''), parse = (\<lambda>_. Some (Jobj []))\<rparr>,
    env_glob = (\<lambda>_ _. False), env_conn = conn, env_now = 1000, env_isoNow = [], env_nonceTtl = None\<rparr>"

definition fresh_state :: nonce_state where
  "fresh_state = \<lparr>inMemoryConsumedNonces = {}, trackedOnChainNonces = Map.empty,
    nonce_cache = \<lparr>cells = Map.empty, redisCircuitBreaker = new_breaker\<rparr>\<rparr>"

text \<open>Two overlapping requests can use one nonce twice: when both run their checks before either
  commits, both checks pass and both commits report success for the same wallet and nonce.\<close>

theorem overlapping_consumers_both_succeed:
  "\<exists>s1 s2 s3 s4. consume_check (example_env Disabled) None w 0 fresh_state = (Inr (), s1) \<and>
    consume_check (example_env Disabled) None w 0 s1 = (Inr (), s2) \<and>
    consume_commit (example_env Disabled) w 0 None s2 =
      (\<lparr>cr_wallet = w, cr_consumedNonce = 0, cr_nextNonce = 1\<rparr>, s3) \<and>
    consume_commit (example_env Disabled) w 0 None s3 =
      (\<lparr>cr_wallet = w, cr_consumedNonce = 0, cr_nextNonce = 1\<rparr>, s4)"
proof -
  have closed: "isOpen sample_config 1000 new_breaker = (False, new_breaker)"
    by (simp add: isOpen_def getState_def new_breaker_def)
  have "consume_check (example_env Disabled) None w 0 fresh_state = (Inr (), fresh_state)"
    by (simp add: consume_check_def isNonceConsumed_def getWalletNonce_def cacheGetJson_def cacheGet_def
        cacheSetJson_def example_env_def fresh_state_def closed defaultNonceContractProvider_def
        getTrackedOnChainNonce_def)
  then show ?thesis by (auto simp: consume_commit_def Let_def)
qed

section \<open>Witnesses\<close>

lemma example_consume:
  "\<exists>t. consumeWalletNonce (example_env Up) None ''W'' 0 None fresh_state =
    (Inr \<lparr>cr_wallet = ''W'', cr_consumedNonce = 0, cr_nextNonce = 1\<rparr>, t)"
proof -
  have "fst (consume_check (example_env Up) None ''W'' 0 fresh_state) = Inr ()"
    by (subst check_fresh) (simp_all add: fresh_state_def defaultNonceContractProvider_def getTrackedOnChainNonce_def)
  then have "\<exists>s1. consume_check (example_env Up) None ''W'' 0 fresh_state = (Inr (), s1)"
    by (metis prod.collapse)
  then show ?thesis by (auto simp: consumeWalletNonce_def consume_commit_def Let_def)
qed

theorem nonce_single_use_witness:
  "\<exists>t. consumeWalletNonce (example_env Up) None ''W'' 0 None fresh_state =
      (Inr \<lparr>cr_wallet = ''W'', cr_consumedNonce = 0, cr_nextNonce = 1\<rparr>, t) \<and>
    consumeWalletNonce (example_env Down) None ''W'' 0 None t =
      (Inl (NonceAlreadyConsumedError ''W'' 0), t)"
  using example_consume nonce_single_use [OF _ rtranclp.rtrancl_refl] by blast

theorem consume_advances_witness:
  "\<exists>t. fst (getWalletNonce (example_env Up) None ''W'' t) =
    \<lparr>ni_wallet = ''W'', ni_nonce = Fin 1, ni_cached = False\<rparr>"
proof -
  obtain t where t: "consumeWalletNonce (example_env Up) None ''W'' 0 None fresh_state =
      (Inr \<lparr>cr_wallet = ''W'', cr_consumedNonce = 0, cr_nextNonce = 1\<rparr>, t)"
    using example_consume by blast
  have "env_conn (example_env Up) = Up" "\<not> is_pattern ''W''"
    by (simp_all add: example_env_def is_pattern_def)
  from consume_advances [OF t this, of "example_env Up"] show ?thesis by auto
qed

end
