(* ===== verification/Idempotency.thy ===== *)
theory Idempotency
  imports Redis_Cache "HOL-Library.Countable"
begin

text \<open>
  The idempotency layer of the trade endpoints: \<open>src/middlewares/idempotency.middleware.ts\<close>. A request
  is the part of it the layer reads (headers and the wallet fields), an Express response the events
  the layer hooks: \<open>json\<close>, \<open>send\<close>, \<open>finish\<close>, \<open>close\<close>, or an exception of the handler. The polling
  loop of a waiting duplicate reads a sequence of observations, one per turn, and carries fuel.
\<close>

section \<open>Reading the request\<close>

datatype header = Hstr string | Harr "string list"

record request =
  headers :: "string \<rightharpoonup> header"
  req_walletAddress :: "string option"
  req_userWallet :: js_value
  req_wallet :: js_value

definition readHeader :: "request \<Rightarrow> string \<Rightarrow> string option" where
  "readHeader req name =
    (let raw = (case headers req (to_lower name) of Some h \<Rightarrow> Some h | None \<Rightarrow> headers req name)
     in case raw of
          None \<Rightarrow> None
        | Some (Hstr s) \<Rightarrow> Some (trim s)
        | Some (Harr []) \<Rightarrow> None
        | Some (Harr (s # _)) \<Rightarrow> Some (trim s))"

text \<open>A wallet field that is a string and not blank, trimmed.\<close>

definition wallet_text :: "js_value \<Rightarrow> string option" where
  "wallet_text v = (case v of Jstr s \<Rightarrow> if trim s \<noteq> [] then Some (trim s) else None | _ \<Rightarrow> None)"

definition nonempty :: "string option \<Rightarrow> string option" where
  "nonempty v = (case v of Some s \<Rightarrow> if s = [] then None else Some s | None \<Rightarrow> None)"

definition getCallerWallet :: "request \<Rightarrow> string" where
  "getCallerWallet req =
    (case nonempty (req_walletAddress req) of
      Some w \<Rightarrow> w
    | None \<Rightarrow> (case nonempty (readHeader req ''x-wallet-address'') of
        Some w \<Rightarrow> w
      | None \<Rightarrow> (case wallet_text (req_userWallet req) of
          Some w \<Rightarrow> w
        | None \<Rightarrow> (case wallet_text (req_wallet req) of Some w \<Rightarrow> w | None \<Rightarrow> []))))"

definition buildIdempotencyCacheKey :: "string \<Rightarrow> string \<Rightarrow> string" where
  "buildIdempotencyCacheKey wallet key = ''idempotency:'' @ wallet @ '':'' @ key"

datatype header_error = Missing_idempotency_key | Key_too_long

definition IDEMPOTENCY_KEY_MAX_LENGTH :: nat where "IDEMPOTENCY_KEY_MAX_LENGTH = 128"

definition validateIdempotencyHeader :: "request \<Rightarrow> header_error + string" where
  "validateIdempotencyHeader req =
    (case (case nonempty (readHeader req ''idempotency-key'') of
             Some k \<Rightarrow> Some k | None \<Rightarrow> nonempty (readHeader req ''x-idempotency-key'')) of
      None \<Rightarrow> Inl Missing_idempotency_key
    | Some key \<Rightarrow> if length key > IDEMPOTENCY_KEY_MAX_LENGTH then Inl Key_too_long else Inr key)"

section \<open>Stored responses\<close>

fun js_get :: "js_value \<Rightarrow> string \<Rightarrow> js_value" where
  "js_get (Jobj props) name = js_field name props"
| "js_get _ name = Jundefined"

definition nullish :: "js_value \<Rightarrow> bool" where
  "nullish v = (v = Jundefined \<or> v = Jnull)"

definition status_of :: "js_value \<Rightarrow> js_value" where
  "status_of v =
    (if \<not> nullish (js_get v ''statusCode'') then js_get v ''statusCode''
     else if \<not> nullish (js_get v ''status'') then js_get v ''status'' else Jnum (Fin 200))"

text \<open>What a raw entry says: a completed response, a request in progress, or text that does not parse
  (reading a field of \<open>null\<close> throws as well).\<close>

datatype entry = Completed js_value js_value | In_progress | Corrupt

definition read_entry :: "json_lib \<Rightarrow> string \<Rightarrow> entry" where
  "read_entry json raw =
    (case parse json raw of
      None \<Rightarrow> Corrupt
    | Some v \<Rightarrow>
        if v = Jnull then Corrupt
        else if \<not> truthy (js_get v ''inProgress'') \<and>
          (js_get v ''statusCode'' \<noteq> Jundefined \<or> js_get v ''status'' \<noteq> Jundefined)
        then Completed (status_of v) (js_get v ''body'')
        else In_progress)"

definition tryReplayIdempotentResponse ::
  "json_lib \<Rightarrow> breaker_config \<Rightarrow> connection \<Rightarrow> instant \<Rightarrow> string \<Rightarrow> string \<Rightarrow> cache \<Rightarrow>
    (js_value \<times> js_value) option \<times> cache" where
  "tryReplayIdempotentResponse json cfg conn now wallet key c =
    (let (raw, c1) = cacheGetRaw cfg conn now (buildIdempotencyCacheKey wallet key) c
     in (case raw of
          None \<Rightarrow> None
        | Some t \<Rightarrow> (case read_entry json t of Completed s b \<Rightarrow> Some (s, b) | _ \<Rightarrow> None), c1))"

section \<open>Taking the lock\<close>

record idem_options =
  timeoutMs :: int
  pollIntervalMs :: int
  inFlightTtlSeconds :: int
  ttlSeconds :: int

definition default_options :: idem_options where
  "default_options = \<lparr>timeoutMs = 5000, pollIntervalMs = 100, inFlightTtlSeconds = 60,
    ttlSeconds = 24 * 60 * 60\<rparr>"

record idem_env =
  ie_json :: json_lib
  ie_breaker :: breaker_config
  ie_glob :: "string \<Rightarrow> string \<Rightarrow> bool"
  ie_conn :: connection
  ie_now :: instant
  ie_isoNow :: string

definition setNx :: "idem_env \<Rightarrow> string \<Rightarrow> string \<Rightarrow> int \<Rightarrow> cache \<Rightarrow> bool \<times> cache" where
  "setNx e key v ttl c = cacheSetRawNx (ie_breaker e) (ie_conn e) (ie_now e) key v ttl c"

definition inFlightPayload :: "idem_env \<Rightarrow> string" where
  "inFlightPayload e = stringify (ie_json e)
    (Jobj [(''inProgress'', Jbool True), (''startedAt'', Jnum (Fin (of_int (ie_now e))))])"

text \<open>How a request leaves the locking phase: with the lock, with a stored response, or to wait.\<close>

datatype lock_result = Acquired | Replay js_value js_value | Wait

definition idem_lock :: "idem_options \<Rightarrow> idem_env \<Rightarrow> string \<Rightarrow> cache \<Rightarrow> lock_result \<times> cache" where
  "idem_lock opts e key c =
    (let (acquired, c1) = setNx e key (inFlightPayload e) (inFlightTtlSeconds opts) c
     in if acquired then (Acquired, c1)
        else
          let (existingRaw, c2) = cacheGetRaw (ie_breaker e) (ie_conn e) (ie_now e) key c1
          in case existingRaw of
               None \<Rightarrow> (Wait, c2)
             | Some raw \<Rightarrow>
                 (case read_entry (ie_json e) raw of
                   Completed s b \<Rightarrow> (Replay s b, c2)
                 | In_progress \<Rightarrow> (Wait, c2)
                 | Corrupt \<Rightarrow>
                     let c3 = cacheInvalidate (ie_glob e) (ie_conn e) [key] c2;
                         (again, c4) = setNx e key (inFlightPayload e) (inFlightTtlSeconds opts) c3
                     in (if again then Acquired else Wait, c4)))"

text \<open>
  The waiting loop. Turn \<open>i\<close> observes the clock at the loop test and what the cache returned after
  the sleep. \<open>None\<close> is fuel running out; \<open>Some None\<close> leads to the 409 response.
\<close>

fun wait_loop ::
  "nat \<Rightarrow> json_lib \<Rightarrow> int \<Rightarrow> instant \<Rightarrow> (nat \<Rightarrow> instant \<times> string option) \<Rightarrow> nat \<Rightarrow>
    (js_value \<times> js_value) option option" where
  "wait_loop 0 json limit startTime obs i = None"
| "wait_loop (Suc n) json limit startTime obs i =
    (if fst (obs i) - startTime < limit then
       (case snd (obs i) of
         None \<Rightarrow> Some None
       | Some raw \<Rightarrow>
           if raw = [] then Some None
           else case read_entry json raw of
             Completed s b \<Rightarrow> Some (Some (s, b))
           | In_progress \<Rightarrow> wait_loop n json limit startTime obs (Suc i)
           | Corrupt \<Rightarrow> Some None)
     else Some None)"

section \<open>Running the handler\<close>

record run_state =
  capturedBody :: js_value
  persisted :: bool
  run_cache :: cache

definition persistResult ::
  "idem_options \<Rightarrow> idem_env \<Rightarrow> string \<Rightarrow> int \<Rightarrow> js_value \<Rightarrow> run_state \<Rightarrow> run_state" where
  "persistResult opts e key statusCode body s =
    (if persisted s then s
     else
       let s1 = s\<lparr>persisted := True\<rparr>
       in if statusCode < 400 then
            s1\<lparr>run_cache := cacheSetRaw (ie_conn e) (ie_now e) key
                 (stringify (ie_json e)
                   (Jobj [(''statusCode'', Jnum (Fin (of_int statusCode))),
                     (''status'', Jnum (Fin (of_int statusCode))), (''body'', body),
                     (''resolvedAt'', Jstr (ie_isoNow e))]))
                 (ttlSeconds opts) (run_cache s1)\<rparr>
          else s1\<lparr>run_cache := cacheInvalidate (ie_glob e) (ie_conn e) [key] (run_cache s1)\<rparr>)"

datatype response_event =
    Ev_json int js_value
  | Ev_send int js_value
  | Ev_finish int
  | Ev_close bool
  | Ev_throw

definition handle_event ::
  "idem_options \<Rightarrow> string \<Rightarrow> idem_env \<Rightarrow> response_event \<Rightarrow> run_state \<Rightarrow> run_state" where
  "handle_event opts key e ev s =
    (case ev of
      Ev_json code body \<Rightarrow> persistResult opts e key code body (s\<lparr>capturedBody := body\<rparr>)
    | Ev_send code body \<Rightarrow>
        let captured =
          (if capturedBody s = Jundefined then
             (case body of
               Jstr t \<Rightarrow> (case parse (ie_json e) t of Some v \<Rightarrow> v | None \<Rightarrow> body)
             | _ \<Rightarrow> body)
           else capturedBody s)
        in persistResult opts e key code captured (s\<lparr>capturedBody := captured\<rparr>)
    | Ev_finish code \<Rightarrow>
        if persisted s then s else persistResult opts e key code (capturedBody s) s
    | Ev_close ended \<Rightarrow>
        if \<not> ended \<and> \<not> persisted s
        then s\<lparr>run_cache := cacheInvalidate (ie_glob e) (ie_conn e) [key] (run_cache s)\<rparr> else s
    | Ev_throw \<Rightarrow> s\<lparr>run_cache := cacheInvalidate (ie_glob e) (ie_conn e) [key] (run_cache s)\<rparr>)"

text \<open>How the middleware answers a request up to the point where the handler runs.\<close>

datatype middleware_result =
    Bad_request header_error
  | Replayed js_value js_value
  | Request_in_progress
  | Run_handler string

definition idempotencyMiddleware ::
  "idem_options \<Rightarrow> idem_env \<Rightarrow> nat \<Rightarrow> (nat \<Rightarrow> instant \<times> string option) \<Rightarrow> request \<Rightarrow> cache \<Rightarrow>
    middleware_result option \<times> cache" where
  "idempotencyMiddleware opts e fuel obs req c =
    (case validateIdempotencyHeader req of
      Inl err \<Rightarrow> (Some (Bad_request err), c)
    | Inr idempotencyKey \<Rightarrow>
        let key = buildIdempotencyCacheKey (getCallerWallet req) idempotencyKey;
            (lock, c1) = idem_lock opts e key c
        in case lock of
             Acquired \<Rightarrow> (Some (Run_handler key), c1)
           | Replay s b \<Rightarrow> (Some (Replayed s b), c1)
           | Wait \<Rightarrow>
               (case wait_loop fuel (ie_json e) (timeoutMs opts) (ie_now e) obs 0 of
                 None \<Rightarrow> (None, c1)
               | Some (Some (s, b)) \<Rightarrow> (Some (Replayed s b), c1)
               | Some None \<Rightarrow> (Some Request_in_progress, c1)))"

section \<open>Locking with Redis healthy\<close>

definition healthy :: "idem_env \<Rightarrow> cache \<Rightarrow> bool" where
  "healthy e c \<longleftrightarrow> ie_conn e = Up \<and> \<not> fst (isOpen (ie_breaker e) (ie_now e) (redisCircuitBreaker c))"

lemma not_open_after:
  assumes "\<not> fst (isOpen cfg now b)"
  shows "\<not> fst (isOpen cfg now (recordSuccess cfg now (snd (isOpen cfg now b))))"
  using assms
  by (auto simp: isOpen_def getState_def recordSuccess_def transitionToClosed_def clearProbeTimer_def
      cleanRollingWindow_def transitionToHalfOpen_def Let_def split: if_splits option.splits prod.splits)

lemma setNx_healthy:
  assumes "healthy e c"
  shows "fst (setNx e key v ttl c) = (redis_get (ie_now e) key (cells c) = None)"
    and "cells (snd (setNx e key v ttl c)) =
      (if redis_get (ie_now e) key (cells c) = None then redis_set (ie_now e) key v ttl (cells c) else cells c)"
    and "healthy e (snd (setNx e key v ttl c))"
  using assms not_open_after [of "ie_breaker e" "ie_now e" "redisCircuitBreaker c"]
  by (auto simp: setNx_def cacheSetRawNx_def healthy_def redis.claim_put Let_def split: prod.splits)

lemma get_healthy: "healthy e c \<Longrightarrow>
  fst (cacheGetRaw (ie_breaker e) (ie_conn e) (ie_now e) key c) = redis_get (ie_now e) key (cells c)"
  by (auto simp: cacheGetRaw_def cacheGet_def healthy_def Let_def split: prod.splits)

lemma get_cells [simp]: "cells (snd (cacheGetRaw cfg conn now key c)) = cells c"
  by (simp add: cacheGetRaw_def)

lemma idem_lock_free:
  assumes "healthy e c" "redis_get (ie_now e) key (cells c) = None"
  shows "fst (idem_lock opts e key c) = Acquired"
    and "cells (snd (idem_lock opts e key c)) =
      redis_set (ie_now e) key (inFlightPayload e) (inFlightTtlSeconds opts) (cells c)"
  using setNx_healthy [OF assms(1), of key "inFlightPayload e" "inFlightTtlSeconds opts"] assms(2)
  by (auto simp: idem_lock_def Let_def split: prod.splits)

lemma idem_lock_taken:
  assumes h: "healthy e c" and raw: "redis_get (ie_now e) key (cells c) = Some raw"
    and ok: "read_entry (ie_json e) raw \<noteq> Corrupt"
  shows "fst (idem_lock opts e key c) =
      (case read_entry (ie_json e) raw of Completed s b \<Rightarrow> Replay s b | _ \<Rightarrow> Wait)"
    and "cells (snd (idem_lock opts e key c)) = cells c"
proof -
  obtain a c1 where s: "setNx e key (inFlightPayload e) (inFlightTtlSeconds opts) c = (a, c1)" by fastforce
  from setNx_healthy [OF h, of key "inFlightPayload e" "inFlightTtlSeconds opts"] raw
  have c1: "\<not> a" "cells c1 = cells c" "healthy e c1" by (simp_all add: s)
  obtain r c2 where g: "cacheGetRaw (ie_breaker e) (ie_conn e) (ie_now e) key c1 = (r, c2)" by fastforce
  have r: "r = Some raw" using get_healthy [OF c1(3), of key] raw c1(2) by (simp add: g)
  have c2: "cells c2 = cells c"
    using get_cells [of "ie_breaker e" "ie_conn e" "ie_now e" key c1] c1(2) by (simp add: g)
  show "fst (idem_lock opts e key c) =
      (case read_entry (ie_json e) raw of Completed s b \<Rightarrow> Replay s b | _ \<Rightarrow> Wait)"
    and "cells (snd (idem_lock opts e key c)) = cells c"
    using ok c1(1) c2 by (auto simp: idem_lock_def s g r split: entry.splits)
qed

section \<open>The protocol\<close>

fun plain_json :: "js_value \<Rightarrow> bool" where
  "plain_json Jundefined = False"
| "plain_json Jnull = True"
| "plain_json (Jbool _) = True"
| "plain_json (Jnum n) = (case n of Fin _ \<Rightarrow> True | _ \<Rightarrow> False)"
| "plain_json (Jstr _) = True"
| "plain_json (Jarr vs) = list_all plain_json vs"
| "plain_json (Jobj props) = list_all (\<lambda>(_, v). plain_json v) props"

text \<open>Documented behaviour of \<open>JSON\<close>: parsing what was printed gives the value back.\<close>

definition json_roundtrip :: "json_lib \<Rightarrow> bool" where
  "json_roundtrip json \<longleftrightarrow> (\<forall>v. plain_json v \<longrightarrow> parse json (stringify json v) = Some v)"

definition stored_text :: "json_lib \<Rightarrow> int \<Rightarrow> js_value \<Rightarrow> string \<Rightarrow> string" where
  "stored_text json code body stamp = stringify json
    (Jobj [(''statusCode'', Jnum (Fin (of_int code))), (''status'', Jnum (Fin (of_int code))),
      (''body'', body), (''resolvedAt'', Jstr stamp)])"

lemma read_inFlight: "json_roundtrip (ie_json e) \<Longrightarrow> read_entry (ie_json e) (inFlightPayload e) = In_progress"
  by (simp add: json_roundtrip_def read_entry_def inFlightPayload_def js_field_def)

lemma read_stored: "json_roundtrip json \<Longrightarrow> plain_json body \<Longrightarrow>
    read_entry json (stored_text json code body stamp) = Completed (Jnum (Fin (of_int code))) body"
  by (simp add: json_roundtrip_def read_entry_def stored_text_def js_field_def status_of_def nullish_def)

text \<open>
  A state of the layer: the clock, the cache, the requests that hold a lock with the instant they
  took it, and the successful responses recorded with their instant. A holder acts within the
  lifetime of its lock, and keys are not glob patterns.
\<close>

record idem_state =
  clock :: instant
  shared :: cache
  holders :: "(string \<times> instant) list"
  answers :: "(string \<times> int \<times> js_value \<times> instant) list"

definition holder_live :: "idem_options \<Rightarrow> idem_state \<Rightarrow> string \<times> instant \<Rightarrow> bool" where
  "holder_live opts s h \<longleftrightarrow> clock s < snd h + inFlightTtlSeconds opts * 1000"

definition fresh_run :: "cache \<Rightarrow> run_state" where
  "fresh_run c = \<lparr>capturedBody = Jundefined, persisted = False, run_cache = c\<rparr>"

inductive idem_step :: "json_lib \<Rightarrow> idem_options \<Rightarrow> idem_state \<Rightarrow> idem_state \<Rightarrow> bool" for json opts where
  tick: "clock s \<le> t \<Longrightarrow> idem_step json opts s (s\<lparr>clock := t\<rparr>)"
| lock: "ie_json e = json \<Longrightarrow> ie_now e = clock s \<Longrightarrow> healthy e (shared s) \<Longrightarrow>
    idem_lock opts e key (shared s) = (r, c) \<Longrightarrow>
    idem_step json opts s (s\<lparr>shared := c, holders := (if r = Acquired then (key, clock s) # holders s else holders s)\<rparr>)"
| respond: "ie_json e = json \<Longrightarrow> ie_now e = clock s \<Longrightarrow> ie_conn e = Up \<Longrightarrow>
    (key, t) \<in> set (holders s) \<Longrightarrow> holder_live opts s (key, t) \<Longrightarrow> \<not> is_pattern key \<Longrightarrow> plain_json body \<Longrightarrow>
    idem_step json opts s
      (s\<lparr>shared := run_cache (handle_event opts key e (Ev_json code body) (fresh_run (shared s))),
         holders := remove1 (key, t) (holders s),
         answers := (if code < 400 then (key, code, body, clock s) # answers s else answers s)\<rparr>)"

definition idem_init :: "idem_state \<Rightarrow> bool" where
  "idem_init s \<longleftrightarrow> cells (shared s) = Map.empty \<and> holders s = [] \<and> answers s = []"

text \<open>What a live lock and a live answer leave in the cache.\<close>

definition lock_cell :: "json_lib \<Rightarrow> idem_options \<Rightarrow> store \<Rightarrow> string \<times> instant \<Rightarrow> bool" where
  "lock_cell json opts m h \<longleftrightarrow> (\<exists>c. m (fst h) = Some c \<and>
    cell_expires c = snd h + inFlightTtlSeconds opts * 1000 \<and> read_entry json (cell_text c) = In_progress)"

definition answer_cell ::
  "json_lib \<Rightarrow> idem_options \<Rightarrow> store \<Rightarrow> string \<times> int \<times> js_value \<times> instant \<Rightarrow> bool" where
  "answer_cell json opts m a \<longleftrightarrow> (case a of (k, code, body, t) \<Rightarrow> \<exists>c. m k = Some c \<and>
    cell_expires c = t + ttlSeconds opts * 1000 \<and>
    read_entry json (cell_text c) = Completed (Jnum (Fin (of_int code))) body)"

definition answer_live :: "idem_options \<Rightarrow> idem_state \<Rightarrow> string \<times> int \<times> js_value \<times> instant \<Rightarrow> bool" where
  "answer_live opts s a \<longleftrightarrow> clock s < snd (snd (snd a)) + ttlSeconds opts * 1000"

definition idem_inv :: "json_lib \<Rightarrow> idem_options \<Rightarrow> idem_state \<Rightarrow> bool" where
  "idem_inv json opts s \<longleftrightarrow>
    (\<forall>k c. cells (shared s) k = Some c \<longrightarrow> read_entry json (cell_text c) \<noteq> Corrupt) \<and>
    distinct (holders s) \<and>
    (\<forall>h \<in> set (holders s). holder_live opts s h \<longrightarrow> lock_cell json opts (cells (shared s)) h) \<and>
    (\<forall>a \<in> set (answers s). answer_live opts s a \<longrightarrow> answer_cell json opts (cells (shared s)) a)"

lemma lock_cell_other: "m' (fst h) = m (fst h) \<Longrightarrow> lock_cell json opts m' h = lock_cell json opts m h"
  by (simp add: lock_cell_def)

lemma answer_cell_other: "m' (fst a) = m (fst a) \<Longrightarrow> answer_cell json opts m' a = answer_cell json opts m a"
  by (cases a) (simp add: answer_cell_def)

text \<open>Two live claims on one key coincide.\<close>

lemma live_unique:
  assumes inv: "idem_inv json opts s" and h: "h \<in> set (holders s)" "holder_live opts s h"
  shows "h' \<in> set (holders s) \<Longrightarrow> holder_live opts s h' \<Longrightarrow> fst h' = fst h \<Longrightarrow> h' = h"
    and "a \<in> set (answers s) \<Longrightarrow> answer_live opts s a \<Longrightarrow> fst a \<noteq> fst h"
proof -
  obtain c where c: "cells (shared s) (fst h) = Some c" "cell_expires c = snd h + inFlightTtlSeconds opts * 1000"
    "read_entry json (cell_text c) = In_progress"
    using inv h by (auto simp: idem_inv_def lock_cell_def)
  show "h' = h" if "h' \<in> set (holders s)" "holder_live opts s h'" "fst h' = fst h"
    using inv that c by (auto simp: idem_inv_def lock_cell_def prod_eq_iff)
  show "fst a \<noteq> fst h" if "a \<in> set (answers s)" "answer_live opts s a"
  proof -
    have "answer_cell json opts (cells (shared s)) a" using inv that by (simp add: idem_inv_def)
    then show ?thesis using c by (cases a) (auto simp: answer_cell_def)
  qed
qed

lemma free_key:
  assumes inv: "idem_inv json opts s" and free: "redis_get (clock s) k (cells (shared s)) = None"
  shows "h \<in> set (holders s) \<Longrightarrow> holder_live opts s h \<Longrightarrow> fst h \<noteq> k"
    and "a \<in> set (answers s) \<Longrightarrow> answer_live opts s a \<Longrightarrow> fst a \<noteq> k"
proof -
  have gone: "cells (shared s) k = Some c \<Longrightarrow> cell_expires c \<le> clock s" for c
    using free by (auto simp: redis_get_def split: if_splits)
  show "fst h \<noteq> k" if "h \<in> set (holders s)" "holder_live opts s h"
    using inv that gone by (fastforce simp: idem_inv_def lock_cell_def holder_live_def)
  show "fst a \<noteq> k" if "a \<in> set (answers s)" "answer_live opts s a"
  proof -
    have "answer_cell json opts (cells (shared s)) a" using inv that by (simp add: idem_inv_def)
    then show ?thesis using gone that(2) by (cases a) (fastforce simp: answer_cell_def answer_live_def)
  qed
qed

lemma persist_cells:
  assumes "ie_conn e = Up" "\<not> is_pattern key"
  shows "cells (run_cache (handle_event opts key e (Ev_json code body) (fresh_run c))) =
    (if code < 400 then redis_set (ie_now e) key (stored_text (ie_json e) code body (ie_isoNow e)) (ttlSeconds opts) (cells c)
     else redis_del [key] (cells c))"
  using assms
  by (simp add: handle_event_def persistResult_def fresh_run_def cacheSetRaw_def stored_text_def
      cacheInvalidate_def del_chunks_eq)

lemma lock_step_inv:
  assumes json: "json_roundtrip (ie_json e)" and opts: "0 < inFlightTtlSeconds opts"
    and inv: "idem_inv (ie_json e) opts s" and e: "ie_now e = clock s" "healthy e (shared s)"
    and lock: "idem_lock opts e key (shared s) = (r, c)"
  shows "idem_inv (ie_json e) opts
    (s\<lparr>shared := c, holders := (if r = Acquired then (key, clock s) # holders s else holders s)\<rparr>)"
proof (cases "redis_get (clock s) key (cells (shared s))")
  case None
  then have r: "r = Acquired" and c: "cells c = (cells (shared s))(key \<mapsto>
      \<lparr>cell_text = inFlightPayload e, cell_expires = clock s + inFlightTtlSeconds opts * 1000\<rparr>)"
    using idem_lock_free [OF e(2), of key opts] e(1) lock by (simp_all add: redis_set_def)
  note free = free_key [OF inv None]
  have new: "lock_cell (ie_json e) opts (cells c) (key, clock s)"
    using read_inFlight [OF json] by (simp add: lock_cell_def c)
  have "lock_cell (ie_json e) opts (cells c) h" if "h \<in> set (holders s)" "holder_live opts s h" for h
  proof -
    have "lock_cell (ie_json e) opts (cells (shared s)) h" using inv that by (simp add: idem_inv_def)
    then show ?thesis using free(1) [OF that] by (subst lock_cell_other) (simp_all add: c)
  qed
  moreover have "answer_cell (ie_json e) opts (cells c) a" if "a \<in> set (answers s)" "answer_live opts s a" for a
  proof -
    have "answer_cell (ie_json e) opts (cells (shared s)) a" using inv that by (simp add: idem_inv_def)
    then show ?thesis using free(2) [OF that] by (subst answer_cell_other) (simp_all add: c)
  qed
  moreover have "(key, clock s) \<notin> set (holders s)"
    using free(1) [of "(key, clock s)"] opts by (auto simp: holder_live_def)
  moreover have "\<forall>k x. cells c k = Some x \<longrightarrow> read_entry (ie_json e) (cell_text x) \<noteq> Corrupt"
    using inv read_inFlight [OF json] by (auto simp: c idem_inv_def)
  moreover have "distinct (holders s)" using inv by (simp add: idem_inv_def)
  ultimately show ?thesis
    using new by (simp add: idem_inv_def r holder_live_def answer_live_def)
next
  case (Some raw)
  then have "read_entry (ie_json e) raw \<noteq> Corrupt"
    using inv by (auto simp: idem_inv_def redis_get_def split: option.splits if_splits)
  then have "cells c = cells (shared s)" "r \<noteq> Acquired"
    using idem_lock_taken [OF e(2), of key raw opts] e(1) lock Some by (auto split: entry.splits)
  then show ?thesis using inv by (simp add: idem_inv_def holder_live_def answer_live_def)
qed

lemma respond_step_inv:
  assumes json: "json_roundtrip (ie_json e)"
    and inv: "idem_inv (ie_json e) opts s" and e: "ie_now e = clock s" "ie_conn e = Up"
    and h: "(key, t) \<in> set (holders s)" "holder_live opts s (key, t)" "\<not> is_pattern key" "plain_json body"
    and m: "m = cells (run_cache (handle_event opts key e (Ev_json code body) (fresh_run (shared s))))"
  shows "(\<forall>k x. m k = Some x \<longrightarrow> read_entry (ie_json e) (cell_text x) \<noteq> Corrupt) \<and>
    (\<forall>h \<in> set (remove1 (key, t) (holders s)). holder_live opts s h \<longrightarrow> lock_cell (ie_json e) opts m h) \<and>
    (\<forall>a \<in> set (answers s). answer_live opts s a \<longrightarrow> answer_cell (ie_json e) opts m a) \<and>
    (code < 400 \<longrightarrow> answer_cell (ie_json e) opts m (key, code, body, clock s))"
proof -
  note read = read_stored [OF json h(4), of code "ie_isoNow e"]
  have m: "m = (if code < 400 then (cells (shared s))(key \<mapsto> \<lparr>cell_text = stored_text (ie_json e) code body (ie_isoNow e),
        cell_expires = clock s + ttlSeconds opts * 1000\<rparr>) else (cells (shared s))(key := None))"
    using persist_cells [OF e(2) h(3), of opts code body "shared s"]
    by (auto simp: m redis_set_def redis_del_def e(1) fun_eq_iff)
  have other: "m k = cells (shared s) k" if "k \<noteq> key" for k using that by (simp add: m)
  have dist: "distinct (holders s)" using inv by (simp add: idem_inv_def)
  have "lock_cell (ie_json e) opts m h'" if h': "h' \<in> set (remove1 (key, t) (holders s))" "holder_live opts s h'" for h'
  proof -
    have in_s: "h' \<in> set (holders s)" "h' \<noteq> (key, t)" using h'(1) dist by auto
    then have "fst h' \<noteq> key" using live_unique(1) [OF inv h(1,2) in_s(1) h'(2)] by auto
    moreover have "lock_cell (ie_json e) opts (cells (shared s)) h'"
      using inv in_s(1) h'(2) by (simp add: idem_inv_def)
    ultimately show ?thesis by (subst lock_cell_other) (simp_all add: other)
  qed
  moreover have "answer_cell (ie_json e) opts m a" if a: "a \<in> set (answers s)" "answer_live opts s a" for a
  proof -
    have "fst a \<noteq> key" using live_unique(2) [OF inv h(1,2) a] by simp
    moreover have "answer_cell (ie_json e) opts (cells (shared s)) a" using inv a by (simp add: idem_inv_def)
    ultimately show ?thesis by (subst answer_cell_other) (simp_all add: other)
  qed
  moreover have "\<forall>k x. m k = Some x \<longrightarrow> read_entry (ie_json e) (cell_text x) \<noteq> Corrupt"
    using inv read by (auto simp: m idem_inv_def)
  moreover have "code < 400 \<longrightarrow> answer_cell (ie_json e) opts m (key, code, body, clock s)"
    using read by (simp add: m answer_cell_def)
  ultimately show ?thesis by blast
qed

lemma idem_step_inv:
  assumes json: "json_roundtrip json" and opts: "0 < inFlightTtlSeconds opts"
    and inv: "idem_inv json opts s" and step: "idem_step json opts s u"
  shows "idem_inv json opts u"
  using step
proof cases
  case (tick t)
  then show ?thesis using inv by (fastforce simp: idem_inv_def holder_live_def answer_live_def)
next
  case (lock e key r c)
  then show ?thesis using lock_step_inv [of e opts s key r c] json opts inv by simp
next
  case (respond e key t body code)
  have "idem_inv (ie_json e) opts s" "json_roundtrip (ie_json e)" using inv json respond(2) by simp_all
  note R = respond_step_inv [OF this(2,1) respond(3,4,5,6,7,8) refl, of code]
  have "distinct (remove1 (key, t) (holders s))" using inv by (simp add: idem_inv_def)
  then show ?thesis
    using R unfolding respond(1) by (simp add: idem_inv_def holder_live_def answer_live_def respond(2))
qed

interpretation idem_sys: invariant_system idem_init "idem_step json opts"
  "\<lambda>s. json_roundtrip json \<and> 0 < inFlightTtlSeconds opts \<longrightarrow> idem_inv json opts s" for json opts
proof
  show "json_roundtrip json \<and> 0 < inFlightTtlSeconds opts \<longrightarrow> idem_inv json opts s" if "idem_init s" for s
    using that by (simp add: idem_init_def idem_inv_def)
qed (blast intro: idem_step_inv)

lemma distinct_at_most_one:
  "distinct xs \<Longrightarrow> (\<And>x y. x \<in> set xs \<Longrightarrow> y \<in> set xs \<Longrightarrow> P x \<Longrightarrow> P y \<Longrightarrow> x = y) \<Longrightarrow> length (filter P xs) \<le> 1"
  by (induction xs) (auto simp: filter_empty_conv)


section \<open>Waiting\<close>

lemma wait_loop_fuel:
  assumes "\<And>i. fst (obs i) < fst (obs (Suc i))"
  shows "nat (startTime + limit - fst (obs i)) < n \<Longrightarrow> wait_loop n json limit startTime obs i \<noteq> None"
proof (induction n arbitrary: i)
  case (Suc n)
  have "fst (obs i) - startTime < limit \<Longrightarrow> nat (startTime + limit - fst (obs (Suc i))) < n"
    using Suc.prems assms [of i] by linarith
  then show ?case using Suc.IH [of "Suc i"] by (auto split: option.splits entry.splits)
qed simp

lemma wait_loop_result:
  "wait_loop n json limit startTime obs i = Some (Some (st, b)) \<Longrightarrow>
    \<exists>j raw. i \<le> j \<and> fst (obs j) - startTime < limit \<and> snd (obs j) = Some raw \<and> read_entry json raw = Completed st b"
proof (induction n arbitrary: i)
  case (Suc n)
  have "\<exists>j raw. i \<le> j \<and> fst (obs j) - startTime < limit \<and> snd (obs j) = Some raw \<and> read_entry json raw = Completed st b"
    if "wait_loop n json limit startTime obs (Suc i) = Some (Some (st, b))"
    using Suc.IH [OF that] by (meson Suc_leD)
  then show ?case using Suc.prems
    by (fastforce split: if_splits option.splits entry.splits)
qed simp

text \<open>C23: A waiting duplicate never hangs: if the clock advances between turns, the loop ends within one
  turn per millisecond of the timeout, and it ends with a stored response only if some turn before
  the timeout read exactly that completed response.\<close>

theorem wait_loop_ends:
  assumes "\<And>i. fst (obs i) < fst (obs (Suc i))" and "startTime \<le> fst (obs 0)"
  shows "\<exists>r. wait_loop (Suc (nat limit)) json limit startTime obs 0 = Some r \<and>
    (\<forall>st b. r = Some (st, b) \<longrightarrow> (\<exists>j raw. fst (obs j) - startTime < limit \<and> snd (obs j) = Some raw \<and>
      read_entry json raw = Completed st b))"
proof -
  have "nat (startTime + limit - fst (obs 0)) < Suc (nat limit)" using assms(2) by linarith
  then obtain r where r: "wait_loop (Suc (nat limit)) json limit startTime obs 0 = Some r"
    using wait_loop_fuel [of obs startTime limit 0 "Suc (nat limit)" json] assms(1) by blast
  then show ?thesis using wait_loop_result [of "Suc (nat limit)" json limit startTime obs 0] by blast
qed

section \<open>Keys that are patterns\<close>

text \<open>The client's key is used as a glob pattern on the failure path: a request whose key is \<open>*\<close> and
  whose handler answers with an error deletes every stored response of the wallet, so a retry of any
  completed request runs its handler again.\<close>

theorem star_key_erases_stored_responses:
  assumes star: "\<And>pre rest. \<not> is_pattern pre \<Longrightarrow> ie_glob e (pre @ ''*'') (pre @ rest)"
    and wallet: "\<not> is_pattern w" and up: "ie_conn e = Up" and err: "400 \<le> code"
    and c': "c' = run_cache (handle_event opts (buildIdempotencyCacheKey w ''*'') e (Ev_json code body) (fresh_run c))"
    and healthy: "healthy e' c'"
  shows "fst (idem_lock opts e' (buildIdempotencyCacheKey w k) c') = Acquired"
proof (rule idem_lock_free(1) [OF healthy])
  let ?key = "buildIdempotencyCacheKey w ''*''"
  have pat: "is_pattern ?key" by (simp add: buildIdempotencyCacheKey_def is_pattern_def)
  have "\<not> is_pattern (''idempotency:'' @ w @ '':'')" using wallet by (simp add: is_pattern_def)
  from star [OF this, of k] have "ie_glob e ?key (buildIdempotencyCacheKey w k)"
    by (simp add: buildIdempotencyCacheKey_def)
  then have "cells c' (buildIdempotencyCacheKey w k) = None"
    using up err pat
    by (simp add: c' handle_event_def persistResult_def fresh_run_def cacheInvalidate_def del_matching_def)
  then show "redis_get (ie_now e') (buildIdempotencyCacheKey w k) (cells c') = None"
    by (simp add: redis_get_def)
qed

section \<open>Witnesses\<close>

instance js_num :: countable by countable_datatype
instance js_value :: countable by countable_datatype

definition example_json :: json_lib where
  "example_json = \<lparr>stringify = (\<lambda>v. show_nat (to_nat v)), parse = (\<lambda>t. Some (from_nat (read_nat t)))\<rparr>"

lemma example_json_roundtrip: "json_roundtrip example_json"
  by (simp add: json_roundtrip_def example_json_def)

definition example_env :: "instant \<Rightarrow> idem_env" where
  "example_env now = \<lparr>ie_json = example_json, ie_breaker = sample_config, ie_glob = (\<lambda>p k. take (length p - 1) k = take (length p - 1) p),
    ie_conn = Up, ie_now = now, ie_isoNow = []\<rparr>"

definition start :: idem_state where
  "start = \<lparr>clock = 5, shared = \<lparr>cells = Map.empty, redisCircuitBreaker = new_breaker\<rparr>, holders = [], answers = []\<rparr>"

definition locked :: idem_state where
  "locked = start\<lparr>shared := snd (idem_lock default_options (example_env 5) ''k'' (shared start)), holders := [(''k'', 5)]\<rparr>"

definition answered :: idem_state where
  "answered = locked\<lparr>shared := run_cache (handle_event default_options ''k'' (example_env 5) (Ev_json 200 Jnull)
      (fresh_run (shared locked))), holders := [], answers := [(''k'', 200, Jnull, 5)]\<rparr>"

lemma start_healthy: "healthy (example_env now) (shared start)"
  by (simp add: healthy_def example_env_def start_def isOpen_def getState_def new_breaker_def)

lemma example_answered: "(idem_step example_json default_options)\<^sup>*\<^sup>* start answered"
proof -
  have acq: "fst (idem_lock default_options (example_env 5) ''k'' (shared start)) = Acquired"
    by (rule idem_lock_free(1) [OF start_healthy]) (simp add: start_def redis_get_def)
  have "idem_step example_json default_options start (start\<lparr>
      shared := snd (idem_lock default_options (example_env 5) ''k'' (shared start)),
      holders := (if fst (idem_lock default_options (example_env 5) ''k'' (shared start)) = Acquired
        then (''k'', clock start) # holders start else holders start)\<rparr>)"
    by (rule idem_step.lock) (simp_all add: start_healthy, simp_all add: example_env_def start_def)
  then have "idem_step example_json default_options start locked"
    by (simp add: acq locked_def) (simp add: start_def)
  moreover have "idem_step example_json default_options locked (locked\<lparr>
      shared := run_cache (handle_event default_options ''k'' (example_env 5) (Ev_json 200 Jnull) (fresh_run (shared locked))),
      holders := remove1 (''k'', 5) (holders locked),
      answers := (if (200 :: int) < 400 then (''k'', 200, Jnull, clock locked) # answers locked else answers locked)\<rparr>)"
    by (rule idem_step.respond)
      (simp_all add: example_env_def locked_def start_def holder_live_def default_options_def is_pattern_def)
  then have "idem_step example_json default_options locked answered"
    by (simp add: answered_def) (simp add: locked_def start_def)
  ultimately show ?thesis by (meson converse_rtranclp_into_rtranclp rtranclp.rtrancl_refl)
qed


theorem wait_loop_ends_witness:
  "\<exists>r. wait_loop 5001 example_json 5000 0 (\<lambda>i. (int i * 100, None)) 0 = Some r"
  using wait_loop_ends [of "\<lambda>i. (int i * 100, None)" 0 5000 example_json] by (auto simp: eval_nat_numeral)

theorem star_key_erases_stored_responses_witness:
  "fst (idem_lock default_options (example_env 7) (buildIdempotencyCacheKey ''W'' ''order-1'')
    (run_cache (handle_event default_options (buildIdempotencyCacheKey ''W'' ''*'') (example_env 6)
      (Ev_json 400 Jnull) (fresh_run (shared start))))) = Acquired"
proof (rule star_key_erases_stored_responses [OF _ _ _ _ refl])
  show "ie_glob (example_env 6) (pre @ ''*'') (pre @ rest)" for pre rest
    by (simp add: example_env_def)
  show "\<not> is_pattern ''W''" by (simp add: is_pattern_def)
  show "ie_conn (example_env 6) = Up" by (simp add: example_env_def)
  show "healthy (example_env 7) (run_cache (handle_event default_options (buildIdempotencyCacheKey ''W'' ''*'')
      (example_env 6) (Ev_json 400 Jnull) (fresh_run (shared start))))"
    using start_healthy [of 7]
    by (simp add: healthy_def handle_event_def persistResult_def fresh_run_def cacheInvalidate_def Let_def)
qed simp

end
