(* ===== verification/Vesting.thy ===== *)
theory Vesting
  imports Decimal_Lib Redis_Cache "HOL-Library.Product_Lexorder" "HOL-Library.List_Lexorder"
begin

text \<open>
  Vesting schedules: \<open>src/modules/vesting/vesting.service.ts\<close> and the claim handler of
  \<open>vesting.routes.ts\<close>. What the contract answers for a beneficiary (Horizon sequence, Soroban RPC and
  XDR decoding included) is the argument \<open>chain\<close>. Dates in answers are instants; \<open>toISOString\<close> is
  applied when an answer is turned into the JSON value that is cached and returned.
\<close>

record vest_row =
  vs_id :: string
  vs_keyId :: string
  vs_wallet :: string
  vs_totalKeys :: rat
  vs_startLedger :: int
  vs_endLedger :: int
  vs_claimedKeys :: rat

record claim_row =
  ch_id :: string
  ch_vestingId :: string
  ch_keyId :: string
  ch_wallet :: string
  ch_claimedAmount :: string
  ch_txHash :: "string option"
  ch_ledger :: "int option"
  ch_claimedAt :: instant

record registered_key =
  rk_id :: string
  rk_keyAddress :: string
  rk_creatorWallet :: string

record claimed_activity =
  act_actor :: string
  act_creatorId :: string
  act_claimed :: string
  act_claimableAfter :: string

record vest_db =
  schedules :: "vest_row list"
  claimHistory :: "claim_row list"
  regKeys :: "registered_key list"
  ledgers :: "(int \<times> instant) list"
  activities :: "claimed_activity list"
  vest_cache :: cache

record vest_env =
  ve_dec :: decimal_lib
  ve_json :: json_lib
  ve_breaker :: breaker_config
  ve_glob :: "string \<Rightarrow> string \<Rightarrow> bool"
  ve_conn :: connection
  ve_now :: instant
  ve_iso :: "instant \<Rightarrow> string"

datatype vest_error =
    VestingNotFoundError string string
  | WalletVestingNotFoundError string
  | KeyVestingNotFoundError string
  | VestingContractUnavailableError
  | Not_beneficiary
  | NothingToClaim
  | Vest_language js_error

definition VESTING_CACHE_TTL_SECONDS :: int where "VESTING_CACHE_TTL_SECONDS = 60"

definition WALLET_VESTING_CACHE_TTL_SECONDS :: int where "WALLET_VESTING_CACHE_TTL_SECONDS = 30"

definition LEDGER_SECONDS :: int where "LEDGER_SECONDS = 5"

text \<open>\<open>BigInt(column.toString())\<close>.\<close>

definition column_bigint :: "decimal_lib \<Rightarrow> rat \<Rightarrow> vest_error + int" where
  "column_bigint dec q =
    (case read_int (dec_text dec q) of None \<Rightarrow> Inl (Vest_language SyntaxError) | Some n \<Rightarrow> Inr n)"

section \<open>Schedules on chain\<close>

record onchain_info =
  totalAllocation :: int
  claimedAmount :: int
  claimableAmount :: int
  cliffTimestamp :: int
  startTimestamp :: int
  durationSeconds :: int

definition calculateNextUnlock :: "onchain_info \<Rightarrow> int \<Rightarrow> instant option" where
  "calculateNextUnlock info nowSeconds =
    (if claimableAmount info + claimedAmount info \<ge> totalAllocation info then None
     else if nowSeconds < cliffTimestamp info then Some (cliffTimestamp info * 1000)
     else if durationSeconds info = 0 \<or> totalAllocation info \<le> 0 then None
     else
       let nextVestedAmount = claimableAmount info + claimedAmount info + 1;
           unlockOffset = bigint_div
             (nextVestedAmount * durationSeconds info + totalAllocation info - 1) (totalAllocation info);
           nextUnlock = startTimestamp info + unlockOffset;
           timestamp = (if nextUnlock > cliffTimestamp info then nextUnlock else cliffTimestamp info)
       in Some (timestamp * 1000))"

record wallet_schedule =
  ws_vest_id :: string
  ws_key_id :: string
  ws_info :: onchain_info
  ws_cliff_seconds_remaining :: int
  ws_next_unlock :: "instant option"

definition toWalletVestingSchedule :: "string \<Rightarrow> string \<Rightarrow> onchain_info \<Rightarrow> int \<Rightarrow> wallet_schedule" where
  "toWalletVestingSchedule vestId keyId info nowSeconds =
    (let cliffRemaining = cliffTimestamp info - nowSeconds
     in \<lparr>ws_vest_id = vestId, ws_key_id = keyId, ws_info = info,
         ws_cliff_seconds_remaining = (if cliffRemaining > 0 then cliffRemaining else 0),
         ws_next_unlock = calculateNextUnlock info nowSeconds\<rparr>)"

definition Jint :: "int \<Rightarrow> js_value" where
  "Jint n = Jnum (Fin (of_int n))"

definition Jdate :: "(instant \<Rightarrow> string) \<Rightarrow> instant option \<Rightarrow> js_value" where
  "Jdate isoText d = (case d of None \<Rightarrow> Jnull | Some t \<Rightarrow> Jstr (isoText t))"

definition wallet_schedule_json :: "(instant \<Rightarrow> string) \<Rightarrow> wallet_schedule \<Rightarrow> js_value" where
  "wallet_schedule_json isoText w =
    (let i = ws_info w;
         amounts = [(''total'', Jstr (show_int (totalAllocation i))),
           (''claimed'', Jstr (show_int (claimedAmount i))),
           (''claimable_now'', Jstr (show_int (claimableAmount i)))]
     in Jobj ([(''vest_id'', Jstr (ws_vest_id w)), (''key_id'', Jstr (ws_key_id w))] @ amounts @
          [(''cliff_seconds_remaining'', Jint (ws_cliff_seconds_remaining w)),
           (''next_unlock'', Jdate isoText (ws_next_unlock w)),
           (''tranches'', Jarr [Jobj (amounts @
             [(''cliff_timestamp'', Jstr (show_int (cliffTimestamp i))),
              (''start_timestamp'', Jstr (show_int (startTimestamp i))),
              (''duration_seconds'', Jstr (show_int (durationSeconds i)))])])]))"

text \<open>The contract of a key, found by its id or its address; a later row overrides an earlier one.\<close>

definition getVestingContractMappings :: "string list \<Rightarrow> vest_db \<Rightarrow> string \<Rightarrow> registered_key option" where
  "getVestingContractMappings keyIds db =
    fold (\<lambda>k m. m(rk_id k \<mapsto> k, rk_keyAddress k \<mapsto> k))
      (filter (\<lambda>k. rk_id k \<in> set keyIds \<or> rk_keyAddress k \<in> set keyIds) (regKeys db)) Map.empty"

fun active_schedules :: "decimal_lib \<Rightarrow> vest_row list \<Rightarrow> vest_error + vest_row list" where
  "active_schedules dec [] = Inr []"
| "active_schedules dec (r # rs) =
    and_then (column_bigint dec (vs_totalKeys r)) (\<lambda>total_keys.
    and_then (column_bigint dec (vs_claimedKeys r)) (\<lambda>claimed.
    and_then (active_schedules dec rs) (\<lambda>rest.
      Inr (if total_keys > claimed then r # rest else rest))))"

fun wallet_results ::
  "(registered_key \<Rightarrow> string \<Rightarrow> vest_error + onchain_info) \<Rightarrow> (string \<Rightarrow> registered_key option) \<Rightarrow>
    string \<Rightarrow> int \<Rightarrow> vest_row list \<Rightarrow> vest_error + wallet_schedule list" where
  "wallet_results chain mappings wallet nowSeconds [] = Inr []"
| "wallet_results chain mappings wallet nowSeconds (r # rs) =
    (case mappings (vs_keyId r) of
      None \<Rightarrow> Inl VestingContractUnavailableError
    | Some contract \<Rightarrow>
        and_then (chain contract wallet) (\<lambda>info.
        and_then (wallet_results chain mappings wallet nowSeconds rs) (\<lambda>rest.
          Inr (if totalAllocation info \<le> claimedAmount info then rest
               else toWalletVestingSchedule (vs_id r) (vs_keyId r) info nowSeconds # rest))))"

definition wallet_cache_key :: "string \<Rightarrow> string" where
  "wallet_cache_key wallet = ''vesting:wallet:'' @ wallet @ '':list''"

definition schedule_order :: "vest_row \<Rightarrow> string \<times> string" where
  "schedule_order r = (vs_keyId r, vs_id r)"

definition env_get :: "vest_env \<Rightarrow> string \<Rightarrow> vest_db \<Rightarrow> js_value option \<times> vest_db" where
  "env_get e key db =
    (let (v, c) = cacheGetJson (ve_json e) (ve_breaker e) (ve_conn e) (ve_now e) key (vest_cache db)
     in (v, db\<lparr>vest_cache := c\<rparr>))"

definition env_set :: "vest_env \<Rightarrow> string \<Rightarrow> js_value \<Rightarrow> int \<Rightarrow> vest_db \<Rightarrow> vest_db" where
  "env_set e key v ttl db =
    db\<lparr>vest_cache := cacheSetJson (ve_json e) (ve_breaker e) (ve_conn e) (ve_now e) key v ttl (vest_cache db)\<rparr>"

definition getWalletVestingSchedules ::
  "vest_env \<Rightarrow> (registered_key \<Rightarrow> string \<Rightarrow> vest_error + onchain_info) \<Rightarrow> string \<Rightarrow> vest_db \<Rightarrow>
    (vest_error + js_value) \<times> vest_db" where
  "getWalletVestingSchedules e chain wallet db =
    (let key = wallet_cache_key wallet; (cached, db1) = env_get e key db
     in case cached of
          Some v \<Rightarrow> (Inr v, db1)
        | None \<Rightarrow>
            let rows = sort_key schedule_order (filter (\<lambda>r. vs_wallet r = wallet) (schedules db1))
            in case active_schedules (ve_dec e) rows of
                 Inl err \<Rightarrow> (Inl err, db1)
               | Inr active \<Rightarrow>
                   if active = [] then
                     (Inr (Jarr []), env_set e key (Jarr []) WALLET_VESTING_CACHE_TTL_SECONDS db1)
                   else
                     let mappings = getVestingContractMappings (remdups (map vs_keyId active)) db1
                     in case wallet_results chain mappings wallet (ve_now e div 1000) active of
                          Inl err \<Rightarrow> (Inl err, db1)
                        | Inr found \<Rightarrow>
                            let v = Jarr (map (wallet_schedule_json (ve_iso e)) found)
                            in (Inr v, env_set e key v WALLET_VESTING_CACHE_TTL_SECONDS db1))"

text \<open>The elements of a list answer, as \<open>find\<close> walks them.\<close>

fun json_elements :: "js_value \<Rightarrow> js_value list" where
  "json_elements (Jarr vs) = vs"
| "json_elements _ = []"

fun json_string_field :: "string \<Rightarrow> js_value \<Rightarrow> string option" where
  "json_string_field name (Jobj props) = (case js_field name props of Jstr s \<Rightarrow> Some s | _ \<Rightarrow> None)"
| "json_string_field name _ = None"

definition getWalletVestingSchedule ::
  "vest_env \<Rightarrow> (registered_key \<Rightarrow> string \<Rightarrow> vest_error + onchain_info) \<Rightarrow> string \<Rightarrow> string \<Rightarrow> vest_db \<Rightarrow>
    (vest_error + js_value) \<times> vest_db" where
  "getWalletVestingSchedule e chain wallet vestId db =
    (let (r, db1) = getWalletVestingSchedules e chain wallet db
     in (and_then r (\<lambda>v.
          case find (\<lambda>item. json_string_field ''vest_id'' item = Some vestId) (json_elements v) of
            None \<Rightarrow> Inl (WalletVestingNotFoundError wallet)
          | Some item \<Rightarrow> Inr item), db1))"

section \<open>Schedules by ledger\<close>

record vesting_schedule =
  sc_keyId :: string
  sc_wallet :: string
  sc_totalKeys :: int
  sc_startLedger :: int
  sc_endLedger :: int
  sc_claimedKeys :: int
  sc_vestedAmount :: int
  sc_claimableAmount :: int
  sc_durationLedger :: int
  sc_endDate :: "instant option"

definition ledgerDurationToDate :: "int \<Rightarrow> int \<Rightarrow> instant option" where
  "ledgerDurationToDate ledgerDelta anchorLedger =
    (if ledgerDelta < 0 then None
     else let seconds = ledgerDelta * LEDGER_SECONDS
          in Some ((anchorLedger * LEDGER_SECONDS + seconds) * 1000))"

definition calculateVestedAmount :: "int \<Rightarrow> int \<Rightarrow> int \<Rightarrow> int \<Rightarrow> int" where
  "calculateVestedAmount amount startL endL currentLedger =
    (if currentLedger \<ge> endL then amount
     else if currentLedger \<le> startL then 0
     else
       let elapsed = currentLedger - startL; duration = endL - startL
       in if duration \<le> 0 then amount else bigint_div (amount * elapsed) duration)"

definition toVestingSchedule :: "decimal_lib \<Rightarrow> vest_row \<Rightarrow> int \<Rightarrow> vest_error + vesting_schedule" where
  "toVestingSchedule dec r currentLedger =
    and_then (column_bigint dec (vs_totalKeys r)) (\<lambda>amount.
    and_then (column_bigint dec (vs_claimedKeys r)) (\<lambda>claimed.
      let vested = calculateVestedAmount amount (vs_startLedger r) (vs_endLedger r) currentLedger;
          durationLedger = max 0 (vs_endLedger r - vs_startLedger r)
      in Inr \<lparr>sc_keyId = vs_keyId r, sc_wallet = vs_wallet r, sc_totalKeys = amount,
           sc_startLedger = vs_startLedger r, sc_endLedger = vs_endLedger r,
           sc_claimedKeys = claimed, sc_vestedAmount = vested,
           sc_claimableAmount = (if vested > claimed then vested - claimed else 0),
           sc_durationLedger = durationLedger,
           sc_endDate = ledgerDurationToDate durationLedger (vs_startLedger r)\<rparr>))"

definition find_schedule :: "string \<Rightarrow> string \<Rightarrow> vest_db \<Rightarrow> vest_row option" where
  "find_schedule keyId wallet db = find_by (\<lambda>r. (vs_keyId r, vs_wallet r)) (keyId, wallet) (schedules db)"

definition getVestingSchedule ::
  "decimal_lib \<Rightarrow> string \<Rightarrow> string \<Rightarrow> int \<Rightarrow> vest_db \<Rightarrow> vest_error + vesting_schedule" where
  "getVestingSchedule dec keyId wallet currentLedger db =
    (case find_schedule keyId wallet db of
      None \<Rightarrow> Inl (VestingNotFoundError keyId wallet)
    | Some r \<Rightarrow> toVestingSchedule dec r currentLedger)"

definition schedule_json :: "(instant \<Rightarrow> string) \<Rightarrow> vesting_schedule \<Rightarrow> js_value" where
  "schedule_json isoText s =
    Jobj [(''keyId'', Jstr (sc_keyId s)), (''wallet'', Jstr (sc_wallet s)),
      (''totalKeys'', Jstr (show_int (sc_totalKeys s))), (''startLedger'', Jint (sc_startLedger s)),
      (''endLedger'', Jint (sc_endLedger s)), (''claimedKeys'', Jstr (show_int (sc_claimedKeys s))),
      (''vestedAmount'', Jstr (show_int (sc_vestedAmount s))),
      (''claimableAmount'', Jstr (show_int (sc_claimableAmount s))),
      (''cliff'', Jint (sc_startLedger s)), (''cliffLedger'', Jint (sc_startLedger s)),
      (''duration'', Jint (sc_durationLedger s)), (''durationLedger'', Jint (sc_durationLedger s)),
      (''endDate'', Jdate isoText (sc_endDate s))]"

section \<open>Summary and history\<close>

definition getVestingCacheKey :: "string \<Rightarrow> string" where
  "getVestingCacheKey keyId = ''key:vesting:'' @ keyId"

definition getVestingHistoryCacheKey :: "string \<Rightarrow> string" where
  "getVestingHistoryCacheKey keyId = ''key:vesting:'' @ keyId @ '':history''"

fun all_schedules :: "decimal_lib \<Rightarrow> int \<Rightarrow> vest_row list \<Rightarrow> vest_error + vesting_schedule list" where
  "all_schedules dec currentLedger [] = Inr []"
| "all_schedules dec currentLedger (r # rs) =
    and_then (toVestingSchedule dec r currentLedger) (\<lambda>s.
    and_then (all_schedules dec currentLedger rs) (\<lambda>rest. Inr (s # rest)))"

definition latest_end :: "vesting_schedule list \<Rightarrow> instant option" where
  "latest_end ss = foldl
    (\<lambda>acc item. case (acc, sc_endDate item) of
       (Some a, Some d) \<Rightarrow> if a > d then Some a else Some d
     | (_, Some d) \<Rightarrow> Some d
     | (_, None) \<Rightarrow> acc) None ss"

definition summary_json :: "(instant \<Rightarrow> string) \<Rightarrow> string \<Rightarrow> int \<Rightarrow> vesting_schedule list \<Rightarrow> js_value" where
  "summary_json isoText keyId currentLedger ss =
    (let sum_of = (\<lambda>f. foldl (\<lambda>acc item. acc + f item) (0::int) ss);
         durationLedger = foldl (\<lambda>acc item. max acc (sc_durationLedger item)) 0 ss;
         cliffLedger = foldl (\<lambda>acc item. min acc (sc_startLedger item)) MAX_SAFE_INTEGER ss;
         cliff = (if cliffLedger = MAX_SAFE_INTEGER then 0 else cliffLedger)
     in Jobj [(''keyId'', Jstr keyId), (''currentLedger'', Jint currentLedger),
          (''totalKeys'', Jstr (show_int (sum_of sc_totalKeys))),
          (''totalClaimableAmount'', Jstr (show_int (sum_of sc_claimableAmount))),
          (''totalClaimedKeys'', Jstr (show_int (sum_of sc_claimedKeys))),
          (''cliff'', Jint cliff), (''cliffLedger'', Jint cliff),
          (''duration'', Jint durationLedger), (''durationLedger'', Jint durationLedger),
          (''endDate'', Jdate isoText (latest_end ss)),
          (''schedules'', Jarr (map (schedule_json isoText) ss))])"

definition summary_order :: "vest_row \<Rightarrow> int \<times> string" where
  "summary_order r = (vs_endLedger r, vs_wallet r)"

text \<open>A cached answer is used when it is truthy.\<close>

fun usable :: "js_value option \<Rightarrow> js_value option" where
  "usable None = None"
| "usable (Some v) = (if truthy v then Some v else None)"

definition getKeyVestingSummary ::
  "vest_env \<Rightarrow> string \<Rightarrow> int \<Rightarrow> vest_db \<Rightarrow> (vest_error + js_value) \<times> vest_db" where
  "getKeyVestingSummary e keyId currentLedger db =
    (let key = getVestingCacheKey keyId; (cached, db1) = env_get e key db
     in case usable cached of
          Some v \<Rightarrow> (Inr v, db1)
        | None \<Rightarrow>
            let rows = sort_key summary_order (filter (\<lambda>r. vs_keyId r = keyId) (schedules db1))
            in if rows = [] then (Inl (KeyVestingNotFoundError keyId), db1)
               else case all_schedules (ve_dec e) currentLedger rows of
                 Inl err \<Rightarrow> (Inl err, db1)
               | Inr ss \<Rightarrow>
                   let v = summary_json (ve_iso e) keyId currentLedger ss
                   in (Inr v, env_set e key v VESTING_CACHE_TTL_SECONDS db1))"

definition getKeyVestingHistory :: "string \<Rightarrow> int \<Rightarrow> vest_db \<Rightarrow> claim_row list" where
  "getKeyVestingHistory keyId limit db =
    take (nat (max 1 (min limit 100)))
      (sort_key (\<lambda>c. - ch_claimedAt c) (filter (\<lambda>c. ch_keyId c = keyId) (claimHistory db)))"

section \<open>Claims\<close>

definition invalidateKeyVestingCache :: "vest_env \<Rightarrow> string \<Rightarrow> string option \<Rightarrow> vest_db \<Rightarrow> vest_db" where
  "invalidateKeyVestingCache e keyId wallet db =
    db\<lparr>vest_cache := cacheInvalidate (ve_glob e) (ve_conn e)
      ([getVestingCacheKey keyId, getVestingHistoryCacheKey keyId] @
       (case wallet of None \<Rightarrow> [] | Some w \<Rightarrow> if w = [] then [] else [''vesting:wallet:'' @ w @ '':*'']))
      (vest_cache db)\<rparr>"

record claim_event =
  ev_eventType :: "string option"
  ev_keyId :: string
  ev_wallet :: string
  ev_claimedAmount :: string
  ev_txHash :: "string option"
  ev_ledger :: "int option"

definition processVestingClaimEvent :: "vest_env \<Rightarrow> string \<Rightarrow> claim_event \<Rightarrow> vest_db \<Rightarrow> vest_db" where
  "processVestingClaimEvent e rowId ev db =
    (if (case ev_eventType ev of None \<Rightarrow> False | Some t \<Rightarrow> t \<noteq> [] \<and> t \<noteq> ''VestingClaimed'') then db
     else case find_schedule (ev_keyId ev) (ev_wallet ev) db of
       None \<Rightarrow> db
     | Some r \<Rightarrow> invalidateKeyVestingCache e (ev_keyId ev) (Some (ev_wallet ev))
         (db\<lparr>claimHistory := insert_row \<lparr>ch_id = rowId, ch_vestingId = vs_id r, ch_keyId = vs_keyId r,
            ch_wallet = vs_wallet r, ch_claimedAmount = ev_claimedAmount ev, ch_txHash = ev_txHash ev,
            ch_ledger = ev_ledger ev, ch_claimedAt = ve_now e\<rparr> (claimHistory db)\<rparr>))"

text \<open>
  The claim handler. It reads the schedule and the ledger, and only later writes, so it is two
  definitions. Its last step adds the \<open>KEYS_CLAIMED\<close> activity.
\<close>

record claim_plan =
  cp_row :: vest_row
  cp_ledger :: int
  cp_vested :: int
  cp_claimed :: int
  cp_claimable :: int

definition current_ledger :: "vest_db \<Rightarrow> int" where
  "current_ledger db = (case sort_key (\<lambda>l. - snd l) (ledgers db) of [] \<Rightarrow> 0 | l # _ \<Rightarrow> fst l)"

definition claim_read :: "decimal_lib \<Rightarrow> string \<Rightarrow> string \<Rightarrow> vest_db \<Rightarrow> vest_error + claim_plan" where
  "claim_read dec keyId wallet db =
    (case find_schedule keyId wallet db of
      None \<Rightarrow> Inl (VestingNotFoundError keyId wallet)
    | Some r \<Rightarrow>
        if to_lower (vs_wallet r) \<noteq> to_lower wallet then Inl Not_beneficiary
        else
          let cur = current_ledger db
          in and_then (column_bigint dec (vs_totalKeys r)) (\<lambda>amount.
             and_then (column_bigint dec (vs_claimedKeys r)) (\<lambda>claimed.
               let vested =
                     (if cur \<ge> vs_endLedger r then amount
                      else if cur > vs_startLedger r then
                        bigint_div (amount * (cur - vs_startLedger r)) (vs_endLedger r - vs_startLedger r)
                      else 0);
                   claimable = (if vested > claimed then vested - claimed else 0)
               in if claimable \<le> 0 then Inl NothingToClaim
                  else Inr \<lparr>cp_row = r, cp_ledger = cur, cp_vested = vested, cp_claimed = claimed,
                            cp_claimable = claimable\<rparr>)))"

record claim_answer =
  ca_claimed :: int
  ca_claimableAmount :: int

definition claim_write ::
  "vest_env \<Rightarrow> string \<Rightarrow> string \<Rightarrow> string \<Rightarrow> string \<Rightarrow> claim_plan \<Rightarrow> vest_db \<Rightarrow> claim_answer \<times> vest_db" where
  "claim_write e rowId rand keyId wallet p db =
    (let newClaimed = cp_claimed p + cp_claimable p;
         updatedClaimable = (if cp_vested p > newClaimed then cp_vested p - newClaimed else 0);
         db1 = db\<lparr>schedules := modify_by (\<lambda>r. (vs_keyId r, vs_wallet r)) (keyId, wallet)
            (\<lambda>r. r\<lparr>vs_claimedKeys := dec_parse (ve_dec e) (show_int newClaimed)\<rparr>) (schedules db),
          claimHistory := insert_row \<lparr>ch_id = rowId, ch_vestingId = vs_id (cp_row p),
            ch_keyId = vs_keyId (cp_row p), ch_wallet = vs_wallet (cp_row p),
            ch_claimedAmount = show_int (cp_claimable p),
            ch_txHash = Some (''optimistic-'' @ show_int (ve_now e) @ ''-'' @ rand),
            ch_ledger = Some (cp_ledger p), ch_claimedAt = ve_now e\<rparr> (claimHistory db)\<rparr>
     in (\<lparr>ca_claimed = cp_claimable p, ca_claimableAmount = updatedClaimable\<rparr>,
         (invalidateKeyVestingCache e keyId (Some wallet) db1)\<lparr>activities := activities db @
           [\<lparr>act_actor = wallet, act_creatorId = keyId, act_claimed = show_int (cp_claimable p),
             act_claimableAfter = show_int updatedClaimable\<rparr>]\<rparr>))"

definition claimVested ::
  "vest_env \<Rightarrow> string \<Rightarrow> string \<Rightarrow> string \<Rightarrow> string \<Rightarrow> vest_db \<Rightarrow> vest_error + claim_answer \<times> vest_db" where
  "claimVested e rowId rand keyId wallet db =
    and_then (claim_read (ve_dec e) keyId wallet db) (\<lambda>p. Inr (claim_write e rowId rand keyId wallet p db))"

section \<open>Properties of the schedule\<close>

lemma vested_inside:
  "s < c \<Longrightarrow> c < e \<Longrightarrow> 0 \<le> amount \<Longrightarrow>
    calculateVestedAmount amount s e c = (amount * (c - s)) div (e - s)"
  by (simp add: calculateVestedAmount_def bigint_div_nonneg)

lemma vested_bounds:
  assumes "0 \<le> amount"
  shows "0 \<le> calculateVestedAmount amount s e c" and "calculateVestedAmount amount s e c \<le> amount"
proof -
  have "0 \<le> calculateVestedAmount amount s e c \<and> calculateVestedAmount amount s e c \<le> amount"
  proof (cases "s < c \<and> c < e")
    case True
    then have "amount * (c - s) \<le> amount * (e - s)" using assms by (intro mult_left_mono) auto
    then have "(amount * (c - s)) div (e - s) \<le> amount"
      using zdiv_mono1 [of "amount * (c - s)" "amount * (e - s)" "e - s"] True by simp
    moreover have "0 \<le> (amount * (c - s)) div (e - s)"
      using True assms by (simp add: pos_imp_zdiv_nonneg_iff)
    ultimately show ?thesis using True assms by (simp add: vested_inside)
  next
    case False
    then show ?thesis using assms by (auto simp: calculateVestedAmount_def)
  qed
  then show "0 \<le> calculateVestedAmount amount s e c" and "calculateVestedAmount amount s e c \<le> amount"
    by blast+
qed

text \<open>The vested amount of a schedule stays between nothing and the total, never falls as the ledger
  advances, is nothing up to the start of a schedule that has not ended, and is everything from the
  end ledger on.\<close>

theorem vested_amount_linear:
  assumes "0 \<le> amount"
  shows "0 \<le> calculateVestedAmount amount s e c \<and> calculateVestedAmount amount s e c \<le> amount \<and>
    (c \<le> c' \<longrightarrow> calculateVestedAmount amount s e c \<le> calculateVestedAmount amount s e c') \<and>
    (c \<le> s \<longrightarrow> c < e \<longrightarrow> calculateVestedAmount amount s e c = 0) \<and>
    (e \<le> c \<longrightarrow> calculateVestedAmount amount s e c = amount)"
proof -
  have "calculateVestedAmount amount s e c \<le> calculateVestedAmount amount s e c'" if le: "c \<le> c'"
  proof (cases "s < c \<and> c < e \<and> c' < e")
    case True
    then have "amount * (c - s) \<le> amount * (c' - s)" using assms le by (intro mult_left_mono) auto
    then have "(amount * (c - s)) div (e - s) \<le> (amount * (c' - s)) div (e - s)"
      using True by (intro zdiv_mono1) auto
    then show ?thesis using True assms le by (simp add: vested_inside)
  next
    case False
    then have "calculateVestedAmount amount s e c = 0 \<or> calculateVestedAmount amount s e c' = amount"
      using le by (auto simp: calculateVestedAmount_def)
    then show ?thesis using vested_bounds [OF assms] by metis
  qed
  then show ?thesis using vested_bounds [OF assms] by (auto simp: calculateVestedAmount_def)
qed

text \<open>The next unlock shown to a wallet is exact: past the cliff, with n of the total vested so far, it
  is the first second at which the contract's linear formula yields more than n, but not before the
  cliff.\<close>

theorem next_unlock_is_earliest:
  assumes "cliffTimestamp i \<le> nowSeconds" "0 < durationSeconds i" "0 \<le> n" "n < totalAllocation i"
    and n: "n = claimableAmount i + claimedAmount i"
  shows "\<exists>off. calculateNextUnlock i nowSeconds = Some (max (startTimestamp i + off) (cliffTimestamp i) * 1000) \<and>
    (\<forall>k. off \<le> k \<longleftrightarrow> n < (totalAllocation i * k) div durationSeconds i)"
proof -
  let ?x = "(n + 1) * durationSeconds i"
  define off where "off = (?x + totalAllocation i - 1) div totalAllocation i"
  have pos: "0 < totalAllocation i" using assms by linarith
  have "0 \<le> ?x" using assms by simp
  then have "bigint_div (?x + totalAllocation i - 1) (totalAllocation i) = off"
    using pos by (simp add: off_def bigint_div_nonneg)
  then have "calculateNextUnlock i nowSeconds = Some (max (startTimestamp i + off) (cliffTimestamp i) * 1000)"
    using assms(1,2,4) pos by (simp add: calculateNextUnlock_def n [symmetric] Let_def max_def)
  moreover have "off \<le> k \<longleftrightarrow> n < (totalAllocation i * k) div durationSeconds i" for k
  proof -
    have "off \<le> k \<longleftrightarrow> ?x \<le> totalAllocation i * k"
      unfolding off_def by (rule ceil_quotient_le_iff [OF pos])
    also have "\<dots> \<longleftrightarrow> n + 1 \<le> (totalAllocation i * k) div durationSeconds i"
      by (simp add: le_div_iff [OF assms(2)] mult.commute)
    finally show ?thesis by linarith
  qed
  ultimately show ?thesis by blast
qed

section \<open>Properties of claims\<close>

lemma column_whole:
  "decimal_plain dec \<Longrightarrow> 0 \<le> n \<Longrightarrow> n < 10 ^ 21 \<Longrightarrow> column_bigint dec (of_int n) = Inr n"
  by (simp add: column_bigint_def decimal_plain_def)

lemma claim_read_value:
  assumes dec: "decimal_plain dec" and r: "find_schedule keyId wallet db = Some r"
    and T: "vs_totalKeys r = of_int T" "0 \<le> T" "T < 10 ^ 21"
    and C: "vs_claimedKeys r = of_int C" "0 \<le> C" "C < 10 ^ 21"
    and V: "V = calculateVestedAmount T (vs_startLedger r) (vs_endLedger r) (current_ledger db)"
  shows "claim_read dec keyId wallet db =
    (if C < V then Inr \<lparr>cp_row = r, cp_ledger = current_ledger db, cp_vested = V, cp_claimed = C,
       cp_claimable = V - C\<rparr> else Inl NothingToClaim)"
proof -
  have "vs_wallet r = wallet" using r find_by_SomeD by (force simp: find_schedule_def)
  moreover have "(if current_ledger db \<ge> vs_endLedger r then T
      else if current_ledger db > vs_startLedger r then
        bigint_div (T * (current_ledger db - vs_startLedger r)) (vs_endLedger r - vs_startLedger r)
      else 0) = V"
    by (simp add: V calculateVestedAmount_def Let_def)
  ultimately show ?thesis
    using column_whole [OF dec T(2,3)] column_whole [OF dec C(2,3)] r
    by (simp add: claim_read_def T(1) C(1) Let_def)
qed

lemma invalidate_rows [simp]:
  "find_schedule keyId wallet (invalidateKeyVestingCache e k w db) = find_schedule keyId wallet db"
  "claimHistory (invalidateKeyVestingCache e k w db) = claimHistory db"
  "current_ledger (invalidateKeyVestingCache e k w db) = current_ledger db"
  by (simp_all add: invalidateKeyVestingCache_def find_schedule_def current_ledger_def)

lemma activity_rows [simp]:
  "find_schedule keyId wallet (db\<lparr>activities := as\<rparr>) = find_schedule keyId wallet db"
  "current_ledger (db\<lparr>activities := as\<rparr>) = current_ledger db"
  by (simp_all add: find_schedule_def current_ledger_def)

lemma claim_write_effect:
  assumes dec: "decimal_plain (ve_dec e)" and r: "find_schedule keyId wallet db = Some r"
    and V: "cp_claimed p + cp_claimable p = V" "0 \<le> V" "V < 10 ^ 21"
  shows "find_schedule keyId wallet (snd (claim_write e rowId rand keyId wallet p db)) =
      Some (r\<lparr>vs_claimedKeys := of_int V\<rparr>)"
    and "current_ledger (snd (claim_write e rowId rand keyId wallet p db)) = current_ledger db"
proof -
  have "dec_parse (ve_dec e) (show_int V) = of_int V" using dec V by (simp add: decimal_plain_def)
  then show "find_schedule keyId wallet (snd (claim_write e rowId rand keyId wallet p db)) =
      Some (r\<lparr>vs_claimedKeys := of_int V\<rparr>)"
    using r V(1) by (simp add: claim_write_def Let_def) (simp add: find_schedule_def find_by_modify_by)
  show "current_ledger (snd (claim_write e rowId rand keyId wallet p db)) = current_ledger db"
    by (simp add: claim_write_def Let_def) (simp add: current_ledger_def)
qed

text \<open>C13: A claim settles exactly what has vested: with whole amounts, it is refused when nothing beyond the
  claimed amount has vested, and otherwise pays the difference, records the vested amount as claimed
  (never more than the total), and leaves nothing to claim for a second claim at the same ledger.\<close>

theorem claim_pays_vested_once:
  assumes dec: "decimal_plain (ve_dec e)" and r: "find_schedule keyId wallet db = Some r"
    and T: "vs_totalKeys r = of_int T" "0 \<le> T" "T < 10 ^ 21"
    and C: "vs_claimedKeys r = of_int C" "0 \<le> C" "C < 10 ^ 21"
    and V: "V = calculateVestedAmount T (vs_startLedger r) (vs_endLedger r) (current_ledger db)"
  shows "if C < V then \<exists>db'. claimVested e rowId rand keyId wallet db =
        Inr (\<lparr>ca_claimed = V - C, ca_claimableAmount = 0\<rparr>, db') \<and> V \<le> T \<and>
        find_schedule keyId wallet db' = Some (r\<lparr>vs_claimedKeys := of_int V\<rparr>) \<and>
        claimVested e rowId' rand' keyId wallet db' = Inl NothingToClaim
    else claimVested e rowId rand keyId wallet db = Inl NothingToClaim"
proof (cases "C < V")
  case True
  let ?p = "\<lparr>cp_row = r, cp_ledger = current_ledger db, cp_vested = V, cp_claimed = C, cp_claimable = V - C\<rparr>"
  have VT: "0 \<le> V" "V \<le> T" using vested_bounds [OF T(2)] by (simp_all add: V)
  have V21: "V < 10 ^ 21" using VT T(3) by linarith
  have read: "claim_read (ve_dec e) keyId wallet db = Inr ?p"
    using claim_read_value [OF dec r T C V] True by simp
  obtain db' where w: "claim_write e rowId rand keyId wallet ?p db = (\<lparr>ca_claimed = V - C, ca_claimableAmount = 0\<rparr>, db')"
    by (simp add: claim_write_def Let_def)
  have sum: "cp_claimed ?p + cp_claimable ?p = V" by simp
  note eff = claim_write_effect [OF dec r sum VT(1) V21, of rowId rand, unfolded w snd_conv]
  have "claim_read (ve_dec e) keyId wallet db' = Inl NothingToClaim"
    using claim_read_value [OF dec eff(1), of T V V] T VT V21 by (simp add: V eff(2))
  then show ?thesis using True VT eff(1) w by (simp add: claimVested_def read)
next
  case False
  then show ?thesis using claim_read_value [OF dec r T C V] by (simp add: claimVested_def)
qed

section \<open>Overlapping claims and claim events\<close>

text \<open>
  The claim handler neither uses a transaction nor conditions its update on the value it read: two
  requests that read before either writes both pay the same vested amount, while the schedule records
  it once.
\<close>

lemma overlapping_claims_pay_twice:
  assumes "claim_read (ve_dec e) keyId wallet db = Inr p"
  shows "ca_claimed (fst (claim_write e i1 r1 keyId wallet p db)) = cp_claimable p \<and>
    ca_claimed (fst (claim_write e i2 r2 keyId wallet p (snd (claim_write e i1 r1 keyId wallet p db)))) = cp_claimable p \<and>
    map ch_claimedAmount (claimHistory (snd (claim_write e i2 r2 keyId wallet p (snd (claim_write e i1 r1 keyId wallet p db))))) =
      map ch_claimedAmount (claimHistory db) @ [show_int (cp_claimable p), show_int (cp_claimable p)]"
  by (simp add: claim_write_def Let_def insert_row_def)

text \<open>An indexed claim event adds a history row and changes no schedule.\<close>

lemma claim_event_keeps_schedule:
  "getVestingSchedule dec k w c (processVestingClaimEvent e rowId ev db) = getVestingSchedule dec k w c db"
proof -
  have "find_schedule k w (db\<lparr>claimHistory := h\<rparr>) = find_schedule k w db" for h
    by (simp add: find_schedule_def)
  then show ?thesis
    by (auto simp: getVestingSchedule_def processVestingClaimEvent_def split: option.splits)
qed

lemma optimistic_claim_has_hash:
  "ch_txHash (last (claimHistory (snd (claim_write e rowId rand keyId wallet p db)))) \<noteq> None"
  by (simp add: claim_write_def Let_def insert_row_def)

section \<open>Witnesses\<close>

theorem vested_amount_linear_witness:
  "calculateVestedAmount 100 10 20 15 = 50 \<and>
    calculateVestedAmount 100 10 20 15 \<le> calculateVestedAmount 100 10 20 17"
  using vested_amount_linear [of 100 10 20 15 17] by (simp add: calculateVestedAmount_def bigint_div_def)

definition example_info :: onchain_info where
  "example_info = \<lparr>totalAllocation = 3, claimedAmount = 1, claimableAmount = 0, cliffTimestamp = 5,
    startTimestamp = 0, durationSeconds = 10\<rparr>"

theorem next_unlock_is_earliest_witness:
  "\<exists>off. calculateNextUnlock example_info 5 = Some (max off 5 * 1000) \<and>
    (\<forall>k. off \<le> k \<longleftrightarrow> 1 < (3 * k) div 10)"
  using next_unlock_is_earliest [of example_info 5 1] by (simp add: example_info_def)

definition example_vest_env :: vest_env where
  "example_vest_env = \<lparr>ve_dec = floor_decimals,
    ve_json = \<lparr>stringify = (\<lambda>_. []), parse = (\<lambda>_. None)\<rparr>, ve_breaker = sample_config,
    ve_glob = (\<lambda>_ _. False), ve_conn = Disabled, ve_now = 1000, ve_iso = show_int\<rparr>"

definition example_row :: vest_row where
  "example_row = \<lparr>vs_id = ''v'', vs_keyId = ''k'', vs_wallet = ''W'', vs_totalKeys = 100,
    vs_startLedger = 10, vs_endLedger = 20, vs_claimedKeys = 20\<rparr>"

definition example_vest_db :: vest_db where
  "example_vest_db = \<lparr>schedules = [example_row], claimHistory = [], regKeys = [], ledgers = [(15, 1)], activities = [],
    vest_cache = \<lparr>cells = Map.empty, redisCircuitBreaker = new_breaker\<rparr>\<rparr>"

theorem claim_pays_vested_once_witness:
  "\<exists>db'. claimVested example_vest_env ''c1'' ''x'' ''k'' ''W'' example_vest_db =
      Inr (\<lparr>ca_claimed = 30, ca_claimableAmount = 0\<rparr>, db') \<and>
    claimVested example_vest_env ''c2'' ''y'' ''k'' ''W'' db' = Inl NothingToClaim"
proof -
  have r: "find_schedule ''k'' ''W'' example_vest_db = Some example_row"
    by (simp add: find_schedule_def example_vest_db_def example_row_def)
  have V: "(50 :: int) = calculateVestedAmount 100 (vs_startLedger example_row) (vs_endLedger example_row)
      (current_ledger example_vest_db)"
    by (simp add: example_row_def current_ledger_def example_vest_db_def calculateVestedAmount_def bigint_div_def)
  have dec: "decimal_plain (ve_dec example_vest_env)"
    by (simp add: example_vest_env_def floor_decimals_plain)
  show ?thesis
    using claim_pays_vested_once [OF dec r _ _ _ _ _ _ V, of 20 "''c1''" "''x''" "''c2''" "''y''"]
    by (auto simp: example_row_def)
qed

end
