(* ===== verification/Merkle.thy ===== *)
theory Merkle
  imports Redis_Cache "HOL-Library.List_Lexorder" "HOL-Library.Log_Nat" "HOL-Library.Multiset"
begin

text \<open>
  \<open>src/utils/merkle.ts\<close>: canonical JSON, length-prefixed fields, leaf and pair hashes, the reference
  tree, and the check of an inclusion proof.

  SHA-256 of Node's \<open>crypto\<close> is an argument \<open>sha\<close> from bytes to the digest in hexadecimal; bytes are
  characters, and a text is its UTF-8 bytes. Nothing is used of the hash beyond \<open>hex_digest\<close>: digests
  are 64 lower-case hexadecimal digits. Printing of JSON primitives is the argument \<open>json\<close>.
\<close>

section \<open>Hexadecimal digests\<close>

definition hex_value :: "char \<Rightarrow> nat option" where
  "hex_value c =
    (let n = of_char c :: nat in
     if 48 \<le> n \<and> n \<le> 57 then Some (n - 48)
     else if 97 \<le> n \<and> n \<le> 102 then Some (n - 87)
     else if 65 \<le> n \<and> n \<le> 70 then Some (n - 55)
     else None)"

text \<open>\<open>Buffer.from(text, 'hex')\<close>: pairs of digits up to the first pair that is not one.\<close>

fun from_hex :: "string \<Rightarrow> string" where
  "from_hex (a # b # cs) =
    (case (hex_value a, hex_value b) of
      (Some x, Some y) \<Rightarrow> char_of (16 * x + y) # from_hex cs
    | _ \<Rightarrow> [])"
| "from_hex _ = []"

definition lower_hex :: "char \<Rightarrow> bool" where
  "lower_hex c = (hex_value c \<noteq> None \<and> lower_char c = c)"

definition hex_digest :: "(string \<Rightarrow> string) \<Rightarrow> bool" where
  "hex_digest sha \<longleftrightarrow> (\<forall>x. length (sha x) = 64 \<and> list_all lower_hex (sha x))"

lemma to_lower_digest [simp]: "hex_digest sha \<Longrightarrow> to_lower (sha x) = sha x"
  by (auto simp: hex_digest_def lower_hex_def to_lower_def list_all_iff intro: map_idI)

definition hashPair :: "(string \<Rightarrow> string) \<Rightarrow> string \<Rightarrow> string \<Rightarrow> string" where
  "hashPair sha leftChildHex rightChildHex = sha (from_hex leftChildHex @ from_hex rightChildHex)"

lemma to_lower_hashPair [simp]: "hex_digest sha \<Longrightarrow> to_lower (hashPair sha a b) = hashPair sha a b"
  by (simp add: hashPair_def)

section \<open>Leaves\<close>

record event_leaf_input =
  l_ledger :: int
  l_txHash :: string
  l_eventIndex :: int
  l_topic :: string
  l_dataJson :: js_value

definition join_comma :: "string list \<Rightarrow> string" where
  "join_comma parts = (case parts of [] \<Rightarrow> [] | p # ps \<Rightarrow> p @ concat (map (\<lambda>q. CHR '','' # q) ps))"

text \<open>
  \<open>canonicalizeJson\<close>; the \<open>undefined\<close> that \<open>JSON.stringify(undefined)\<close> returns is \<open>None\<close>. An element
  that is \<open>undefined\<close> joins as the empty text, a property as the text \<open>undefined\<close>.
\<close>

function canonicalizeJson :: "json_lib \<Rightarrow> js_value \<Rightarrow> string option" where
  "canonicalizeJson json (Jarr items) =
    Some (''['' @ join_comma (map (\<lambda>item. case canonicalizeJson json item of None \<Rightarrow> [] | Some t \<Rightarrow> t) items) @ '']'')"
| "canonicalizeJson json (Jobj obj) =
    Some (''{'' @ join_comma (map snd (sort_key fst (map (\<lambda>kv. (fst kv,
        stringify json (Jstr (fst kv)) @ '':'' @
        (case canonicalizeJson json (snd kv) of None \<Rightarrow> ''undefined'' | Some t \<Rightarrow> t))) obj))) @ ''}'')"
| "canonicalizeJson json Jundefined = None"
| "canonicalizeJson json Jnull = Some (stringify json Jnull)"
| "canonicalizeJson json (Jbool b) = Some (stringify json (Jbool b))"
| "canonicalizeJson json (Jnum n) = Some (stringify json (Jnum n))"
| "canonicalizeJson json (Jstr s) = Some (stringify json (Jstr s))"
  by pat_completeness auto

lemma size_snd_field: "kv \<in> set obj \<Longrightarrow> size (snd kv) < size_list (\<lambda>x. Suc (size (snd x))) obj"
  by (induction obj) auto

termination canonicalizeJson
  by (relation "measure (\<lambda>(json, v). size v)")
    (auto simp: less_Suc_eq_le size_list_estimation' intro: size_snd_field less_imp_le trans_le_add2)

text \<open>A 32-bit big-endian length and the payload.\<close>

definition encode_u32be :: "nat \<Rightarrow> string" where
  "encode_u32be n = [char_of (n div 2 ^ 24), char_of (n div 2 ^ 16), char_of (n div 2 ^ 8), char_of n]"

definition encodeLengthPrefixed :: "string \<Rightarrow> string" where
  "encodeLengthPrefixed payload = encode_u32be (length payload) @ payload"

definition canonical_data :: "json_lib \<Rightarrow> js_value \<Rightarrow> string" where
  "canonical_data json v =
    (let canon = (\<lambda>w. case canonicalizeJson json w of None \<Rightarrow> ''undefined'' | Some t \<Rightarrow> t)
     in case v of
       Jstr s \<Rightarrow> (case parse json s of Some parsed \<Rightarrow> canon parsed | None \<Rightarrow> s)
     | _ \<Rightarrow> canon v)"

definition leaf_bytes :: "json_lib \<Rightarrow> event_leaf_input \<Rightarrow> string" where
  "leaf_bytes json event =
    encodeLengthPrefixed (show_int (l_ledger event)) @
    encodeLengthPrefixed (l_txHash event) @
    encodeLengthPrefixed (show_int (l_eventIndex event)) @
    encodeLengthPrefixed (l_topic event) @
    encodeLengthPrefixed (canonical_data json (l_dataJson event))"

definition computeEventLeafHash :: "(string \<Rightarrow> string) \<Rightarrow> json_lib \<Rightarrow> event_leaf_input \<Rightarrow> string" where
  "computeEventLeafHash sha json event = sha (leaf_bytes json event)"

section \<open>The reference tree\<close>

fun pair_level :: "(string \<Rightarrow> string) \<Rightarrow> string list \<Rightarrow> string list" where
  "pair_level sha (x # y # zs) = hashPair sha x y # pair_level sha zs"
| "pair_level sha [x] = [x]"
| "pair_level sha [] = []"

lemma length_pair_level [simp]: "length (pair_level sha xs) = (length xs + 1) div 2"
  by (induction sha xs rule: pair_level.induct) auto

function build_levels :: "(string \<Rightarrow> string) \<Rightarrow> string list \<Rightarrow> string list list" where
  "build_levels sha currentLevel =
    (if 1 < length currentLevel then currentLevel # build_levels sha (pair_level sha currentLevel)
     else [currentLevel])"
  by pat_completeness auto
termination by (relation "measure (\<lambda>(sha, xs). length xs)") auto

declare build_levels.simps [simp del]

text \<open>The root and the levels, leaves first.\<close>

definition buildFullReferenceMerkleTree ::
  "(string \<Rightarrow> string) \<Rightarrow> string list \<Rightarrow> string \<times> string list list" where
  "buildFullReferenceMerkleTree sha leafHashes =
    (if leafHashes = [] then ([], [[]])
     else let levels = build_levels sha leafHashes in (hd (last levels), levels))"

section \<open>Inclusion proofs\<close>

datatype proof_side = Left | Right

record proof_sibling =
  sib_hash :: string
  side :: proof_side

definition fold_sibling :: "(string \<Rightarrow> string) \<Rightarrow> proof_sibling \<Rightarrow> string \<Rightarrow> string" where
  "fold_sibling sha sibling current =
    (let siblingHash = to_lower (sib_hash sibling)
     in case side sibling of
          Left \<Rightarrow> hashPair sha siblingHash current
        | Right \<Rightarrow> hashPair sha current siblingHash)"

definition verifyInclusionProof :: "(string \<Rightarrow> string) \<Rightarrow> string \<Rightarrow> proof_sibling list \<Rightarrow> string \<Rightarrow> bool" where
  "verifyInclusionProof sha leafHash siblings expectedRoot =
    (to_lower (fold (fold_sibling sha) siblings (to_lower leafHash)) = to_lower expectedRoot)"

section \<open>Reading leaf bytes back\<close>

definition read_u32be :: "string \<Rightarrow> nat" where
  "read_u32be s = foldl (\<lambda>n c. 256 * n + of_char c) 0 s"

definition read_field :: "string \<Rightarrow> (string \<times> string) option" where
  "read_field s =
    (let n = read_u32be (take 4 s); rest = drop 4 s
     in if 4 \<le> length s \<and> n \<le> length rest then Some (take n rest, drop n rest) else None)"

text \<open>The five fields of a leaf: ledger, transaction hash, event index, topic and canonical data.\<close>

definition decode_leaf :: "string \<Rightarrow> (int \<times> string \<times> int \<times> string \<times> string) option" where
  "decode_leaf s0 =
    (case read_field s0 of None \<Rightarrow> None | Some (a, s1) \<Rightarrow>
    (case read_field s1 of None \<Rightarrow> None | Some (b, s2) \<Rightarrow>
    (case read_field s2 of None \<Rightarrow> None | Some (c, s3) \<Rightarrow>
    (case read_field s3 of None \<Rightarrow> None | Some (d, s4) \<Rightarrow>
    (case read_field s4 of None \<Rightarrow> None | Some (e, s5) \<Rightarrow>
      (case (read_int a, read_int c) of
        (Some i, Some j) \<Rightarrow> if s5 = [] then Some (i, b, j, d, e) else None
      | _ \<Rightarrow> None))))))"

lemma length_encode_u32be [simp]: "length (encode_u32be n) = 4"
  by (simp add: encode_u32be_def)

lemma read_encode_u32be [simp]: "n < 2 ^ 32 \<Longrightarrow> read_u32be (encode_u32be n) = n"
proof -
  assume n: "n < 2 ^ 32"
  define d1 where "d1 = n div 2 ^ 8"
  define d2 where "d2 = n div 2 ^ 16"
  define d3 where "d3 = n div 2 ^ 24"
  have d: "d1 div 256 = d2" "d2 div 256 = d3" "d3 mod 256 = d3"
    using n by (simp_all add: d1_def d2_def d3_def flip: div_mult2_eq)
  have "read_u32be (encode_u32be n) = 256 * (256 * (256 * (d3 mod 256) + d2 mod 256) + d1 mod 256) + n mod 256"
    by (simp add: read_u32be_def encode_u32be_def of_char_of d1_def d2_def d3_def)
  also have "\<dots> = 256 * (256 * (256 * (d2 div 256) + d2 mod 256) + d1 mod 256) + n mod 256"
    by (simp add: d)
  also have "256 * (d2 div 256) + d2 mod 256 = d1 div 256"
    using mult_div_mod_eq [of 256 d2] by (simp only: d(1))
  also have "256 * (d1 div 256) + d1 mod 256 = n div 256" by (simp add: d1_def)
  also have "256 * (n div 256) + n mod 256 = n" by simp
  finally show ?thesis .
qed

lemma read_field_encode [simp]:
  "length payload < 2 ^ 32 \<Longrightarrow> read_field (encodeLengthPrefixed payload @ rest) = Some (payload, rest)"
  by (simp add: read_field_def encodeLengthPrefixed_def)

lemma read_field_encode_end [simp]:
  "length payload < 2 ^ 32 \<Longrightarrow> read_field (encodeLengthPrefixed payload) = Some (payload, [])"
  using read_field_encode [of payload "[]"] by simp

section \<open>Levels of the tree\<close>

definition lev :: "(string \<Rightarrow> string) \<Rightarrow> nat \<Rightarrow> string list \<Rightarrow> string list" where
  "lev sha l xs = (pair_level sha ^^ l) xs"

lemma lev_0 [simp]: "lev sha 0 xs = xs"
  by (simp add: lev_def)

lemma lev_Suc: "lev sha (Suc l) xs = pair_level sha (lev sha l xs)"
  by (simp add: lev_def)

lemma lev_pair_level: "lev sha l (pair_level sha xs) = lev sha (Suc l) xs"
  by (simp add: lev_def funpow_swap1)

lemma nth_pair_level:
  "p < (length xs + 1) div 2 \<Longrightarrow>
    pair_level sha xs ! p = (if 2 * p + 1 < length xs then hashPair sha (xs ! (2 * p)) (xs ! (2 * p + 1)) else xs ! (2 * p))"
proof (induction sha xs arbitrary: p rule: pair_level.induct)
  case (1 sha x y zs)
  then show ?case by (cases p) auto
qed auto

lemma length_lev: "xs \<noteq> [] \<Longrightarrow> length (lev sha l xs) = (length xs - 1) div 2 ^ l + 1"
proof (induction l)
  case (Suc l)
  then have "length (lev sha (Suc l) xs) = ((length xs - 1) div 2 ^ l + 2) div 2"
    by (simp add: lev_Suc)
  also have "\<dots> = (length xs - 1) div 2 ^ l div 2 + 1" by simp
  finally show ?case by (simp add: div_mult2_eq [symmetric] mult.commute)
qed (simp add: Suc_leI)

lemma nth_lev_Suc:
  "p < length (lev sha (Suc l) xs) \<Longrightarrow>
    lev sha (Suc l) xs ! p =
      (if 2 * p + 1 < length (lev sha l xs)
       then hashPair sha (lev sha l xs ! (2 * p)) (lev sha l xs ! (2 * p + 1)) else lev sha l xs ! (2 * p))"
  by (simp add: lev_Suc nth_pair_level)

lemma old_position_in_level: "p < length xs div 2 ^ l \<Longrightarrow> p < length (lev sha l xs)"
proof -
  assume p: "p < length xs div 2 ^ l"
  then have ne: "xs \<noteq> []" by auto
  then obtain m where "length xs = Suc m" by (cases xs) auto
  with p show ?thesis by (simp add: length_lev ne div_Suc split: if_splits)
qed

text \<open>A new leaf changes only the nodes above it.\<close>

lemma lev_snoc_old: "p < length xs div 2 ^ l \<Longrightarrow> lev sha l (xs @ [y]) ! p = lev sha l xs ! p"
proof (induction l arbitrary: p)
  case (Suc l)
  then have p: "2 * p + 1 < length xs div 2 ^ l"
    by (simp add: power_Suc2 div_mult2_eq del: power_Suc)
  then have q: "2 * p + 1 < length (lev sha l xs)" by (rule old_position_in_level)
  moreover have "2 * p + 1 < length (lev sha l (xs @ [y]))" using p by (simp add: length_lev)
  ultimately have q: "2 * p + 1 < length (lev sha l xs)" "2 * p + 1 < length (lev sha l (xs @ [y]))" by simp_all
  have "p < length (lev sha (Suc l) xs)" "p < length (lev sha (Suc l) (xs @ [y]))"
    using q by (simp_all add: lev_Suc)
  with q p Suc.IH [of "2 * p"] Suc.IH [of "2 * p + 1"] show ?case
    by (simp add: nth_lev_Suc)
qed (simp add: nth_append)

lemma lev_snoc_path:
  assumes "q = length xs div 2 ^ l"
  shows "lev sha (Suc l) (xs @ [y]) ! (q div 2) =
    (if odd q then hashPair sha (lev sha l (xs @ [y]) ! (q - 1)) (lev sha l (xs @ [y]) ! q)
     else lev sha l (xs @ [y]) ! q)"
proof -
  have len: "length (lev sha l (xs @ [y])) = q + 1" using assms by (simp add: length_lev)
  then have "q div 2 < length (lev sha (Suc l) (xs @ [y]))" by (simp add: lev_Suc)
  from nth_lev_Suc [OF this] len show ?thesis
    by (auto elim!: oddE evenE simp del: One_nat_def)
qed

lemma last_level:
  assumes "xs \<noteq> []"
  shows "hd (last (build_levels sha xs)) = lev sha (ceillog2 (length xs)) xs ! 0"
proof -
  have "hd (last (build_levels sha xs)) = lev sha l xs ! 0" if "xs \<noteq> []" "length xs \<le> 2 ^ l" for l
    using that
  proof (induction l arbitrary: xs)
    case 0
    then show ?case by (cases xs) (auto simp: build_levels.simps)
  next
    case (Suc l)
    show ?case
    proof (cases "1 < length xs")
      case True
      then have "pair_level sha xs \<noteq> []" "length (pair_level sha xs) \<le> 2 ^ l"
        using Suc.prems by (auto simp flip: length_0_conv)
      moreover have "build_levels sha (pair_level sha xs) \<noteq> []"
        by (subst build_levels.simps) simp
      ultimately show ?thesis
        using True Suc.IH [of "pair_level sha xs"]
        by (subst build_levels.simps) (simp add: lev_pair_level)
    next
      case False
      with Suc.prems obtain x where "xs = [x]"
        by (metis One_nat_def length_0_conv length_Suc_conv less_one linorder_neqE_nat)
      moreover have "lev sha k [x] = [x]" for k by (induction k) (simp_all add: lev_Suc)
      ultimately show ?thesis by (subst build_levels.simps) simp
    qed
  qed
  then show ?thesis using assms ceillog2_le_iff [of "length xs" "ceillog2 (length xs)"] by simp
qed

lemma root_is_top:
  "xs \<noteq> [] \<Longrightarrow> fst (buildFullReferenceMerkleTree sha xs) = lev sha (ceillog2 (length xs)) xs ! 0"
  by (simp add: buildFullReferenceMerkleTree_def last_level Let_def)

section \<open>Canonical data\<close>

text \<open>Values that differ only in the order of object keys, at any depth.\<close>

inductive same_json :: "js_value \<Rightarrow> js_value \<Rightarrow> bool" where
  same_refl: "same_json v v"
| same_items: "list_all2 same_json vs ws \<Longrightarrow> same_json (Jarr vs) (Jarr ws)"
| same_fields: "list_all2 (\<lambda>a b. fst a = fst b \<and> same_json (snd a) (snd b)) fs gs \<Longrightarrow> same_json (Jobj fs) (Jobj gs)"
| same_order: "mset fs = mset gs \<Longrightarrow> distinct (map fst fs) \<Longrightarrow> same_json (Jobj fs) (Jobj gs)"
| same_trans: "same_json u v \<Longrightarrow> same_json v w \<Longrightarrow> same_json u w"

lemma canonicalizeJson_same: "same_json v w \<Longrightarrow> canonicalizeJson json v = canonicalizeJson json w"
proof (induction rule: same_json.induct)
  case (same_items vs ws)
  then have "map (canonicalizeJson json) vs = map (canonicalizeJson json) ws"
    by (induction rule: list_all2_induct) auto
  then have "map (\<lambda>item. g (canonicalizeJson json item)) vs = map (\<lambda>item. g (canonicalizeJson json item)) ws"
    for g :: "string option \<Rightarrow> string"
    by (metis (no_types, lifting) comp_apply list.map_comp map_cong)
  then show ?case by simp
next
  case (same_fields fs gs)
  then have "map (\<lambda>kv. (fst kv, canonicalizeJson json (snd kv))) fs = map (\<lambda>kv. (fst kv, canonicalizeJson json (snd kv))) gs"
    by (induction rule: list_all2_induct) auto
  then have "map ((\<lambda>(k, c). (k, stringify json (Jstr k) @ '':'' @ (case c of None \<Rightarrow> ''undefined'' | Some t \<Rightarrow> t))) \<circ>
        (\<lambda>kv. (fst kv, canonicalizeJson json (snd kv)))) fs =
      map ((\<lambda>(k, c). (k, stringify json (Jstr k) @ '':'' @ (case c of None \<Rightarrow> ''undefined'' | Some t \<Rightarrow> t))) \<circ>
        (\<lambda>kv. (fst kv, canonicalizeJson json (snd kv)))) gs"
    by (simp only: list.map_comp [symmetric])
  then show ?case by (simp add: comp_def)
next
  case (same_order fs gs)
  define f where "f = (\<lambda>kv. (fst kv, stringify json (Jstr (fst kv)) @ '':'' @
        (case canonicalizeJson json (snd kv) of None \<Rightarrow> ''undefined'' | Some t \<Rightarrow> t)))"
  have "mset (map f fs) = mset (map f gs)" using same_order(1) by simp
  moreover have "distinct (map fst (map f fs))" using same_order(2) by (simp add: f_def comp_def)
  then have "inj_on fst (set (map f fs))" by (simp only: distinct_map)
  ultimately have "sort_key fst (map f fs) = sort_key fst (map f gs)"
    by (intro sort_key_inj_key_eq) simp_all
  then show ?case by (simp add: f_def)
qed auto

lemma length_field_le:
  "length (show_int (l_ledger event)) \<le> length (leaf_bytes json event)"
  "length (l_txHash event) \<le> length (leaf_bytes json event)"
  "length (show_int (l_eventIndex event)) \<le> length (leaf_bytes json event)"
  "length (l_topic event) \<le> length (leaf_bytes json event)"
  "length (canonical_data json (l_dataJson event)) \<le> length (leaf_bytes json event)"
  by (simp_all add: leaf_bytes_def encodeLengthPrefixed_def)

text \<open>C19: The bytes hashed for an event determine it: reading them back gives the ledger, transaction
  hash, event index, topic and canonical data, so no two different events share a preimage.\<close>

theorem leaf_bytes_roundtrip:
  assumes "length (leaf_bytes json event) < 2 ^ 32"
  shows "decode_leaf (leaf_bytes json event) =
    Some (l_ledger event, l_txHash event, l_eventIndex event, l_topic event, canonical_data json (l_dataJson event))"
proof -
  note short = length_field_le [THEN le_less_trans, OF assms]
  show ?thesis
    by (simp add: decode_leaf_def leaf_bytes_def short [THEN read_field_encode] short [THEN read_field_encode_end])
qed

definition plain_json :: json_lib where
  "plain_json = \<lparr>stringify = (\<lambda>v. case v of Jstr s \<Rightarrow> CHR 0x22 # s @ [CHR 0x22] | _ \<Rightarrow> ''null''), parse = (\<lambda>_. None)\<rparr>"

theorem leaf_bytes_roundtrip_witness:
  "decode_leaf (leaf_bytes plain_json
      \<lparr>l_ledger = 51, l_txHash = ''ab'', l_eventIndex = 0, l_topic = ''buy'',
        l_dataJson = Jobj [(''b'', Jnull), (''a'', Jstr ''x'')]\<rparr>) =
    Some (51, ''ab'', 0, ''buy'', [CHR ''{'', CHR 0x22, CHR ''a'', CHR 0x22, CHR '':'', CHR 0x22, CHR ''x'', CHR 0x22, CHR '','',
      CHR 0x22, CHR ''b'', CHR 0x22, CHR '':'', CHR ''n'', CHR ''u'', CHR ''l'', CHR ''l'', CHR ''}''])"
proof -
  let ?ev = "\<lparr>l_ledger = 51, l_txHash = ''ab'', l_eventIndex = 0, l_topic = ''buy'',
        l_dataJson = Jobj [(''b'', Jnull), (''a'', Jstr ''x'')]\<rparr>"
  have "show_int 51 = ''51''" "show_int 0 = ''0''" by code_simp+
  moreover have d: "canonical_data plain_json (l_dataJson ?ev) =
      [CHR ''{'', CHR 0x22, CHR ''a'', CHR 0x22, CHR '':'', CHR 0x22, CHR ''x'', CHR 0x22, CHR '','',
      CHR 0x22, CHR ''b'', CHR 0x22, CHR '':'', CHR ''n'', CHR ''u'', CHR ''l'', CHR ''l'', CHR ''}'']"
    by code_simp
  ultimately have "length (leaf_bytes plain_json ?ev) < 2 ^ 32"
    by (simp add: leaf_bytes_def encodeLengthPrefixed_def)
  with d show ?thesis using leaf_bytes_roundtrip [of plain_json ?ev] by simp
qed

end
