(* ===== verification/Events.thy ===== *)
theory Events
  imports Merkle
begin

text \<open>
  \<open>src/modules/events/events.service.ts\<close>: contract events are ingested into partitions of a fixed
  ledger range, each with a Merkle tree that grows leaf by leaf; a completed partition is closed, its
  root is published on chain, and inclusion proofs are served from the stored nodes.

  The three tables are lists of rows. \<open>ingestEvent\<close> is not a transaction: \<open>ingest_store\<close> is the part up
  to the creation of the event row, \<open>ingest_finish\<close> the tree and the partition. The publisher is an
  argument: its outcome for each attempt, a transaction hash or an error message.
\<close>

section \<open>Tables\<close>

datatype partition_status = OPEN | CLOSED | PUBLISHED | PUBLICATION_FAILED

record event_row =
  ev_id :: string
  ev_network :: string
  ev_contractId :: string
  ev_ledger :: int
  ev_txHash :: string
  ev_eventIndex :: int
  ev_topic :: string
  ev_dataJson :: string
  ev_leafHash :: string
  ev_leafIndex :: nat
  ev_partitionId :: string

record node_row =
  nd_partitionId :: string
  nd_level :: nat
  nd_position :: nat
  nd_hash :: string

record partition_row =
  pt_partitionId :: string
  pt_network :: string
  pt_contractId :: string
  pt_ledgerStart :: int
  pt_ledgerEnd :: int
  pt_root :: string
  pt_eventCount :: nat
  pt_sorobanTxHash :: "string option"
  pt_status :: partition_status
  pt_retryCount :: nat
  pt_lastError :: "string option"
  pt_closedAt :: "instant option"
  pt_publishedAt :: "instant option"

record events_db =
  events :: "event_row list"
  nodes :: "node_row list"
  partitions :: "partition_row list"

datatype events_error = PartitionNotFound string | PartitionNotOpen string partition_status | UniqueViolation

definition node_key :: "node_row \<Rightarrow> string \<times> nat \<times> nat" where
  "node_key nd = (nd_partitionId nd, nd_level nd, nd_position nd)"

definition node_at :: "string \<Rightarrow> nat \<Rightarrow> nat \<Rightarrow> node_row list \<Rightarrow> string option" where
  "node_at pid l p nds = map_option nd_hash (find_by node_key (pid, l, p) nds)"

definition put_node :: "string \<Rightarrow> nat \<Rightarrow> nat \<Rightarrow> string \<Rightarrow> node_row list \<Rightarrow> node_row list" where
  "put_node pid l p h nds =
    upsert_by node_key (pid, l, p) (\<lambda>nd. nd\<lparr>nd_hash := h\<rparr>)
      \<lparr>nd_partitionId = pid, nd_level = l, nd_position = p, nd_hash = h\<rparr> nds"

section \<open>Partitions\<close>

definition DEFAULT_PARTITION_LEDGER_RANGE :: int where
  "DEFAULT_PARTITION_LEDGER_RANGE = 1000"

definition getPartitionBounds :: "int \<Rightarrow> int \<Rightarrow> int \<times> int" where
  "getPartitionBounds ledger ledgerRange =
    (let ledgerStart = (ledger div ledgerRange) * ledgerRange in (ledgerStart, ledgerStart + ledgerRange - 1))"

definition buildPartitionId :: "string \<Rightarrow> string \<Rightarrow> int \<Rightarrow> int \<Rightarrow> string" where
  "buildPartitionId network contractId ledgerStart ledgerEnd =
    network @ '':'' @ contractId @ '':'' @ show_int ledgerStart @ ''-'' @ show_int ledgerEnd"

section \<open>The incremental tree\<close>

definition max_level :: "nat \<Rightarrow> nat" where
  "max_level treeSize = (if treeSize \<le> 1 then 0 else ceillog2 treeSize)"

text \<open>The walk from a node to the root, storing every node it computes.\<close>

function climb ::
  "(string \<Rightarrow> string) \<Rightarrow> string \<Rightarrow> nat \<Rightarrow> nat \<Rightarrow> nat \<Rightarrow> string \<Rightarrow> node_row list \<Rightarrow> string \<times> node_row list" where
  "climb sha pid maxLevel currLevel currPos currHash nds =
    (if currLevel < maxLevel then
       if currPos mod 2 = 1 then
         let leftHash = (case node_at pid currLevel (currPos - 1) nds of Some h \<Rightarrow> h | None \<Rightarrow> currHash);
             parentHash = hashPair sha leftHash currHash
         in climb sha pid maxLevel (currLevel + 1) (currPos div 2) parentHash
              (put_node pid (currLevel + 1) (currPos div 2) parentHash nds)
       else
         climb sha pid maxLevel (currLevel + 1) (currPos div 2) currHash
           (put_node pid (currLevel + 1) (currPos div 2) currHash nds)
     else (currHash, nds))"
  by pat_completeness auto
termination by (relation "measure (\<lambda>(sha, pid, maxLevel, currLevel, _). maxLevel - currLevel)") auto

declare climb.simps [simp del]

definition extendTreeIncremental ::
  "(string \<Rightarrow> string) \<Rightarrow> string \<Rightarrow> nat \<Rightarrow> string \<Rightarrow> node_row list \<Rightarrow> string \<times> node_row list" where
  "extendTreeIncremental sha pid leafIndex leafHash nds =
    climb sha pid (max_level (leafIndex + 1)) 0 leafIndex leafHash (put_node pid 0 leafIndex leafHash nds)"

definition getRootFromState :: "string \<Rightarrow> nat \<Rightarrow> node_row list \<Rightarrow> string" where
  "getRootFromState pid treeSize nds =
    (if treeSize = 0 then []
     else case node_at pid (max_level treeSize) 0 nds of Some h \<Rightarrow> h | None \<Rightarrow> [])"

text \<open>\<open>recomputeRootFromState\<close>: rehash upwards from the stored leaves.\<close>

definition leaf_nodes :: "string \<Rightarrow> node_row list \<Rightarrow> node_row list" where
  "leaf_nodes pid nds = sort_key nd_position (filter (\<lambda>nd. nd_partitionId nd = pid \<and> nd_level nd = 0) nds)"

function reduce_levels :: "(string \<Rightarrow> string) \<Rightarrow> string list \<Rightarrow> string" where
  "reduce_levels sha currentLevel =
    (if 1 < length currentLevel then reduce_levels sha (pair_level sha currentLevel) else currentLevel ! 0)"
  by pat_completeness auto
termination by (relation "measure (\<lambda>(sha, xs). length xs)") auto

declare reduce_levels.simps [simp del]

definition recomputeRootFromState :: "(string \<Rightarrow> string) \<Rightarrow> string \<Rightarrow> node_row list \<Rightarrow> string" where
  "recomputeRootFromState sha pid nds =
    (if leaf_nodes pid nds = [] then [] else reduce_levels sha (map nd_hash (leaf_nodes pid nds)))"

section \<open>Ingestion\<close>

record ingest_input =
  in_network :: string
  in_contractId :: string
  in_ledger :: int
  in_txHash :: string
  in_eventIndex :: int
  in_topic :: string
  in_dataJson :: js_value

definition data_text :: "json_lib \<Rightarrow> js_value \<Rightarrow> string" where
  "data_text json v = (case v of Jstr s \<Rightarrow> s | _ \<Rightarrow> stringify json v)"

definition input_partition :: "int \<Rightarrow> ingest_input \<Rightarrow> string" where
  "input_partition ledgerRange input =
    (let (ledgerStart, ledgerEnd) = getPartitionBounds (in_ledger input) ledgerRange
     in buildPartitionId (in_network input) (in_contractId input) ledgerStart ledgerEnd)"

definition input_leaf :: "(string \<Rightarrow> string) \<Rightarrow> json_lib \<Rightarrow> ingest_input \<Rightarrow> string" where
  "input_leaf sha json input =
    computeEventLeafHash sha json
      \<lparr>l_ledger = in_ledger input, l_txHash = in_txHash input, l_eventIndex = in_eventIndex input,
       l_topic = in_topic input, l_dataJson = Jstr (data_text json (in_dataJson input))\<rparr>"

definition new_partition :: "(string \<Rightarrow> string) \<Rightarrow> json_lib \<Rightarrow> int \<Rightarrow> ingest_input \<Rightarrow> partition_row" where
  "new_partition sha json ledgerRange input =
    \<lparr>pt_partitionId = input_partition ledgerRange input, pt_network = in_network input,
     pt_contractId = in_contractId input,
     pt_ledgerStart = fst (getPartitionBounds (in_ledger input) ledgerRange),
     pt_ledgerEnd = snd (getPartitionBounds (in_ledger input) ledgerRange),
     pt_root = input_leaf sha json input, pt_eventCount = 0, pt_sorobanTxHash = None, pt_status = OPEN,
     pt_retryCount = 0, pt_lastError = None, pt_closedAt = None, pt_publishedAt = None\<rparr>"

definition new_event :: "(string \<Rightarrow> string) \<Rightarrow> json_lib \<Rightarrow> int \<Rightarrow> string \<Rightarrow> nat \<Rightarrow> ingest_input \<Rightarrow> event_row" where
  "new_event sha json ledgerRange newId leafIndex input =
    \<lparr>ev_id = newId, ev_network = in_network input, ev_contractId = in_contractId input,
     ev_ledger = in_ledger input, ev_txHash = in_txHash input, ev_eventIndex = in_eventIndex input,
     ev_topic = in_topic input, ev_dataJson = data_text json (in_dataJson input),
     ev_leafHash = input_leaf sha json input, ev_leafIndex = leafIndex,
     ev_partitionId = input_partition ledgerRange input\<rparr>"

definition partition_events :: "string \<Rightarrow> events_db \<Rightarrow> event_row list" where
  "partition_events pid db = filter (\<lambda>e. ev_partitionId e = pid) (events db)"

text \<open>The unique constraints of the table \<open>Event\<close>.\<close>

definition event_clash :: "event_row \<Rightarrow> event_row \<Rightarrow> bool" where
  "event_clash e e' \<longleftrightarrow> ev_id e' = ev_id e \<or>
    ev_txHash e' = ev_txHash e \<and> ev_eventIndex e' = ev_eventIndex e \<or>
    ev_partitionId e' = ev_partitionId e \<and> ev_leafIndex e' = ev_leafIndex e"

definition ingest_store ::
  "(string \<Rightarrow> string) \<Rightarrow> json_lib \<Rightarrow> int \<Rightarrow> string \<Rightarrow> ingest_input \<Rightarrow> events_db \<Rightarrow> (events_error + event_row) \<times> events_db" where
  "ingest_store sha json ledgerRange newId input db =
    (let pid = input_partition ledgerRange input;
         leafIndex = length (partition_events pid db);
         row = new_event sha json ledgerRange newId leafIndex input
     in case find_by pt_partitionId pid (partitions db) of
          Some p \<Rightarrow>
            if pt_status p \<noteq> OPEN then (Inl (PartitionNotOpen pid (pt_status p)), db)
            else if list_ex (event_clash row) (events db) then (Inl UniqueViolation, db)
            else (Inr row, db\<lparr>events := insert_row row (events db)\<rparr>)
        | None \<Rightarrow>
            let db1 = db\<lparr>partitions := insert_row (new_partition sha json ledgerRange input) (partitions db)\<rparr>
            in if list_ex (event_clash row) (events db) then (Inl UniqueViolation, db1)
               else (Inr row, db1\<lparr>events := insert_row row (events db)\<rparr>))"

definition ingest_finish :: "(string \<Rightarrow> string) \<Rightarrow> event_row \<Rightarrow> events_db \<Rightarrow> (event_row \<times> bool \<times> string) \<times> events_db" where
  "ingest_finish sha row db =
    (let pid = ev_partitionId row;
         (newRoot, nds) = extendTreeIncremental sha pid (ev_leafIndex row) (ev_leafHash row) (nodes db);
         pts = modify_by pt_partitionId pid (\<lambda>p. p\<lparr>pt_root := newRoot, pt_eventCount := ev_leafIndex row + 1\<rparr>) (partitions db);
         isClosed = (case find_by pt_partitionId pid pts of Some p \<Rightarrow> pt_status p \<noteq> OPEN | None \<Rightarrow> False)
     in ((row, isClosed, newRoot), db\<lparr>nodes := nds, partitions := pts\<rparr>))"

definition ingestEvent ::
  "(string \<Rightarrow> string) \<Rightarrow> json_lib \<Rightarrow> int \<Rightarrow> string \<Rightarrow> ingest_input \<Rightarrow> events_db \<Rightarrow>
    (events_error + event_row \<times> bool \<times> string) \<times> events_db" where
  "ingestEvent sha json ledgerRange newId input db =
    (case ingest_store sha json ledgerRange newId input db of
      (Inl e, db1) \<Rightarrow> (Inl e, db1)
    | (Inr row, db1) \<Rightarrow> (let (res, db2) = ingest_finish sha row db1 in (Inr res, db2)))"

section \<open>Publication and closing\<close>

record publish_params =
  pp_network :: string
  pp_contractId :: string
  pp_ledgerStart :: int
  pp_ledgerEnd :: int
  pp_root :: string
  pp_eventCount :: nat

text \<open>The publisher's answer to the numbered attempt: an error message or a transaction hash.\<close>

type_synonym publisher = "publish_params \<Rightarrow> nat \<Rightarrow> string + string"

definition mark_published :: "instant \<Rightarrow> nat \<Rightarrow> string \<Rightarrow> partition_row \<Rightarrow> partition_row" where
  "mark_published now attempt txHash p =
    p\<lparr>pt_status := PUBLISHED, pt_sorobanTxHash := Some txHash, pt_publishedAt := Some now,
      pt_retryCount := attempt, pt_lastError := None\<rparr>"

definition mark_failed :: "nat \<Rightarrow> string \<Rightarrow> partition_row \<Rightarrow> partition_row" where
  "mark_failed maxRetries err p =
    p\<lparr>pt_status := PUBLICATION_FAILED, pt_lastError := Some err, pt_retryCount := maxRetries\<rparr>"

text \<open>
  Attempts from \<open>attempt\<close> to \<open>maxRetries\<close>; \<open>lastError\<close> is the message of the previous failure. The
  partition row exists (\<open>closePartition\<close> has just read it), so the updates do not fail.
\<close>

function publish_attempts ::
  "publisher \<Rightarrow> instant \<Rightarrow> string \<Rightarrow> publish_params \<Rightarrow> nat \<Rightarrow> nat \<Rightarrow> string \<Rightarrow> partition_row list \<Rightarrow>
    (string + string) \<times> partition_row list" where
  "publish_attempts pub now pid params maxRetries attempt lastError pts =
    (if attempt \<le> maxRetries then
       case pub params attempt of
         Inr txHash \<Rightarrow> (Inr txHash, modify_by pt_partitionId pid (mark_published now attempt txHash) pts)
       | Inl err \<Rightarrow> publish_attempts pub now pid params maxRetries (attempt + 1) err pts
     else
       let errorMessage = (if lastError = [] then ''Publication retries exhausted'' else lastError)
       in (Inl errorMessage, modify_by pt_partitionId pid (mark_failed maxRetries errorMessage) pts))"
  by pat_completeness auto
termination
  by (relation "measure (\<lambda>(pub, now, pid, params, maxRetries, attempt, _). maxRetries + 1 - attempt)") auto

declare publish_attempts.simps [simp del]

definition publishRootWithRetry ::
  "publisher \<Rightarrow> instant \<Rightarrow> string \<Rightarrow> publish_params \<Rightarrow> nat \<Rightarrow> partition_row list \<Rightarrow> (string + string) \<times> partition_row list" where
  "publishRootWithRetry pub now pid params maxRetries pts =
    publish_attempts pub now pid params maxRetries 0 [] pts"

definition publish_params_of :: "partition_row \<Rightarrow> publish_params" where
  "publish_params_of p =
    \<lparr>pp_network = pt_network p, pp_contractId = pt_contractId p, pp_ledgerStart = pt_ledgerStart p,
     pp_ledgerEnd = pt_ledgerEnd p, pp_root = pt_root p, pp_eventCount = pt_eventCount p\<rparr>"

definition mark_closed :: "instant \<Rightarrow> partition_row \<Rightarrow> partition_row" where
  "mark_closed now p = p\<lparr>pt_status := CLOSED, pt_closedAt := Some now\<rparr>"

definition closePartition ::
  "publisher \<Rightarrow> instant \<Rightarrow> nat \<Rightarrow> string \<Rightarrow> events_db \<Rightarrow> (events_error + partition_row option) \<times> events_db" where
  "closePartition pub now maxRetries pid db =
    (case find_by pt_partitionId pid (partitions db) of
      None \<Rightarrow> (Inl (PartitionNotFound pid), db)
    | Some p \<Rightarrow>
        if pt_status p = PUBLISHED then (Inr (Some p), db)
        else
          let pts = modify_by pt_partitionId pid (mark_closed now) (partitions db);
              pts' = snd (publishRootWithRetry pub now pid (publish_params_of p) maxRetries pts)
          in (Inr (find_by pt_partitionId pid pts'), db\<lparr>partitions := pts'\<rparr>))"

definition completed_partitions :: "string \<Rightarrow> string \<Rightarrow> int \<Rightarrow> events_db \<Rightarrow> partition_row list" where
  "completed_partitions network contractId latestLedger db =
    sort_key pt_ledgerStart (filter (\<lambda>p. pt_network p = network \<and> pt_contractId p = contractId \<and>
      pt_status p = OPEN \<and> pt_ledgerEnd p < latestLedger) (partitions db))"

primrec close_all ::
  "publisher \<Rightarrow> instant \<Rightarrow> nat \<Rightarrow> string list \<Rightarrow> events_db \<Rightarrow> (events_error + string list) \<times> events_db" where
  "close_all pub now maxRetries [] db = (Inr [], db)"
| "close_all pub now maxRetries (pid # pids) db =
    (case closePartition pub now maxRetries pid db of
      (Inl e, db1) \<Rightarrow> (Inl e, db1)
    | (Inr _, db1) \<Rightarrow>
        (case close_all pub now maxRetries pids db1 of
          (Inl e, db2) \<Rightarrow> (Inl e, db2)
        | (Inr closedIds, db2) \<Rightarrow> (Inr (pid # closedIds), db2)))"

definition closeCompletedPartitions ::
  "publisher \<Rightarrow> instant \<Rightarrow> nat \<Rightarrow> string \<Rightarrow> string \<Rightarrow> int \<Rightarrow> events_db \<Rightarrow>
    (events_error + string list) \<times> events_db" where
  "closeCompletedPartitions pub now maxRetries network contractId latestLedger db =
    close_all pub now maxRetries (map pt_partitionId (completed_partitions network contractId latestLedger db)) db"

section \<open>Inclusion proofs\<close>

primrec getLevelNodeCount :: "nat \<Rightarrow> nat \<Rightarrow> nat" where
  "getLevelNodeCount treeSize 0 = treeSize"
| "getLevelNodeCount treeSize (Suc l) = (getLevelNodeCount treeSize l + 1) div 2"

definition opt_sibling :: "proof_side \<Rightarrow> string option \<Rightarrow> proof_sibling list" where
  "opt_sibling s h = (case h of None \<Rightarrow> [] | Some x \<Rightarrow> [\<lparr>sib_hash = x, side = s\<rparr>])"

function collect_siblings ::
  "string \<Rightarrow> nat \<Rightarrow> nat \<Rightarrow> nat \<Rightarrow> nat \<Rightarrow> node_row list \<Rightarrow> proof_sibling list" where
  "collect_siblings pid treeSize maxLevel level currPos nds =
    (if level < maxLevel then
       (if currPos mod 2 = 1 then opt_sibling Left (node_at pid level (currPos - 1) nds)
        else if currPos + 1 < getLevelNodeCount treeSize level
             then opt_sibling Right (node_at pid level (currPos + 1) nds)
             else [])
       @ collect_siblings pid treeSize maxLevel (level + 1) (currPos div 2) nds
     else [])"
  by pat_completeness auto
termination by (relation "measure (\<lambda>(pid, treeSize, maxLevel, level, _). maxLevel - level)") auto

declare collect_siblings.simps [simp del]

record inclusion_proof =
  pr_leafHash :: string
  pr_leafIndex :: nat
  pr_treeSize :: nat
  pr_root :: string
  pr_siblings :: "proof_sibling list"
  pr_partitionId :: string
  pr_sorobanTxHash :: "string option"

definition getEventInclusionProof :: "string \<Rightarrow> events_db \<Rightarrow> inclusion_proof option" where
  "getEventInclusionProof eventId db =
    (case find_by ev_id eventId (events db) of
      None \<Rightarrow> None
    | Some e \<Rightarrow>
        (case find_by pt_partitionId (ev_partitionId e) (partitions db) of
          None \<Rightarrow> None
        | Some p \<Rightarrow>
            if pt_status p = OPEN then None
            else Some \<lparr>pr_leafHash = ev_leafHash e, pr_leafIndex = ev_leafIndex e, pr_treeSize = pt_eventCount p,
              pr_root = pt_root p,
              pr_siblings = collect_siblings (ev_partitionId e) (pt_eventCount p) (max_level (pt_eventCount p))
                0 (ev_leafIndex e) (nodes db),
              pr_partitionId = ev_partitionId e, pr_sorobanTxHash = pt_sorobanTxHash p\<rparr>))"

section \<open>Runs\<close>

inductive events_step :: "(string \<Rightarrow> string) \<Rightarrow> json_lib \<Rightarrow> events_db \<Rightarrow> events_db \<Rightarrow> bool" for sha json where
  ingest: "db' = snd (ingestEvent sha json ledgerRange newId input db) \<Longrightarrow> events_step sha json db db'"
| close: "db' = snd (closePartition pub now maxRetries pid db) \<Longrightarrow> events_step sha json db db'"
| close_completed: "db' = snd (closeCompletedPartitions pub now maxRetries network contractId latestLedger db) \<Longrightarrow>
    events_step sha json db db'"

inductive_cases events_stepE: "events_step sha json db db'"

definition events_init :: "events_db \<Rightarrow> bool" where
  "events_init db \<longleftrightarrow> events db = [] \<and> nodes db = [] \<and> partitions db = []"

section \<open>The stored tree is the reference tree\<close>

lemma max_level_eq [simp]: "max_level n = ceillog2 n"
  by (simp add: max_level_def)

lemma node_at_put [simp]:
  "node_at q l' p' (put_node pid l p h nds) =
    (if q = pid \<and> l' = l \<and> p' = p then Some h else node_at q l' p' nds)"
  unfolding node_at_def put_node_def
  by (subst find_by_upsert) (auto simp: node_key_def split: option.split)

lemma distinct_put_node:
  "distinct (map node_key nds) \<Longrightarrow> distinct (map node_key (put_node pid l p h nds))"
  unfolding put_node_def by (rule distinct_upsert) (auto simp: node_key_def)

lemma distinct_climb:
  "distinct (map node_key nds) \<Longrightarrow> distinct (map node_key (snd (climb sha pid D l pos h nds)))"
proof (induction sha pid D l pos h nds rule: climb.induct)
  case (1 sha pid D l pos h nds)
  then show ?case by (subst climb.simps) (simp add: distinct_put_node Let_def)
qed

lemma climb_result:
  assumes "l \<le> D" "pos = length xs div 2 ^ l" "h = lev sha l (xs @ [y]) ! pos"
    and "\<And>l' p. l \<le> l' \<Longrightarrow> l' < D \<Longrightarrow> p < length xs div 2 ^ l' \<Longrightarrow>
      node_at pid l' p nds = Some (lev sha l' (xs @ [y]) ! p)"
  shows "fst (climb sha pid D l pos h nds) = lev sha D (xs @ [y]) ! (length xs div 2 ^ D) \<and>
    (\<forall>q l' p. node_at q l' p (snd (climb sha pid D l pos h nds)) =
      (if q = pid \<and> l < l' \<and> l' \<le> D \<and> p = length xs div 2 ^ l' then Some (lev sha l' (xs @ [y]) ! p)
       else node_at q l' p nds))"
  using assms
proof (induction "D - l" arbitrary: l pos h nds)
  case 0
  then show ?case by (subst (1 2) climb.simps) auto
next
  case (Suc k)
  let ?pos = "pos div 2" and ?h = "lev sha (Suc l) (xs @ [y]) ! (pos div 2)"
  have l: "l < D" using Suc.hyps(2) by simp
  have half: "length xs div 2 ^ Suc l = pos div 2"
    using Suc.prems(2) by (simp add: power_Suc2 div_mult2_eq del: power_Suc)
  have "climb sha pid D l pos h nds = climb sha pid D (Suc l) ?pos ?h (put_node pid (Suc l) ?pos ?h nds)"
  proof (cases "odd pos")
    case True
    then have "node_at pid l (pos - 1) nds = Some (lev sha l (xs @ [y]) ! (pos - 1))"
      using Suc.prems(4) [OF le_refl l] Suc.prems(2) by (metis diff_less odd_pos zero_less_one)
    with True l show ?thesis
      using lev_snoc_path [OF Suc.prems(2), of sha y] Suc.prems(3)
      by (subst climb.simps) (simp add: odd_iff_mod_2_eq_one Let_def)
  next
    case False
    with l show ?thesis
      using lev_snoc_path [OF Suc.prems(2), of sha y] Suc.prems(3)
      by (subst climb.simps) (simp add: odd_iff_mod_2_eq_one)
  qed
  moreover have "fst (climb sha pid D (Suc l) ?pos ?h (put_node pid (Suc l) ?pos ?h nds)) =
      lev sha D (xs @ [y]) ! (length xs div 2 ^ D) \<and>
    (\<forall>q l' p. node_at q l' p (snd (climb sha pid D (Suc l) ?pos ?h (put_node pid (Suc l) ?pos ?h nds))) =
      (if q = pid \<and> Suc l < l' \<and> l' \<le> D \<and> p = length xs div 2 ^ l' then Some (lev sha l' (xs @ [y]) ! p)
       else node_at q l' p (put_node pid (Suc l) ?pos ?h nds)))"
  proof (rule Suc.hyps(1))
    show "node_at pid l' p (put_node pid (Suc l) ?pos ?h nds) = Some (lev sha l' (xs @ [y]) ! p)"
      if "Suc l \<le> l'" "l' < D" "p < length xs div 2 ^ l'" for l' p
      using that Suc.prems(4) [of l' p] half by auto
  qed (use Suc.hyps(2) l half in auto)
  moreover have "(l < l') = (l' = Suc l \<or> Suc l < l')" for l' by auto
  ultimately show ?case using l half by (auto simp del: power_Suc)
qed

text \<open>What the stored nodes of one partition hold, given its leaves.\<close>

definition tree_ok :: "(string \<Rightarrow> string) \<Rightarrow> string list \<Rightarrow> string \<Rightarrow> node_row list \<Rightarrow> bool" where
  "tree_ok sha xs pid nds \<longleftrightarrow>
    (\<forall>p. node_at pid 0 p nds \<noteq> None \<longleftrightarrow> p < length xs) \<and>
    (\<forall>l p. xs \<noteq> [] \<longrightarrow> l \<le> ceillog2 (length xs) \<longrightarrow> p < length (lev sha l xs) \<longrightarrow>
      node_at pid l p nds = Some (lev sha l xs ! p))"

lemma tree_okD:
  "tree_ok sha xs pid nds \<Longrightarrow> xs \<noteq> [] \<Longrightarrow> l \<le> ceillog2 (length xs) \<Longrightarrow> p < length (lev sha l xs) \<Longrightarrow>
    node_at pid l p nds = Some (lev sha l xs ! p)"
  by (simp add: tree_ok_def)

lemma div_less_ceillog2: "l < ceillog2 (n + 1) \<Longrightarrow> 0 < n \<and> l \<le> ceillog2 n"
proof -
  assume l: "l < ceillog2 (n + 1)"
  then have "\<not> n + 1 \<le> 2 ^ l" using ceillog2_le_iff [of "n + 1" l] by simp
  then have "2 ^ l \<le> n" by simp
  moreover have "(0::nat) < 2 ^ l" by simp
  ultimately have "0 < n" by linarith
  with \<open>2 ^ l \<le> n\<close> show ?thesis using ceillog2_ge_iff [of n l] by simp
qed

lemma extend_tree_ok:
  fixes y :: string
  assumes "tree_ok sha xs pid nds"
  defines "r \<equiv> extendTreeIncremental sha pid (length xs) y nds"
  shows "tree_ok sha (xs @ [y]) pid (snd r)"
    and "fst r = lev sha (ceillog2 (length (xs @ [y]))) (xs @ [y]) ! 0"
    and "q \<noteq> pid \<Longrightarrow> node_at q l p (snd r) = node_at q l p nds"
proof -
  let ?n = "length xs" and ?ys = "xs @ [y]"
  let ?D = "ceillog2 (?n + 1)" and ?nds = "put_node pid 0 ?n y nds"
  have old: "node_at pid l' p ?nds = Some (lev sha l' ?ys ! p)" if "l' < ?D" "p < ?n div 2 ^ l'" for l' p
  proof -
    from that(1) have n: "0 < ?n" "l' \<le> ceillog2 ?n" using div_less_ceillog2 by blast+
    have "p < length (lev sha l' xs)" using that(2) by (rule old_position_in_level)
    with n assms(1) have "node_at pid l' p nds = Some (lev sha l' xs ! p)" by (auto intro: tree_okD)
    moreover have "\<not> (l' = 0 \<and> p = ?n)" using that(2) by auto
    ultimately show ?thesis using that(2) by (auto simp: lev_snoc_old)
  qed
  have res: "fst r = lev sha ?D ?ys ! (?n div 2 ^ ?D) \<and>
    (\<forall>q l' p. node_at q l' p (snd r) =
      (if q = pid \<and> 0 < l' \<and> l' \<le> ?D \<and> p = ?n div 2 ^ l' then Some (lev sha l' ?ys ! p)
       else node_at q l' p ?nds))"
    unfolding r_def extendTreeIncremental_def max_level_eq
    by (rule climb_result) (use old in \<open>auto simp: nth_append\<close>)
  have top: "?n div 2 ^ ?D = 0" using ceillog2_le_iff [of "?n + 1" ?D] by simp
  with res show "fst r = lev sha (ceillog2 (length ?ys)) ?ys ! 0" by simp
  show "node_at q l p (snd r) = node_at q l p nds" if "q \<noteq> pid" using res that by simp
  show "tree_ok sha ?ys pid (snd r)"
    unfolding tree_ok_def
  proof (intro conjI allI impI)
    show "(node_at pid 0 p (snd r) \<noteq> None) = (p < length ?ys)" for p
      using res assms(1) by (auto simp: tree_ok_def less_Suc_eq)
  next
    fix l p assume l: "l \<le> ceillog2 (length ?ys)" and "p < length (lev sha l ?ys)"
    then have p: "p \<le> ?n div 2 ^ l" by (simp add: length_lev)
    show "node_at pid l p (snd r) = Some (lev sha l ?ys ! p)"
    proof (cases "p = ?n div 2 ^ l")
      case True
      with res l show ?thesis by (cases "l = 0") (auto simp: nth_append)
    next
      case False
      with p have lt: "p < ?n div 2 ^ l" by simp
      have "l \<noteq> ?D" using lt top by (cases "l = ?D") auto
      with l have "l < ?D" by simp
      with old [OF this lt] res False show ?thesis by simp
    qed
  qed
qed

section \<open>Rehashing the stored leaves\<close>

lemma reduce_is_reference: "xs \<noteq> [] \<Longrightarrow> reduce_levels sha xs = hd (last (build_levels sha xs))"
proof (induction sha xs rule: reduce_levels.induct)
  case (1 sha xs)
  show ?case
  proof (cases "1 < length xs")
    case True
    then have "pair_level sha xs \<noteq> []" by (auto simp flip: length_0_conv)
    with True 1 have "reduce_levels sha (pair_level sha xs) = hd (last (build_levels sha (pair_level sha xs)))"
      by simp
    moreover have "build_levels sha (pair_level sha xs) \<noteq> []" by (subst build_levels.simps) simp
    ultimately show ?thesis using True by (subst reduce_levels.simps, subst build_levels.simps) simp
  next
    case False
    then show ?thesis using 1(2) by (subst reduce_levels.simps, subst build_levels.simps) (simp add: hd_conv_nth)
  qed
qed

lemma leaf_nodes_hashes:
  assumes ok: "tree_ok sha xs pid nds" and dist: "distinct (map node_key nds)"
  shows "map nd_hash (leaf_nodes pid nds) = xs"
proof -
  let ?L = "leaf_nodes pid nds"
  have mem: "nd \<in> set ?L \<longleftrightarrow> nd \<in> set nds \<and> nd_partitionId nd = pid \<and> nd_level nd = 0" for nd
    by (simp add: leaf_nodes_def)
  have hash: "node_at pid 0 (nd_position nd) nds = Some (nd_hash nd)" if "nd \<in> set ?L" for nd
  proof -
    have "node_key nd = (pid, 0, nd_position nd)" using that mem by (simp add: node_key_def)
    with find_by_distinct [OF dist, of nd] that mem show ?thesis by (simp add: node_at_def)
  qed
  have "set (map nd_position ?L) = {0..<length xs}"
  proof (rule set_eqI)
    fix p
    have "p \<in> set (map nd_position ?L) \<longleftrightarrow> node_at pid 0 p nds \<noteq> None"
    proof
      assume "p \<in> set (map nd_position ?L)"
      with hash show "node_at pid 0 p nds \<noteq> None" by auto
    next
      assume "node_at pid 0 p nds \<noteq> None"
      then obtain nd where "find_by node_key (pid, 0, p) nds = Some nd" by (auto simp: node_at_def)
      then have "nd \<in> set nds \<and> node_key nd = (pid, 0, p)" by (rule find_by_SomeD)
      then show "p \<in> set (map nd_position ?L)" using mem by (force simp: node_key_def)
    qed
    then show "p \<in> set (map nd_position ?L) \<longleftrightarrow> p \<in> {0..<length xs}" using ok by (simp add: tree_ok_def)
  qed
  moreover have "sorted (map nd_position ?L)" by (simp add: leaf_nodes_def)
  moreover have "distinct (map nd_position ?L)"
  proof -
    have "distinct (map node_key (filter (\<lambda>nd. nd_partitionId nd = pid \<and> nd_level nd = 0) nds))"
      using dist by (rule distinct_map_filter)
    then have "distinct (map nd_position (filter (\<lambda>nd. nd_partitionId nd = pid \<and> nd_level nd = 0) nds))"
      by (auto simp: distinct_map inj_on_def node_key_def)
    then show ?thesis by (simp add: leaf_nodes_def distinct_map)
  qed
  ultimately have pos: "map nd_position ?L = [0..<length xs]"
    by (metis atLeastLessThan_upt distinct_upt sorted_distinct_set_unique sorted_upt)
  then have len: "length ?L = length xs" by (metis length_map length_upt minus_nat.diff_0)
  show ?thesis
  proof (rule nth_equalityI)
    fix i assume "i < length (map nd_hash ?L)"
    then have i: "i < length ?L" "i < length xs" using len by simp_all
    then have "nd_position (?L ! i) = i" using pos by (metis add_0 nth_map nth_upt)
    moreover have "node_at pid 0 i nds = Some (xs ! i)"
      using tree_okD [OF ok, of 0 i] i by (cases "xs = []") simp_all
    ultimately show "map nd_hash ?L ! i = xs ! i" using hash [OF nth_mem [OF i(1)]] i by simp
  qed (simp add: len)
qed

lemma recompute_is_reference:
  assumes "tree_ok sha xs pid nds" "distinct (map node_key nds)" "xs \<noteq> []"
  shows "recomputeRootFromState sha pid nds = fst (buildFullReferenceMerkleTree sha xs)"
  using leaf_nodes_hashes [OF assms(1,2)] assms(3)
  by (auto simp: recomputeRootFromState_def buildFullReferenceMerkleTree_def reduce_is_reference Let_def)

section \<open>The invariant\<close>

definition leaves_of :: "string \<Rightarrow> events_db \<Rightarrow> string list" where
  "leaves_of pid db = map ev_leafHash (partition_events pid db)"

definition partition_ok :: "(string \<Rightarrow> string) \<Rightarrow> string \<Rightarrow> events_db \<Rightarrow> bool" where
  "partition_ok sha pid db \<longleftrightarrow>
    map ev_leafIndex (partition_events pid db) = [0..<length (partition_events pid db)] \<and>
    tree_ok sha (leaves_of pid db) pid (nodes db) \<and>
    (case find_by pt_partitionId pid (partitions db) of
      None \<Rightarrow> partition_events pid db = []
    | Some p \<Rightarrow> pt_eventCount p = length (partition_events pid db) \<and>
        (partition_events pid db \<noteq> [] \<longrightarrow> pt_root p = fst (buildFullReferenceMerkleTree sha (leaves_of pid db))))"

definition events_inv :: "(string \<Rightarrow> string) \<Rightarrow> events_db \<Rightarrow> bool" where
  "events_inv sha db \<longleftrightarrow>
    distinct (map pt_partitionId (partitions db)) \<and> distinct (map ev_id (events db)) \<and>
    distinct (map node_key (nodes db)) \<and> (\<forall>e \<in> set (events db). \<exists>x. ev_leafHash e = sha x) \<and>
    (\<forall>pid. partition_ok sha pid db)"

text \<open>Closing changes neither events nor nodes nor any root or count.\<close>

definition same_trees :: "events_db \<Rightarrow> events_db \<Rightarrow> bool" where
  "same_trees db db' \<longleftrightarrow> events db' = events db \<and> nodes db' = nodes db \<and>
    map (\<lambda>p. (pt_partitionId p, pt_root p, pt_eventCount p)) (partitions db') =
    map (\<lambda>p. (pt_partitionId p, pt_root p, pt_eventCount p)) (partitions db)"

lemma same_trees_refl [simp]: "same_trees db db"
  by (simp add: same_trees_def)

lemma same_trees_trans: "same_trees a b \<Longrightarrow> same_trees b c \<Longrightarrow> same_trees a c"
  by (simp add: same_trees_def)

lemma same_trees_find:
  assumes "same_trees db db'"
  shows "map_option (\<lambda>p. (pt_root p, pt_eventCount p)) (find_by pt_partitionId pid (partitions db')) =
    map_option (\<lambda>p. (pt_root p, pt_eventCount p)) (find_by pt_partitionId pid (partitions db))"
  using assms by (intro find_by_map_cong) (simp add: same_trees_def)

lemma same_trees_inv:
  assumes "events_inv sha db" "same_trees db db'"
  shows "events_inv sha db'"
proof -
  have "map fst (map (\<lambda>p. (pt_partitionId p, pt_root p, pt_eventCount p)) (partitions db')) =
      map fst (map (\<lambda>p. (pt_partitionId p, pt_root p, pt_eventCount p)) (partitions db))"
    using assms(2) by (simp only: same_trees_def)
  then have ids: "map pt_partitionId (partitions db') = map pt_partitionId (partitions db)"
    by (simp add: comp_def)
  have "partition_ok sha pid db'" for pid
  proof -
    have "partition_ok sha pid db" using assms(1) by (simp add: events_inv_def)
    moreover have "partition_events pid db' = partition_events pid db" "leaves_of pid db' = leaves_of pid db"
      "nodes db' = nodes db"
      using assms(2) by (simp_all add: same_trees_def partition_events_def leaves_of_def)
    ultimately show ?thesis
      using same_trees_find [OF assms(2), of pid]
      by (auto simp: partition_ok_def split: option.splits)
  qed
  with assms ids show ?thesis by (simp add: events_inv_def same_trees_def)
qed

lemma publish_same:
  "map (\<lambda>p. (pt_partitionId p, pt_root p, pt_eventCount p)) (snd (publish_attempts pub now pid params maxRetries attempt lastError pts)) =
    map (\<lambda>p. (pt_partitionId p, pt_root p, pt_eventCount p)) pts"
proof (induction pub now pid params maxRetries attempt lastError pts rule: publish_attempts.induct)
  case (1 pub now pid params maxRetries attempt lastError pts)
  then show ?case
    by (subst publish_attempts.simps)
      (auto simp: Let_def modify_by_def mark_published_def mark_failed_def split: sum.split)
qed

lemma closePartition_same: "same_trees db (snd (closePartition pub now maxRetries pid db))"
  by (auto simp: closePartition_def same_trees_def publishRootWithRetry_def publish_same Let_def
      map_modify_by_keep mark_closed_def split: option.split)

lemma close_all_same: "same_trees db (snd (close_all pub now maxRetries pids db))"
proof (induction pids arbitrary: db)
  case (Cons pid pids)
  obtain r db1 where c: "closePartition pub now maxRetries pid db = (r, db1)" by fastforce
  then have "same_trees db db1" using closePartition_same [of db pub now maxRetries pid] by simp
  with Cons.IH [of db1] c show ?case
    by (auto split: sum.split prod.split intro: same_trees_trans dest: same_trees_trans)
qed simp

lemma new_partition_inv:
  assumes inv: "events_inv sha db" and fresh: "find_by pt_partitionId (pt_partitionId p) (partitions db) = None"
    and zero: "pt_eventCount p = 0"
  shows "events_inv sha (db\<lparr>partitions := insert_row p (partitions db)\<rparr>)"
proof -
  have "partition_ok sha pid (db\<lparr>partitions := insert_row p (partitions db)\<rparr>)" for pid
  proof -
    have "partition_ok sha pid db" using inv by (simp add: events_inv_def)
    moreover have "partition_events pid (db\<lparr>partitions := insert_row p (partitions db)\<rparr>) = partition_events pid db"
      by (simp add: partition_events_def)
    ultimately show ?thesis
      using zero fresh
      by (cases "pid = pt_partitionId p")
        (auto simp: partition_ok_def leaves_of_def insert_row_def find_by_append split: option.splits)
  qed
  moreover have "pt_partitionId p \<notin> pt_partitionId ` set (partitions db)"
    using fresh by (simp add: find_by_None_iff)
  ultimately show ?thesis using inv by (simp add: events_inv_def)
qed

lemma append_inv:
  assumes inv: "events_inv sha db" and part: "find_by pt_partitionId (ev_partitionId row) (partitions db) = Some p"
    and leaf: "ev_leafHash row = sha x" and idx: "ev_leafIndex row = length (partition_events (ev_partitionId row) db)"
    and fresh: "\<not> list_ex (event_clash row) (events db)"
  shows "events_inv sha (snd (ingest_finish sha row (db\<lparr>events := insert_row row (events db)\<rparr>)))"
proof -
  let ?pid = "ev_partitionId row"
  define ext where "ext = extendTreeIncremental sha ?pid (ev_leafIndex row) (ev_leafHash row) (nodes db)"
  define f :: "partition_row \<Rightarrow> partition_row" where "f = (\<lambda>p. p\<lparr>pt_root := fst ext, pt_eventCount := ev_leafIndex row + 1\<rparr>)"
  define db' where "db' = snd (ingest_finish sha row (db\<lparr>events := insert_row row (events db)\<rparr>))"
  have db': "events db' = events db @ [row]" "nodes db' = snd ext"
    "partitions db' = modify_by pt_partitionId ?pid f (partitions db)"
    by (simp_all add: db'_def ingest_finish_def ext_def [symmetric] f_def Let_def insert_row_def split: prod.split)
  have pok: "partition_ok sha pid db" for pid using inv by (simp add: events_inv_def)
  have evs: "partition_events pid db' = partition_events pid db @ (if pid = ?pid then [row] else [])" for pid
    by (simp add: partition_events_def db')
  have leaves: "leaves_of pid db' = leaves_of pid db @ (if pid = ?pid then [ev_leafHash row] else [])" for pid
    by (simp add: leaves_of_def evs)
  have len: "length (leaves_of ?pid db) = ev_leafIndex row" by (simp add: leaves_of_def idx)
  have "tree_ok sha (leaves_of ?pid db) ?pid (nodes db)" using pok by (simp add: partition_ok_def)
  note ext = extend_tree_ok [OF this, where y = "ev_leafHash row", unfolded len, folded ext_def]
  have parts: "find_by pt_partitionId pid (partitions db') =
      (if pid = ?pid then Some (f p) else find_by pt_partitionId pid (partitions db))" for pid
    unfolding db' by (subst find_by_modify_by) (auto simp: f_def part)
  have "partition_ok sha pid db'" for pid
  proof (cases "pid = ?pid")
    case True
    have "leaves_of pid db' \<noteq> []" using True by (simp add: leaves)
    then have "fst ext = fst (buildFullReferenceMerkleTree sha (leaves_of pid db'))"
      using ext(2) True by (simp add: root_is_top leaves len)
    then show ?thesis
      using pok [of pid] ext(1) True
      by (simp add: partition_ok_def evs leaves parts f_def idx db'(2))
  next
    case False
    have "node_at pid l q (nodes db') = node_at pid l q (nodes db)" for l q
      using ext(3) [OF False] by (simp add: db')
    moreover have "partition_events pid db' = partition_events pid db" "leaves_of pid db' = leaves_of pid db"
      "find_by pt_partitionId pid (partitions db') = find_by pt_partitionId pid (partitions db)"
      using False by (simp_all add: evs leaves parts)
    ultimately show ?thesis using pok [of pid] by (simp add: partition_ok_def tree_ok_def cong: option.case_cong)
  qed
  moreover have "distinct (map pt_partitionId (partitions db'))"
    using inv by (simp add: db' keys_modify_by f_def events_inv_def)
  moreover have "distinct (map ev_id (events db'))"
    using inv fresh by (auto simp: db' events_inv_def event_clash_def list_ex_iff)
  moreover have "distinct (map node_key (nodes db'))"
    using inv unfolding db' ext_def extendTreeIncremental_def
    by (intro distinct_climb distinct_put_node) (simp add: events_inv_def)
  moreover have "\<forall>e \<in> set (events db'). \<exists>x. ev_leafHash e = sha x"
    using inv leaf by (auto simp: db' events_inv_def)
  ultimately show ?thesis by (simp add: events_inv_def flip: db'_def)
qed

text \<open>What an ingestion can do to the tables.\<close>

lemma ingestEvent_cases [consumes 1]:
  assumes "db' = snd (ingestEvent sha json ledgerRange newId input db)"
  obtains (refused) "db' = db"
  | (duplicate) "db' = db\<lparr>partitions := insert_row (new_partition sha json ledgerRange input) (partitions db)\<rparr>"
    "find_by pt_partitionId (input_partition ledgerRange input) (partitions db) = None"
  | (stored) db1 p row where
    "db1 = db \<or> db1 = db\<lparr>partitions := insert_row (new_partition sha json ledgerRange input) (partitions db)\<rparr> \<and>
      find_by pt_partitionId (input_partition ledgerRange input) (partitions db) = None"
    "find_by pt_partitionId (input_partition ledgerRange input) (partitions db1) = Some p" "pt_status p = OPEN"
    "row = new_event sha json ledgerRange newId (length (partition_events (input_partition ledgerRange input) db1)) input"
    "\<not> list_ex (event_clash row) (events db1)"
    "db' = snd (ingest_finish sha row (db1\<lparr>events := insert_row row (events db1)\<rparr>))"
proof -
  let ?pid = "input_partition ledgerRange input"
  let ?db1 = "db\<lparr>partitions := insert_row (new_partition sha json ledgerRange input) (partitions db)\<rparr>"
  let ?row = "new_event sha json ledgerRange newId (length (partition_events ?pid db)) input"
  have same: "partition_events ?pid ?db1 = partition_events ?pid db" by (simp add: partition_events_def)
  show thesis
  proof (cases "find_by pt_partitionId ?pid (partitions db)")
    case None
    have new: "find_by pt_partitionId ?pid (partitions ?db1) = Some (new_partition sha json ledgerRange input)"
      using None by (simp add: insert_row_def find_by_append new_partition_def)
    show thesis
    proof (cases "list_ex (event_clash ?row) (events db)")
      case True
      with None assms have "db' = ?db1" by (simp add: ingestEvent_def ingest_store_def Let_def)
      with None that(2) show thesis by blast
    next
      case False
      with None assms have "db' = snd (ingest_finish sha ?row (?db1\<lparr>events := insert_row ?row (events db)\<rparr>))"
        by (simp add: ingestEvent_def ingest_store_def Let_def split: prod.split)
      with None new False that(3) [of ?db1 _ ?row] same show thesis by (simp add: new_partition_def)
    qed
  next
    case (Some p)
    show thesis
    proof (cases "pt_status p \<noteq> OPEN \<or> list_ex (event_clash ?row) (events db)")
      case True
      with Some assms have "db' = db" by (auto simp: ingestEvent_def ingest_store_def Let_def)
      then show thesis by (rule that(1))
    next
      case False
      with Some assms have "db' = snd (ingest_finish sha ?row (db\<lparr>events := insert_row ?row (events db)\<rparr>))"
        by (simp add: ingestEvent_def ingest_store_def Let_def split: prod.split)
      with Some False that(3) [of db p ?row] show thesis by simp
    qed
  qed
qed

lemma ingest_inv:
  assumes inv: "events_inv sha db" and db': "db' = snd (ingestEvent sha json ledgerRange newId input db)"
  shows "events_inv sha db'"
  using db'
proof (cases rule: ingestEvent_cases)
  case refused
  then show ?thesis using inv by simp
next
  case duplicate
  then show ?thesis using new_partition_inv [OF inv] by (simp add: new_partition_def)
next
  case (stored db1 p row)
  have "events_inv sha db1"
    using stored(1) inv new_partition_inv [OF inv] by (auto simp: new_partition_def)
  from append_inv [OF this, of row p] stored(2-6) show ?thesis
    by (simp add: new_event_def input_leaf_def computeEventLeafHash_def)
qed

lemma events_step_inv: "events_inv sha db \<Longrightarrow> events_step sha json db db' \<Longrightarrow> events_inv sha db'"
  by (elim events_stepE)
    (auto simp: closeCompletedPartitions_def intro: ingest_inv same_trees_inv closePartition_same close_all_same)

interpretation events_sys: invariant_system events_init "events_step sha json" "events_inv sha" for sha json
proof
  show "events_inv sha db" if "events_init db" for db
    using that by (auto simp: events_init_def events_inv_def partition_ok_def partition_events_def leaves_of_def
        tree_ok_def node_at_def)
qed (rule events_step_inv)

text \<open>C3: Growing the tree leaf by leaf gives the reference tree: after any run, the stored count of a
  partition is the number of its events, and its stored root, the root node and the root rehashed from
  the stored leaves are all the root of the full tree over the leaf hashes in order of arrival.\<close>

theorem incremental_root_is_reference:
  assumes "events_init db0" "(events_step sha json)\<^sup>*\<^sup>* db0 db"
    and "find_by pt_partitionId pid (partitions db) = Some p" "partition_events pid db \<noteq> []"
  shows "pt_eventCount p = length (partition_events pid db) \<and>
    pt_root p = fst (buildFullReferenceMerkleTree sha (map ev_leafHash (partition_events pid db))) \<and>
    getRootFromState pid (pt_eventCount p) (nodes db) = pt_root p \<and>
    recomputeRootFromState sha pid (nodes db) = pt_root p"
proof -
  let ?xs = "leaves_of pid db"
  have inv: "events_inv sha db" using events_sys.inv_reachable [OF assms(1,2)] .
  then have "partition_ok sha pid db" by (simp add: events_inv_def)
  then have ok: "tree_ok sha ?xs pid (nodes db)" "pt_eventCount p = length ?xs"
    "pt_root p = fst (buildFullReferenceMerkleTree sha ?xs)"
    using assms(3,4) by (simp_all add: partition_ok_def leaves_of_def)
  have ne: "?xs \<noteq> []" using assms(4) by (simp add: leaves_of_def)
  have "node_at pid (ceillog2 (length ?xs)) 0 (nodes db) = Some (lev sha (ceillog2 (length ?xs)) ?xs ! 0)"
    by (rule tree_okD [OF ok(1) ne]) (simp_all add: length_lev ne)
  moreover have "recomputeRootFromState sha pid (nodes db) = fst (buildFullReferenceMerkleTree sha ?xs)"
    using inv by (intro recompute_is_reference [OF ok(1) _ ne]) (simp add: events_inv_def)
  ultimately show ?thesis
    using ok(2,3) ne by (simp add: getRootFromState_def root_is_top leaves_of_def)
qed

section \<open>Proofs verify\<close>

lemma getLevelNodeCount_lev: "xs \<noteq> [] \<Longrightarrow> getLevelNodeCount (length xs) l = length (lev sha l xs)"
  by (induction l) (simp_all add: lev_Suc)

lemma lower_lev:
  assumes "hex_digest sha" "\<forall>x \<in> set xs. to_lower x = x" "x \<in> set (lev sha l xs)"
  shows "to_lower x = x"
proof -
  have "\<forall>y \<in> set (pair_level sha ys). to_lower y = y" if "\<forall>y \<in> set ys. to_lower y = y" for ys
    using that assms(1) by (induction sha ys rule: pair_level.induct) auto
  then have "\<forall>y \<in> set (lev sha l xs). to_lower y = y"
    by (induction l) (simp_all add: assms(2) lev_Suc)
  with assms(3) show ?thesis by simp
qed

lemma collect_reaches_root:
  assumes dig: "hex_digest sha" and low: "\<forall>x \<in> set xs. to_lower x = x" and ne: "xs \<noteq> []"
    and ok: "tree_ok sha xs pid nds"
    and "l \<le> ceillog2 (length xs)" "pos < length (lev sha l xs)"
  shows "fold (fold_sibling sha) (collect_siblings pid (length xs) (ceillog2 (length xs)) l pos nds)
      (lev sha l xs ! pos) = lev sha (ceillog2 (length xs)) xs ! 0"
  using assms(5,6)
proof (induction "ceillog2 (length xs) - l" arbitrary: l pos)
  case 0
  then have l: "l = ceillog2 (length xs)" by simp
  have "length xs \<le> 2 ^ l" using ceillog2_le_iff [of "length xs" l] ne l by simp
  then have "(length xs - 1) div 2 ^ l = 0" using ne by (cases xs) simp_all
  then have "pos = 0" using 0 ne by (simp add: length_lev)
  with l show ?case by (subst collect_siblings.simps) simp
next
  case (Suc k)
  let ?D = "ceillog2 (length xs)" and ?lv = "lev sha l xs"
  have l: "l < ?D" using Suc.hyps(2) by simp
  have nxt: "pos div 2 < length (lev sha (Suc l) xs)" using Suc.prems(2) by (simp add: lev_Suc)
  have node: "node_at pid l q nds = Some (?lv ! q)" if "q < length ?lv" for q
    using tree_okD [OF ok ne _ that] l by simp
  have lower: "to_lower (?lv ! q) = ?lv ! q" if "q < length ?lv" for q
    by (rule lower_lev [OF dig low nth_mem [OF that]])
  have IH: "fold (fold_sibling sha) (collect_siblings pid (length xs) ?D (Suc l) (pos div 2) nds)
      (lev sha (Suc l) xs ! (pos div 2)) = lev sha ?D xs ! 0"
    using Suc.hyps l nxt by simp
  consider (left) "odd pos" | (right) "even pos" "pos + 1 < length ?lv" | (promoted) "even pos" "\<not> pos + 1 < length ?lv"
    by blast
  then show ?case
  proof cases
    case left
    then obtain q where pos: "pos = 2 * q + 1" by (elim oddE)
    then have "lev sha (Suc l) xs ! (pos div 2) = hashPair sha (?lv ! (pos - 1)) (?lv ! pos)"
      using nth_lev_Suc [OF nxt] Suc.prems(2) by simp
    with left l Suc.prems(2) node [of "pos - 1"] lower [of "pos - 1"] IH show ?thesis
      by (subst collect_siblings.simps) (simp add: opt_sibling_def fold_sibling_def odd_iff_mod_2_eq_one)
  next
    case right
    then obtain q where pos: "pos = 2 * q" by (elim evenE)
    then have "lev sha (Suc l) xs ! (pos div 2) = hashPair sha (?lv ! pos) (?lv ! (pos + 1))"
      using nth_lev_Suc [OF nxt] right(2) by simp
    with right l node [of "pos + 1"] lower [of "pos + 1"] IH show ?thesis
      by (subst collect_siblings.simps)
        (simp add: opt_sibling_def fold_sibling_def getLevelNodeCount_lev [OF ne, of l sha])
  next
    case promoted
    then obtain q where pos: "pos = 2 * q" by (elim evenE)
    then have "lev sha (Suc l) xs ! (pos div 2) = ?lv ! pos"
      using nth_lev_Suc [OF nxt] promoted(2) by simp
    with promoted l IH show ?thesis
      by (subst collect_siblings.simps) (simp add: getLevelNodeCount_lev [OF ne, of l sha])
  qed
qed

text \<open>A partition that is no longer open keeps its root and stays closed.\<close>

lemma modify_keeps_sealed:
  assumes "find_by pt_partitionId pid pts = Some p" "pt_status p \<noteq> OPEN"
    and "\<And>r. pt_partitionId (f r) = pt_partitionId r" "\<And>r. pt_root (f r) = pt_root r" "\<And>r. pt_status (f r) \<noteq> OPEN"
  shows "\<exists>p'. find_by pt_partitionId pid (modify_by pt_partitionId q f pts) = Some p' \<and>
    pt_status p' \<noteq> OPEN \<and> pt_root p' = pt_root p"
  using assms by (subst find_by_modify_by) (auto simp: assms(3))

lemma publish_keeps_sealed:
  assumes "find_by pt_partitionId pid pts = Some p" "pt_status p \<noteq> OPEN"
  shows "\<exists>p'. find_by pt_partitionId pid (snd (publish_attempts pub now q params maxRetries attempt lastError pts)) = Some p' \<and>
    pt_status p' \<noteq> OPEN \<and> pt_root p' = pt_root p"
  using assms
proof (induction pub now q params maxRetries attempt lastError pts rule: publish_attempts.induct)
  case (1 pub now q params maxRetries attempt lastError pts)
  then show ?case
    by (subst publish_attempts.simps)
      (auto simp: Let_def mark_published_def mark_failed_def split: sum.split intro: modify_keeps_sealed)
qed

lemma close_keeps_sealed:
  assumes "find_by pt_partitionId pid (partitions db) = Some p" "pt_status p \<noteq> OPEN"
  shows "\<exists>p'. find_by pt_partitionId pid (partitions (snd (closePartition pub now maxRetries q db))) = Some p' \<and>
    pt_status p' \<noteq> OPEN \<and> pt_root p' = pt_root p"
proof -
  obtain p1 where p1: "find_by pt_partitionId pid (modify_by pt_partitionId q (mark_closed now) (partitions db)) = Some p1"
    "pt_status p1 \<noteq> OPEN" "pt_root p1 = pt_root p"
    using modify_keeps_sealed [OF assms, of "mark_closed now" q] by (auto simp: mark_closed_def)
  from publish_keeps_sealed [OF p1(1,2)] p1(3) assms show ?thesis
    by (auto simp: closePartition_def publishRootWithRetry_def Let_def split: option.split)
qed

lemma close_all_keeps_sealed:
  assumes "find_by pt_partitionId pid (partitions db) = Some p" "pt_status p \<noteq> OPEN"
  shows "\<exists>p'. find_by pt_partitionId pid (partitions (snd (close_all pub now maxRetries pids db))) = Some p' \<and>
    pt_status p' \<noteq> OPEN \<and> pt_root p' = pt_root p"
  using assms
proof (induction pids arbitrary: db p)
  case (Cons q pids)
  obtain r db1 where c: "closePartition pub now maxRetries q db = (r, db1)" by fastforce
  then obtain p1 where p1: "find_by pt_partitionId pid (partitions db1) = Some p1" "pt_status p1 \<noteq> OPEN"
    "pt_root p1 = pt_root p"
    using close_keeps_sealed [OF Cons.prems, of pub now maxRetries q] by auto
  from Cons.IH [OF p1(1,2)] p1 c show ?case by (auto split: sum.split prod.split)
qed simp

lemma ingest_keeps_sealed:
  assumes p: "find_by pt_partitionId pid (partitions db) = Some p" "pt_status p \<noteq> OPEN"
    and db': "db' = snd (ingestEvent sha json ledgerRange newId input db)"
  shows "\<exists>p'. find_by pt_partitionId pid (partitions db') = Some p' \<and> pt_status p' \<noteq> OPEN \<and> pt_root p' = pt_root p"
  using db'
proof (cases rule: ingestEvent_cases)
  case refused
  then show ?thesis using p by simp
next
  case duplicate
  then show ?thesis using p by (simp add: insert_row_def find_by_append)
next
  case (stored db1 p1 row)
  have p1: "find_by pt_partitionId pid (partitions db1) = Some p"
    using stored(1) p(1) by (auto simp: insert_row_def find_by_append)
  then have "pid \<noteq> ev_partitionId row"
    using stored(2-4) p(2) by (auto simp: new_event_def)
  then show ?thesis
    using p1 p(2) unfolding stored(6)
    by (auto simp: ingest_finish_def Let_def find_by_modify_by split: prod.split)
qed

lemma step_keeps_sealed:
  assumes "events_step sha json db db'" "find_by pt_partitionId pid (partitions db) = Some p" "pt_status p \<noteq> OPEN"
  shows "\<exists>p'. find_by pt_partitionId pid (partitions db') = Some p' \<and> pt_status p' \<noteq> OPEN \<and> pt_root p' = pt_root p"
  using assms(1)
  by (elim events_stepE)
    (auto simp: closeCompletedPartitions_def intro: ingest_keeps_sealed [OF assms(2,3)]
      close_keeps_sealed [OF assms(2,3)] close_all_keeps_sealed [OF assms(2,3)])

lemma steps_keep_sealed:
  assumes "(events_step sha json)\<^sup>*\<^sup>* db db'" "find_by pt_partitionId pid (partitions db) = Some p" "pt_status p \<noteq> OPEN"
  shows "\<exists>p'. find_by pt_partitionId pid (partitions db') = Some p' \<and> pt_status p' \<noteq> OPEN \<and> pt_root p' = pt_root p"
  using assms
proof (induction rule: rtranclp_induct)
  case (step t u)
  then obtain p1 where p1: "find_by pt_partitionId pid (partitions t) = Some p1" "pt_status p1 \<noteq> OPEN" "pt_root p1 = pt_root p"
    by blast
  from step_keeps_sealed [OF step.hyps(2) p1(1,2)] p1(3) show ?case by simp
qed blast

text \<open>C10: Every inclusion proof that is served verifies, against the root served with it and against the
  root its partition has at any later time; no later ingestion or closing invalidates it.\<close>

theorem inclusion_proof_verifies:
  assumes "hex_digest sha" "events_init db0" "(events_step sha json)\<^sup>*\<^sup>* db0 db"
    and "getEventInclusionProof eventId db = Some pr" "(events_step sha json)\<^sup>*\<^sup>* db db'"
  shows "\<exists>p. find_by pt_partitionId (pr_partitionId pr) (partitions db') = Some p \<and> pt_status p \<noteq> OPEN \<and>
    pt_root p = pr_root pr \<and> verifyInclusionProof sha (pr_leafHash pr) (pr_siblings pr) (pt_root p)"
proof -
  obtain e p where e: "find_by ev_id eventId (events db) = Some e"
    and p: "find_by pt_partitionId (ev_partitionId e) (partitions db) = Some p" "pt_status p \<noteq> OPEN"
    and pr: "pr_leafHash pr = ev_leafHash e" "pr_root pr = pt_root p" "pr_partitionId pr = ev_partitionId e"
      "pr_siblings pr = collect_siblings (ev_partitionId e) (pt_eventCount p) (ceillog2 (pt_eventCount p))
        0 (ev_leafIndex e) (nodes db)"
    using assms(4) by (auto simp: getEventInclusionProof_def split: option.splits if_splits)
  let ?es = "partition_events (ev_partitionId e) db" and ?xs = "leaves_of (ev_partitionId e) db"
  have inv: "events_inv sha db" using events_sys.inv_reachable [OF assms(2,3)] .
  then have ok: "partition_ok sha (ev_partitionId e) db" by (simp add: events_inv_def)
  have mem: "e \<in> set ?es" using find_by_SomeD [OF e] by (simp add: partition_events_def)
  then have ne: "?xs \<noteq> []" by (auto simp: leaves_of_def)
  from ok p(1) ne have tree: "tree_ok sha ?xs (ev_partitionId e) (nodes db)" "pt_eventCount p = length ?xs"
    "pt_root p = lev sha (ceillog2 (length ?xs)) ?xs ! 0"
    by (auto simp: partition_ok_def leaves_of_def root_is_top)
  obtain i where i: "i < length ?es" "?es ! i = e" using mem by (auto simp: in_set_conv_nth)
  have "map ev_leafIndex ?es = [0..<length ?es]" using ok by (simp add: partition_ok_def)
  then have "map ev_leafIndex ?es ! i = [0..<length ?es] ! i" by simp
  then have idx: "ev_leafIndex e = i" using i by simp
  have low: "\<forall>x \<in> set ?xs. to_lower x = x"
    using inv assms(1) by (fastforce simp: leaves_of_def partition_events_def events_inv_def)
  have leaf: "i < length ?xs" "?xs ! i = ev_leafHash e" using i by (simp_all add: leaves_of_def)
  then have "to_lower (ev_leafHash e) = ev_leafHash e" using low nth_mem [OF leaf(1)] by simp
  moreover have "fold (fold_sibling sha) (pr_siblings pr) (ev_leafHash e) = pt_root p"
    using collect_reaches_root [OF assms(1) low ne tree(1), of 0 i] leaf by (simp add: pr(4) tree(2,3) idx)
  ultimately have "verifyInclusionProof sha (ev_leafHash e) (pr_siblings pr) (pt_root p)"
    by (simp add: verifyInclusionProof_def)
  with steps_keep_sealed [OF assms(5) p] pr show ?thesis by auto
qed

section \<open>Witnesses\<close>

definition toy_sha :: "string \<Rightarrow> string" where
  "toy_sha x = replicate 64 (digit_char ((length x + (case x of [] \<Rightarrow> 0 | c # _ \<Rightarrow> of_char c)) mod 10))"

lemma toy_sha_digest: "hex_digest toy_sha"
proof -
  have "list_all (\<lambda>d. lower_hex (digit_char d)) [0..<10]" by code_simp
  then have "lower_hex (digit_char (n mod 10))" for n by (simp add: list_all_iff)
  then show ?thesis by (simp add: hex_digest_def toy_sha_def list_all_iff)
qed

definition no_events :: events_db where
  "no_events = \<lparr>events = [], nodes = [], partitions = []\<rparr>"

definition sample_input :: "int \<Rightarrow> string \<Rightarrow> ingest_input" where
  "sample_input ledger tx = \<lparr>in_network = ''n'', in_contractId = ''c'', in_ledger = ledger, in_txHash = tx,
    in_eventIndex = 0, in_topic = ''buy'', in_dataJson = Jstr ''d''\<rparr>"

definition after_first :: events_db where
  "after_first = snd (ingestEvent toy_sha plain_json 10 ''e1'' (sample_input 12 ''x'') no_events)"

definition after_ingests :: events_db where
  "after_ingests = snd (ingestEvent toy_sha plain_json 10 ''e2'' (sample_input 13 ''ty'') after_first)"

definition after_close :: events_db where
  "after_close = snd (closeCompletedPartitions (\<lambda>_ attempt. if attempt = 0 then Inl ''busy'' else Inr ''0xab'') 99 3
    ''n'' ''c'' 25 after_ingests)"

definition after_next :: events_db where
  "after_next = snd (ingestEvent toy_sha plain_json 10 ''e4'' (sample_input 26 ''tw'') after_close)"

lemma sample_fields:
  "in_network (sample_input l t) = ''n''" "in_contractId (sample_input l t) = ''c''" "in_ledger (sample_input l t) = l"
  "in_txHash (sample_input l t) = t" "in_eventIndex (sample_input l t) = 0"
  by (simp_all add: sample_input_def)

lemma sample_partitions:
  "input_partition 10 (sample_input 12 ''x'') = ''n:c:10-19''"
  "input_partition 10 (sample_input 13 ''ty'') = ''n:c:10-19''"
  by code_simp+

lemma first_result:
  "events after_first = [new_event toy_sha plain_json 10 ''e1'' 0 (sample_input 12 ''x'')] \<and>
    (\<exists>r. partitions after_first = [(new_partition toy_sha plain_json 10 (sample_input 12 ''x''))\<lparr>pt_root := r, pt_eventCount := 1\<rparr>])"
  by (simp add: after_first_def ingestEvent_def ingest_store_def ingest_finish_def no_events_def insert_row_def
      partition_events_def modify_by_def new_event_def new_partition_def Let_def split: prod.split)

lemma ingests_result:
  "events after_ingests = [new_event toy_sha plain_json 10 ''e1'' 0 (sample_input 12 ''x''),
      new_event toy_sha plain_json 10 ''e2'' 1 (sample_input 13 ''ty'')] \<and>
    (\<exists>r. partitions after_ingests = [(new_partition toy_sha plain_json 10 (sample_input 12 ''x''))\<lparr>pt_root := r, pt_eventCount := 2\<rparr>])"
proof -
  obtain r where r: "partitions after_first =
      [(new_partition toy_sha plain_json 10 (sample_input 12 ''x''))\<lparr>pt_root := r, pt_eventCount := 1\<rparr>]"
    using first_result by blast
  show ?thesis
    by (simp add: after_ingests_def ingestEvent_def ingest_store_def ingest_finish_def insert_row_def first_result r
        sample_partitions sample_fields event_clash_def
        partition_events_def modify_by_def new_event_def new_partition_def Let_def split: prod.split)
qed

lemma close_result:
  "events after_close = events after_ingests \<and> (\<exists>r. find_by pt_partitionId ''n:c:10-19'' (partitions after_close) =
    Some ((new_partition toy_sha plain_json 10 (sample_input 12 ''x''))\<lparr>pt_root := r, pt_eventCount := 2,
      pt_status := PUBLISHED, pt_closedAt := Some 99, pt_sorobanTxHash := Some ''0xab'', pt_publishedAt := Some 99,
      pt_retryCount := 1\<rparr>))"
proof -
  obtain r where r: "partitions after_ingests =
      [(new_partition toy_sha plain_json 10 (sample_input 12 ''x''))\<lparr>pt_root := r, pt_eventCount := 2\<rparr>]"
    using ingests_result by blast
  show ?thesis
    by (simp add: after_close_def closeCompletedPartitions_def completed_partitions_def closePartition_def r
        new_partition_def sample_fields sample_partitions getPartitionBounds_def publishRootWithRetry_def
        publish_attempts.simps modify_by_def mark_closed_def mark_published_def Let_def)
qed

lemma no_events_init: "events_init no_events"
  by (simp add: events_init_def no_events_def)

lemma ingest_extends_run:
  "(events_step sha json)\<^sup>*\<^sup>* db0 db \<Longrightarrow>
    (events_step sha json)\<^sup>*\<^sup>* db0 (snd (ingestEvent sha json ledgerRange newId input db))"
  by (erule rtranclp.rtrancl_into_rtrancl) (rule events_step.ingest [OF refl])

lemma ingests_run: "(events_step toy_sha plain_json)\<^sup>*\<^sup>* no_events after_ingests"
  unfolding after_ingests_def after_first_def by (intro ingest_extends_run rtranclp.rtrancl_refl)

lemma close_run: "(events_step toy_sha plain_json)\<^sup>*\<^sup>* no_events after_close"
  unfolding after_close_def
  by (rule rtranclp.rtrancl_into_rtrancl [OF ingests_run events_step.close_completed [OF refl]])

lemma next_run: "(events_step toy_sha plain_json)\<^sup>*\<^sup>* after_close after_next"
  unfolding after_next_def by (intro ingest_extends_run rtranclp.rtrancl_refl)

theorem incremental_root_is_reference_witness:
  "\<exists>p. find_by pt_partitionId ''n:c:10-19'' (partitions after_ingests) = Some p \<and> pt_eventCount p = 2 \<and>
    pt_root p = fst (buildFullReferenceMerkleTree toy_sha (map ev_leafHash (partition_events ''n:c:10-19'' after_ingests))) \<and>
    recomputeRootFromState toy_sha ''n:c:10-19'' (nodes after_ingests) = pt_root p"
proof -
  obtain p where p: "find_by pt_partitionId ''n:c:10-19'' (partitions after_ingests) = Some p"
    using ingests_result by (auto simp: new_partition_def sample_partitions)
  have n: "length (partition_events ''n:c:10-19'' after_ingests) = 2"
    using ingests_result by (simp add: partition_events_def new_event_def sample_partitions)
  then have "partition_events ''n:c:10-19'' after_ingests \<noteq> []" by auto
  from incremental_root_is_reference [OF no_events_init ingests_run p this] p n show ?thesis by simp
qed

theorem inclusion_proof_verifies_witness:
  "\<exists>pr p. getEventInclusionProof ''e2'' after_close = Some pr \<and> pr_leafIndex pr = 1 \<and> pr_treeSize pr = 2 \<and>
    find_by pt_partitionId ''n:c:10-19'' (partitions after_next) = Some p \<and> pt_status p \<noteq> OPEN \<and>
    verifyInclusionProof toy_sha (pr_leafHash pr) (pr_siblings pr) (pt_root p)"
proof -
  obtain pr where pr: "getEventInclusionProof ''e2'' after_close = Some pr" "pr_leafIndex pr = 1" "pr_treeSize pr = 2"
    "pr_partitionId pr = ''n:c:10-19''"
    using close_result ingests_result
    by (auto simp: getEventInclusionProof_def new_event_def sample_partitions)
  with inclusion_proof_verifies [OF toy_sha_digest no_events_init close_run pr(1) next_run] show ?thesis
    by auto
qed

text \<open>Overlapping ingestions corrupt the tree: if a second event is stored and finished between the two
  halves of the first, the partition ends with two events, an event count of one and the first leaf as
  its root, and the parent of the two leaves is the hash of the second leaf with itself.\<close>

theorem overlapping_ingests_corrupt_tree:
  "let (ra, db1) = ingest_store sha json 10 ''e1'' (sample_input 12 ''x'') no_events;
       (rb, db2) = ingest_store sha json 10 ''e2'' (sample_input 13 ''ty'') db1;
       db4 = snd (ingest_finish sha (projr ra) (snd (ingest_finish sha (projr rb) db2)));
       pid = input_partition 10 (sample_input 12 ''x'')
   in \<exists>p. find_by pt_partitionId pid (partitions db4) = Some p \<and>
     map ev_leafIndex (partition_events pid db4) = [0, 1] \<and> pt_eventCount p = 1 \<and>
     pt_root p = input_leaf sha json (sample_input 12 ''x'') \<and>
     node_at pid 1 0 (nodes db4) = Some (hashPair sha (input_leaf sha json (sample_input 13 ''ty''))
       (input_leaf sha json (sample_input 13 ''ty'')))"
proof -
  have pid: "input_partition 10 (sample_input 13 ''ty'') = input_partition 10 (sample_input 12 ''x'')"
    by (simp add: input_partition_def getPartitionBounds_def sample_input_def)
  define pid where "pid = input_partition 10 (sample_input 12 ''x'')"
  have two: "ceillog2 (Suc (Suc 0)) = Suc 0" using ceillog2_2 by (simp add: numeral_2_eq_2)
  have empty: "node_at q l k [] = None" for q l k by (simp add: node_at_def)
  have ext0: "extendTreeIncremental sha q 0 h nds = (h, put_node q 0 0 h nds)" for q h nds
    by (simp add: extendTreeIncremental_def climb.simps [of _ _ _ 0])
  have ext1: "extendTreeIncremental sha q (Suc 0) h [] =
      (hashPair sha h h, put_node q (Suc 0) 0 (hashPair sha h h) (put_node q 0 (Suc 0) h []))" for q h
    by (simp add: extendTreeIncremental_def two empty Let_def climb.simps [of _ _ _ 0] climb.simps [of _ _ _ "Suc 0"])
  have flds: "in_txHash (sample_input l t) = t" "in_eventIndex (sample_input l t) = 0" for l t
    by (simp_all add: sample_input_def)
  show ?thesis
    unfolding ingest_store_def pid pid_def [symmetric] Let_def
    by (simp add: no_events_def partition_events_def insert_row_def new_partition_def new_event_def event_clash_def
        pid pid_def [symmetric] flds ingest_finish_def modify_by_def ext0 ext1 Let_def)
qed

end
