(* ===== verification/Chain_Events.thy ===== *)
theory Chain_Events
  imports Js_Values "HOL-Library.Multiset"
begin

text \<open>
  \<open>src/utils/indexer-dedupe.utils.ts\<close> and \<open>src/utils/indexer-event-processor.utils.ts\<close>: deduplication
  of a batch of chain events and its sequential processing, with or without a checkpoint after each
  ledger. A handler changes a state and may throw; the batch stops at the first exception and keeps
  the changes made so far. The log lines are left out.
\<close>

section \<open>Chain events\<close>

text \<open>The typed fields of a chain event, and all its other fields as they came.\<close>

record chain_event =
  ce_txHash :: string
  ce_eventIndex :: int
  ce_ledger :: "int option"
  ce_eventType :: string
  ce_fields :: "(string \<times> js_value) list"

definition getChainEventId :: "chain_event \<Rightarrow> string" where
  "getChainEventId e = ce_txHash e @ '':'' @ show_int (ce_eventIndex e)"

section \<open>Deduplication\<close>

fun dedupe_from :: "string set \<Rightarrow> chain_event list \<Rightarrow> chain_event list" where
  "dedupe_from seen [] = []"
| "dedupe_from seen (e # es) =
    (let key = getChainEventId e
     in if key \<in> seen then dedupe_from seen es else e # dedupe_from (insert key seen) es)"

definition dedupeChainEvents :: "chain_event list \<Rightarrow> chain_event list" where
  "dedupeChainEvents es = dedupe_from {} es"

text \<open>\<open>True\<close> when the event was seen before and is skipped.\<close>

definition guardChainEvent :: "string \<Rightarrow> int \<Rightarrow> string set \<Rightarrow> bool \<times> string set" where
  "guardChainEvent txHash eventIndex seen =
    (let key = txHash @ '':'' @ show_int eventIndex
     in if key \<in> seen then (True, seen) else (False, insert key seen))"

section \<open>Processing a batch\<close>

type_synonym ('e, 's) handler = "chain_event \<Rightarrow> 's \<Rightarrow> ('e + unit) \<times> 's"

primrec run_events :: "('e, 's) handler \<Rightarrow> chain_event list \<Rightarrow> 's \<Rightarrow> ('e + unit) \<times> 's" where
  "run_events handler [] s = (Inr (), s)"
| "run_events handler (e # es) s =
    (case handler e s of (Inl err, s1) \<Rightarrow> (Inl err, s1) | (Inr _, s1) \<Rightarrow> run_events handler es s1)"

definition processIndexerChainEvents ::
  "('e, 's) handler \<Rightarrow> chain_event list \<Rightarrow> 's \<Rightarrow> ('e + unit) \<times> 's" where
  "processIndexerChainEvents handler es s = run_events handler (dedupeChainEvents es) s"

section \<open>Processing with checkpoints\<close>

text \<open>The callback after a ledger: its number, the last event index and the event ids.\<close>

type_synonym ('e, 's) on_ledger = "int \<Rightarrow> int \<Rightarrow> string list \<Rightarrow> 's \<Rightarrow> ('e + unit) \<times> 's"

text \<open>The map from ledgers to their events, in insertion order of the ledgers.\<close>

definition push_group :: "int \<Rightarrow> chain_event \<Rightarrow> (int \<times> chain_event list) list \<Rightarrow> (int \<times> chain_event list) list" where
  "push_group l e groups =
    (if l \<in> fst ` set groups then map (\<lambda>(k, es). if k = l then (k, es @ [e]) else (k, es)) groups
     else groups @ [(l, [e])])"

fun group_events ::
  "chain_event list \<Rightarrow> (int \<times> chain_event list) list \<times> chain_event list \<Rightarrow> (int \<times> chain_event list) list \<times> chain_event list" where
  "group_events [] acc = acc"
| "group_events (e # es) (byLedger, noLedger) =
    (case ce_ledger e of
      Some l \<Rightarrow> group_events es (push_group l e byLedger, noLedger)
    | None \<Rightarrow> group_events es (byLedger, noLedger @ [e]))"

primrec run_ledgers ::
  "('e, 's) handler \<Rightarrow> ('e, 's) on_ledger \<Rightarrow> (int \<times> chain_event list) list \<Rightarrow> 's \<Rightarrow> ('e + unit) \<times> 's" where
  "run_ledgers handler onLedgerComplete [] s = (Inr (), s)"
| "run_ledgers handler onLedgerComplete (g # gs) s =
    (case run_events handler (snd g) s of
      (Inl err, s1) \<Rightarrow> (Inl err, s1)
    | (Inr _, s1) \<Rightarrow>
        (case onLedgerComplete (fst g) (ce_eventIndex (last (snd g))) (map getChainEventId (snd g)) s1 of
          (Inl err, s2) \<Rightarrow> (Inl err, s2)
        | (Inr _, s2) \<Rightarrow> run_ledgers handler onLedgerComplete gs s2))"

definition processIndexerChainEventsWithCheckpointing ::
  "('e, 's) handler \<Rightarrow> ('e, 's) on_ledger \<Rightarrow> chain_event list \<Rightarrow> 's \<Rightarrow> ('e + unit) \<times> 's" where
  "processIndexerChainEventsWithCheckpointing handler onLedgerComplete es s =
    (let (byLedger, noLedger) = group_events (dedupeChainEvents es) ([], [])
     in case run_events handler noLedger s of
          (Inl err, s1) \<Rightarrow> (Inl err, s1)
        | (Inr _, s1) \<Rightarrow> run_ledgers handler onLedgerComplete (sort_key fst byLedger) s1)"

section \<open>The plan of a batch\<close>

text \<open>
  The specification: a list of actions, executed in order until one throws. The events without a
  ledger come first, then the ledgers in ascending order, each with its events in order of arrival
  and its checkpoint.
\<close>

datatype action = Handle chain_event | Complete int int "string list"

primrec execute_plan ::
  "('e, 's) handler \<Rightarrow> ('e, 's) on_ledger \<Rightarrow> action list \<Rightarrow> 's \<Rightarrow> ('e + unit) \<times> 's" where
  "execute_plan handler onLedgerComplete [] s = (Inr (), s)"
| "execute_plan handler onLedgerComplete (a # acts) s =
    (case (case a of Handle e \<Rightarrow> handler e s | Complete l i ids \<Rightarrow> onLedgerComplete l i ids s) of
      (Inl err, s1) \<Rightarrow> (Inl err, s1)
    | (Inr _, s1) \<Rightarrow> execute_plan handler onLedgerComplete acts s1)"

definition ledgers_of :: "chain_event list \<Rightarrow> int list" where
  "ledgers_of es = sorted_list_of_set (the ` ce_ledger ` {e \<in> set es. ce_ledger e \<noteq> None})"

definition of_ledger :: "int \<Rightarrow> chain_event list \<Rightarrow> chain_event list" where
  "of_ledger l es = filter (\<lambda>e. ce_ledger e = Some l) es"

definition ledger_plan :: "chain_event list \<Rightarrow> action list" where
  "ledger_plan es =
    map Handle (filter (\<lambda>e. ce_ledger e = None) es) @
    concat (map (\<lambda>l. map Handle (of_ledger l es) @
      [Complete l (ce_eventIndex (last (of_ledger l es))) (map getChainEventId (of_ledger l es))]) (ledgers_of es))"

definition handled :: "action list \<Rightarrow> chain_event list" where
  "handled acts = concat (map (\<lambda>a. case a of Handle e \<Rightarrow> [e] | _ \<Rightarrow> []) acts)"

definition completed :: "action list \<Rightarrow> int list" where
  "completed acts = concat (map (\<lambda>a. case a of Complete l _ _ \<Rightarrow> [l] | _ \<Rightarrow> []) acts)"

lemma execute_append:
  "execute_plan h c (as @ bs) s =
    (case execute_plan h c as s of (Inl err, s1) \<Rightarrow> (Inl err, s1) | (Inr _, s1) \<Rightarrow> execute_plan h c bs s1)"
  by (induction as arbitrary: s) (auto split: sum.split prod.split)

lemma execute_handles: "execute_plan h c (map Handle es) s = run_events h es s"
  by (induction es arbitrary: s) (auto split: sum.split prod.split)

lemma execute_ledgers:
  "execute_plan h c (concat (map (\<lambda>g. map Handle (snd g) @
      [Complete (fst g) (ce_eventIndex (last (snd g))) (map getChainEventId (snd g))]) gs)) s = run_ledgers h c gs s"
  by (induction gs arbitrary: s) (auto simp: execute_append execute_handles split: sum.split prod.split)

section \<open>Grouping\<close>

definition groups_ok :: "chain_event list \<Rightarrow> (int \<times> chain_event list) list \<Rightarrow> bool" where
  "groups_ok es gs \<longleftrightarrow> distinct (map fst gs) \<and> fst ` set gs = the ` ce_ledger ` {e \<in> set es. ce_ledger e \<noteq> None} \<and>
    (\<forall>g \<in> set gs. snd g = of_ledger (fst g) es)"

lemma map_fst_push: "map fst (push_group l e gs) = (if l \<in> fst ` set gs then map fst gs else map fst gs @ [l])"
  by (auto simp: push_group_def comp_def split_beta)

lemma push_group_ok:
  assumes ok: "groups_ok es gs" and l: "ce_ledger e = Some l"
  shows "groups_ok (es @ [e]) (push_group l e gs)"
proof -
  have keys: "fst ` set (push_group l e gs) = insert l (fst ` set gs)"
    using map_fst_push [of l e gs] by (metis (no_types, lifting) image_set insert_absorb list.set_map
      list.simps(15) rotate1.simps(2) set_rotate1)
  have "snd g = of_ledger (fst g) (es @ [e])" if g: "g \<in> set (push_group l e gs)" for g
  proof (cases "l \<in> fst ` set gs")
    case True
    with g obtain k xs where "(k, xs) \<in> set gs" "g = (k, if k = l then xs @ [e] else xs)"
      by (auto simp: push_group_def)
    with ok l show ?thesis by (auto simp: groups_ok_def of_ledger_def)
  next
    case False
    with ok have none: "of_ledger l es = []"
      by (force simp: groups_ok_def of_ledger_def filter_empty_conv image_iff)
    from False g have "g \<in> set gs \<or> g = (l, [e])" by (auto simp: push_group_def)
    with False ok l none show ?thesis by (force simp: groups_ok_def of_ledger_def)
  qed
  moreover have "distinct (map fst (push_group l e gs))"
    using ok by (auto simp: map_fst_push groups_ok_def)
  moreover have "insert l (the ` ce_ledger ` {e \<in> set es. ce_ledger e \<noteq> None}) =
      the ` ce_ledger ` {e' \<in> set (es @ [e]). ce_ledger e' \<noteq> None}"
    using l by force
  ultimately show ?thesis using ok keys by (simp add: groups_ok_def)
qed

lemma groups_ok_no_ledger: "groups_ok es gs \<Longrightarrow> ce_ledger e = None \<Longrightarrow> groups_ok (es @ [e]) gs"
  by (auto simp: groups_ok_def of_ledger_def conj_disj_distribR Collect_disj_eq)

lemma group_events_ok:
  "groups_ok pre gs \<Longrightarrow>
    groups_ok (pre @ es) (fst (group_events es (gs, nl))) \<and>
    snd (group_events es (gs, nl)) = nl @ filter (\<lambda>e. ce_ledger e = None) es"
proof (induction es arbitrary: pre gs nl)
  case (Cons e es)
  show ?case
  proof (cases "ce_ledger e")
    case None
    with Cons.IH [OF groups_ok_no_ledger [OF Cons.prems None], of "nl @ [e]"] show ?thesis by simp
  next
    case (Some l)
    with Cons.IH [OF push_group_ok [OF Cons.prems Some], of nl] show ?thesis by simp
  qed
qed simp

lemma sorted_groups:
  assumes "groups_ok es gs"
  shows "sort_key fst gs = map (\<lambda>l. (l, of_ledger l es)) (ledgers_of es)"
proof -
  have "map fst (sort_key fst gs) = ledgers_of es"
    unfolding ledgers_of_def
    by (rule sorted_distinct_set_unique) (use assms in \<open>auto simp: groups_ok_def distinct_map\<close>)
  moreover have "sort_key fst gs = map (\<lambda>g. (fst g, of_ledger (fst g) es)) (sort_key fst gs)"
    using assms by (intro map_idI [symmetric]) (auto simp: groups_ok_def prod_eq_iff)
  then have "sort_key fst gs = map (\<lambda>l. (l, of_ledger l es)) (map fst (sort_key fst gs))" by (simp add: comp_def)
  ultimately show ?thesis by simp
qed

section \<open>The batch executes its plan\<close>

lemma dedupe_from_ids:
  "distinct (map getChainEventId (dedupe_from seen es)) \<and>
    getChainEventId ` set (dedupe_from seen es) = getChainEventId ` set es - seen"
  by (induction es arbitrary: seen) (auto simp: Let_def)

lemma dedupe_ids:
  "distinct (map getChainEventId (dedupeChainEvents es))"
  "getChainEventId ` set (dedupeChainEvents es) = getChainEventId ` set es"
  using dedupe_from_ids [of "{}" es] by (simp_all add: dedupeChainEvents_def)

lemma handled_append [simp]: "handled (as @ bs) = handled as @ handled bs"
  by (simp add: handled_def)

lemma completed_append [simp]: "completed (as @ bs) = completed as @ completed bs"
  by (simp add: completed_def)

lemma handled_simps [simp]:
  "handled [] = []" "handled (Handle e # acts) = e # handled acts" "handled (Complete l i ids # acts) = handled acts"
  by (simp_all add: handled_def)

lemma completed_simps [simp]:
  "completed [] = []" "completed (Handle e # acts) = completed acts" "completed (Complete l i ids # acts) = l # completed acts"
  by (simp_all add: completed_def)

lemma plan_of_events [simp]: "handled (map Handle es) = es" "completed (map Handle es) = []"
  by (induction es) simp_all

lemma handled_groups:
  "handled (concat (map (\<lambda>l. map Handle (g l) @ [Complete l (i l) (ids l)]) ls)) = concat (map g ls)"
  "completed (concat (map (\<lambda>l. map Handle (g l) @ [Complete l (i l) (ids l)]) ls)) = ls"
  by (induction ls) simp_all

lemma mset_of_ledgers:
  "distinct ls \<Longrightarrow>
    mset (concat (map (\<lambda>l. of_ledger l es) ls)) = filter_mset (\<lambda>e. ce_ledger e \<in> Some ` set ls) (mset es)"
proof (induction ls)
  case (Cons l ls)
  then have "filter_mset (\<lambda>e. ce_ledger e \<in> Some ` set (l # ls)) (mset es) =
      filter_mset (\<lambda>e. ce_ledger e = Some l) (mset es) + filter_mset (\<lambda>e. ce_ledger e \<in> Some ` set ls) (mset es)"
    by (intro multiset_eqI) auto
  with Cons show ?case by (simp add: of_ledger_def)
qed simp

lemma set_ledgers_of: "set (ledgers_of es) = the ` ce_ledger ` {e \<in> set es. ce_ledger e \<noteq> None}"
  by (simp add: ledgers_of_def)

lemma plan_handles_all: "mset (handled (ledger_plan es)) = mset es"
proof -
  have "ce_ledger e \<in> Some ` set (ledgers_of es) \<longleftrightarrow> ce_ledger e \<noteq> None" if "e \<in> set es" for e
    using that unfolding set_ledgers_of by (auto simp: image_iff)
  then have "filter_mset (\<lambda>e. ce_ledger e \<in> Some ` set (ledgers_of es)) (mset es) =
      filter_mset (\<lambda>e. \<not> ce_ledger e = None) (mset es)"
    by (intro filter_mset_cong) auto
  moreover have "distinct (ledgers_of es)" by (simp add: ledgers_of_def)
  ultimately show ?thesis
    by (simp add: ledger_plan_def handled_groups mset_of_ledgers del: not_None_eq)
qed

text \<open>C20: A batch with checkpoints executes the plan of its unique events: every distinct event is handled
  exactly once, the ledgers are completed in ascending order, and an exception stops the batch there,
  so no ledger is completed before all its events have been handled.\<close>

theorem checkpointed_batch_refines_plan:
  "processIndexerChainEventsWithCheckpointing handler onLedgerComplete es s =
      execute_plan handler onLedgerComplete (ledger_plan (dedupeChainEvents es)) s \<and>
    mset (handled (ledger_plan (dedupeChainEvents es))) = mset (dedupeChainEvents es) \<and>
    distinct (map getChainEventId (handled (ledger_plan (dedupeChainEvents es)))) \<and>
    getChainEventId ` set (handled (ledger_plan (dedupeChainEvents es))) = getChainEventId ` set es \<and>
    completed (ledger_plan (dedupeChainEvents es)) = ledgers_of (dedupeChainEvents es)"
proof -
  let ?u = "dedupeChainEvents es"
  obtain gs nl where g: "group_events ?u ([], []) = (gs, nl)" by fastforce
  have "groups_ok [] []" by (simp add: groups_ok_def)
  from group_events_ok [OF this, of ?u "[]"] g
  have gs: "groups_ok ?u gs" and nl: "nl = filter (\<lambda>e. ce_ledger e = None) ?u" by simp_all
  have "run_ledgers handler onLedgerComplete (sort_key fst gs) s' =
      execute_plan handler onLedgerComplete (concat (map (\<lambda>l. map Handle (of_ledger l ?u) @
        [Complete l (ce_eventIndex (last (of_ledger l ?u))) (map getChainEventId (of_ledger l ?u))]) (ledgers_of ?u))) s'" for s'
    unfolding sorted_groups [OF gs] execute_ledgers [symmetric] by (simp add: comp_def)
  then have "processIndexerChainEventsWithCheckpointing handler onLedgerComplete es s =
      execute_plan handler onLedgerComplete (ledger_plan ?u) s"
    by (auto simp: processIndexerChainEventsWithCheckpointing_def g nl ledger_plan_def execute_append execute_handles
        split: sum.split prod.split)
  moreover have all: "mset (handled (ledger_plan ?u)) = mset ?u" by (rule plan_handles_all)
  moreover have "distinct (map getChainEventId (handled (ledger_plan ?u)))"
    using dedupe_ids(1) [of es] all by (metis mset_eq_imp_distinct_iff mset_map)
  moreover have "getChainEventId ` set (handled (ledger_plan ?u)) = getChainEventId ` set es"
    using dedupe_ids(2) [of es] all by (metis set_mset_mset)
  moreover have "completed (ledger_plan ?u) = ledgers_of ?u"
    by (simp add: ledger_plan_def handled_groups)
  ultimately show ?thesis by simp
qed

end
