(* ===== verification/Ledger.thy ===== *)
theory Ledger
  imports Chain_Events Merkle
begin

text \<open>
  \<open>src/modules/indexer/ledger-checkpoint.service.ts\<close> and
  \<open>src/modules/indexer/ledger-gap-detection.service.ts\<close>: the per-ledger checkpoints with their batch
  hashes, the resume point, and the single row that holds the indexer's cursor.

  A database write that races a timer has three outcomes, given as an argument; on a timeout the write
  may still land.
\<close>

section \<open>Checkpoints\<close>

record checkpoint =
  cp_ledger :: int
  cp_ledgerHash :: "string option"
  cp_previousLedgerHash :: "string option"
  cp_lastProcessedEventIndex :: int
  cp_batchHash :: string
  cp_completedAt :: instant

datatype db_write = Written | Write_failed | Timed_out bool

definition join_lines :: "string list \<Rightarrow> string" where
  "join_lines parts = (case parts of [] \<Rightarrow> [] | p # ps \<Rightarrow> p @ concat (map (\<lambda>q. CHR 0x0A # q) ps))"

definition computeBatchHash :: "(string \<Rightarrow> string) \<Rightarrow> string list \<Rightarrow> string" where
  "computeBatchHash sha eventIds = sha (join_lines (sort eventIds))"

lemma computeBatchHash_perm: "mset xs = mset ys \<Longrightarrow> computeBatchHash sha xs = computeBatchHash sha ys"
  by (metis computeBatchHash_def sorted_list_of_multiset_mset)

definition upsert_checkpoint :: "instant \<Rightarrow> int \<Rightarrow> int \<Rightarrow> string \<Rightarrow> checkpoint list \<Rightarrow> checkpoint list" where
  "upsert_checkpoint now ledger lastIndex batchHash cps =
    upsert_by cp_ledger ledger
      (\<lambda>c. c\<lparr>cp_lastProcessedEventIndex := lastIndex, cp_batchHash := batchHash, cp_completedAt := now\<rparr>)
      \<lparr>cp_ledger = ledger, cp_ledgerHash = None, cp_previousLedgerHash = None,
       cp_lastProcessedEventIndex = lastIndex, cp_batchHash = batchHash, cp_completedAt = now\<rparr> cps"

definition writeCheckpoint ::
  "db_write \<Rightarrow> instant \<Rightarrow> int \<Rightarrow> int \<Rightarrow> string \<Rightarrow> checkpoint list \<Rightarrow> checkpoint option \<times> checkpoint list" where
  "writeCheckpoint outcome now ledger lastIndex batchHash cps =
    (let cps' = upsert_checkpoint now ledger lastIndex batchHash cps
     in case outcome of
          Written \<Rightarrow> (find_by cp_ledger ledger cps', cps')
        | Write_failed \<Rightarrow> (None, cps)
        | Timed_out landed \<Rightarrow> (None, if landed then cps' else cps))"

text \<open>\<open>findFirst\<close> in descending order of the ledger.\<close>

fun readLatestCheckpoint :: "checkpoint list \<Rightarrow> checkpoint option" where
  "readLatestCheckpoint [] = None"
| "readLatestCheckpoint (c # cs) =
    (case readLatestCheckpoint cs of
      None \<Rightarrow> Some c
    | Some d \<Rightarrow> Some (if cp_ledger d \<le> cp_ledger c then c else d))"

definition readCheckpoint :: "int \<Rightarrow> checkpoint list \<Rightarrow> checkpoint option" where
  "readCheckpoint ledger cps = find_by cp_ledger ledger cps"

record integrity =
  valid :: bool
  needsReprocess :: bool

definition validateBatchIntegrity :: "int \<Rightarrow> string \<Rightarrow> checkpoint list \<Rightarrow> integrity" where
  "validateBatchIntegrity ledger incomingBatchHash cps =
    (case readCheckpoint ledger cps of
      None \<Rightarrow> \<lparr>valid = True, needsReprocess = False\<rparr>
    | Some existing \<Rightarrow>
        if cp_batchHash existing = incomingBatchHash then \<lparr>valid = True, needsReprocess = False\<rparr>
        else \<lparr>valid = False, needsReprocess = True\<rparr>)"

definition getResumePoint :: "checkpoint list \<Rightarrow> int" where
  "getResumePoint cps = (case readLatestCheckpoint cps of None \<Rightarrow> 0 | Some c \<Rightarrow> cp_ledger c + 1)"

lemma readLatestCheckpoint_max:
  "readLatestCheckpoint cps = Some c \<Longrightarrow> c \<in> set cps \<and> (\<forall>d \<in> set cps. cp_ledger d \<le> cp_ledger c)"
proof (induction cps arbitrary: c)
  case (Cons d ds)
  show ?case
  proof (cases "readLatestCheckpoint ds")
    case None
    then have "ds = []" by (cases ds) (auto split: option.splits)
    with None Cons.prems show ?thesis by simp
  next
    case (Some e)
    with Cons show ?thesis by (auto split: if_splits)
  qed
qed simp

lemma readLatestCheckpoint_None [simp]: "readLatestCheckpoint cps = None \<longleftrightarrow> cps = []"
  by (cases cps) (auto split: option.split)

lemma resume_point_is_past_all: "c \<in> set cps \<Longrightarrow> cp_ledger c < getResumePoint cps"
  using readLatestCheckpoint_max [of cps]
  by (cases "readLatestCheckpoint cps") (auto simp: getResumePoint_def)

text \<open>A replay of the same events, in any order, passes the integrity check.\<close>

lemma replay_is_valid:
  assumes "mset ids' = mset ids"
  shows "valid (validateBatchIntegrity ledger (computeBatchHash sha ids')
    (snd (writeCheckpoint Written now ledger i (computeBatchHash sha ids) cps)))"
  using computeBatchHash_perm [OF assms, of sha]
  by (auto simp: validateBatchIntegrity_def readCheckpoint_def writeCheckpoint_def upsert_checkpoint_def Let_def
      find_by_upsert split: option.split)

section \<open>The cursor of the indexer\<close>

text \<open>The row with id 1 of \<open>indexed_ledgers\<close>. A write that fails is logged and leaves it as it was.\<close>

record indexed_ledger =
  il_ledger :: int
  il_cursor :: string

definition updateIndexedLedger :: "bool \<Rightarrow> int \<Rightarrow> string \<Rightarrow> indexed_ledger option \<Rightarrow> indexed_ledger option" where
  "updateIndexedLedger writeOk ledger cursor row =
    (if writeOk then Some \<lparr>il_ledger = ledger, il_cursor = cursor\<rparr> else row)"

definition fetchStellarNetworkHead :: int where
  "fetchStellarNetworkHead = 12400"

record ledger_gap =
  detected :: bool
  lastProcessed :: int
  currentNetworkHead :: int
  gapSize :: int
  gapRange :: "(int \<times> int) option"

definition detectLedgerGap :: "indexed_ledger option \<Rightarrow> ledger_gap" where
  "detectLedgerGap row =
    (case row of
      None \<Rightarrow> \<lparr>detected = False, lastProcessed = 0, currentNetworkHead = 0, gapSize = 0, gapRange = None\<rparr>
    | Some r \<Rightarrow>
        let networkHead = fetchStellarNetworkHead; gap = networkHead - il_ledger r
        in if gap > 50
           then \<lparr>detected = True, lastProcessed = il_ledger r, currentNetworkHead = networkHead, gapSize = gap,
             gapRange = Some (il_ledger r + 1, networkHead)\<rparr>
           else \<lparr>detected = False, lastProcessed = il_ledger r, currentNetworkHead = networkHead, gapSize = gap,
             gapRange = None\<rparr>)"

lemma detected_gap_covers_missing:
  assumes "gapRange (detectLedgerGap (Some r)) = Some (a, b)"
  shows "{a..b} = {il_ledger r <.. fetchStellarNetworkHead} \<and> int (card {a..b}) = gapSize (detectLedgerGap (Some r))"
  using assms by (auto simp: detectLedgerGap_def Let_def split: if_splits)

end
