(* ===== verification/Raw_Events.thy ===== *)
theory Raw_Events
  imports Chain_Events Merkle Js_Double
begin

text \<open>
  How the indexers of \<open>src/modules/indexer\<close> read contract events that came as JSON: the conversions
  \<open>String(v)\<close> and \<open>Number(v)\<close>, a field under several spellings, and dates.

  Arguments stand for printing a number, \<open>Number(text)\<close> and \<open>Date.parse\<close> (\<open>js_text_lib\<close>). A date is an
  instant or \<open>None\<close> for an invalid \<open>Date\<close>, which the database rejects. Fields holding \<open>Date\<close> objects do
  not occur in events that came as JSON and are left out.
\<close>

section \<open>Reading raw events\<close>

record js_text_lib =
  num_text :: "js_num \<Rightarrow> string"
  parse_num :: "string \<Rightarrow> js_num"
  parse_date :: "string \<Rightarrow> instant option"

type_synonym raw_event = "(string \<times> js_value) list"

text \<open>The conversion \<open>String(v)\<close>.\<close>

fun js_text :: "js_text_lib \<Rightarrow> js_value \<Rightarrow> string" where
  "js_text lib Jundefined = ''undefined''"
| "js_text lib Jnull = ''null''"
| "js_text lib (Jbool b) = (if b then ''true'' else ''false'')"
| "js_text lib (Jnum n) = num_text lib n"
| "js_text lib (Jstr s) = s"
| "js_text lib (Jarr vs) = join_comma (map (\<lambda>v. if v = Jundefined \<or> v = Jnull then [] else js_text lib v) vs)"
| "js_text lib (Jobj _) = ''[object Object]''"

text \<open>The conversion \<open>Number(v)\<close>.\<close>

fun to_number :: "js_text_lib \<Rightarrow> js_value \<Rightarrow> js_num" where
  "to_number lib Jundefined = NaN"
| "to_number lib Jnull = Fin 0"
| "to_number lib (Jbool b) = Fin (if b then 1 else 0)"
| "to_number lib (Jnum n) = n"
| "to_number lib v = parse_num lib (js_text lib v)"

text \<open>\<open>a || b || ...\<close> and \<open>a ?? b ?? ...\<close> over the named fields; \<open>undefined\<close> when there are none.\<close>

fun first_truthy :: "raw_event \<Rightarrow> string list \<Rightarrow> js_value" where
  "first_truthy event [] = Jundefined"
| "first_truthy event (f # fs) = (if truthy (js_field f event) then js_field f event else first_truthy event fs)"

fun first_defined :: "raw_event \<Rightarrow> string list \<Rightarrow> js_value" where
  "first_defined event [] = Jundefined"
| "first_defined event (f # fs) =
    (if js_field f event = Jundefined \<or> js_field f event = Jnull then first_defined event fs else js_field f event)"

text \<open>\<open>String(event.a || event.b || ... || '').trim()\<close>.\<close>

definition text_field :: "js_text_lib \<Rightarrow> raw_event \<Rightarrow> string list \<Rightarrow> string" where
  "text_field lib event names =
    trim (let v = first_truthy event names in if truthy v then js_text lib v else [])"

definition amount_field :: "js_text_lib \<Rightarrow> raw_event \<Rightarrow> string list \<Rightarrow> string" where
  "amount_field lib event names =
    (let v = first_defined event names
     in if v \<noteq> Jundefined \<and> v \<noteq> Jnull then trim (js_text lib v) else [])"

definition ledger_field :: "js_text_lib \<Rightarrow> raw_event \<Rightarrow> js_num" where
  "ledger_field lib event = to_number lib (js_field ''ledger'' event)"

definition event_index_field :: "js_text_lib \<Rightarrow> raw_event \<Rightarrow> js_num" where
  "event_index_field lib event =
    (case js_field ''eventIndex'' event of
      Jnum n \<Rightarrow> n
    | _ \<Rightarrow> (let n = to_number lib (js_field ''event_index'' event) in if truthy (Jnum n) then n else Fin 0))"

section \<open>Dates\<close>

definition time_clip :: "rat \<Rightarrow> instant option" where
  "time_clip q = (if \<bar>q\<bar> \<le> 8640000000000000 then Some (if 0 \<le> q then \<lfloor>q\<rfloor> else \<lceil>q\<rceil>) else None)"

fun date_of_num :: "js_num \<Rightarrow> instant option" where
  "date_of_num (Fin q) = time_clip q"
| "date_of_num _ = None"

definition seconds_or_millis :: "js_num \<Rightarrow> instant option" where
  "seconds_or_millis n =
    (case n of
      Fin q \<Rightarrow> if q < 10000000000 then time_clip (fl (q * 1000)) else time_clip q
    | _ \<Rightarrow> None)"

definition parseTimestamp :: "js_text_lib \<Rightarrow> js_value \<Rightarrow> instant option \<Rightarrow> instant option" where
  "parseTimestamp lib raw fallback =
    (if \<not> truthy raw then fallback
     else case raw of
       Jnum n \<Rightarrow> seconds_or_millis n
     | Jbool _ \<Rightarrow> Some 1
     | _ \<Rightarrow> (case parse_date lib (js_text lib raw) of Some d \<Rightarrow> Some d | None \<Rightarrow> fallback))"

text \<open>An instant a number of seconds after a date; invalid when the date is.\<close>

definition after_millis :: "instant option \<Rightarrow> rat \<Rightarrow> instant option" where
  "after_millis d ms = (case d of None \<Rightarrow> None | Some t \<Rightarrow> time_clip (fl (of_int t + ms)))"

text \<open>A chain event as the object the handlers read.\<close>

definition raw_of :: "chain_event \<Rightarrow> raw_event" where
  "raw_of e =
    [(''txHash'', Jstr (ce_txHash e)), (''eventIndex'', Jnum (Fin (of_int (ce_eventIndex e)))),
     (''eventType'', Jstr (ce_eventType e))] @
    (case ce_ledger e of Some l \<Rightarrow> [(''ledger'', Jnum (Fin (of_int l)))] | None \<Rightarrow> []) @ ce_fields e"

section \<open>BigInt and Date of a raw value\<close>

text \<open>\<open>BigInt(v)\<close>; \<open>None\<close> where it throws.\<close>

fun to_bigint :: "js_text_lib \<Rightarrow> js_value \<Rightarrow> int option" where
  "to_bigint lib (Jbool b) = Some (if b then 1 else 0)"
| "to_bigint lib (Jnum n) = (if is_integer_num n then Some (num_to_int n) else None)"
| "to_bigint lib (Jstr s) = read_int s"
| "to_bigint lib (Jarr vs) = read_int (js_text lib (Jarr vs))"
| "to_bigint lib v = None"

text \<open>\<open>new Date(v)\<close>; \<open>None\<close> is an invalid date.\<close>

fun new_date :: "js_text_lib \<Rightarrow> js_value \<Rightarrow> instant option" where
  "new_date lib Jundefined = None"
| "new_date lib Jnull = Some 0"
| "new_date lib (Jbool b) = Some (if b then 1 else 0)"
| "new_date lib (Jnum n) = date_of_num n"
| "new_date lib v = parse_date lib (js_text lib v)"

text \<open>\<open>typeof v === 'number' ? v : Number(v)\<close>.\<close>

definition number_or_convert :: "js_text_lib \<Rightarrow> js_value \<Rightarrow> js_num" where
  "number_or_convert lib v = (case v of Jnum n \<Rightarrow> n | _ \<Rightarrow> to_number lib v)"

text \<open>Products as numbers.\<close>

fun js_times :: "js_num \<Rightarrow> js_num \<Rightarrow> js_num" where
  "js_times (Fin a) (Fin b) = Fin (fl (a * b))"
| "js_times NaN _ = NaN"
| "js_times _ NaN = NaN"
| "js_times (Infinite s) (Fin b) = (if b = 0 then NaN else Infinite (s = (0 < b)))"
| "js_times (Fin a) (Infinite s) = (if a = 0 then NaN else Infinite (s = (0 < a)))"
| "js_times (Infinite s) (Infinite t) = Infinite (s = t)"

end
