(* ===== verification/Swaps.thy ===== *)
theory Swaps
  imports Ledger Raw_Events
begin

text \<open>
  \<open>src/modules/indexer/atomic-swap-indexer.service.ts\<close>: the indexer of atomic swaps. Raw contract events
  are normalised from many spellings of their fields, proposals are recorded once, executions and
  cancellations update the row or leave a placeholder, and pending swaps expire.

  The current time is an argument; the conversions of raw fields are those of \<open>Raw_Events\<close>.
\<close>

section \<open>Expiry dates\<close>

definition DEFAULT_SWAP_EXPIRY_MS :: int where
  "DEFAULT_SWAP_EXPIRY_MS = 60 * 60 * 1000"

definition expiry_date :: "js_text_lib \<Rightarrow> raw_event \<Rightarrow> instant option \<Rightarrow> instant option" where
  "expiry_date lib event proposedAt =
    (let rawExpiry = first_truthy event [''expiresAt'', ''expires_at'', ''expiry'', ''duration''];
         standard = after_millis proposedAt (of_int DEFAULT_SWAP_EXPIRY_MS)
     in case rawExpiry of
          Jnum (Fin q) \<Rightarrow>
            if q \<le> 86400 * 365 then after_millis proposedAt (fl (q * 1000))
            else if q < 10000000000 then time_clip (fl (q * 1000))
            else time_clip q
        | Jnum _ \<Rightarrow> None
        | _ \<Rightarrow> if truthy rawExpiry then parseTimestamp lib rawExpiry standard else standard)"

section \<open>Normalisation\<close>

record swap_proposed =
  np_swapId :: string
  np_proposer :: string
  np_counterparty :: string
  np_offeredKey :: string
  np_offeredAmount :: string
  np_requestedKey :: string
  np_requestedAmount :: string
  np_expiresAt :: "instant option"
  np_proposedAt :: "instant option"
  np_ledger :: js_num
  np_txHash :: string
  np_eventIndex :: js_num

definition swap_id_field :: "js_text_lib \<Rightarrow> raw_event \<Rightarrow> string" where
  "swap_id_field lib event = text_field lib event [''swapId'', ''swap_id'', ''id'']"

definition tx_hash_field :: "js_text_lib \<Rightarrow> raw_event \<Rightarrow> string" where
  "tx_hash_field lib event = text_field lib event [''txHash'', ''tx_hash'']"

definition normalizeSwapProposedEvent :: "js_text_lib \<Rightarrow> instant \<Rightarrow> raw_event \<Rightarrow> swap_proposed option" where
  "normalizeSwapProposedEvent lib now event =
    (let swapId = swap_id_field lib event;
         proposer = text_field lib event [''proposer'', ''proposerWallet'', ''proposer_wallet'', ''from'', ''actor''];
         counterparty = text_field lib event
           [''counterparty'', ''counterpartyWallet'', ''counterparty_wallet'', ''to'', ''target''];
         offeredKey = text_field lib event
           [''offeredKey'', ''offered_key'', ''offeredKeyId'', ''offered_key_id'', ''offeredCreatorId'', ''offered_creator_id''];
         offeredAmount = amount_field lib event
           [''offeredAmount'', ''offered_amount'', ''offeredQuantity'', ''offered_quantity''];
         requestedKey = text_field lib event
           [''requestedKey'', ''requested_key'', ''requestedKeyId'', ''requested_key_id'', ''requestedCreatorId'', ''requested_creator_id''];
         requestedAmount = amount_field lib event
           [''requestedAmount'', ''requested_amount'', ''requestedQuantity'', ''requested_quantity''];
         txHash = tx_hash_field lib event;
         ledger = ledger_field lib event;
         proposedAt = parseTimestamp lib
           (first_truthy event [''timestamp'', ''proposedAt'', ''proposed_at'', ''occurredAt'', ''ledgerClosedAt'']) (Some now)
     in if [] \<in> {swapId, proposer, counterparty, offeredKey, offeredAmount, requestedKey, requestedAmount, txHash}
           \<or> ledger = NaN then None
        else Some \<lparr>np_swapId = swapId, np_proposer = proposer, np_counterparty = counterparty,
          np_offeredKey = offeredKey, np_offeredAmount = offeredAmount, np_requestedKey = requestedKey,
          np_requestedAmount = requestedAmount, np_expiresAt = expiry_date lib event proposedAt,
          np_proposedAt = proposedAt, np_ledger = ledger, np_txHash = txHash,
          np_eventIndex = event_index_field lib event\<rparr>)"

text \<open>Executions and cancellations differ in the names of their time only.\<close>

record swap_closed =
  nc_swapId :: string
  nc_ledger :: js_num
  nc_txHash :: string
  nc_at :: "instant option"
  nc_eventIndex :: js_num

definition normalize_closed :: "js_text_lib \<Rightarrow> instant \<Rightarrow> string list \<Rightarrow> raw_event \<Rightarrow> swap_closed option" where
  "normalize_closed lib now timeFields event =
    (let swapId = swap_id_field lib event; txHash = tx_hash_field lib event; ledger = ledger_field lib event
     in if swapId = [] \<or> txHash = [] \<or> ledger = NaN then None
        else Some \<lparr>nc_swapId = swapId, nc_ledger = ledger, nc_txHash = txHash,
          nc_at = parseTimestamp lib (first_truthy event timeFields) (Some now),
          nc_eventIndex = event_index_field lib event\<rparr>)"

definition normalizeSwapExecutedEvent :: "js_text_lib \<Rightarrow> instant \<Rightarrow> raw_event \<Rightarrow> swap_closed option" where
  "normalizeSwapExecutedEvent lib now event =
    normalize_closed lib now [''timestamp'', ''executedAt'', ''executed_at'', ''occurredAt'', ''ledgerClosedAt''] event"

definition normalizeSwapCancelledEvent :: "js_text_lib \<Rightarrow> instant \<Rightarrow> raw_event \<Rightarrow> swap_closed option" where
  "normalizeSwapCancelledEvent lib now event =
    normalize_closed lib now [''timestamp'', ''cancelledAt'', ''cancelled_at'', ''occurredAt'', ''ledgerClosedAt''] event"

section \<open>The table of swaps\<close>

record swap_row =
  sw_swapId :: string
  sw_proposer :: string
  sw_counterparty :: string
  sw_offeredKey :: string
  sw_offeredAmount :: string
  sw_requestedKey :: string
  sw_requestedAmount :: string
  sw_status :: string
  sw_expiresAt :: instant
  sw_proposedAt :: instant
  sw_executedAt :: "instant option"
  sw_cancelledAt :: "instant option"
  sw_ledger :: int
  sw_txHash :: string

text \<open>The rows, and the set of processed events when the caller passes one.\<close>

record swap_state =
  swap_rows :: "swap_row list"
  seen :: "string set option"

text \<open>What the database rejects: an invalid date, or a ledger that is not an integer.\<close>

datatype swap_error = InvalidValue

definition db_date :: "instant option \<Rightarrow> swap_error + instant" where
  "db_date d = (case d of Some t \<Rightarrow> Inr t | None \<Rightarrow> Inl InvalidValue)"

definition db_int :: "js_num \<Rightarrow> swap_error + int" where
  "db_int n = (if is_integer_num n then Inr (num_to_int n) else Inl InvalidValue)"

text \<open>
  \<open>markExpiredSwaps\<close> returns the number of rows and the table; an invalid date makes the query fail,
  which is caught.
\<close>

definition expirable :: "instant \<Rightarrow> swap_row \<Rightarrow> bool" where
  "expirable asOf r \<longleftrightarrow> sw_status r = ''pending'' \<and> sw_expiresAt r \<le> asOf"

definition markExpiredSwaps :: "instant option \<Rightarrow> swap_row list \<Rightarrow> nat \<times> swap_row list" where
  "markExpiredSwaps asOf rows =
    (case asOf of
      None \<Rightarrow> (0, rows)
    | Some t \<Rightarrow> (length (filter (expirable t) rows),
        modify_where (expirable t) (\<lambda>r. r\<lparr>sw_status := ''expired''\<rparr>) rows))"

section \<open>Handlers\<close>

text \<open>The guard on a set of processed events: \<open>True\<close> when the event is to be skipped.\<close>

definition swap_guard :: "js_text_lib \<Rightarrow> string \<Rightarrow> js_num \<Rightarrow> swap_state \<Rightarrow> bool \<times> swap_state" where
  "swap_guard lib txHash eventIndex s =
    (case seen s of
      None \<Rightarrow> (False, s)
    | Some keys \<Rightarrow>
        (let key = txHash @ '':'' @ num_text lib eventIndex
         in if key \<in> keys then (True, s) else (False, s\<lparr>seen := Some (insert key keys)\<rparr>)))"

definition expire_rows :: "instant option \<Rightarrow> swap_state \<Rightarrow> swap_state" where
  "expire_rows asOf s = s\<lparr>swap_rows := snd (markExpiredSwaps asOf (swap_rows s))\<rparr>"

definition proposal_row :: "swap_proposed \<Rightarrow> swap_error + swap_row" where
  "proposal_row n =
    and_then (db_date (np_expiresAt n)) (\<lambda>expiresAt.
    and_then (db_date (np_proposedAt n)) (\<lambda>proposedAt.
    and_then (db_int (np_ledger n)) (\<lambda>ledger.
      Inr \<lparr>sw_swapId = np_swapId n, sw_proposer = np_proposer n, sw_counterparty = np_counterparty n,
        sw_offeredKey = np_offeredKey n, sw_offeredAmount = np_offeredAmount n,
        sw_requestedKey = np_requestedKey n, sw_requestedAmount = np_requestedAmount n,
        sw_status = ''pending'', sw_expiresAt = expiresAt, sw_proposedAt = proposedAt,
        sw_executedAt = None, sw_cancelledAt = None, sw_ledger = ledger, sw_txHash = np_txHash n\<rparr>)))"

definition processSwapProposedEvent ::
  "js_text_lib \<Rightarrow> instant \<Rightarrow> raw_event \<Rightarrow> swap_state \<Rightarrow> (swap_error + bool) \<times> swap_state" where
  "processSwapProposedEvent lib now event s =
    (case normalizeSwapProposedEvent lib now event of
      None \<Rightarrow> (Inr False, s)
    | Some n \<Rightarrow>
        (let (skip, s1) = swap_guard lib (np_txHash n) (np_eventIndex n) s
         in if skip then (Inr False, s1)
            else case find_by sw_swapId (np_swapId n) (swap_rows s1) of
              Some _ \<Rightarrow> (Inr False, s1)
            | None \<Rightarrow>
                (case proposal_row n of
                  Inl err \<Rightarrow> (Inl err, s1)
                | Inr r \<Rightarrow> (Inr True, expire_rows (np_proposedAt n) (s1\<lparr>swap_rows := insert_row r (swap_rows s1)\<rparr>)))))"

text \<open>A name from the event, \<open>unknown\<close> when there is none.\<close>

definition party_field :: "js_text_lib \<Rightarrow> raw_event \<Rightarrow> string list \<Rightarrow> string" where
  "party_field lib event names =
    (let v = first_truthy event names in if truthy v then js_text lib v else ''unknown'')"

definition placeholder :: "swap_closed \<Rightarrow> string \<Rightarrow> string \<Rightarrow> instant \<Rightarrow> int \<Rightarrow> swap_row" where
  "placeholder n proposer counterparty t ledger =
    \<lparr>sw_swapId = nc_swapId n, sw_proposer = proposer, sw_counterparty = counterparty,
     sw_offeredKey = ''unknown'', sw_offeredAmount = ''0'', sw_requestedKey = ''unknown'',
     sw_requestedAmount = ''0'', sw_status = '''', sw_expiresAt = t, sw_proposedAt = t,
     sw_executedAt = None, sw_cancelledAt = None, sw_ledger = ledger, sw_txHash = nc_txHash n\<rparr>"

text \<open>Updating the row of a swap, or creating its placeholder.\<close>

definition close_swap ::
  "swap_closed \<Rightarrow> (instant \<Rightarrow> swap_row \<Rightarrow> swap_row) \<Rightarrow> string \<Rightarrow> string \<Rightarrow> swap_state \<Rightarrow> (swap_error + bool) \<times> swap_state" where
  "close_swap n mark proposer counterparty s =
    (case db_date (nc_at n) of
      Inl err \<Rightarrow> (Inl err, s)
    | Inr t \<Rightarrow>
        (case find_by sw_swapId (nc_swapId n) (swap_rows s) of
          Some _ \<Rightarrow>
            (Inr True, expire_rows (nc_at n)
              (s\<lparr>swap_rows := modify_by sw_swapId (nc_swapId n) (mark t) (swap_rows s)\<rparr>))
        | None \<Rightarrow>
            (case db_int (nc_ledger n) of
              Inl err \<Rightarrow> (Inl err, s)
            | Inr ledger \<Rightarrow>
                (Inr True, expire_rows (nc_at n)
                  (s\<lparr>swap_rows := insert_row (mark t (placeholder n proposer counterparty t ledger)) (swap_rows s)\<rparr>)))))"

definition mark_executed :: "instant \<Rightarrow> swap_row \<Rightarrow> swap_row" where
  "mark_executed t r = r\<lparr>sw_status := ''executed'', sw_executedAt := Some t\<rparr>"

definition mark_cancelled :: "instant \<Rightarrow> swap_row \<Rightarrow> swap_row" where
  "mark_cancelled t r = r\<lparr>sw_status := ''cancelled'', sw_cancelledAt := Some t\<rparr>"

definition processSwapExecutedEvent ::
  "js_text_lib \<Rightarrow> instant \<Rightarrow> raw_event \<Rightarrow> swap_state \<Rightarrow> (swap_error + bool) \<times> swap_state" where
  "processSwapExecutedEvent lib now event s =
    (case normalizeSwapExecutedEvent lib now event of
      None \<Rightarrow> (Inr False, s)
    | Some n \<Rightarrow>
        (let (skip, s1) = swap_guard lib (nc_txHash n) (nc_eventIndex n) s
         in if skip then (Inr False, s1)
            else close_swap n mark_executed ''unknown''
              (party_field lib event [''executor'', ''counterparty'', ''actor'']) s1))"

definition processSwapCancelledEvent ::
  "js_text_lib \<Rightarrow> instant \<Rightarrow> raw_event \<Rightarrow> swap_state \<Rightarrow> (swap_error + bool) \<times> swap_state" where
  "processSwapCancelledEvent lib now event s =
    (case normalizeSwapCancelledEvent lib now event of
      None \<Rightarrow> (Inr False, s)
    | Some n \<Rightarrow>
        (let (skip, s1) = swap_guard lib (nc_txHash n) (nc_eventIndex n) s
         in if skip then (Inr False, s1)
            else close_swap n mark_cancelled
              (party_field lib event [''canceller'', ''proposer'', ''actor'']) ''unknown'' s1))"

section \<open>Dispatch and batches\<close>

definition processAtomicSwapEvent ::
  "js_text_lib \<Rightarrow> instant \<Rightarrow> raw_event \<Rightarrow> swap_state \<Rightarrow> (swap_error + bool) \<times> swap_state" where
  "processAtomicSwapEvent lib now event s =
    (let v = first_truthy event [''eventType'', ''event_type'']; eventType = (if truthy v then js_text lib v else [])
     in if eventType \<in> {''SwapProposed'', ''SWAP_PROPOSED'', ''swap_proposed''} then
          processSwapProposedEvent lib now event s
        else if eventType \<in> {''SwapExecuted'', ''SWAP_EXECUTED'', ''swap_executed''} then
          processSwapExecutedEvent lib now event s
        else if eventType \<in> {''SwapCancelled'', ''SWAP_CANCELLED'', ''swap_cancelled''} then
          processSwapCancelledEvent lib now event s
        else (Inr False, s))"

definition SWAP_EVENT_TYPES :: "string set" where
  "SWAP_EVENT_TYPES = {''SwapProposed'', ''SWAP_PROPOSED'', ''swap_proposed'', ''SwapExecuted'', ''SWAP_EXECUTED'',
    ''swap_executed'', ''SwapCancelled'', ''SWAP_CANCELLED'', ''swap_cancelled''}"

definition swap_handler :: "js_text_lib \<Rightarrow> instant \<Rightarrow> chain_event \<Rightarrow> swap_state \<Rightarrow> (swap_error + unit) \<times> swap_state" where
  "swap_handler lib now e s =
    (if ce_eventType e \<notin> SWAP_EVENT_TYPES then (Inr (), s)
     else case processAtomicSwapEvent lib now (raw_of e) s of
       (Inl err, s1) \<Rightarrow> (Inl err, s1)
     | (Inr _, s1) \<Rightarrow> (Inr (), s1))"

definition checkpointHighestLedger :: "bool \<Rightarrow> chain_event list \<Rightarrow> indexed_ledger option \<Rightarrow> indexed_ledger option" where
  "checkpointHighestLedger writeOk es row =
    (let ledgers = map the (filter (\<lambda>l. l \<noteq> None) (map ce_ledger (dedupeChainEvents es)))
     in if ledgers = [] then row
        else let maxLedger = Max (set ledgers)
             in updateIndexedLedger writeOk maxLedger (show_int maxLedger @ ''-000'') row)"

text \<open>
  A batch: the rows and the cursor after it. \<open>now\<close> is the time the handlers read, \<open>later\<close> the time at
  the end of the batch.
\<close>

definition processSwapEvents ::
  "js_text_lib \<Rightarrow> instant \<Rightarrow> instant \<Rightarrow> bool \<Rightarrow> chain_event list \<Rightarrow> swap_row list \<times> indexed_ledger option \<Rightarrow>
    (swap_error + unit) \<times> swap_row list \<times> indexed_ledger option" where
  "processSwapEvents lib now later writeOk es db =
    (case processIndexerChainEvents (swap_handler lib now) es \<lparr>swap_rows = fst db, seen = Some {}\<rparr> of
      (Inl err, s1) \<Rightarrow> (Inl err, swap_rows s1, snd db)
    | (Inr _, s1) \<Rightarrow>
        (Inr (), snd (markExpiredSwaps (Some later) (swap_rows s1)), checkpointHighestLedger writeOk es (snd db)))"

section \<open>Well-formed rows\<close>

definition swap_row_ok :: "swap_row \<Rightarrow> bool" where
  "swap_row_ok r \<longleftrightarrow>
    sw_swapId r \<noteq> [] \<and> sw_txHash r \<noteq> [] \<and>
    (sw_status r = ''pending'' \<and> sw_executedAt r = None \<and> sw_cancelledAt r = None \<or>
     sw_status r = ''expired'' \<and> sw_executedAt r = None \<and> sw_cancelledAt r = None \<or>
     sw_status r = ''executed'' \<and> sw_executedAt r \<noteq> None \<or>
     sw_status r = ''cancelled'' \<and> sw_cancelledAt r \<noteq> None)"

definition swaps_ok :: "swap_row list \<Rightarrow> bool" where
  "swaps_ok rows \<longleftrightarrow> distinct (map sw_swapId rows) \<and> (\<forall>r \<in> set rows. swap_row_ok r)"

interpretation swap_table: keyed_table sw_swapId "find_by sw_swapId" insert_row "modify_by sw_swapId" "map sw_swapId"
  by (rule list_keyed_table)

lemma swaps_ok_insert:
  "swaps_ok rows \<Longrightarrow> find_by sw_swapId (sw_swapId r) rows = None \<Longrightarrow> swap_row_ok r \<Longrightarrow> swaps_ok (insert_row r rows)"
  using swap_table.insert_fresh_distinct [of r rows] by (auto simp: swaps_ok_def)

lemma swaps_ok_modify:
  assumes "swaps_ok rows" "\<And>r. sw_swapId (f r) = sw_swapId r" "\<And>r. swap_row_ok r \<Longrightarrow> swap_row_ok (f r)"
  shows "swaps_ok (modify_by sw_swapId k f rows)"
  using assms by (auto simp: swaps_ok_def keys_modify_by set_modify_by)

lemma expire_ok: "swaps_ok rows \<Longrightarrow> swaps_ok (snd (markExpiredSwaps asOf rows))"
proof (cases asOf)
  case (Some t)
  assume ok: "swaps_ok rows"
  have "map sw_swapId (modify_where (expirable t) (\<lambda>r. r\<lparr>sw_status := ''expired''\<rparr>) rows) = map sw_swapId rows"
    by (simp add: modify_where_def)
  with ok Some show ?thesis
    by (auto simp: markExpiredSwaps_def swaps_ok_def set_modify_where expirable_def swap_row_ok_def)
qed (simp add: markExpiredSwaps_def)

lemma expire_rows_ok: "swaps_ok (swap_rows s) \<Longrightarrow> swaps_ok (swap_rows (expire_rows asOf s))"
  by (simp add: expire_rows_def expire_ok)

lemma guard_rows [simp]: "swap_rows (snd (swap_guard lib h i s)) = swap_rows s"
  by (auto simp: swap_guard_def Let_def split: option.split)

lemma normalized_names:
  "normalizeSwapProposedEvent lib now event = Some n \<Longrightarrow> np_swapId n \<noteq> [] \<and> np_txHash n \<noteq> []"
  "normalize_closed lib now tfs event = Some c \<Longrightarrow> nc_swapId c \<noteq> [] \<and> nc_txHash c \<noteq> []"
  by (auto simp: normalizeSwapProposedEvent_def normalize_closed_def Let_def split: if_splits)

lemma proposed_ok:
  assumes "swaps_ok (swap_rows s)"
  shows "swaps_ok (swap_rows (snd (processSwapProposedEvent lib now event s)))"
proof (cases "normalizeSwapProposedEvent lib now event")
  case (Some n)
  obtain skip s1 where g: "swap_guard lib (np_txHash n) (np_eventIndex n) s = (skip, s1)" by fastforce
  then have s1: "swap_rows s1 = swap_rows s" by (metis guard_rows snd_conv)
  have "swaps_ok (insert_row r (swap_rows s1))"
    if "find_by sw_swapId (np_swapId n) (swap_rows s1) = None" "proposal_row n = Inr r" for r
    using that assms normalized_names(1) [OF Some]
    by (intro swaps_ok_insert) (auto simp: s1 proposal_row_def swap_row_ok_def)
  then show ?thesis
    using assms Some g s1
    by (auto simp: processSwapProposedEvent_def split: option.split sum.split intro!: expire_rows_ok)
qed (use assms in \<open>simp add: processSwapProposedEvent_def\<close>)

lemma close_ok:
  assumes "swaps_ok (swap_rows s)" "nc_swapId n \<noteq> []" "nc_txHash n \<noteq> []"
    and "\<And>t r. sw_swapId (mark t r) = sw_swapId r"
    and "\<And>t r. sw_swapId r \<noteq> [] \<Longrightarrow> sw_txHash r \<noteq> [] \<Longrightarrow> swap_row_ok (mark t r)"
  shows "swaps_ok (swap_rows (snd (close_swap n mark proposer counterparty s)))"
proof -
  have kept: "swap_row_ok (mark t r)" if "swap_row_ok r" for t r
    using that assms(5) by (auto simp: swap_row_ok_def)
  have new: "swap_row_ok (mark t (placeholder n proposer counterparty t l))"
    "sw_swapId (mark t (placeholder n proposer counterparty t l)) = nc_swapId n" for t l
    using assms(2-5) by (simp_all add: placeholder_def)
  show ?thesis
    using assms(1,4) kept new
    by (auto simp: close_swap_def split: sum.split option.split
        intro!: expire_rows_ok swaps_ok_modify swaps_ok_insert)
qed

lemma marks_ok:
  "sw_swapId (mark_executed t r) = sw_swapId r" "sw_swapId (mark_cancelled t r) = sw_swapId r"
  "sw_swapId r \<noteq> [] \<Longrightarrow> sw_txHash r \<noteq> [] \<Longrightarrow> swap_row_ok (mark_executed t r)"
  "sw_swapId r \<noteq> [] \<Longrightarrow> sw_txHash r \<noteq> [] \<Longrightarrow> swap_row_ok (mark_cancelled t r)"
  by (simp_all add: mark_executed_def mark_cancelled_def swap_row_ok_def)

lemma closed_ok:
  assumes "swaps_ok (swap_rows s)"
  shows "swaps_ok (swap_rows (snd (processSwapExecutedEvent lib now event s)))"
    and "swaps_ok (swap_rows (snd (processSwapCancelledEvent lib now event s)))"
proof -
  have s1: "swaps_ok (swap_rows s1)" if "swap_guard lib h i s = (skip, s1)" for h i skip s1
    using that assms by (metis guard_rows snd_conv)
  show "swaps_ok (swap_rows (snd (processSwapExecutedEvent lib now event s)))"
    using assms normalized_names(2)
    by (auto simp: processSwapExecutedEvent_def normalizeSwapExecutedEvent_def split: option.split prod.split
        intro!: close_ok marks_ok dest!: s1)
  show "swaps_ok (swap_rows (snd (processSwapCancelledEvent lib now event s)))"
    using assms normalized_names(2)
    by (auto simp: processSwapCancelledEvent_def normalizeSwapCancelledEvent_def split: option.split prod.split
        intro!: close_ok marks_ok dest!: s1)
qed

lemma dispatch_ok: "swaps_ok (swap_rows s) \<Longrightarrow> swaps_ok (swap_rows (snd (processAtomicSwapEvent lib now event s)))"
  by (simp add: processAtomicSwapEvent_def Let_def proposed_ok closed_ok)

lemma handler_ok: "swaps_ok (swap_rows s) \<Longrightarrow> swaps_ok (swap_rows (snd (swap_handler lib now e s)))"
  using dispatch_ok [of s lib now "raw_of e"] by (auto simp: swap_handler_def split: sum.split prod.split)

lemma run_events_keeps:
  assumes "\<And>e s. P s \<Longrightarrow> P (snd (h e s))" "P s"
  shows "P (snd (run_events h es s))"
  using assms(2)
proof (induction es arbitrary: s)
  case (Cons e es)
  obtain r s1 where h: "h e s = (r, s1)" by fastforce
  with assms(1) [OF Cons.prems, of e] have "P s1" by simp
  with Cons.IH [of s1] h show ?case by (simp split: sum.split)
qed simp

lemma batch_ok:
  assumes "swaps_ok (fst db)"
  shows "swaps_ok (fst (snd (processSwapEvents lib now later writeOk es db)))"
proof -
  let ?s = "\<lparr>swap_rows = fst db, seen = Some {}\<rparr>"
  have "swaps_ok (swap_rows (snd (processIndexerChainEvents (swap_handler lib now) es ?s)))"
    unfolding processIndexerChainEvents_def
    by (rule run_events_keeps [where P = "\<lambda>s. swaps_ok (swap_rows s)"]) (simp_all add: handler_ok assms)
  then show ?thesis
    by (auto simp: processSwapEvents_def expire_ok split: sum.split prod.split)
qed

text \<open>Runs: batches, single events from the pipeline, and sweeps.\<close>

inductive swap_step ::
  "swap_row list \<times> indexed_ledger option \<Rightarrow> swap_row list \<times> indexed_ledger option \<Rightarrow> bool" where
  batch: "swap_step db (snd (processSwapEvents lib now later writeOk es db))"
| single: "swap_step (rows, cur) (swap_rows (snd (processAtomicSwapEvent lib now event \<lparr>swap_rows = rows, seen = None\<rparr>)), cur)"
| sweep: "swap_step (rows, cur) (snd (markExpiredSwaps asOf rows), cur)"

interpretation swaps_sys: invariant_system "\<lambda>db. fst db = []" swap_step "\<lambda>db. swaps_ok (fst db)"
proof
  show "swaps_ok (fst t)" if "swaps_ok (fst s)" "swap_step s t" for s t
    using that(2,1) by cases (auto intro: batch_ok dispatch_ok expire_ok)
qed (simp add: swaps_ok_def)


section \<open>Example events\<close>

definition example_proposal :: chain_event where
  "example_proposal = \<lparr>ce_txHash = ''t0'', ce_eventIndex = 0, ce_ledger = Some 5, ce_eventType = ''SwapProposed'',
    ce_fields = [(''swapId'', Jstr ''s1''), (''proposer'', Jstr ''P''), (''counterparty'', Jstr ''C''),
      (''offeredKey'', Jstr ''K''), (''offeredAmount'', Jstr ''3''), (''requestedKey'', Jstr ''L''),
      (''requestedAmount'', Jstr ''4''), (''timestamp'', Jnum (Fin 20000000000)), (''expiresAt'', Jnum (Fin 20000500000))]\<rparr>"

definition example_execution :: chain_event where
  "example_execution = \<lparr>ce_txHash = ''t1'', ce_eventIndex = 0, ce_ledger = Some 6, ce_eventType = ''SwapExecuted'',
    ce_fields = [(''swapId'', Jstr ''s1''), (''timestamp'', Jnum (Fin 20000400000))]\<rparr>"

lemma trim_letters [simp]: "\<not> is_space c \<Longrightarrow> trim [c] = [c]" "\<not> is_space c \<Longrightarrow> \<not> is_space d \<Longrightarrow> trim [c, d] = [c, d]"
  by (simp_all add: trim_def)

lemma letters_not_space [simp]:
  "\<not> is_space (CHR ''s'')" "\<not> is_space (CHR ''1'')" "\<not> is_space (CHR ''t'')" "\<not> is_space (CHR ''0'')" "\<not> is_space (CHR ''P'')"
  "\<not> is_space (CHR ''C'')" "\<not> is_space (CHR ''K'')" "\<not> is_space (CHR ''3'')" "\<not> is_space (CHR ''L'')" "\<not> is_space (CHR ''4'')"
  by (simp_all add: is_space_def)

lemmas reading = raw_of_def js_field_def text_field_def swap_id_field_def tx_hash_field_def
  amount_field_def ledger_field_def event_index_field_def

lemma execution_fields:
  "swap_id_field lib (raw_of example_execution) = ''s1''"
  "tx_hash_field lib (raw_of example_execution) = ''t1''"
  "ledger_field lib (raw_of example_execution) = Fin 6"
  "event_index_field lib (raw_of example_execution) = Fin 0"
  "first_truthy (raw_of example_execution) [''timestamp'', ''executedAt'', ''executed_at'', ''occurredAt'', ''ledgerClosedAt''] =
    Jnum (Fin 20000400000)"
  "first_truthy (raw_of example_execution) [''executor'', ''counterparty'', ''actor''] = Jundefined"
  by (simp_all add: reading example_execution_def)

lemma proposal_fields:
  "swap_id_field lib (raw_of example_proposal) = ''s1''"
  "tx_hash_field lib (raw_of example_proposal) = ''t0''"
  "ledger_field lib (raw_of example_proposal) = Fin 5"
  "event_index_field lib (raw_of example_proposal) = Fin 0"
  "text_field lib (raw_of example_proposal) [''proposer'', ''proposerWallet'', ''proposer_wallet'', ''from'', ''actor''] = ''P''"
  "text_field lib (raw_of example_proposal)
    [''counterparty'', ''counterpartyWallet'', ''counterparty_wallet'', ''to'', ''target''] = ''C''"
  "text_field lib (raw_of example_proposal)
    [''offeredKey'', ''offered_key'', ''offeredKeyId'', ''offered_key_id'', ''offeredCreatorId'', ''offered_creator_id''] = ''K''"
  "amount_field lib (raw_of example_proposal) [''offeredAmount'', ''offered_amount'', ''offeredQuantity'', ''offered_quantity''] = ''3''"
  "text_field lib (raw_of example_proposal)
    [''requestedKey'', ''requested_key'', ''requestedKeyId'', ''requested_key_id'', ''requestedCreatorId'', ''requested_creator_id''] = ''L''"
  "amount_field lib (raw_of example_proposal)
    [''requestedAmount'', ''requested_amount'', ''requestedQuantity'', ''requested_quantity''] = ''4''"
  "first_truthy (raw_of example_proposal) [''timestamp'', ''proposedAt'', ''proposed_at'', ''occurredAt'', ''ledgerClosedAt''] =
    Jnum (Fin 20000000000)"
  "first_truthy (raw_of example_proposal) [''expiresAt'', ''expires_at'', ''expiry'', ''duration''] = Jnum (Fin 20000500000)"
  by (simp_all add: reading example_proposal_def)

lemma example_types:
  "first_truthy (raw_of example_execution) [''eventType'', ''event_type''] = Jstr ''SwapExecuted''"
  "first_truthy (raw_of example_proposal) [''eventType'', ''event_type''] = Jstr ''SwapProposed''"
  by (simp_all add: raw_of_def js_field_def example_execution_def example_proposal_def)

lemma normalized_execution:
  "normalizeSwapExecutedEvent lib now (raw_of example_execution) =
    Some \<lparr>nc_swapId = ''s1'', nc_ledger = Fin 6, nc_txHash = ''t1'', nc_at = Some 20000400000, nc_eventIndex = Fin 0\<rparr>"
  by (simp add: normalizeSwapExecutedEvent_def normalize_closed_def execution_fields parseTimestamp_def
      seconds_or_millis_def time_clip_def del: first_truthy.simps)

lemma normalized_proposal:
  "normalizeSwapProposedEvent lib now (raw_of example_proposal) =
    Some \<lparr>np_swapId = ''s1'', np_proposer = ''P'', np_counterparty = ''C'', np_offeredKey = ''K'', np_offeredAmount = ''3'',
      np_requestedKey = ''L'', np_requestedAmount = ''4'', np_expiresAt = Some 20000500000,
      np_proposedAt = Some 20000000000, np_ledger = Fin 5, np_txHash = ''t0'', np_eventIndex = Fin 0\<rparr>"
  by (simp add: normalizeSwapProposedEvent_def proposal_fields parseTimestamp_def seconds_or_millis_def time_clip_def
      expiry_date_def del: first_truthy.simps)

lemma integer_ledgers [simp]: "db_int (Fin 5) = Inr 5" "db_int (Fin 6) = Inr 6"
  by (simp_all add: db_int_def)

lemmas handling = processAtomicSwapEvent_def processSwapExecutedEvent_def processSwapProposedEvent_def
  swap_guard_def close_swap_def db_date_def proposal_row_def expire_rows_def markExpiredSwaps_def
  expirable_def modify_where_def insert_row_def

text \<open>An execution that is indexed before its proposal hides the proposal: the placeholder row it leaves
  makes the later proposal a duplicate, so the parties, keys and amounts stay unknown.\<close>

theorem early_execution_hides_proposal:
  "let s1 = snd (processAtomicSwapEvent lib now (raw_of example_execution) \<lparr>swap_rows = [], seen = None\<rparr>);
       (r2, s2) = processAtomicSwapEvent lib now (raw_of example_proposal) s1
   in r2 = Inr False \<and> s2 = s1 \<and>
     map (\<lambda>r. (sw_status r, sw_proposer r, sw_offeredKey r, sw_offeredAmount r, sw_requestedKey r, sw_requestedAmount r))
       (swap_rows s2) = [(''executed'', ''unknown'', ''unknown'', ''0'', ''unknown'', ''0'')]"
  by (simp add: handling example_types normalized_execution normalized_proposal party_field_def execution_fields
      placeholder_def mark_executed_def del: first_truthy.simps)

section \<open>Witnesses\<close>

definition example_rows :: "swap_row list" where
  "example_rows = [\<lparr>sw_swapId = ''s1'', sw_proposer = ''P'', sw_counterparty = ''C'', sw_offeredKey = ''K'',
    sw_offeredAmount = ''3'', sw_requestedKey = ''L'', sw_requestedAmount = ''4'', sw_status = ''pending'',
    sw_expiresAt = 20000500000, sw_proposedAt = 20000000000, sw_executedAt = None, sw_cancelledAt = None,
    sw_ledger = 5, sw_txHash = ''t0''\<rparr>]"

lemma example_batch:
  "processSwapEvents lib 0 20000400000 False [example_proposal] ([], None) = (Inr (), example_rows, None)"
  by (simp add: processSwapEvents_def processIndexerChainEvents_def dedupeChainEvents_def swap_handler_def
      SWAP_EVENT_TYPES_def handling example_types normalized_proposal example_rows_def checkpointHighestLedger_def
      updateIndexedLedger_def Let_def del: first_truthy.simps) (simp add: example_proposal_def)


end
