(* ===== verification/Deprecation.thy ===== *)
theory Deprecation
  imports Merkle Chain_Events Audit_Log Js_Double Decimal_Lib
begin

text \<open>
  \<open>src/modules/keys/key-deprecation.service.ts\<close> and
  \<open>src/modules/indexer/key-deprecation-indexer.service.ts\<close>: deprecation of a key by two of three admins,
  the guaranteed buyback of holdings until a deadline, the notification of holders with retries and a
  Redis set that remembers who was notified, and the indexed on-chain deprecation.

  Arguments: SHA-256 and base64 decoding, the Ed25519 check of the Stellar library (\<open>None\<close> when it
  throws), printing of dates, the Decimal conversion of the price text, what a seven-place decimal column
  stores of a number (\<open>enc\<close>), and the delivery of a notification per holder and attempt (an error message
  or success). A column without a fixed scale holds the double it was given. The buyback is one transaction.
\<close>

section \<open>Tables\<close>

record key_row =
  k_id :: string
  k_handle :: string
  k_displayName :: "string option"
  k_avatarUrl :: "string option"
  k_currentPrice :: "int option"
  k_deprecatedAt :: "instant option"
  k_buybackPriceXlm :: "rat option"
  k_buybackExpiresAt :: "instant option"
  k_circulatingSupply :: rat
  k_reason :: "string option"
  k_successorKeyId :: "string option"

record holding =
  h_owner :: string
  h_creatorId :: string
  h_balance :: rat
  h_costBasis :: rat

record buyback_row =
  b_id :: string
  b_keyId :: string
  b_holder :: string
  b_quantity :: rat
  b_price :: rat
  b_amount :: rat
  b_processedAt :: instant

record log_row =
  log_type :: string
  log_actor :: string
  log_keyId :: string
  log_target :: "string option"
  log_amount :: "rat option"
  log_payload :: js_value

text \<open>\<open>notified\<close> is the Redis set of each dispatch key; \<open>None\<close> when there is no Redis.\<close>

record dep_db =
  keyRows :: "key_row list"
  holdings :: "holding list"
  buybacks :: "buyback_row list"
  logs :: "log_row list"
  dep_audit :: audit
  notified :: "(string \<Rightarrow> string set) option"

datatype dep_error =
    KeyNotFound string
  | KeyAlreadyDeprecated string
  | KeyNotDeprecated string
  | BuybackWindowClosed string instant
  | BuybackPriceNotSet string
  | InsufficientPosition
  | InvalidAdminAddress string
  | SignerNotAdmin string
  | InvalidSignature string
  | WrongAdminSetSize nat
  | TooFewSignatures nat

section \<open>Admin signatures\<close>

definition DEPRECATION_MULTISIG_THRESHOLD :: nat where
  "DEPRECATION_MULTISIG_THRESHOLD = 2"

definition DEPRECATION_MULTISIG_SET_SIZE :: nat where
  "DEPRECATION_MULTISIG_SET_SIZE = 3"

record crypto_lib =
  sha256 :: "string \<Rightarrow> string"
  base64 :: "string \<Rightarrow> string"
  keypair_verify :: "string \<Rightarrow> string \<Rightarrow> string \<Rightarrow> bool option"

definition buildDeprecationCanonicalMessage :: "crypto_lib \<Rightarrow> string \<Rightarrow> string \<Rightarrow> string \<Rightarrow> string" where
  "buildDeprecationCanonicalMessage lib keyId price expires =
    from_hex (sha256 lib (''deprecate:'' @ keyId @ '':'' @ price @ '':'' @ expires))"

definition deprecation_admins :: "string option \<Rightarrow> string list" where
  "deprecation_admins env =
    (case env of
      None \<Rightarrow> []
    | Some raw \<Rightarrow> if raw = [] then [] else filter (\<lambda>w. 0 < length w) (map trim (split_on (CHR '','') raw)))"

definition signature_ok :: "crypto_lib \<Rightarrow> string \<Rightarrow> string \<Rightarrow> string \<Rightarrow> bool" where
  "signature_ok lib message wallet sig =
    (let buffer = base64 lib sig
     in length buffer = 64 \<and> keypair_verify lib wallet message buffer = Some True)"

text \<open>The loop over the signatures: \<open>seen\<close> holds lower-cased wallets, \<open>valid\<close> the wallets accepted so far.\<close>

fun check_signatures ::
  "crypto_lib \<Rightarrow> string \<Rightarrow> string set \<Rightarrow> (string \<times> string) list \<Rightarrow> string set \<Rightarrow> string list \<Rightarrow> dep_error + string list" where
  "check_signatures lib message adminSet [] seen validWallets = Inr validWallets"
| "check_signatures lib message adminSet ((wallet, sig) # sigs) seen validWallets =
    (let normalized = trim wallet; lower = to_lower normalized
     in if lower \<in> seen then check_signatures lib message adminSet sigs seen validWallets
        else if \<not> stellar_address normalized then Inl (InvalidAdminAddress normalized)
        else if adminSet \<noteq> {} \<and> lower \<notin> adminSet then Inl (SignerNotAdmin normalized)
        else if \<not> signature_ok lib message normalized sig then Inl (InvalidSignature normalized)
        else check_signatures lib message adminSet sigs (insert lower seen) (validWallets @ [normalized]))"

definition verifyDeprecationSignatures ::
  "crypto_lib \<Rightarrow> string option \<Rightarrow> string \<Rightarrow> string \<Rightarrow> string \<Rightarrow> (string \<times> string) list \<Rightarrow> dep_error + string list" where
  "verifyDeprecationSignatures lib env keyId price expires sigs =
    (let message = buildDeprecationCanonicalMessage lib keyId price expires;
         adminSet = set (map to_lower (deprecation_admins env))
     in and_then (check_signatures lib message adminSet sigs {} []) (\<lambda>validWallets.
          if adminSet \<noteq> {} \<and> card adminSet \<noteq> DEPRECATION_MULTISIG_SET_SIZE then Inl (WrongAdminSetSize (card adminSet))
          else if length validWallets < DEPRECATION_MULTISIG_THRESHOLD then Inl (TooFewSignatures (length validWallets))
          else Inr validWallets))"

section \<open>Notifications\<close>

definition current_holders :: "string \<Rightarrow> dep_db \<Rightarrow> string list" where
  "current_holders keyId db = map h_owner (filter (\<lambda>h. h_creatorId h = keyId \<and> 0 < h_balance h) (holdings db))"

text \<open>Attempts \<open>attempt, ..., maxRetries\<close>: whether delivered, the attempts made and the last error.\<close>

function deliver_loop ::
  "(nat \<Rightarrow> string option) \<Rightarrow> nat \<Rightarrow> nat \<Rightarrow> string option \<Rightarrow> bool \<times> nat \<times> string option" where
  "deliver_loop deliver maxRetries attempt lastError =
    (if attempt \<le> maxRetries then
       case deliver attempt of
         None \<Rightarrow> (True, attempt, lastError)
       | Some err \<Rightarrow> deliver_loop deliver maxRetries (attempt + 1) (Some err)
     else (False, attempt - 1, lastError))"
  by pat_completeness auto
termination by (relation "measure (\<lambda>(d, maxRetries, attempt, _). maxRetries + 1 - attempt)") auto

declare deliver_loop.simps [simp del]

record dispatch_counts =
  delivered :: nat
  failed :: nat
  skipped :: nat

definition notification_log :: "string \<Rightarrow> string \<Rightarrow> string \<Rightarrow> string \<Rightarrow> string \<Rightarrow> bool \<Rightarrow> nat \<Rightarrow> string option \<Rightarrow> (string \<times> js_value) list \<Rightarrow> log_row" where
  "notification_log kind actor keyId eventId holder ok attempts lastError extra =
    \<lparr>log_type = kind, log_actor = actor, log_keyId = keyId, log_target = Some holder, log_amount = None,
     log_payload = Jobj ([(''eventId'', Jstr eventId), (''holderAddress'', Jstr holder), (''keyId'', Jstr keyId),
       (''status'', Jstr (if ok then ''delivered'' else ''failed'')), (''attempts'', Jnum (Fin (of_nat attempts))),
       (''lastError'', case lastError of None \<Rightarrow> Jundefined | Some e \<Rightarrow> Jstr e)] @ extra)\<rparr>"

text \<open>One holder: skipped when the Redis set already holds it, otherwise delivered with retries and logged.\<close>

definition notify_holder ::
  "(string \<Rightarrow> nat \<Rightarrow> string option) \<Rightarrow> string \<Rightarrow> nat \<Rightarrow> (string \<Rightarrow> bool \<Rightarrow> nat \<Rightarrow> string option \<Rightarrow> log_row) \<Rightarrow>
    string \<Rightarrow> dispatch_counts \<times> dep_db \<Rightarrow> dispatch_counts \<times> dep_db" where
  "notify_holder deliver dedupeKey maxRetries mk holder acc =
    (let (counts, db) = acc
     in case notified db of
          Some sets \<Rightarrow>
            if holder \<in> sets dedupeKey then (counts\<lparr>skipped := skipped counts + 1\<rparr>, db)
            else
              (let (ok, attempts, lastError) = deliver_loop (deliver holder) maxRetries 1 None
               in (if ok then counts\<lparr>delivered := delivered counts + 1\<rparr>
                   else if 0 < maxRetries then counts\<lparr>failed := failed counts + 1\<rparr> else counts,
                   db\<lparr>notified := Some (sets(dedupeKey := insert holder (sets dedupeKey))),
                      logs := logs db @ [mk holder ok attempts lastError]\<rparr>))
        | None \<Rightarrow>
            (let (ok, attempts, lastError) = deliver_loop (deliver holder) maxRetries 1 None
             in (if ok then counts\<lparr>delivered := delivered counts + 1\<rparr>
                 else if 0 < maxRetries then counts\<lparr>failed := failed counts + 1\<rparr> else counts,
                 db\<lparr>logs := logs db @ [mk holder ok attempts lastError]\<rparr>)))"

definition notify_all ::
  "(string \<Rightarrow> nat \<Rightarrow> string option) \<Rightarrow> string \<Rightarrow> nat \<Rightarrow> (string \<Rightarrow> bool \<Rightarrow> nat \<Rightarrow> string option \<Rightarrow> log_row) \<Rightarrow>
    string list \<Rightarrow> dep_db \<Rightarrow> dispatch_counts \<times> dep_db" where
  "notify_all deliver dedupeKey maxRetries mk holders db =
    fold (notify_holder deliver dedupeKey maxRetries mk) holders
      (\<lparr>delivered = 0, failed = 0, skipped = 0\<rparr>, db)"

definition dispatchKeySunsetNotifications ::
  "(string \<Rightarrow> nat \<Rightarrow> string option) \<Rightarrow> string \<Rightarrow> string \<Rightarrow> string \<Rightarrow> string \<Rightarrow> string \<Rightarrow> nat \<Rightarrow> dep_db \<Rightarrow> dispatch_counts \<times> dep_db" where
  "dispatchKeySunsetNotifications deliver actor keyId eventId deadline price maxRetries db =
    notify_all deliver (''key_sunset:dispatch:'' @ eventId) maxRetries
      (\<lambda>holder ok attempts lastError. notification_log ''key_sunset_flagged_notification'' actor keyId eventId holder ok
        attempts lastError [(''sunsetDeadline'', Jstr deadline), (''buybackPriceXlm'', Jstr price)])
      (current_holders keyId db) db"

definition opt_json :: "string option \<Rightarrow> js_value" where
  "opt_json s = (case s of None \<Rightarrow> Jnull | Some t \<Rightarrow> Jstr t)"

definition dispatchKeyDeprecationNotifications ::
  "(string \<Rightarrow> nat \<Rightarrow> string option) \<Rightarrow> string \<Rightarrow> string \<Rightarrow> string option \<Rightarrow> string option \<Rightarrow> nat \<Rightarrow> dep_db \<Rightarrow> dispatch_counts \<times> dep_db" where
  "dispatchKeyDeprecationNotifications deliver keyId eventId reason successorKeyId maxRetries db =
    notify_all deliver (''key_deprecation:dispatch:'' @ eventId) maxRetries
      (\<lambda>holder ok attempts lastError. notification_log ''key_deprecated_notification'' ''system'' keyId eventId holder ok
        attempts lastError [(''reason'', opt_json reason), (''successorKeyId'', opt_json successorKeyId)])
      (current_holders keyId db) db"

section \<open>Deprecating a key\<close>

text \<open>\<open>findFirst\<close> by id or handle.\<close>

definition find_key :: "string \<Rightarrow> dep_db \<Rightarrow> key_row option" where
  "find_key keyId db = find (\<lambda>k. k_id k = keyId \<or> k_handle k = keyId) (keyRows db)"

record deprecate_input =
  di_keyId :: string
  di_price :: string
  di_expiresAt :: instant
  di_signatures :: "(string \<times> string) list"
  di_actor :: string

record deprecate_result =
  dr_keyId :: string
  dr_deprecatedAt :: instant
  dr_price :: string
  dr_expiresAt :: instant
  dr_holdersNotified :: nat
  dr_signers :: "string list"

definition deprecation_metadata :: "string \<Rightarrow> string \<Rightarrow> string \<Rightarrow> string list \<Rightarrow> nat \<Rightarrow> js_value" where
  "deprecation_metadata keyId price expiresIso signers holders =
    Jobj [(''keyId'', Jstr keyId), (''buybackPriceXlm'', Jstr price), (''buybackExpiresAt'', Jstr expiresIso),
      (''signers'', Jarr (map Jstr signers)), (''holdersNotified'', Jnum (Fin (of_nat holders)))]"

text \<open>The transaction: the key row and the activity log row.\<close>

definition store_deprecation ::
  "(rat \<Rightarrow> rat) \<Rightarrow> decimal_lib \<Rightarrow> instant \<Rightarrow> deprecate_input \<Rightarrow> string \<Rightarrow> js_value \<Rightarrow> dep_db \<Rightarrow> dep_db" where
  "store_deprecation enc dec now input keyId metadata db =
    db\<lparr>keyRows := modify_by k_id keyId (\<lambda>k. k\<lparr>k_deprecatedAt := Some now,
         k_buybackPriceXlm := Some (enc (dec_parse dec (di_price input))),
         k_buybackExpiresAt := Some (di_expiresAt input)\<rparr>) (keyRows db),
       logs := logs db @ [\<lparr>log_type = ''deprecate'', log_actor = di_actor input, log_keyId = keyId,
         log_target = None, log_amount = None, log_payload = metadata\<rparr>]\<rparr>"

definition deprecateKey ::
  "crypto_lib \<Rightarrow> (rat \<Rightarrow> rat) \<Rightarrow> decimal_lib \<Rightarrow> string option \<Rightarrow> (instant \<Rightarrow> string) \<Rightarrow> (string \<Rightarrow> nat \<Rightarrow> string option) \<Rightarrow> instant \<Rightarrow>
    deprecate_input \<Rightarrow> dep_db \<Rightarrow> (dep_error + deprecate_result) \<times> dep_db" where
  "deprecateKey lib enc dec env iso_text deliver now input db =
    (let expiresIso = iso_text (di_expiresAt input)
     in case verifyDeprecationSignatures lib env (di_keyId input) (di_price input) expiresIso (di_signatures input) of
          Inl err \<Rightarrow> (Inl err, db)
        | Inr validWallets \<Rightarrow>
            (case find_key (di_keyId input) db of
              None \<Rightarrow> (Inl (KeyNotFound (di_keyId input)), db)
            | Some k \<Rightarrow>
                if k_deprecatedAt k \<noteq> None then (Inl (KeyAlreadyDeprecated (k_id k)), db)
                else
                  let holderCount = length (current_holders (k_id k) db);
                      metadata = deprecation_metadata (k_id k) (di_price input) expiresIso validWallets holderCount;
                      db1 = store_deprecation enc dec now input (k_id k) metadata db;
                      db2 = db1\<lparr>dep_audit := audit_both (di_actor input) ''key_deprecated'' ''CreatorProfile'' (k_id k)
                        metadata metadata (dep_audit db1)\<rparr>;
                      db3 = snd (dispatchKeySunsetNotifications deliver (di_actor input) (k_id k)
                        (''key_sunset:'' @ k_id k @ '':'' @ iso_text now) expiresIso (di_price input) 3 db2)
                  in (Inr \<lparr>dr_keyId = k_id k, dr_deprecatedAt = now, dr_price = di_price input,
                       dr_expiresAt = di_expiresAt input, dr_holdersNotified = holderCount,
                       dr_signers = validWallets\<rparr>, db3)))"

section \<open>Status\<close>

record successor_summary =
  ss_id :: string
  ss_name :: "string option"
  ss_avatarUrl :: "string option"
  ss_currentPrice :: "string option"

record deprecation_status =
  ds_keyId :: string
  ds_status :: string
  ds_reason :: "string option"
  ds_deprecatedAt :: "string option"
  ds_successor :: "successor_summary option"

definition successor_of :: "key_row \<Rightarrow> dep_db \<Rightarrow> successor_summary option" where
  "successor_of k db =
    (case k_successorKeyId k of
      None \<Rightarrow> None
    | Some sid \<Rightarrow>
        if sid = [] then None
        else map_option (\<lambda>s. \<lparr>ss_id = k_id s, ss_name = k_displayName s, ss_avatarUrl = k_avatarUrl s,
          ss_currentPrice = map_option show_int (k_currentPrice s)\<rparr>) (find_by k_id sid (keyRows db)))"

definition getKeyDeprecationStatus :: "(instant \<Rightarrow> string) \<Rightarrow> string \<Rightarrow> dep_db \<Rightarrow> dep_error + deprecation_status" where
  "getKeyDeprecationStatus iso_text keyId db =
    (case find_key keyId db of
      None \<Rightarrow> Inl (KeyNotFound keyId)
    | Some k \<Rightarrow> Inr \<lparr>ds_keyId = k_id k, ds_status = (if k_deprecatedAt k \<noteq> None then ''deprecated'' else ''active''),
        ds_reason = k_reason k, ds_deprecatedAt = map_option iso_text (k_deprecatedAt k),
        ds_successor = successor_of k db\<rparr>)"

section \<open>Buyback\<close>

record buyback_result =
  br_buybackId :: string
  br_keyId :: string
  br_holder :: string
  br_quantity :: rat
  br_price :: rat
  br_amount :: rat
  br_supplyAfter :: rat
  br_processedAt :: instant

definition holding_key :: "holding \<Rightarrow> string \<times> string" where
  "holding_key h = (h_owner h, h_creatorId h)"

text \<open>\<open>Number(column)\<close> is the nearest double of the stored decimal.\<close>

definition window_closed :: "instant \<Rightarrow> key_row \<Rightarrow> bool" where
  "window_closed now k = (case k_buybackExpiresAt k of None \<Rightarrow> False | Some t \<Rightarrow> t < now)"

definition guaranteed_price :: "key_row \<Rightarrow> rat" where
  "guaranteed_price k = (case k_buybackPriceXlm k of None \<Rightarrow> 0 | Some p \<Rightarrow> fl p)"

definition processBuyback ::
  "(rat \<Rightarrow> rat) \<Rightarrow> instant \<Rightarrow> string \<Rightarrow> string \<Rightarrow> string \<Rightarrow> dep_db \<Rightarrow> dep_error + buyback_result \<times> dep_db" where
  "processBuyback enc now newId keyId holder db =
    (case find_key keyId db of
      None \<Rightarrow> Inl (KeyNotFound keyId)
    | Some k \<Rightarrow>
        if k_deprecatedAt k = None then Inl (KeyNotDeprecated (k_id k))
        else if window_closed now k then Inl (BuybackWindowClosed (k_id k) (the (k_buybackExpiresAt k)))
        else if \<not> 0 < guaranteed_price k then Inl (BuybackPriceNotSet (k_id k))
        else
          let pricePerKeyXlm = guaranteed_price k;
              ownership = find_by holding_key (holder, k_id k) (holdings db);
              balance = (case ownership of None \<Rightarrow> 0 | Some h \<Rightarrow> fl (h_balance h))
          in if balance \<le> 0 then Inl InsufficientPosition
             else
               let amountXlm = fl (balance * pricePerKeyXlm);
                   newSupply = max 0 (fl (fl (k_circulatingSupply k) - balance));
                   row = \<lparr>b_id = newId, b_keyId = k_id k, b_holder = holder, b_quantity = balance,
                     b_price = enc pricePerKeyXlm, b_amount = enc amountXlm, b_processedAt = now\<rparr>;
                   metadata = Jobj [(''keyId'', Jstr (k_id k)), (''buybackId'', Jstr newId),
                     (''quantity'', Jnum (Fin balance)), (''pricePerKeyXlm'', Jnum (Fin pricePerKeyXlm)),
                     (''amountXlm'', Jnum (Fin amountXlm))]
               in Inr (\<lparr>br_buybackId = newId, br_keyId = k_id k, br_holder = holder, br_quantity = balance,
                    br_price = pricePerKeyXlm, br_amount = amountXlm, br_supplyAfter = newSupply,
                    br_processedAt = now\<rparr>,
                  db\<lparr>buybacks := buybacks db @ [row],
                     holdings := modify_by holding_key (holder, k_id k) (\<lambda>h. h\<lparr>h_balance := 0, h_costBasis := 0\<rparr>) (holdings db),
                     keyRows := modify_by k_id (k_id k) (\<lambda>k'. k'\<lparr>k_circulatingSupply := newSupply\<rparr>) (keyRows db),
                     logs := logs db @ [\<lparr>log_type = ''buyback'', log_actor = holder, log_keyId = k_id k,
                       log_target = None, log_amount = Some amountXlm,
                       log_payload = Jobj [(''buybackId'', Jstr newId), (''quantity'', Jnum (Fin balance)),
                         (''pricePerKeyXlm'', Jnum (Fin pricePerKeyXlm)), (''amountXlm'', Jnum (Fin amountXlm)),
                         (''balanceAfter'', Jnum (Fin 0)), (''circulatingSupplyAfter'', Jnum (Fin newSupply))]\<rparr>],
                     dep_audit := createAuditEntry holder ''key_buyback'' (k_id k) metadata
                       (emitAuditEvent holder ''key_buyback'' ''KeyBuyback'' newId metadata (dep_audit db))\<rparr>))"

section \<open>Indexed deprecations\<close>

text \<open>A field that is a string and not empty.\<close>

definition string_field :: "string \<Rightarrow> chain_event \<Rightarrow> string option" where
  "string_field name e = (case js_field name (ce_fields e) of Jstr s \<Rightarrow> if s = [] then None else Some s | _ \<Rightarrow> None)"

definition reason_field :: "chain_event \<Rightarrow> string option" where
  "reason_field e = (case js_field ''reason'' (ce_fields e) of Jstr s \<Rightarrow> Some s | _ \<Rightarrow> None)"

definition deprecation_handler ::
  "(string \<Rightarrow> nat \<Rightarrow> string option) \<Rightarrow> instant \<Rightarrow> chain_event \<Rightarrow> dep_db \<Rightarrow> (dep_error + unit) \<times> dep_db" where
  "deprecation_handler deliver now e db =
    (if ce_eventType e \<noteq> ''KEY_DEPRECATED'' then (Inr (), db)
     else case string_field ''creatorId'' e of
       None \<Rightarrow> (Inr (), db)
     | Some creatorId \<Rightarrow>
         (case find_by k_id creatorId (keyRows db) of
           None \<Rightarrow> (Inr (), db)
         | Some k \<Rightarrow>
             if k_deprecatedAt k \<noteq> None then (Inr (), db)
             else
               let resolvedSuccessor = (case string_field ''successorKeyId'' e of
                     None \<Rightarrow> None
                   | Some sid \<Rightarrow> map_option k_id (find_by k_id sid (keyRows db)));
                   db1 = db\<lparr>keyRows := modify_by k_id (k_id k) (\<lambda>k. k\<lparr>k_deprecatedAt := Some now,
                     k_reason := reason_field e, k_successorKeyId := resolvedSuccessor\<rparr>) (keyRows db)\<rparr>
               in (Inr (), snd (dispatchKeyDeprecationNotifications deliver (k_id k) (getChainEventId e)
                    (reason_field e) resolvedSuccessor 3 db1))))"

definition processKeyDeprecationEvents ::
  "(string \<Rightarrow> nat \<Rightarrow> string option) \<Rightarrow> instant \<Rightarrow> chain_event list \<Rightarrow> dep_db \<Rightarrow> (dep_error + unit) \<times> dep_db" where
  "processKeyDeprecationEvents deliver now es db = processIndexerChainEvents (deprecation_handler deliver now) es db"

section \<open>What the signature check guarantees\<close>

lemma check_signatures_sound:
  assumes "check_signatures lib message adminSet sigs seen ws0 = Inr ws" "seen = set (map to_lower ws0)"
    and "distinct (map to_lower ws0)"
  shows "\<exists>new. ws = ws0 @ new \<and> distinct (map to_lower ws) \<and>
    (\<forall>w \<in> set new. stellar_address w \<and> (adminSet \<noteq> {} \<longrightarrow> to_lower w \<in> adminSet) \<and>
      (\<exists>p \<in> set sigs. w = trim (fst p) \<and> signature_ok lib message w (snd p))) \<and>
    (\<forall>p \<in> set sigs. to_lower (trim (fst p)) \<in> set (map to_lower ws))"
  using assms
proof (induction sigs arbitrary: seen ws0)
  case (Cons p sigs)
  obtain wallet sig where p: "p = (wallet, sig)" by fastforce
  let ?w = "trim wallet"
  show ?case
  proof (cases "to_lower ?w \<in> seen")
    case True
    with Cons.prems p have "check_signatures lib message adminSet sigs seen ws0 = Inr ws" by simp
    from Cons.IH [OF this Cons.prems(2,3)] True Cons.prems(2) p show ?thesis by auto
  next
    case False
    with Cons.prems(1) p have ok: "stellar_address ?w" "adminSet \<noteq> {} \<longrightarrow> to_lower ?w \<in> adminSet"
      "signature_ok lib message ?w sig"
      and rest: "check_signatures lib message adminSet sigs (insert (to_lower ?w) seen) (ws0 @ [?w]) = Inr ws"
      by (auto simp: Let_def split: if_splits)
    have "distinct (map to_lower (ws0 @ [?w]))" using False Cons.prems(2,3) by simp
    have s: "insert (to_lower ?w) seen = set (map to_lower (ws0 @ [?w]))" using Cons.prems(2) by auto
    from Cons.IH [OF rest s \<open>distinct (map to_lower (ws0 @ [?w]))\<close>] obtain new where new: "ws = (ws0 @ [?w]) @ new" "distinct (map to_lower ws)"
      "\<forall>w \<in> set new. stellar_address w \<and> (adminSet \<noteq> {} \<longrightarrow> to_lower w \<in> adminSet) \<and>
        (\<exists>p \<in> set sigs. w = trim (fst p) \<and> signature_ok lib message w (snd p))"
      "\<forall>p \<in> set sigs. to_lower (trim (fst p)) \<in> set (map to_lower ws)"
      by blast
    show ?thesis
      by (rule exI [of _ "?w # new"]) (use new ok p in auto)
  qed
qed simp


section \<open>What a buyback does\<close>

interpretation holding_table: keyed_table holding_key "find_by holding_key" insert_row "modify_by holding_key" "map holding_key"
  by (rule list_keyed_table)

lemma find_key_modify:
  "(\<And>k. k_id (f k) = k_id k) \<Longrightarrow> (\<And>k. k_handle (f k) = k_handle k) \<Longrightarrow>
    find_key keyId (db\<lparr>keyRows := modify_by k_id q f (keyRows db)\<rparr>) =
      map_option (\<lambda>k. if k_id k = q then f k else k) (find_key keyId db)"
  unfolding find_key_def modify_by_def by (simp add: find_map_keep)

text \<open>C25: A buyback pays the whole position once, at the guaranteed price and before the deadline: it records
  the position's quantity, price and their product, empties this position and no other, and no second
  buyback of the position succeeds afterwards, at any time.\<close>

theorem buyback_exits_once:
  assumes "processBuyback enc now newId keyId holder db = Inr (res, db')"
  shows "\<exists>k h. find_key keyId db = Some k \<and> find_by holding_key (holder, k_id k) (holdings db) = Some h \<and>
    k_deprecatedAt k \<noteq> None \<and> \<not> window_closed now k \<and> 0 < br_quantity res \<and> br_quantity res = fl (h_balance h) \<and>
    buybacks db' = buybacks db @ [\<lparr>b_id = newId, b_keyId = k_id k, b_holder = holder, b_quantity = fl (h_balance h),
      b_price = enc (guaranteed_price k), b_amount = enc (fl (fl (h_balance h) * guaranteed_price k)), b_processedAt = now\<rparr>] \<and>
    (\<forall>q. find_by holding_key q (holdings db') =
      (if q = (holder, k_id k) then Some (h\<lparr>h_balance := 0, h_costBasis := 0\<rparr>) else find_by holding_key q (holdings db))) \<and>
    (\<forall>now' newId'. \<not> is_ok (processBuyback enc now' newId' keyId holder db'))"
proof -
  obtain k where k: "find_key keyId db = Some k" "k_deprecatedAt k \<noteq> None" "\<not> window_closed now k" "0 < guaranteed_price k"
    using assms by (auto simp: processBuyback_def split: option.splits if_splits)
  obtain h where h: "find_by holding_key (holder, k_id k) (holdings db) = Some h" "0 < fl (h_balance h)"
    using assms k by (auto simp: processBuyback_def Let_def split: option.splits if_splits)
  have hs: "holdings db' = modify_by holding_key (holder, k_id k) (\<lambda>h. h\<lparr>h_balance := 0, h_costBasis := 0\<rparr>) (holdings db)"
    using assms k h by (auto simp: processBuyback_def Let_def)
  have hold: "find_by holding_key q (holdings db') =
      (if q = (holder, k_id k) then Some (h\<lparr>h_balance := 0, h_costBasis := 0\<rparr>) else find_by holding_key q (holdings db))" for q
    unfolding hs by (subst find_by_modify_by) (auto simp: holding_key_def h(1))
  obtain s where keys: "keyRows db' = modify_by k_id (k_id k) (\<lambda>k'. k'\<lparr>k_circulatingSupply := s\<rparr>) (keyRows db)"
    using assms k h by (auto simp: processBuyback_def Let_def)
  have "find_key keyId db' = find_key keyId (db\<lparr>keyRows := keyRows db'\<rparr>)" by (simp add: find_key_def)
  then have "find_key keyId db' = Some (k\<lparr>k_circulatingSupply := s\<rparr>)"
    unfolding keys by (simp add: find_key_modify k(1))
  then have "\<not> is_ok (processBuyback enc now' newId' keyId holder db')" for now' newId'
    using hold [of "(holder, k_id k)"] by (simp add: processBuyback_def Let_def)
  moreover have "br_quantity res = fl (h_balance h)"
    "buybacks db' = buybacks db @ [\<lparr>b_id = newId, b_keyId = k_id k, b_holder = holder, b_quantity = fl (h_balance h),
      b_price = enc (guaranteed_price k), b_amount = enc (fl (fl (h_balance h) * guaranteed_price k)), b_processedAt = now\<rparr>]"
    using assms k h by (auto simp: processBuyback_def Let_def)
  ultimately show ?thesis using k h hold by metis
qed

section \<open>What a replayed dispatch does\<close>

lemma notify_records:
  assumes "notified (snd acc) = Some sets"
  shows "\<exists>sets'. notified (snd (notify_holder deliver key maxRetries mk holder acc)) = Some sets' \<and>
    sets' key = insert holder (sets key)"
  using assms
  by (cases acc) (auto simp: notify_holder_def Let_def split: prod.split)

lemma notify_fold_records:
  "notified (snd acc) = Some sets \<Longrightarrow>
    \<exists>sets'. notified (snd (fold (notify_holder deliver key maxRetries mk) hs acc)) = Some sets' \<and>
      sets' key = set hs \<union> sets key"
proof (induction hs arbitrary: acc sets)
  case (Cons h hs)
  obtain sets1 where s1: "notified (snd (notify_holder deliver key maxRetries mk h acc)) = Some sets1"
    "sets1 key = insert h (sets key)"
    using notify_records [OF Cons.prems] by blast
  from Cons.IH [OF s1(1)] s1(2) show ?case by auto
qed simp

lemma notify_fold_skips:
  assumes "notified db = Some sets" "set hs \<subseteq> sets key"
  shows "fold (notify_holder deliver key maxRetries mk) hs (counts, db) =
    (counts\<lparr>skipped := skipped counts + length hs\<rparr>, db)"
  using assms(2)
proof (induction hs arbitrary: counts)
  case (Cons h hs)
  then have "notify_holder deliver key maxRetries mk h (counts, db) = (counts\<lparr>skipped := skipped counts + 1\<rparr>, db)"
    by (simp add: notify_holder_def assms(1))
  with Cons show ?case by simp
qed simp

lemma notify_keeps_holdings:
  "holdings (snd (fold (notify_holder deliver key maxRetries mk) hs acc)) = holdings (snd acc)"
proof (induction hs arbitrary: acc)
  case (Cons h hs)
  have "holdings (snd (notify_holder deliver key maxRetries mk h acc)) = holdings (snd acc)"
    by (cases acc) (auto simp: notify_holder_def Let_def split: option.split prod.split)
  with Cons show ?case by simp
qed simp

text \<open>With Redis, replaying the dispatch of an event notifies nobody and changes nothing, whatever the
  outcome of the first dispatch: a holder whose delivery failed is skipped like the others.\<close>

theorem replayed_dispatch_skips_everyone:
  assumes "notified db \<noteq> None"
    and "dispatchKeyDeprecationNotifications deliver keyId eventId reason successor maxRetries db = (counts, db')"
  shows "dispatchKeyDeprecationNotifications deliver' keyId eventId reason successor maxRetries' db' =
    (\<lparr>delivered = 0, failed = 0, skipped = length (current_holders keyId db)\<rparr>, db')"
proof -
  let ?key = "''key_deprecation:dispatch:'' @ eventId" and ?hs = "current_holders keyId db"
  obtain sets where sets: "notified db = Some sets" using assms(1) by blast
  from assms(2) obtain mk where run: "fold (notify_holder deliver ?key maxRetries mk) ?hs
      (\<lparr>delivered = 0, failed = 0, skipped = 0\<rparr>, db) = (counts, db')"
    by (auto simp: dispatchKeyDeprecationNotifications_def notify_all_def)
  obtain sets' where "notified db' = Some sets'" "set ?hs \<subseteq> sets' ?key"
    using notify_fold_records [of "(\<lparr>delivered = 0, failed = 0, skipped = 0\<rparr>, db)" sets deliver ?key maxRetries mk ?hs]
      sets run by auto
  moreover have "holdings db' = holdings db"
    using notify_keeps_holdings [of deliver ?key maxRetries mk ?hs "(\<lparr>delivered = 0, failed = 0, skipped = 0\<rparr>, db)"] run
    by simp
  then have "current_holders keyId db' = ?hs" by (simp add: current_holders_def)
  ultimately show ?thesis
    by (simp add: dispatchKeyDeprecationNotifications_def notify_all_def notify_fold_skips)
qed

section \<open>Witnesses\<close>

definition admin_wallet :: "char \<Rightarrow> string" where
  "admin_wallet c = CHR ''G'' # replicate 55 c"

definition accepting_crypto :: crypto_lib where
  "accepting_crypto = \<lparr>sha256 = (\<lambda>x. x), base64 = (\<lambda>s. replicate 64 (hd s)),
    keypair_verify = (\<lambda>w m b. Some (hd b = w ! 1))\<rparr>"

definition example_quorum :: string where
  "example_quorum = admin_wallet (CHR ''A'') @ '','' @ admin_wallet (CHR ''B'') @ '', '' @ admin_wallet (CHR ''C'')"


definition example_key :: key_row where
  "example_key = \<lparr>k_id = ''k'', k_handle = ''h'', k_displayName = None, k_avatarUrl = None, k_currentPrice = None,
    k_deprecatedAt = Some 5, k_buybackPriceXlm = Some 2, k_buybackExpiresAt = Some 100, k_circulatingSupply = 7,
    k_reason = None, k_successorKeyId = None\<rparr>"

definition example_db :: dep_db where
  "example_db = \<lparr>keyRows = [example_key], holdings = [\<lparr>h_owner = ''W'', h_creatorId = ''k'', h_balance = 3, h_costBasis = 1\<rparr>],
    buybacks = [], logs = [], dep_audit = \<lparr>auditEvents = [], auditLog = []\<rparr>, notified = Some (\<lambda>_. {})\<rparr>"

lemma example_buyback: "is_ok (processBuyback (\<lambda>r. r) 9 ''b1'' ''h'' ''W'' example_db)"
proof -
  have "fl 3 = 3" "fl 2 = 2" using fl_of_int [of 3] fl_of_int [of 2] by simp_all
  then show ?thesis
    by (simp add: processBuyback_def find_key_def example_db_def example_key_def window_closed_def guaranteed_price_def
        holding_key_def Let_def)
qed

theorem buyback_exits_once_witness:
  "\<exists>res db'. processBuyback (\<lambda>r. r) 9 ''b1'' ''h'' ''W'' example_db = Inr (res, db') \<and> 0 < br_quantity res \<and>
    length (buybacks db') = 1 \<and> \<not> is_ok (processBuyback (\<lambda>r. r) 10 ''b2'' ''h'' ''W'' db')"
proof -
  obtain res db' where r: "processBuyback (\<lambda>r. r) 9 ''b1'' ''h'' ''W'' example_db = Inr (res, db')"
    using example_buyback by (auto simp: is_ok_iff)
  have "buybacks example_db = []" by (simp add: example_db_def)
  with buyback_exits_once [OF r] r show ?thesis by auto
qed

theorem replayed_dispatch_skips_everyone_witness:
  "fst (dispatchKeyDeprecationNotifications (\<lambda>_ _. None) ''k'' ''t:0'' None None 3
      (snd (dispatchKeyDeprecationNotifications (\<lambda>_ _. Some ''down'') ''k'' ''t:0'' None None 3 example_db))) =
    \<lparr>delivered = 0, failed = 0, skipped = 1\<rparr>"
proof -
  obtain counts db' where r:
    "dispatchKeyDeprecationNotifications (\<lambda>_ _. Some ''down'') ''k'' ''t:0'' None None 3 example_db = (counts, db')"
    by fastforce
  have "length (current_holders ''k'' example_db) = 1" by (simp add: current_holders_def example_db_def)
  moreover have "notified example_db \<noteq> None" by (simp add: example_db_def)
  ultimately show ?thesis
    using replayed_dispatch_skips_everyone [OF _ r, of "\<lambda>_ _. None" 3] by (simp add: r)
qed

end
