(* ===== verification/Ownership.thy ===== *)
theory Ownership
  imports Js_Double Prelude
begin

text \<open>
  \<open>src/modules/ownership/ownership.service.ts\<close>: the position of a wallet in a key with its
  weighted-average cost basis and realised profit, and the holding snapshots written with every change.

  Reads and writes of one operation are one step. Quantities and prices are finite doubles; a column holds
  what it was given, an increment is exact, and \<open>Number(column)\<close> is \<open>fl\<close>. The leaderboard recomputed after
  a change is a cache and left out.
\<close>

record position =
  po_owner :: string
  po_creator :: string
  po_balance :: rat
  po_costBasis :: rat
  po_realisedPnl :: rat
  po_lastBuyAt :: "instant option"

record holding_snapshot =
  hs_owner :: string
  hs_creator :: string
  hs_balance :: rat
  hs_recordedAt :: instant

record own_db =
  positions :: "position list"
  holdingSnapshots :: "holding_snapshot list"

datatype own_error = InsufficientKeyBalance

definition position_key :: "position \<Rightarrow> string \<times> string" where
  "position_key p = (po_owner p, po_creator p)"

definition recordHoldingSnapshot :: "string \<Rightarrow> string \<Rightarrow> rat \<Rightarrow> instant \<Rightarrow> own_db \<Rightarrow> own_db" where
  "recordHoldingSnapshot owner creator balance recordedAt db =
    (if owner = [] \<or> creator = [] then db
     else db\<lparr>holdingSnapshots := insert_row
       \<lparr>hs_owner = owner, hs_creator = creator, hs_balance = balance, hs_recordedAt = recordedAt\<rparr> (holdingSnapshots db)\<rparr>)"

text \<open>The balance column after a write, as a number.\<close>

definition balance_of :: "string \<times> string \<Rightarrow> own_db \<Rightarrow> rat" where
  "balance_of k db = (case find_by position_key k (positions db) of None \<Rightarrow> 0 | Some p \<Rightarrow> fl (po_balance p))"

definition updateOwnership :: "string \<Rightarrow> string \<Rightarrow> rat \<Rightarrow> instant \<Rightarrow> own_db \<Rightarrow> own_db" where
  "updateOwnership owner creator balanceChange occurredAt db =
    (let db1 = db\<lparr>positions := upsert_by position_key (owner, creator)
           (\<lambda>p. p\<lparr>po_balance := po_balance p + balanceChange\<rparr>)
           \<lparr>po_owner = owner, po_creator = creator, po_balance = balanceChange, po_costBasis = 0,
            po_realisedPnl = 0, po_lastBuyAt = None\<rparr> (positions db)\<rparr>
     in recordHoldingSnapshot owner creator (balance_of (owner, creator) db1) occurredAt db1)"

definition weighted_cost :: "rat \<Rightarrow> rat \<Rightarrow> rat \<Rightarrow> rat \<Rightarrow> rat" where
  "weighted_cost currentBalance currentCostBasis quantity price =
    (let newBalance = max 0 (fl (currentBalance + quantity))
     in if newBalance = 0 then 0
        else if currentBalance \<le> 0 then price
        else fl (fl (fl (currentCostBasis * currentBalance) + fl (price * quantity)) / newBalance))"

definition recordKeyPurchase :: "string \<Rightarrow> string \<Rightarrow> rat \<Rightarrow> rat \<Rightarrow> instant \<Rightarrow> own_db \<Rightarrow> own_db" where
  "recordKeyPurchase owner creator quantityBought pricePerKeyXlm boughtAt db =
    (let existing = find_by position_key (owner, creator) (positions db);
         currentBalance = (case existing of None \<Rightarrow> 0 | Some p \<Rightarrow> fl (po_balance p));
         currentCostBasis = (case existing of None \<Rightarrow> 0 | Some p \<Rightarrow> fl (po_costBasis p));
         newCostBasis = weighted_cost currentBalance currentCostBasis quantityBought pricePerKeyXlm;
         db1 = db\<lparr>positions := upsert_by position_key (owner, creator)
           (\<lambda>p. p\<lparr>po_balance := po_balance p + quantityBought, po_costBasis := newCostBasis, po_lastBuyAt := Some boughtAt\<rparr>)
           \<lparr>po_owner = owner, po_creator = creator, po_balance = quantityBought, po_costBasis = pricePerKeyXlm,
            po_realisedPnl = 0, po_lastBuyAt = Some boughtAt\<rparr> (positions db)\<rparr>
     in recordHoldingSnapshot owner creator (balance_of (owner, creator) db1) boughtAt db1)"

definition computeRealisedPnlForSale :: "rat \<Rightarrow> rat \<Rightarrow> rat \<Rightarrow> rat" where
  "computeRealisedPnlForSale costBasisPerKeyXlm sellPricePerKeyXlm quantitySold =
    fl (fl (sellPricePerKeyXlm - costBasisPerKeyXlm) * quantitySold)"

definition computeCostBasisAfterSale :: "rat \<Rightarrow> rat \<Rightarrow> rat \<Rightarrow> rat" where
  "computeCostBasisAfterSale currentCostBasis currentBalance quantitySold =
    (if fl (currentBalance - quantitySold) \<le> 0 then 0 else currentCostBasis)"

definition recordKeySale :: "string \<Rightarrow> string \<Rightarrow> rat \<Rightarrow> rat \<Rightarrow> instant \<Rightarrow> own_db \<Rightarrow> own_error + own_db" where
  "recordKeySale owner creator quantitySold pricePerKeyXlm soldAt db =
    (case find_by position_key (owner, creator) (positions db) of
      None \<Rightarrow> Inl InsufficientKeyBalance
    | Some p \<Rightarrow>
        let currentBalance = fl (po_balance p); currentCostBasis = fl (po_costBasis p);
            currentRealised = fl (po_realisedPnl p)
        in if currentBalance < quantitySold then Inl InsufficientKeyBalance
           else
             let realisedForTrade = computeRealisedPnlForSale currentCostBasis pricePerKeyXlm quantitySold;
                 newBalance = fl (currentBalance - quantitySold);
                 newCostBasis = computeCostBasisAfterSale currentCostBasis currentBalance quantitySold;
                 db1 = db\<lparr>positions := modify_by position_key (owner, creator)
                   (\<lambda>p. p\<lparr>po_balance := newBalance, po_costBasis := newCostBasis,
                     po_realisedPnl := fl (currentRealised + realisedForTrade)\<rparr>) (positions db)\<rparr>
             in Inr (recordHoldingSnapshot owner creator (balance_of (owner, creator) db1) soldAt db1))"

section \<open>Positions as values\<close>

text \<open>The numbers of a position; a missing row is the empty position.\<close>

record holding_state =
  ho_balance :: rat
  ho_costBasis :: rat
  ho_realisedPnl :: rat
  ho_lastBuyAt :: "instant option"

definition flat :: holding_state where
  "flat = \<lparr>ho_balance = 0, ho_costBasis = 0, ho_realisedPnl = 0, ho_lastBuyAt = None\<rparr>"

definition holding_of :: "string \<times> string \<Rightarrow> own_db \<Rightarrow> holding_state" where
  "holding_of k db = (case find_by position_key k (positions db) of
    None \<Rightarrow> flat
  | Some p \<Rightarrow> \<lparr>ho_balance = po_balance p, ho_costBasis = po_costBasis p, ho_realisedPnl = po_realisedPnl p,
      ho_lastBuyAt = po_lastBuyAt p\<rparr>)"

lemma snapshot_keeps_positions [simp]: "positions (recordHoldingSnapshot owner creator b t db) = positions db"
  by (simp add: recordHoldingSnapshot_def)

lemma holding_of_snapshot [simp]: "holding_of k (recordHoldingSnapshot owner creator b t db) = holding_of k db"
  by (simp add: holding_of_def)

interpretation position_table: keyed_table position_key "find_by position_key" insert_row "modify_by position_key" "map position_key"
  by (rule list_keyed_table)

lemma find_upsert_position:
  assumes "position_key r = k" "\<And>p. position_key (f p) = position_key p"
  shows "find_by position_key k' (upsert_by position_key k f r ps) =
    (if k' = k then Some (case find_by position_key k ps of None \<Rightarrow> r | Some p \<Rightarrow> f p) else find_by position_key k' ps)"
  by (rule find_by_upsert) (simp_all add: assms)

text \<open>The three operations change one position, by a function of its old numbers.\<close>

definition bought :: "rat \<Rightarrow> rat \<Rightarrow> instant \<Rightarrow> holding_state \<Rightarrow> holding_state" where
  "bought q price t h = h\<lparr>ho_balance := ho_balance h + q,
    ho_costBasis := weighted_cost (fl (ho_balance h)) (fl (ho_costBasis h)) q price, ho_lastBuyAt := Some t\<rparr>"

definition sold :: "rat \<Rightarrow> rat \<Rightarrow> holding_state \<Rightarrow> holding_state" where
  "sold q price h =
    (if fl (ho_balance h) < q then h\<lparr>ho_balance := ho_balance h - q\<rparr>
     else h\<lparr>ho_balance := fl (fl (ho_balance h) - q),
       ho_costBasis := computeCostBasisAfterSale (fl (ho_costBasis h)) (fl (ho_balance h)) q,
       ho_realisedPnl := fl (fl (ho_realisedPnl h) + computeRealisedPnlForSale (fl (ho_costBasis h)) price q)\<rparr>)"

lemma purchase_holding:
  assumes "0 < fl q"
  shows "holding_of k (recordKeyPurchase owner creator q price t db) =
    (if k = (owner, creator) then bought q price t (holding_of k db) else holding_of k db)"
  using assms
  by (auto simp: holding_of_def recordKeyPurchase_def Let_def find_upsert_position position_key_def bought_def flat_def
      weighted_cost_def split: option.split)

text \<open>A sale as the indexer runs it: the balance is only decremented when no sufficient position is found.\<close>

definition record_sale_or_decrement :: "string \<Rightarrow> string \<Rightarrow> rat \<Rightarrow> rat \<Rightarrow> instant \<Rightarrow> own_db \<Rightarrow> own_db" where
  "record_sale_or_decrement owner creator q price t db =
    (case recordKeySale owner creator q price t db of
      Inr db1 \<Rightarrow> db1
    | Inl _ \<Rightarrow> updateOwnership owner creator (- q) t db)"

lemma sale_holding:
  assumes "0 < q"
  shows "holding_of k (record_sale_or_decrement owner creator q price t db) =
    (if k = (owner, creator) then sold q price (holding_of k db) else holding_of k db)"
proof (cases "find_by position_key (owner, creator) (positions db)")
  case None
  with assms show ?thesis
    by (auto simp: record_sale_or_decrement_def recordKeySale_def updateOwnership_def holding_of_def Let_def
        find_upsert_position position_key_def sold_def flat_def split: option.split)
next
  case (Some p)
  have "find_by position_key k (modify_by position_key (owner, creator) (\<lambda>p. p\<lparr>po_balance := b, po_costBasis := c,
      po_realisedPnl := r\<rparr>) ps) = (if k = (owner, creator)
        then map_option (\<lambda>p. p\<lparr>po_balance := b, po_costBasis := c, po_realisedPnl := r\<rparr>)
          (find_by position_key (owner, creator) ps)
        else find_by position_key k ps)" for b c r ps
    by (rule find_by_modify_by) (simp add: position_key_def)
  with Some show ?thesis
    by (auto simp: record_sale_or_decrement_def recordKeySale_def updateOwnership_def holding_of_def Let_def
        find_upsert_position position_key_def sold_def split: option.split)
qed

section \<open>Profit accounting\<close>

lemma sale_keeps_cost_basis:
  assumes "recordKeySale owner creator q price t db = Inr db'" "0 < fl (fl (ho_balance (holding_of (owner, creator) db)) - q)"
  shows "ho_costBasis (holding_of (owner, creator) db') = fl (ho_costBasis (holding_of (owner, creator) db))"
proof -
  obtain p where p: "find_by position_key (owner, creator) (positions db) = Some p" "\<not> fl (po_balance p) < q"
    using assms(1) by (auto simp: recordKeySale_def Let_def split: option.splits if_splits)
  have "find_by position_key (owner, creator) (modify_by position_key (owner, creator) (\<lambda>p. p\<lparr>po_balance := b,
      po_costBasis := c, po_realisedPnl := r\<rparr>) (positions db)) = Some (p\<lparr>po_balance := b, po_costBasis := c, po_realisedPnl := r\<rparr>)"
    for b c r
    by (subst find_by_modify_by) (simp_all add: position_key_def p)
  then show ?thesis
    using assms p by (auto simp: recordKeySale_def holding_of_def Let_def computeCostBasisAfterSale_def)
qed

end
