(* ===== verification/Signed_Cursor.thy ===== *)
theory Signed_Cursor
  imports Merkle
begin

text \<open>
  \<open>src/utils/cursor.utils.ts\<close>: opaque page cursors, \<open>base64url(json).checksum\<close> with an HMAC checksum.

  Arguments: base64url of Node's \<open>Buffer\<close>, the HMAC under the server's secret in hexadecimal
  (\<open>cursor_lib\<close>), and JSON. What is used of them is \<open>cursor_laws\<close> and the JSON round trip.
\<close>

record cursor_lib =
  to_base64url :: "string \<Rightarrow> string"
  of_base64url :: "string \<Rightarrow> string"
  hmac_hex :: "string \<Rightarrow> string"

datatype cursor_error =
    CursorMissing
  | CursorFormat
  | CursorPayloadEmpty
  | CursorChecksumEmpty
  | CursorChecksumMismatch
  | CursorPayloadInvalid

definition generateCursorChecksum :: "cursor_lib \<Rightarrow> string \<Rightarrow> string" where
  "generateCursorChecksum lib payload = hmac_hex lib payload"

definition encodeCursor :: "json_lib \<Rightarrow> cursor_lib \<Rightarrow> js_value \<Rightarrow> string" where
  "encodeCursor json lib payload =
    (let base64Payload = to_base64url lib (stringify json payload)
     in base64Payload @ ''.'' @ generateCursorChecksum lib base64Payload)"

text \<open>The checksums are compared as bytes, after decoding both from hexadecimal.\<close>

definition checksum_ok :: "cursor_lib \<Rightarrow> string \<Rightarrow> string option \<Rightarrow> cursor_error + unit" where
  "checksum_ok lib base64Payload providedChecksum =
    (case providedChecksum of
      None \<Rightarrow> Inr ()
    | Some c \<Rightarrow>
        if c = [] then Inl CursorChecksumEmpty
        else if from_hex (generateCursorChecksum lib base64Payload) \<noteq> from_hex c then Inl CursorChecksumMismatch
        else Inr ())"

definition decodeCursor :: "json_lib \<Rightarrow> cursor_lib \<Rightarrow> string \<Rightarrow> cursor_error + js_value" where
  "decodeCursor json lib cur =
    (if cur = [] then Inl CursorMissing
     else
       let parts = split_on (CHR ''.'') cur
       in if length parts > 2 then Inl CursorFormat
          else
            let base64Payload = hd parts;
                providedChecksum = (if length parts = 2 then Some (parts ! 1) else None)
            in if base64Payload = [] then Inl CursorPayloadEmpty
               else and_then (checksum_ok lib base64Payload providedChecksum) (\<lambda>_.
                 case parse json (of_base64url lib base64Payload) of
                   None \<Rightarrow> Inl CursorPayloadInvalid
                 | Some v \<Rightarrow> Inr v))"

section \<open>What the checksum protects\<close>

text \<open>
  Documented behaviour of the libraries: base64url text has no dot, is empty for the empty text only, and decodes to what was encoded, and
  the checksum is a hexadecimal digest.
\<close>

definition cursor_laws :: "cursor_lib \<Rightarrow> bool" where
  "cursor_laws lib \<longleftrightarrow>
    (\<forall>s. of_base64url lib (to_base64url lib s) = s \<and> (to_base64url lib s = [] \<longrightarrow> s = []) \<and> CHR ''.'' \<notin> set (to_base64url lib s)) \<and>
    hex_digest (hmac_hex lib)"

definition json_value_ok :: "json_lib \<Rightarrow> js_value \<Rightarrow> bool" where
  "json_value_ok json v \<longleftrightarrow> stringify json v \<noteq> [] \<and> parse json (stringify json v) = Some v"

lemma split_on_pair: "sep \<notin> set a \<Longrightarrow> sep \<notin> set b \<Longrightarrow> split_on sep (a @ sep # b) = [a, b]"
  by (induction a) auto

lemma hex_has_no_dot: "lower_hex c \<Longrightarrow> c \<noteq> CHR ''.''"
  by (auto simp: lower_hex_def hex_value_def)

lemma digest_shape:
  assumes "hex_digest h"
  shows "h x \<noteq> []" "CHR ''.'' \<notin> set (h x)"
proof -
  have "length (h x) = 64" "\<forall>c \<in> set (h x). lower_hex c" using assms by (auto simp: hex_digest_def list_all_iff)
  then show "h x \<noteq> []" "CHR ''.'' \<notin> set (h x)" using hex_has_no_dot by fastforce+
qed

text \<open>A cursor with a checksum decodes only if the checksum is the one of its payload.\<close>

lemma decoded_checksum_valid:
  assumes "decodeCursor json lib (p @ CHR ''.'' # c) = Inr v" "CHR ''.'' \<notin> set p" "CHR ''.'' \<notin> set c"
  shows "from_hex c = from_hex (hmac_hex lib p) \<and> parse json (of_base64url lib p) = Some v"
  using assms(1)
  by (auto simp: decodeCursor_def split_on_pair [OF assms(2,3)] checksum_ok_def generateCursorChecksum_def
      Let_def split: if_splits option.splits)

lemma cursor_decodes:
  assumes "cursor_laws lib" "json_value_ok json v"
  shows "decodeCursor json lib (encodeCursor json lib v) = Inr v"
proof -
  let ?p = "to_base64url lib (stringify json v)"
  have p: "of_base64url lib ?p = stringify json v" "CHR ''.'' \<notin> set ?p" "?p \<noteq> []"
    using assms by (auto simp: cursor_laws_def json_value_ok_def)
  have h: "CHR ''.'' \<notin> set (hmac_hex lib ?p)" "hmac_hex lib ?p \<noteq> []"
    using digest_shape [of "hmac_hex lib"] assms(1) by (simp_all add: cursor_laws_def)
  have "decodeCursor json lib (?p @ CHR ''.'' # hmac_hex lib ?p) = Inr v"
    using p(3) h(2) assms(2)
    by (simp only: decodeCursor_def split_on_pair [OF p(2) h(1)])
      (simp add: p(1) checksum_ok_def generateCursorChecksum_def json_value_ok_def)
  then show ?thesis by (simp add: encodeCursor_def generateCursorChecksum_def Let_def)
qed


section \<open>Witness\<close>

text \<open>A codec that writes each byte as two letters.\<close>

definition letters_of :: "char \<Rightarrow> string" where
  "letters_of c = (let n = of_char c :: nat in [char_of (65 + n div 16), char_of (65 + n mod 16)])"

fun of_letters :: "string \<Rightarrow> string" where
  "of_letters (a # b # cs) = char_of (16 * (of_char a - 65) + (of_char b - 65) :: nat) # of_letters cs"
| "of_letters _ = []"

definition example_cursor_lib :: cursor_lib where
  "example_cursor_lib = \<lparr>to_base64url = (\<lambda>s. concat (map letters_of s)), of_base64url = of_letters,
    hmac_hex = (\<lambda>_. replicate 64 (CHR ''0''))\<rparr>"

lemma letter_code: "n < 16 \<Longrightarrow> of_char (char_of (65 + n) :: char) = 65 + (n :: nat)"
  by (simp add: of_char_of)

lemma of_letters_letters: "of_letters (letters_of c @ s) = c # of_letters s"
proof -
  have "(of_char c :: nat) < 256" by simp
  then have "(of_char c :: nat) div 16 < 16" "(of_char c :: nat) mod 16 < 16" by (simp_all add: div_less_iff_less_mult)
  then show ?thesis by (simp add: letters_of_def Let_def letter_code)
qed

lemma letters_are_letters: "x \<in> set (letters_of c) \<Longrightarrow> of_char x \<in> {65 ..< 81 :: nat}"
proof -
  have "(of_char c :: nat) < 256" by simp
  then have "(of_char c :: nat) div 16 < 16" "(of_char c :: nat) mod 16 < 16" by (simp_all add: div_less_iff_less_mult)
  then show "x \<in> set (letters_of c) \<Longrightarrow> of_char x \<in> {65 ..< 81 :: nat}"
    by (auto simp: letters_of_def Let_def letter_code)
qed

lemma letters_no_dot: "CHR ''.'' \<notin> set (letters_of c)"
  using letters_are_letters [of "CHR ''.''" c] by auto

lemma of_letters_concat: "of_letters (concat (map letters_of s)) = s"
  by (induction s) (simp_all add: of_letters_letters)

lemma example_cursor_laws: "cursor_laws example_cursor_lib"
proof -
  have "CHR ''.'' \<notin> set (concat (map letters_of s))" for s
    using letters_no_dot by auto
  moreover have "lower_hex (CHR ''0'')" by code_simp
  moreover have "concat (map letters_of s) = [] \<Longrightarrow> s = []" for s
    by (cases s) (auto simp: letters_of_def Let_def)
  ultimately show ?thesis by (simp add: cursor_laws_def example_cursor_lib_def hex_digest_def list_all_iff of_letters_concat)
qed

definition example_cursor_json :: json_lib where
  "example_cursor_json = \<lparr>stringify = (\<lambda>_. ''{}''), parse = (\<lambda>_. Some (Jobj []))\<rparr>"


end
