(* ===== verification/Referrals.thy ===== *)
theory Referrals
  imports Signed_Cursor Raw_Events Pagination "HOL-Library.Product_Lexorder"
begin

text \<open>
  \<open>src/modules/referrals/referrals.service.ts\<close>: referral codes, registration, the reward for the first
  trade of a referred wallet, and the lists of referred wallets.

  Registration reads before it writes, so it is two steps (\<open>register_check\<close>, \<open>register_commit\<close>); the
  reward is one transaction. Generated codes and ids, the current time, the reward rate and the printing
  of dates are arguments. A column holds the double it was given; sums are taken by the database.
\<close>

section \<open>Tables\<close>

record code_row =
  rc_wallet :: string
  rc_code :: string

record referral_row =
  rf_id :: string
  rf_referrer :: string
  rf_referee :: string
  rf_code :: string
  rf_firstTradeAt :: "instant option"
  rf_firstTradeKeyId :: "string option"
  rf_createdAt :: instant

record fee_row =
  fe_wallet :: string
  fe_referee :: "string option"
  fe_keyId :: string
  fe_amount :: rat
  fe_txHash :: "string option"
  fe_eventIndex :: "int option"
  fe_createdAt :: instant

record referral_db =
  ref_codes :: "code_row list"
  referrals :: "referral_row list"
  fee_events :: "fee_row list"

datatype referral_error =
    ReferralCodeNotFound
  | AlreadyReferred string
  | SelfReferral string
  | NoUniqueCode string
  | InvalidAmount
  | InvalidCursor

section \<open>Codes\<close>

definition REFERRAL_CODE_LENGTH :: nat where
  "REFERRAL_CODE_LENGTH = 10"

definition REFERRAL_CODE_ALPHABET :: string where
  "REFERRAL_CODE_ALPHABET = ''ABCDEFGHJKLMNPQRSTUVWXYZ23456789''"

definition REFERRAL_CODE_MAX_ATTEMPTS :: nat where
  "REFERRAL_CODE_MAX_ATTEMPTS = 5"

text \<open>The bytes of one call of \<open>randomBytes\<close> appended to a partial code.\<close>

fun add_bytes :: "string \<Rightarrow> nat list \<Rightarrow> string" where
  "add_bytes code [] = code"
| "add_bytes code (byte # bytes) =
    (let alphabet = REFERRAL_CODE_ALPHABET; maxUnbiased = 256 div length alphabet * length alphabet
     in if byte \<ge> maxUnbiased then add_bytes code bytes
        else let code' = code @ [alphabet ! (byte mod length alphabet)]
             in if length code' = REFERRAL_CODE_LENGTH then code' else add_bytes code' bytes)"

text \<open>The successive batches of random bytes are an argument; \<open>None\<close> when they are used up.\<close>

fun fill_code :: "string \<Rightarrow> nat list list \<Rightarrow> string option" where
  "fill_code code batches =
    (if length code < REFERRAL_CODE_LENGTH then
       case batches of [] \<Rightarrow> None | b # bs \<Rightarrow> fill_code (add_bytes code b) bs
     else Some code)"

declare fill_code.simps [simp del]

definition generateReferralCode :: "nat list list \<Rightarrow> string option" where
  "generateReferralCode batches = fill_code [] batches"

definition code_taken :: "string \<Rightarrow> string \<Rightarrow> referral_db \<Rightarrow> bool" where
  "code_taken address code db \<longleftrightarrow> (\<exists>r \<in> set (ref_codes db). rc_wallet r = address \<or> rc_code r = code)"

text \<open>One element of the list per attempt: the code generated in it.\<close>

fun code_attempts :: "string \<Rightarrow> string list \<Rightarrow> referral_db \<Rightarrow> (referral_error + string) \<times> referral_db" where
  "code_attempts address [] db =
    (case find_by rc_wallet address (ref_codes db) of
      Some r \<Rightarrow> (Inr (rc_code r), db)
    | None \<Rightarrow> (Inl (NoUniqueCode address), db))"
| "code_attempts address (code # codes) db =
    (case find_by rc_wallet address (ref_codes db) of
      Some r \<Rightarrow> (Inr (rc_code r), db)
    | None \<Rightarrow>
        if code_taken address code db then code_attempts address codes db
        else (Inr code, db\<lparr>ref_codes := insert_row \<lparr>rc_wallet = address, rc_code = code\<rparr> (ref_codes db)\<rparr>))"

definition getOrCreateReferralCode :: "(nat \<Rightarrow> string) \<Rightarrow> string \<Rightarrow> referral_db \<Rightarrow> (referral_error + string) \<times> referral_db" where
  "getOrCreateReferralCode generated wallet db =
    code_attempts (trim wallet) (map generated [0 ..< REFERRAL_CODE_MAX_ATTEMPTS]) db"

section \<open>Registration\<close>

definition upper_char :: "char \<Rightarrow> char" where
  "upper_char c = (let n = of_char c :: nat in if 97 \<le> n \<and> n \<le> 122 then char_of (n - 32) else c)"

definition to_upper :: "string \<Rightarrow> string" where
  "to_upper s = map upper_char s"

record register_claim =
  rg_referrer :: string
  rg_referee :: string
  rg_code :: string

definition register_check :: "string \<Rightarrow> string \<Rightarrow> referral_db \<Rightarrow> referral_error + register_claim" where
  "register_check refereeAddress code db =
    (let referee = trim refereeAddress; normalizedCode = to_upper (trim code)
     in case find_by rc_code normalizedCode (ref_codes db) of
          None \<Rightarrow> Inl ReferralCodeNotFound
        | Some r \<Rightarrow>
            if rc_wallet r = referee then Inl (SelfReferral referee)
            else if find_by rf_referee referee (referrals db) \<noteq> None then Inl (AlreadyReferred referee)
            else Inr \<lparr>rg_referrer = rc_wallet r, rg_referee = referee, rg_code = normalizedCode\<rparr>)"

text \<open>\<open>create\<close>; the unique column \<open>refereeAddress\<close> decides races.\<close>

definition register_commit :: "instant \<Rightarrow> string \<Rightarrow> register_claim \<Rightarrow> referral_db \<Rightarrow> referral_error + referral_row \<times> referral_db" where
  "register_commit now newId c db =
    (if find_by rf_referee (rg_referee c) (referrals db) \<noteq> None then Inl (AlreadyReferred (rg_referee c))
     else
       let row = \<lparr>rf_id = newId, rf_referrer = rg_referrer c, rf_referee = rg_referee c, rf_code = rg_code c,
             rf_firstTradeAt = None, rf_firstTradeKeyId = None, rf_createdAt = now\<rparr>
       in Inr (row, db\<lparr>referrals := insert_row row (referrals db)\<rparr>))"

definition registerReferral :: "instant \<Rightarrow> string \<Rightarrow> string \<Rightarrow> string \<Rightarrow> referral_db \<Rightarrow> referral_error + referral_row \<times> referral_db" where
  "registerReferral now newId refereeAddress code db =
    and_then (register_check refereeAddress code db) (\<lambda>c. register_commit now newId c db)"

section \<open>The reward for the first trade\<close>

definition XLM_DECIMALS :: nat where
  "XLM_DECIMALS = 7"

text \<open>\<open>Number(x.toFixed(d))\<close>: the nearest multiple, the larger of two; plain printing from \<open>10^21\<close> on.\<close>

definition to_fixed :: "nat \<Rightarrow> rat \<Rightarrow> rat" where
  "to_fixed d x =
    (if \<bar>x\<bar> < 10 ^ 21 then sgn x * fl (of_int \<lfloor>\<bar>x\<bar> * 10 ^ d + 1 / 2\<rfloor> / 10 ^ d) else x)"

definition roundXlm :: "rat \<Rightarrow> rat" where
  "roundXlm amount = to_fixed XLM_DECIMALS amount"

text \<open>The value of a trade may be \<open>NaN\<close> or infinite when the event carries no number.\<close>

fun reward_xlm :: "rat \<Rightarrow> js_num \<Rightarrow> js_num" where
  "reward_xlm bps (Fin v) = Fin (roundXlm (fl (fl (v * bps) / 10000)))"
| "reward_xlm bps NaN = NaN"
| "reward_xlm bps (Infinite pos) = (if bps = 0 then NaN else Infinite pos)"

definition unclaimed :: "string \<Rightarrow> referral_row \<Rightarrow> bool" where
  "unclaimed address r \<longleftrightarrow> rf_referee r = address \<and> rf_firstTradeAt r = None"

definition recordFirstTradeReferralReward ::
  "rat \<Rightarrow> string \<Rightarrow> string \<Rightarrow> js_num \<Rightarrow> string option \<Rightarrow> int option \<Rightarrow> instant \<Rightarrow> referral_db \<Rightarrow>
    referral_error + bool \<times> referral_db" where
  "recordFirstTradeReferralReward bps refereeAddress keyId tradeValueXlm txHash eventIndex tradeAt db =
    (let address = trim refereeAddress
     in case find (unclaimed address) (referrals db) of
          None \<Rightarrow> Inr (False, db)
        | Some r \<Rightarrow>
            let db1 = db\<lparr>referrals := modify_where (unclaimed address)
                  (\<lambda>r. r\<lparr>rf_firstTradeAt := Some tradeAt, rf_firstTradeKeyId := Some keyId\<rparr>) (referrals db)\<rparr>
            in (case reward_xlm bps tradeValueXlm of
                  Fin amount \<Rightarrow>
                    if amount > 0 then
                      Inr (rf_referrer r \<noteq> [], db1\<lparr>fee_events := insert_row \<lparr>fe_wallet = rf_referrer r, fe_referee = Some address,
                        fe_keyId = keyId, fe_amount = amount, fe_txHash = txHash, fe_eventIndex = eventIndex,
                        fe_createdAt = tradeAt\<rparr> (fee_events db1)\<rparr>)
                    else Inr (rf_referrer r \<noteq> [], db1)
                | NaN \<Rightarrow> Inr (rf_referrer r \<noteq> [], db1)
                | Infinite pos \<Rightarrow> if pos then Inl InvalidAmount else Inr (rf_referrer r \<noteq> [], db1)))"

section \<open>The list of referred wallets\<close>

definition DEFAULT_REFERRED_PAGE_SIZE :: nat where
  "DEFAULT_REFERRED_PAGE_SIZE = 20"

type_synonym page_key = "instant \<times> string"

definition referral_key :: "referral_row \<Rightarrow> page_key" where
  "referral_key r = (rf_createdAt r, rf_id r)"

record cursor_env =
  ce_json :: json_lib
  ce_cursor :: cursor_lib
  ce_date :: "string \<Rightarrow> instant option"
  ce_iso :: "instant \<Rightarrow> string"

definition referred_cursor :: "cursor_env \<Rightarrow> page_key \<Rightarrow> string" where
  "referred_cursor env k = encodeCursor (ce_json env) (ce_cursor env)
    (Jobj [(''joinedAt'', Jstr (ce_iso env (fst k))), (''id'', Jstr (snd k))])"

definition parseReferredCursor :: "cursor_env \<Rightarrow> string option \<Rightarrow> referral_error + page_key option" where
  "parseReferredCursor env cur =
    (case cur of
      None \<Rightarrow> Inr None
    | Some text \<Rightarrow>
        if text = [] then Inr None
        else case decodeCursor (ce_json env) (ce_cursor env) text of
          Inl _ \<Rightarrow> Inl InvalidCursor
        | Inr (Jobj fs) \<Rightarrow>
            (case (js_field ''joinedAt'' fs, js_field ''id'' fs) of
              (Jstr joinedAt, Jstr rowId) \<Rightarrow>
                (case ce_date env joinedAt of None \<Rightarrow> Inl InvalidCursor | Some t \<Rightarrow> Inr (Some (t, rowId)))
            | _ \<Rightarrow> Inl InvalidCursor)
        | Inr _ \<Rightarrow> Inl InvalidCursor)"

definition newest_first :: "referral_row list \<Rightarrow> referral_row list" where
  "newest_first rows = rev (sort_key referral_key rows)"

definition before_cursor :: "page_key option \<Rightarrow> referral_row \<Rightarrow> bool" where
  "before_cursor cur r \<longleftrightarrow>
    (case cur of
      None \<Rightarrow> True
    | Some (t, i) \<Rightarrow> rf_createdAt r < t \<or> rf_createdAt r \<le> t \<and> rf_id r < i)"

definition sumEarnedByReferee :: "string \<Rightarrow> string list \<Rightarrow> referral_db \<Rightarrow> string \<Rightarrow> rat option" where
  "sumEarnedByReferee referrer referees db referee =
    (let rows = filter (\<lambda>f. fe_wallet f = referrer \<and> fe_referee f = Some referee) (fee_events db)
     in if referee \<in> set referees \<and> rows \<noteq> [] \<and> referee \<noteq> [] then Some (fl (sum_list (map fe_amount rows))) else None)"

record referred_wallet =
  rw_refereeAddress :: string
  rw_joinedAt :: string
  rw_firstTradeAt :: "string option"
  rw_hasCompletedFirstTrade :: bool
  rw_status :: string
  rw_earnedXlm :: rat

definition toStatus :: "instant option \<Rightarrow> string" where
  "toStatus firstTradeAt = (if firstTradeAt \<noteq> None then ''ACTIVE'' else ''PENDING'')"

definition referred_item :: "cursor_env \<Rightarrow> (string \<Rightarrow> rat option) \<Rightarrow> referral_row \<Rightarrow> referred_wallet" where
  "referred_item env earned r =
    \<lparr>rw_refereeAddress = rf_referee r, rw_joinedAt = ce_iso env (rf_createdAt r),
     rw_firstTradeAt = map_option (ce_iso env) (rf_firstTradeAt r),
     rw_hasCompletedFirstTrade = rf_firstTradeAt r \<noteq> None, rw_status = toStatus (rf_firstTradeAt r),
     rw_earnedXlm = roundXlm (case earned (rf_referee r) of None \<Rightarrow> 0 | Some e \<Rightarrow> e)\<rparr>"

text \<open>A page of size zero, whose cursor would be taken from no row, is \<open>InvalidCursor\<close> here; the schema asks for at least one.\<close>

definition listReferredWallets ::
  "cursor_env \<Rightarrow> string \<Rightarrow> string option \<Rightarrow> nat \<Rightarrow> referral_db \<Rightarrow> referral_error + referred_wallet page_envelope" where
  "listReferredWallets env referrer cur lim' db =
    and_then (parseReferredCursor env cur) (\<lambda>c.
      let rows = take (lim' + 1) (newest_first (filter (\<lambda>r. rf_referrer r = referrer \<and> before_cursor c r) (referrals db)));
          earned = sumEarnedByReferee referrer (map rf_referee rows) db;
          cursorFn = (\<lambda>item. case find_by rf_referee (rw_refereeAddress item) rows of
            None \<Rightarrow> [] | Some r \<Rightarrow> referred_cursor env (referral_key r))
      in case buildPaginatedResponse (map (referred_item env earned) rows) lim' cursorFn of
           Inl _ \<Rightarrow> Inl InvalidCursor
         | Inr envelope \<Rightarrow> Inr envelope)"

record earnings_item =
  ei_refereeAddress :: string
  ei_joinedAt :: string
  ei_firstTradeAt :: "string option"
  ei_status :: string
  ei_earnedXlm :: rat

record earnings =
  er_referralCode :: string
  er_totalEarned :: rat
  er_rewardedReferralCount :: nat
  er_referredCount :: nat
  er_breakdown :: "earnings_item list"
  er_limit :: nat
  er_nextCursor :: "string option"
  er_hasMore :: bool

definition earnings_of :: "referred_wallet \<Rightarrow> earnings_item" where
  "earnings_of item = \<lparr>ei_refereeAddress = rw_refereeAddress item, ei_joinedAt = rw_joinedAt item,
    ei_firstTradeAt = rw_firstTradeAt item, ei_status = rw_status item, ei_earnedXlm = rw_earnedXlm item\<rparr>"

text \<open>The five reads run side by side; the code may be created by one of them.\<close>

definition getReferralEarnings ::
  "cursor_env \<Rightarrow> (nat \<Rightarrow> string) \<Rightarrow> string \<Rightarrow> string option \<Rightarrow> nat \<Rightarrow> referral_db \<Rightarrow> (referral_error + earnings) \<times> referral_db" where
  "getReferralEarnings env generated referrer cur lim' db =
    (let (code, db1) = getOrCreateReferralCode generated referrer db
     in (and_then code (\<lambda>referralCode.
           and_then (listReferredWallets env referrer cur lim' db1) (\<lambda>page.
             Inr \<lparr>er_referralCode = referralCode,
               er_totalEarned = roundXlm (fl (sum_list (map fe_amount (filter (\<lambda>f. fe_wallet f = referrer) (fee_events db1))))),
               er_rewardedReferralCount =
                 length (filter (\<lambda>r. rf_referrer r = referrer \<and> rf_firstTradeAt r \<noteq> None) (referrals db1)),
               er_referredCount = length (filter (\<lambda>r. rf_referrer r = referrer) (referrals db1)),
               er_breakdown = map earnings_of (items page), er_limit = lim', er_nextCursor = next_cursor page,
               er_hasMore = has_more page\<rparr>)), db1))"

section \<open>Codes are well-formed\<close>

lemma alphabet_size: "length REFERRAL_CODE_ALPHABET = 32"
  by (simp add: REFERRAL_CODE_ALPHABET_def)

lemma add_bytes_step:
  assumes "b < 256" "length code < 10"
  shows "add_bytes code (b # bs) = (if length code = 9 then code @ [REFERRAL_CODE_ALPHABET ! (b mod 32)]
    else add_bytes (code @ [REFERRAL_CODE_ALPHABET ! (b mod 32)]) bs)"
  using assms by (simp add: Let_def alphabet_size REFERRAL_CODE_LENGTH_def)

lemma add_bytes_full:
  assumes "\<forall>b \<in> set bs. b < 256" "length code < 10" "10 - length code \<le> length bs" "set code \<subseteq> set REFERRAL_CODE_ALPHABET"
  shows "length (add_bytes code bs) = 10 \<and> set (add_bytes code bs) \<subseteq> set REFERRAL_CODE_ALPHABET"
  using assms
proof (induction bs arbitrary: code)
  case (Cons b bs)
  let ?c = "REFERRAL_CODE_ALPHABET ! (b mod 32)"
  have c: "?c \<in> set REFERRAL_CODE_ALPHABET" by (simp add: alphabet_size)
  show ?case
  proof (cases "length code = 9")
    case True
    with Cons.prems c show ?thesis by (simp add: add_bytes_step del: add_bytes.simps)
  next
    case False
    have "length (add_bytes (code @ [?c]) bs) = 10 \<and> set (add_bytes (code @ [?c]) bs) \<subseteq> set REFERRAL_CODE_ALPHABET"
      by (rule Cons.IH) (use Cons.prems False c in auto)
    with False Cons.prems show ?thesis by (simp add: add_bytes_step del: add_bytes.simps)
  qed
qed simp

text \<open>One batch of random bytes always suffices: the rejection never happens, as 32 divides 256.\<close>

lemma generated_code_ok:
  assumes "length batch = 10" "\<forall>b \<in> set batch. b < 256"
  shows "\<exists>code. generateReferralCode (batch # batches) = Some code \<and> length code = REFERRAL_CODE_LENGTH \<and>
    set code \<subseteq> set REFERRAL_CODE_ALPHABET"
proof -
  have "length (add_bytes [] batch) = 10 \<and> set (add_bytes [] batch) \<subseteq> set REFERRAL_CODE_ALPHABET"
    by (rule add_bytes_full) (use assms in auto)
  then show ?thesis
    by (simp add: generateReferralCode_def fill_code.simps [of "[]"] fill_code.simps [of "add_bytes [] batch"] REFERRAL_CODE_LENGTH_def)
qed

section \<open>Every referred wallet is rewarded once\<close>

text \<open>
  The steps of the service: code creation, the two halves of a registration, and the reward of a trade.
  A claim in \<open>pending\<close> has passed the checks of \<open>registerReferral\<close> but is not written yet, so any steps
  of other requests may come between the halves.
\<close>

inductive referral_step :: "referral_db \<times> register_claim set \<Rightarrow> referral_db \<times> register_claim set \<Rightarrow> bool" where
  create_code: "getOrCreateReferralCode generated wallet db = (r, db') \<Longrightarrow> referral_step (db, pending) (db', pending)"
| check: "register_check referee code db = Inr c \<Longrightarrow> referral_step (db, pending) (db, insert c pending)"
| commit: "c \<in> pending \<Longrightarrow> register_commit now newId c db = Inr (row, db') \<Longrightarrow> referral_step (db, pending) (db', pending - {c})"
| reward: "recordFirstTradeReferralReward bps referee keyId val txHash i tradeAt db = Inr (b, db') \<Longrightarrow>
    referral_step (db, pending) (db', pending)"

definition code_owner :: "referral_db \<Rightarrow> string \<Rightarrow> string \<Rightarrow> bool" where
  "code_owner db code wallet \<longleftrightarrow> \<lparr>rc_wallet = wallet, rc_code = code\<rparr> \<in> set (ref_codes db)"

definition rewarded :: "fee_row \<Rightarrow> referral_row \<Rightarrow> bool" where
  "rewarded f r \<longleftrightarrow> fe_referee f = Some (rf_referee r) \<and> fe_wallet f = rf_referrer r \<and>
    rf_firstTradeAt r = Some (fe_createdAt f) \<and> rf_firstTradeKeyId r = Some (fe_keyId f)"

definition referral_inv :: "referral_db \<times> register_claim set \<Rightarrow> bool" where
  "referral_inv s \<longleftrightarrow> (let (db, pending) = s in
    distinct (map rc_wallet (ref_codes db)) \<and> distinct (map rc_code (ref_codes db)) \<and>
    distinct (map rf_referee (referrals db)) \<and>
    (\<forall>r \<in> set (referrals db). code_owner db (rf_code r) (rf_referrer r) \<and> rf_referrer r \<noteq> rf_referee r) \<and>
    (\<forall>c \<in> pending. code_owner db (rg_code c) (rg_referrer c) \<and> rg_referrer c \<noteq> rg_referee c) \<and>
    distinct (map fe_referee (fee_events db)) \<and>
    (\<forall>f \<in> set (fee_events db). 0 < fe_amount f \<and> (\<exists>r \<in> set (referrals db). rewarded f r)))"

lemma code_attempts_cases:
  "code_attempts address codes db = (r, db') \<Longrightarrow>
    db' = db \<or> (\<exists>code. \<not> code_taken address code db \<and> r = Inr code \<and>
      db' = db\<lparr>ref_codes := insert_row \<lparr>rc_wallet = address, rc_code = code\<rparr> (ref_codes db)\<rparr>)"
  by (induction codes) (auto split: option.splits if_splits)

lemma inv_create_code:
  assumes "referral_inv (db, pending)" "getOrCreateReferralCode generated wallet db = (r, db')"
  shows "referral_inv (db', pending)"
proof -
  consider "db' = db" | code where "\<not> code_taken (trim wallet) code db"
    "db' = db\<lparr>ref_codes := insert_row \<lparr>rc_wallet = trim wallet, rc_code = code\<rparr> (ref_codes db)\<rparr>"
    using code_attempts_cases [of "trim wallet" _ db r db'] assms(2) unfolding getOrCreateReferralCode_def by blast
  then show ?thesis
  proof cases
    case 2
    then show ?thesis using assms(1)
      by (auto simp: referral_inv_def code_owner_def code_taken_def)
  qed (use assms(1) in simp)
qed

lemma inv_check:
  assumes "referral_inv (db, pending)" "register_check referee code db = Inr c"
  shows "referral_inv (db, insert c pending)"
proof -
  obtain r where r: "find_by rc_code (to_upper (trim code)) (ref_codes db) = Some r" "rc_wallet r \<noteq> trim referee"
    "c = \<lparr>rg_referrer = rc_wallet r, rg_referee = trim referee, rg_code = to_upper (trim code)\<rparr>"
    using assms(2) by (auto simp: register_check_def Let_def split: option.splits if_splits)
  from find_by_SomeD [OF r(1)] have mem: "r \<in> set (ref_codes db)" and code: "rc_code r = to_upper (trim code)" by simp_all
  have "r = \<lparr>rc_wallet = rc_wallet r, rc_code = to_upper (trim code)\<rparr>" using code by simp
  with mem have "\<lparr>rc_wallet = rc_wallet r, rc_code = to_upper (trim code)\<rparr> \<in> set (ref_codes db)" by (simp only:)
  then have "code_owner db (rg_code c) (rg_referrer c)" by (simp add: code_owner_def r(3))
  then show ?thesis using assms(1) r(2) by (simp add: referral_inv_def r(3))
qed

lemma inv_commit:
  assumes "referral_inv (db, pending)" "c \<in> pending" "register_commit now newId c db = Inr (row, db')"
  shows "referral_inv (db', pending - {c})"
proof -
  have new: "rg_referee c \<notin> rf_referee ` set (referrals db)"
    "db' = db\<lparr>referrals := insert_row row (referrals db)\<rparr>" "rf_referee row = rg_referee c"
    "rf_code row = rg_code c" "rf_referrer row = rg_referrer c"
    using assms(3) by (auto simp: register_commit_def Let_def find_by_None_iff split: if_splits)
  then show ?thesis using assms(1,2) by (auto simp: referral_inv_def code_owner_def)
qed

lemma reward_cases:
  assumes "recordFirstTradeReferralReward bps referee keyId val txHash i tradeAt db = Inr (b, db')"
  shows "db' = db \<or> (\<exists>r. find (unclaimed (trim referee)) (referrals db) = Some r \<and>
    referrals db' = modify_where (unclaimed (trim referee))
      (\<lambda>r. r\<lparr>rf_firstTradeAt := Some tradeAt, rf_firstTradeKeyId := Some keyId\<rparr>) (referrals db) \<and>
    ref_codes db' = ref_codes db \<and>
    (fee_events db' = fee_events db \<or> (\<exists>amount. 0 < amount \<and> fee_events db' = insert_row
      \<lparr>fe_wallet = rf_referrer r, fe_referee = Some (trim referee), fe_keyId = keyId, fe_amount = amount,
       fe_txHash = txHash, fe_eventIndex = i, fe_createdAt = tradeAt\<rparr> (fee_events db))))"
  using assms
  by (auto simp: recordFirstTradeReferralReward_def Let_def split: option.splits js_num.splits if_splits)

text \<open>A trade with a finite value is never refused.\<close>

lemma reward_of_finite:
  "\<exists>b db'. recordFirstTradeReferralReward bps referee keyId (Fin v) txHash i tradeAt db = Inr (b, db')"
  by (cases "find (unclaimed (trim referee)) (referrals db)") (auto simp: recordFirstTradeReferralReward_def Let_def)

lemma inv_reward:
  assumes inv: "referral_inv (db, pending)"
    and step: "recordFirstTradeReferralReward bps referee keyId val txHash i tradeAt db = Inr (b, db')"
  shows "referral_inv (db', pending)"
  using reward_cases [OF step]
proof
  assume "\<exists>r. find (unclaimed (trim referee)) (referrals db) = Some r \<and>
    referrals db' = modify_where (unclaimed (trim referee))
      (\<lambda>r. r\<lparr>rf_firstTradeAt := Some tradeAt, rf_firstTradeKeyId := Some keyId\<rparr>) (referrals db) \<and>
    ref_codes db' = ref_codes db \<and>
    (fee_events db' = fee_events db \<or> (\<exists>amount. 0 < amount \<and> fee_events db' = insert_row
      \<lparr>fe_wallet = rf_referrer r, fe_referee = Some (trim referee), fe_keyId = keyId, fe_amount = amount,
       fe_txHash = txHash, fe_eventIndex = i, fe_createdAt = tradeAt\<rparr> (fee_events db)))"
  then obtain r where r: "find (unclaimed (trim referee)) (referrals db) = Some r"
    and refs: "referrals db' = modify_where (unclaimed (trim referee))
      (\<lambda>r. r\<lparr>rf_firstTradeAt := Some tradeAt, rf_firstTradeKeyId := Some keyId\<rparr>) (referrals db)"
    and codes: "ref_codes db' = ref_codes db"
    and fees: "fee_events db' = fee_events db \<or> (\<exists>amount. 0 < amount \<and> fee_events db' = insert_row
      \<lparr>fe_wallet = rf_referrer r, fe_referee = Some (trim referee), fe_keyId = keyId, fe_amount = amount,
       fe_txHash = txHash, fe_eventIndex = i, fe_createdAt = tradeAt\<rparr> (fee_events db))"
    by blast
  let ?stamp = "\<lambda>r. r\<lparr>rf_firstTradeAt := Some tradeAt, rf_firstTradeKeyId := Some keyId\<rparr>"
  have in_r: "r \<in> set (referrals db)" "rf_referee r = trim referee" "rf_firstTradeAt r = None"
    using find_Some_in [OF r] by (simp_all add: unclaimed_def)
  have d: "distinct (map rf_referee (referrals db))" using inv by (simp add: referral_inv_def)
  have same: "q = r" if "q \<in> set (referrals db)" "rf_referee q = trim referee" for q
    using that in_r d by (metis find_by_distinct option.inject)
  have keep: "\<exists>q' \<in> set (referrals db'). rewarded f q'" if q: "q \<in> set (referrals db)" "rewarded f q" for f q
  proof -
    have "q \<noteq> r" using q(2) in_r(3) by (auto simp: rewarded_def)
    then have "\<not> unclaimed (trim referee) q" using same [OF q(1)] by (auto simp: unclaimed_def)
    then have "q \<in> set (referrals db')" using q(1) by (auto simp: refs set_modify_where)
    then show ?thesis using q(2) by blast
  qed
  have new: "?stamp r \<in> set (referrals db')"
    using in_r by (auto simp: refs set_modify_where unclaimed_def intro!: image_eqI [of _ _ r])
  have fresh: "fe_referee f \<noteq> Some (trim referee)" if f: "f \<in> set (fee_events db)" for f
  proof
    assume eq: "fe_referee f = Some (trim referee)"
    obtain q where "q \<in> set (referrals db)" "rewarded f q" using inv f by (auto simp: referral_inv_def)
    then show False using same [of q] eq in_r(3) by (auto simp: rewarded_def)
  qed
  have "map rf_referee (referrals db') = map rf_referee (referrals db)"
    by (simp add: refs modify_where_def)
  moreover have "\<forall>q \<in> set (referrals db'). code_owner db' (rf_code q) (rf_referrer q) \<and> rf_referrer q \<noteq> rf_referee q"
    using inv by (auto simp: refs set_modify_where referral_inv_def code_owner_def codes)
  moreover have "distinct (map fe_referee (fee_events db')) \<and>
      (\<forall>f \<in> set (fee_events db'). 0 < fe_amount f \<and> (\<exists>q \<in> set (referrals db'). rewarded f q))"
    using fees
  proof (elim disjE exE conjE)
    assume "fee_events db' = fee_events db"
    then show ?thesis using inv keep by (fastforce simp: referral_inv_def)
  next
    fix amount :: rat
    assume pos: "0 < amount" and eq: "fee_events db' = insert_row
      \<lparr>fe_wallet = rf_referrer r, fe_referee = Some (trim referee), fe_keyId = keyId, fe_amount = amount,
       fe_txHash = txHash, fe_eventIndex = i, fe_createdAt = tradeAt\<rparr> (fee_events db)"
    have notin: "Some (trim referee) \<notin> fe_referee ` set (fee_events db)" using fresh by (metis imageE)
    have "distinct (map fe_referee (fee_events db'))"
      using inv notin by (simp add: eq referral_inv_def)
    moreover have "\<exists>q \<in> set (referrals db'). rewarded \<lparr>fe_wallet = rf_referrer r, fe_referee = Some (trim referee),
        fe_keyId = keyId, fe_amount = amount, fe_txHash = txHash, fe_eventIndex = i, fe_createdAt = tradeAt\<rparr> q"
      by (rule bexI [OF _ new]) (simp add: rewarded_def in_r(2))
    ultimately show ?thesis using inv keep pos by (fastforce simp: eq referral_inv_def)
  qed
  ultimately show ?thesis using inv d by (simp add: referral_inv_def codes code_owner_def)
qed (use inv in simp)

definition referral_init :: "referral_db \<times> register_claim set \<Rightarrow> bool" where
  "referral_init s \<longleftrightarrow> s = (\<lparr>ref_codes = [], referrals = [], fee_events = []\<rparr>, {})"

interpretation referral_system: invariant_system referral_init referral_step referral_inv
proof
  show "referral_inv s" if "referral_init s" for s
    using that by (simp add: referral_init_def referral_inv_def)
  show "referral_inv t" if "referral_inv s" "referral_step s t" for s t
    using that(2,1) by cases (auto intro: inv_create_code inv_check inv_commit inv_reward)
qed

lemma distinct_filter_key: "distinct (map key rows) \<Longrightarrow> length (filter (\<lambda>r. key r = k) rows) \<le> 1"
proof (induction rows)
  case (Cons r rows)
  show ?case
  proof (cases "key r = k")
    case True
    then have "filter (\<lambda>r. key r = k) rows = []" using Cons.prems by (auto simp: filter_empty_conv image_iff)
    with True show ?thesis by simp
  qed (use Cons in simp)
qed simp

text \<open>C27: Whatever the interleaving of code creations, registrations and trades, each wallet has one code and
  no two wallets share one, no wallet is referred twice or refers itself, every referral belongs to the
  owner of its code, and each referred wallet has paid at most one reward: a positive amount, to its
  referrer, for the trade that stamped it. A stamped wallet's later trades change nothing.\<close>

theorem referral_rewarded_once:
  assumes "referral_step\<^sup>*\<^sup>* (\<lparr>ref_codes = [], referrals = [], fee_events = []\<rparr>, {}) (db, pending)"
  shows "distinct (map rc_wallet (ref_codes db)) \<and> distinct (map rc_code (ref_codes db)) \<and>
    distinct (map rf_referee (referrals db)) \<and>
    (\<forall>r \<in> set (referrals db). rf_referrer r \<noteq> rf_referee r \<and>
      find_by rc_code (rf_code r) (ref_codes db) = Some \<lparr>rc_wallet = rf_referrer r, rc_code = rf_code r\<rparr> \<and>
      (rf_firstTradeAt r \<noteq> None \<longrightarrow> (\<forall>bps keyId val txHash i tradeAt. trim (rf_referee r) = rf_referee r \<longrightarrow>
        recordFirstTradeReferralReward bps (rf_referee r) keyId val txHash i tradeAt db = Inr (False, db)))) \<and>
    (\<forall>wallet. length (filter (\<lambda>f. fe_referee f = Some wallet) (fee_events db)) \<le> 1) \<and>
    (\<forall>f \<in> set (fee_events db). 0 < fe_amount f \<and> (\<exists>r \<in> set (referrals db). fe_referee f = Some (rf_referee r) \<and>
      fe_wallet f = rf_referrer r \<and> rf_firstTradeAt r = Some (fe_createdAt f) \<and> rf_firstTradeKeyId r = Some (fe_keyId f)))"
proof -
  have inv: "referral_inv (db, pending)"
    using referral_system.inv_reachable [OF _ assms] by (simp add: referral_init_def)
  then have codes: "distinct (map rc_code (ref_codes db))" "distinct (map rf_referee (referrals db))"
    and owner: "\<And>r. r \<in> set (referrals db) \<Longrightarrow> code_owner db (rf_code r) (rf_referrer r)"
    by (auto simp: referral_inv_def)
  have "find_by rc_code (rf_code r) (ref_codes db) = Some \<lparr>rc_wallet = rf_referrer r, rc_code = rf_code r\<rparr>"
    if "r \<in> set (referrals db)" for r
    using find_by_distinct [OF codes(1) owner [OF that, unfolded code_owner_def]] by simp
  moreover have "recordFirstTradeReferralReward bps (rf_referee r) keyId val txHash i tradeAt db = Inr (False, db)"
    if r: "r \<in> set (referrals db)" "rf_firstTradeAt r \<noteq> None" "trim (rf_referee r) = rf_referee r"
    for r bps keyId val txHash i tradeAt
  proof -
    have "\<not> unclaimed (rf_referee r) q" if "q \<in> set (referrals db)" for q
      using that r(1,2) codes(2) find_by_distinct unclaimed_def by (metis option.inject)
    then have "find (unclaimed (rf_referee r)) (referrals db) = None" by (simp add: find_None_iff)
    then show ?thesis by (simp add: recordFirstTradeReferralReward_def r(3))
  qed
  moreover have "length (filter (\<lambda>f. fe_referee f = Some wallet) (fee_events db)) \<le> 1" for wallet
    by (rule distinct_filter_key) (use inv in \<open>simp add: referral_inv_def\<close>)
  ultimately show ?thesis using inv by (auto simp: referral_inv_def rewarded_def)
qed

section \<open>Pages of referred wallets\<close>

lemma before_cursor_key: "before_cursor (Some k) = (\<lambda>r. referral_key r < k)"
  by (cases k) (auto simp: before_cursor_def referral_key_def less_prod_def fun_eq_iff)

text \<open>Selecting what comes before the last key of a prefix of a descending list leaves the rest.\<close>

lemma filter_after_prefix:
  fixes key :: "'r \<Rightarrow> 'k::linorder"
  assumes "sorted_wrt (\<lambda>a b. key b < key a) (xs @ ys)" "xs \<noteq> []"
  shows "filter (\<lambda>r. key r < key (last xs)) (xs @ ys) = ys"
proof -
  have "\<not> key r < key (last xs)" if "r \<in> set xs" for r
  proof (cases xs rule: rev_cases)
    case (snoc zs z)
    with that assms(1) show ?thesis by (auto simp: sorted_wrt_append)
  qed (use assms in simp)
  moreover have "key r < key (last xs)" if "r \<in> set ys" for r
    using assms that by (auto simp: sorted_wrt_append)
  ultimately show ?thesis by (simp add: filter_empty_conv)
qed

lemma newest_first_descending:
  assumes "distinct (map referral_key rows)"
  shows "sorted_wrt (\<lambda>a b. referral_key b < referral_key a) (newest_first rows)"
proof -
  have "sorted (map referral_key (sort_key referral_key rows))" by simp
  moreover have "mset (map referral_key (sort_key referral_key rows)) = mset (map referral_key rows)" by simp
  then have "distinct (map referral_key (sort_key referral_key rows))"
    using assms mset_eq_imp_distinct_iff by blast
  ultimately have "sorted_wrt (<) (map referral_key (sort_key referral_key rows))"
    by (simp add: strict_sorted_iff)
  then show ?thesis by (simp add: newest_first_def sorted_wrt_rev sorted_wrt_map)
qed

lemma newest_first_filter:
  "newest_first (filter P rows) = filter P (newest_first rows)"
  by (simp add: newest_first_def rev_filter [symmetric] filter_sort)

text \<open>A client that follows \<open>next_cursor\<close> until it is absent.\<close>

fun follow_cursors :: "nat \<Rightarrow> (string option \<Rightarrow> 'e + 'r page_envelope) \<Rightarrow> string option \<Rightarrow> 'r list list option" where
  "follow_cursors 0 get cur = None"
| "follow_cursors (Suc n) get cur =
    (case get cur of
      Inl _ \<Rightarrow> None
    | Inr envelope \<Rightarrow>
        (case next_cursor envelope of
          None \<Rightarrow> Some [items envelope]
        | Some k \<Rightarrow> map_option (\<lambda>ps. items envelope # ps) (follow_cursors n get (Some k))))"

text \<open>Documented behaviour of the libraries: cursors and JSON decode what they encode, dates print and parse back.\<close>

definition cursor_env_laws :: "cursor_env \<Rightarrow> bool" where
  "cursor_env_laws env \<longleftrightarrow> cursor_laws (ce_cursor env) \<and>
    (\<forall>k. json_value_ok (ce_json env) (Jobj [(''joinedAt'', Jstr (ce_iso env (fst k))), (''id'', Jstr (snd k))])) \<and>
    (\<forall>t. ce_date env (ce_iso env t) = Some t)"

lemma parse_own_cursor:
  assumes "cursor_env_laws env"
  shows "parseReferredCursor env (Some (referred_cursor env k)) = Inr (Some k)"
proof -
  let ?v = "Jobj [(''joinedAt'', Jstr (ce_iso env (fst k))), (''id'', Jstr (snd k))]"
  have "decodeCursor (ce_json env) (ce_cursor env) (encodeCursor (ce_json env) (ce_cursor env) ?v) = Inr ?v"
    using cursor_decodes [of "ce_cursor env" "ce_json env" ?v] assms by (simp add: cursor_env_laws_def)
  moreover have "encodeCursor (ce_json env) (ce_cursor env) ?v \<noteq> []" by (simp add: encodeCursor_def Let_def)
  moreover have "ce_date env (ce_iso env (fst k)) = Some (fst k)" using assms by (simp add: cursor_env_laws_def)
  ultimately show ?thesis by (simp add: parseReferredCursor_def referred_cursor_def js_field_def)
qed

definition referred_rows :: "string \<Rightarrow> referral_db \<Rightarrow> referral_row list" where
  "referred_rows w db = newest_first (filter (\<lambda>r. rf_referrer r = w) (referrals db))"

definition referred_entry :: "cursor_env \<Rightarrow> string \<Rightarrow> referral_db \<Rightarrow> referral_row \<Rightarrow> referred_wallet" where
  "referred_entry env w db r = referred_item env (sumEarnedByReferee w [rf_referee r] db) r"

lemma referred_page:
  assumes laws: "cursor_env_laws env" and keys: "distinct (map referral_key (referrals db))"
    and refs: "distinct (map rf_referee (referrals db))" and n: "0 < n"
    and split: "referred_rows w db = xs @ ys"
    and cur: "cur = (if xs = [] then None else Some (referred_cursor env (referral_key (last xs))))"
  shows "listReferredWallets env w cur n db = Inr \<lparr>items = map (referred_entry env w db) (take n ys),
    has_more = n < length ys,
    next_cursor = (if n < length ys then Some (referred_cursor env (referral_key (last (xs @ take n ys)))) else None)\<rparr>"
proof -
  let ?c = "if xs = [] then None else Some (referral_key (last xs))"
  have parsed: "parseReferredCursor env cur = Inr ?c"
    using parse_own_cursor [OF laws] by (simp add: cur parseReferredCursor_def)
  have "distinct (map referral_key (filter (\<lambda>r. rf_referrer r = w) (referrals db)))"
    using keys by (rule distinct_map_filter)
  then have desc: "sorted_wrt (\<lambda>a b. referral_key b < referral_key a) (xs @ ys)"
    using newest_first_descending split by (metis referred_rows_def)
  have "newest_first (filter (\<lambda>r. rf_referrer r = w \<and> before_cursor ?c r) (referrals db)) =
      filter (before_cursor ?c) (referred_rows w db)"
    by (simp add: referred_rows_def newest_first_filter conj_commute)
  also have "\<dots> = ys"
  proof (cases "xs = []")
    case False
    then show ?thesis using filter_after_prefix [OF desc False] by (simp add: split before_cursor_key)
  qed (simp add: split before_cursor_def)
  finally have rows: "newest_first (filter (\<lambda>r. rf_referrer r = w \<and> before_cursor ?c r) (referrals db)) = ys" .
  have "mset (xs @ ys) = mset (filter (\<lambda>r. rf_referrer r = w) (referrals db))"
    using arg_cong [OF split, of mset] by (simp add: referred_rows_def newest_first_def)
  then have "mset (map rf_referee (xs @ ys)) = mset (map rf_referee (filter (\<lambda>r. rf_referrer r = w) (referrals db)))"
    by (simp only: mset_map)
  then have dref: "distinct (map rf_referee (take (n + 1) ys))"
    using distinct_map_filter [OF refs] mset_eq_imp_distinct_iff
    by (metis (no_types, lifting) distinct_append distinct_take map_append take_map)
  have item: "referred_item env (sumEarnedByReferee w (map rf_referee (take (n + 1) ys)) db) r = referred_entry env w db r"
    if "r \<in> set (take (n + 1) ys)" for r
    using that by (simp add: referred_entry_def referred_item_def sumEarnedByReferee_def)
  then have its: "map (referred_item env (sumEarnedByReferee w (map rf_referee (take (n + 1) ys)) db)) (take (n + 1) ys) =
      map (referred_entry env w db) (take (n + 1) ys)"
    by (intro map_cong) auto
  have find: "find_by rf_referee (rw_refereeAddress (referred_entry env w db r)) (take (n + 1) ys) = Some r"
    if "r \<in> set (take (n + 1) ys)" for r
    using find_by_distinct [OF dref that] by (simp add: referred_entry_def referred_item_def)
  show ?thesis
  proof (cases "n < length ys")
    case True
    let ?l = "last (take n ys)"
    have ne: "take n ys \<noteq> []" using n True by auto
    then have "?l \<in> set (take (n + 1) ys)" by (metis last_in_set set_take_subset_set_take subset_iff le_add1)
    then have "find_by rf_referee (rw_refereeAddress (last (map (referred_entry env w db) (take n ys)))) (take (n + 1) ys) = Some ?l"
      using find ne by (simp add: last_map)
    moreover have "take n (map (referred_entry env w db) (take (n + 1) ys)) = map (referred_entry env w db) (take n ys)"
      by (simp add: take_map min_def)
    ultimately show ?thesis
      using True ne by (simp only: listReferredWallets_def parsed and_then.simps rows Let_def its)
        (simp add: buildPaginatedResponse_def Let_def last_append)
  next
    case False
    then show ?thesis
      by (simp only: listReferredWallets_def parsed and_then.simps rows Let_def its) (simp add: buildPaginatedResponse_def)
  qed
qed

lemma follow_referred:
  assumes "cursor_env_laws env" "distinct (map referral_key (referrals db))"
    "distinct (map rf_referee (referrals db))" "0 < n"
  shows "referred_rows w db = xs @ ys \<Longrightarrow>
    cur = (if xs = [] then None else Some (referred_cursor env (referral_key (last xs)))) \<Longrightarrow> length ys < f \<Longrightarrow>
    \<exists>ps. follow_cursors f (\<lambda>c. listReferredWallets env w c n db) cur = Some ps \<and>
      concat ps = map (referred_entry env w db) ys \<and> (\<forall>p \<in> set ps. length p \<le> n)"
proof (induction f arbitrary: xs ys cur)
  case (Suc f)
  note page = referred_page [OF assms Suc.prems(1,2)]
  show ?case
  proof (cases "n < length ys")
    case True
    have "\<exists>ps. follow_cursors f (\<lambda>c. listReferredWallets env w c n db)
        (Some (referred_cursor env (referral_key (last (xs @ take n ys))))) = Some ps \<and>
        concat ps = map (referred_entry env w db) (drop n ys) \<and> (\<forall>p \<in> set ps. length p \<le> n)"
      by (rule Suc.IH [of "xs @ take n ys"]) (use Suc.prems True assms(4) in auto)
    then obtain ps where "follow_cursors f (\<lambda>c. listReferredWallets env w c n db)
        (Some (referred_cursor env (referral_key (last (xs @ take n ys))))) = Some ps"
        "concat ps = map (referred_entry env w db) (drop n ys)" "\<forall>p \<in> set ps. length p \<le> n"
      by blast
    then show ?thesis using True by (auto simp: page simp flip: map_append)
  qed (simp add: page)
qed simp

text \<open>The pages of referred wallets are complete: from the first page on, following \<open>next_cursor\<close> stops,
  and the pages together list every referral of the wallet once, newest first, at most \<open>limit\<close> on each,
  with the reward each of them has earned in total.\<close>

theorem referred_pages_complete:
  assumes "cursor_env_laws env" "distinct (map referral_key (referrals db))"
    "distinct (map rf_referee (referrals db))" "0 < n"
  shows "\<exists>ps. follow_cursors (Suc (length (referrals db))) (\<lambda>c. listReferredWallets env w c n db) None = Some ps \<and>
    concat ps = map (\<lambda>r. referred_item env (sumEarnedByReferee w [rf_referee r] db) r)
      (newest_first (filter (\<lambda>r. rf_referrer r = w) (referrals db))) \<and>
    (\<forall>p \<in> set ps. length p \<le> n)"
proof -
  have "length (referred_rows w db) < Suc (length (referrals db))"
    by (simp add: referred_rows_def newest_first_def less_Suc_eq_le)
  then show ?thesis
    using follow_referred [OF assms, of w "[]" "referred_rows w db" None]
    by (simp add: referred_rows_def referred_entry_def [abs_def] del: follow_cursors.simps)
qed


section \<open>Witnesses\<close>

lemma example_reward: "reward_xlm 500 (Fin 20) = Fin 1"
proof -
  have "fl 10000 = 10000" "fl 1 = (1 :: rat)" using fl_of_int [of 10000] fl_of_int [of 1] by simp_all
  moreover have "\<lfloor>20000001 / 2 :: rat\<rfloor> = 10000000" by code_simp
  ultimately show ?thesis by (simp add: roundXlm_def to_fixed_def XLM_DECIMALS_def)
qed

theorem referral_rewarded_once_witness:
  "\<exists>db pending. referral_step\<^sup>*\<^sup>* (\<lparr>ref_codes = [], referrals = [], fee_events = []\<rparr>, {}) (db, pending) \<and>
    map fe_wallet (fee_events db) = [''X''] \<and>
    length (filter (\<lambda>f. fe_referee f = Some ''Y'') (fee_events db)) \<le> 1"
proof -
  let ?db0 = "\<lparr>ref_codes = [], referrals = [], fee_events = []\<rparr>"
  let ?db1 = "?db0\<lparr>ref_codes := [\<lparr>rc_wallet = ''X'', rc_code = ''C''\<rparr>]\<rparr>"
  let ?c = "\<lparr>rg_referrer = ''X'', rg_referee = ''Y'', rg_code = ''C''\<rparr>"
  let ?r = "\<lparr>rf_id = ''r'', rf_referrer = ''X'', rf_referee = ''Y'', rf_code = ''C'', rf_firstTradeAt = None,
    rf_firstTradeKeyId = None, rf_createdAt = 5\<rparr>"
  let ?db2 = "?db1\<lparr>referrals := [?r]\<rparr>"
  let ?db3 = "?db2\<lparr>referrals := [?r\<lparr>rf_firstTradeAt := Some 9, rf_firstTradeKeyId := Some ''k''\<rparr>],
    fee_events := [\<lparr>fe_wallet = ''X'', fe_referee = Some ''Y'', fe_keyId = ''k'', fe_amount = 1,
      fe_txHash = None, fe_eventIndex = None, fe_createdAt = 9\<rparr>]\<rparr>"
  have trims: "trim ''X'' = ''X''" "trim ''Y'' = ''Y''" "to_upper (trim ''c'') = ''C''" by code_simp+
  have "getOrCreateReferralCode (\<lambda>_. ''C'') ''X'' ?db0 = (Inr ''C'', ?db1)" by code_simp
  then have "referral_step (?db0, {}) (?db1, {})" by (rule referral_step.create_code)
  moreover have "register_check ''Y'' ''c'' ?db1 = Inr ?c" by code_simp
  then have "referral_step (?db1, {}) (?db1, {?c})" by (rule referral_step.check)
  moreover have "register_commit 5 ''r'' ?c ?db1 = Inr (?r, ?db2)" by code_simp
  then have "referral_step (?db1, {?c}) (?db2, {?c} - {?c})" by (intro referral_step.commit) simp
  moreover have "recordFirstTradeReferralReward 500 ''Y'' ''k'' (Fin 20) None None 9 ?db2 = Inr (True, ?db3)"
    by (simp add: recordFirstTradeReferralReward_def trims example_reward unclaimed_def modify_where_def insert_row_def Let_def
        del: reward_xlm.simps)
  then have "referral_step (?db2, {}) (?db3, {})" by (rule referral_step.reward)
  ultimately have run: "referral_step\<^sup>*\<^sup>* (?db0, {}) (?db3, {})"
    by (metis (no_types, lifting) Diff_insert_absorb insert_absorb2 insert_Diff_single empty_iff
        converse_rtranclp_into_rtranclp rtranclp.rtrancl_refl Diff_cancel)
  have "map fe_wallet (fee_events ?db3) = [''X'']" by simp
  moreover have "length (filter (\<lambda>f. fe_referee f = Some ''Y'') (fee_events ?db3)) \<le> 1"
    using referral_rewarded_once [OF run] by (elim conjE) (erule allE)
  ultimately show ?thesis using run by (intro exI [of _ ?db3] exI [of _ "{}"] conjI)
qed

text \<open>A printer and parser for the payload of a cursor.\<close>

definition pair_json :: json_lib where
  "pair_json = \<lparr>stringify = (\<lambda>v. case v of
      Jobj [(_, Jstr a), (_, Jstr b)] \<Rightarrow> concat (map letters_of a) @ '','' @ concat (map letters_of b) | _ \<Rightarrow> []),
    parse = (\<lambda>s. case split_on (CHR '','') s of
      [a, b] \<Rightarrow> Some (Jobj [(''joinedAt'', Jstr (of_letters a)), (''id'', Jstr (of_letters b))]) | _ \<Rightarrow> None)\<rparr>"

definition example_cursor_env :: cursor_env where
  "example_cursor_env = \<lparr>ce_json = pair_json, ce_cursor = example_cursor_lib, ce_date = read_int, ce_iso = show_int\<rparr>"

lemma example_cursor_env_laws: "cursor_env_laws example_cursor_env"
proof -
  have "CHR '','' \<notin> set (concat (map letters_of s))" for s
    using letters_are_letters by (fastforce dest: letters_are_letters)
  then have "json_value_ok pair_json (Jobj [(''joinedAt'', Jstr a), (''id'', Jstr b)])" for a b
    by (simp add: json_value_ok_def pair_json_def split_on_pair of_letters_concat)
  then show ?thesis by (simp add: cursor_env_laws_def example_cursor_env_def example_cursor_laws)
qed

definition example_referrals :: referral_db where
  "example_referrals = \<lparr>ref_codes = [], referrals = map
    (\<lambda>(i, w, t). \<lparr>rf_id = i, rf_referrer = ''X'', rf_referee = w, rf_code = ''C'', rf_firstTradeAt = None,
      rf_firstTradeKeyId = None, rf_createdAt = t\<rparr>) [(''a'', ''P'', 4), (''b'', ''Q'', 7), (''c'', ''R'', 4)], fee_events = []\<rparr>"

theorem referred_pages_complete_witness:
  "\<exists>ps. follow_cursors 4 (\<lambda>c. listReferredWallets example_cursor_env ''X'' c 2 example_referrals) None = Some ps \<and>
    map rw_refereeAddress (concat ps) = [''Q'', ''R'', ''P'']"
proof -
  have "distinct (map referral_key (referrals example_referrals))" "distinct (map rf_referee (referrals example_referrals))"
    by (simp_all add: example_referrals_def referral_key_def)
  from referred_pages_complete [OF example_cursor_env_laws this, of 2 "''X''"]
  obtain ps where ps: "follow_cursors (Suc (length (referrals example_referrals)))
      (\<lambda>c. listReferredWallets example_cursor_env ''X'' c 2 example_referrals) None = Some ps"
    "concat ps = map (\<lambda>r. referred_item example_cursor_env (sumEarnedByReferee ''X'' [rf_referee r] example_referrals) r)
      (newest_first (filter (\<lambda>r. rf_referrer r = ''X'') (referrals example_referrals)))"
    by auto
  have "map rf_referee (newest_first (filter (\<lambda>r. rf_referrer r = ''X'') (referrals example_referrals))) = [''Q'', ''R'', ''P'']"
    by (simp add: example_referrals_def newest_first_def referral_key_def less_eq_prod_def)
  then have "map rw_refereeAddress (concat ps) = [''Q'', ''R'', ''P'']"
    by (simp add: ps(2) referred_item_def comp_def)
  moreover have "Suc (length (referrals example_referrals)) = 4" by (simp add: example_referrals_def)
  ultimately show ?thesis using ps(1) by metis
qed

end
