(* ===== verification/Bundles.thy ===== *)
theory Bundles
  imports Swaps
begin

text \<open>
  \<open>src/modules/indexer/bundle-trade-indexer.service.ts\<close>: bundle purchases, normalised from raw events and
  stored once per transaction.

  Arguments: the conversions of \<open>Raw_Events\<close> and \<open>JSON.parse\<close>. An exception is \<open>Inl\<close>: a \<open>TypeError\<close> of a
  field that is not a string, a \<open>RangeError\<close> of \<open>BigInt\<close>, or a value the database rejects. The cache
  invalidations are left out, the lookup before the write is taken to succeed.
\<close>

section \<open>Normalisation\<close>

record bundle_item =
  bi_key :: string
  bi_amount :: rat
  bi_price :: string

record norm_bundle =
  bn_wallet :: string
  bn_ledger :: js_num
  bn_txHash :: string
  bn_timestamp :: instant
  bn_totalCost :: string
  bn_itemCount :: js_num
  bn_items :: "bundle_item list"
  bn_eventIndex :: js_num

datatype bundle_error = TypeError | BigIntRange | BadColumn

text \<open>\<open>(a || b || '').trim()\<close>: throws on a value that is truthy and no string.\<close>

definition trimmed_field :: "raw_event \<Rightarrow> string list \<Rightarrow> bundle_error + string" where
  "trimmed_field event names =
    (let v = first_truthy event names in
     if \<not> truthy v then Inr [] else case v of Jstr s \<Rightarrow> Inr (trim s) | _ \<Rightarrow> Inl TypeError)"

text \<open>An infinite amount passes the checks of an item, and computing its cost always throws.\<close>

definition normalize_item :: "js_text_lib \<Rightarrow> js_value \<Rightarrow> bundle_error + bundle_item option" where
  "normalize_item lib item =
    (let fs = (case item of Jobj fs \<Rightarrow> Some fs | Jarr _ \<Rightarrow> Some [] | _ \<Rightarrow> None) in
     case fs of
       None \<Rightarrow> Inr None
     | Some fs \<Rightarrow>
         let key = text_field lib fs [''key'', ''creatorId'', ''creator_id'', ''creator''];
             numAmount = number_or_convert lib (first_defined fs [''amount'', ''quantity'']);
             price = (let p = js_field ''price'' fs in if p = Jundefined \<or> p = Jnull then Jstr ''0'' else p)
         in if key = [] then Inr None
            else case numAmount of
              Fin q \<Rightarrow> Inr (if q \<le> 0 then None else Some \<lparr>bi_key = key, bi_amount = q, bi_price = trim (js_text lib price)\<rparr>)
            | Infinite True \<Rightarrow> Inl BigIntRange
            | _ \<Rightarrow> Inr None)"

text \<open>The cost of one item, in \<open>BigInt\<close> when price and amount are whole, otherwise rounded down.\<close>

definition item_cost :: "js_text_lib \<Rightarrow> bundle_item \<Rightarrow> bundle_error + int" where
  "item_cost lib item =
    (case (read_int (bi_price item), is_integer_num (Fin (bi_amount item))) of
      (Some p, True) \<Rightarrow> Inr (p * num_to_int (Fin (bi_amount item)))
    | _ \<Rightarrow>
        let n = parse_num lib (bi_price item); p = (if truthy (Jnum n) then n else Fin 0)
        in case js_times p (Fin (bi_amount item)) of Fin q \<Rightarrow> Inr \<lfloor>q\<rfloor> | _ \<Rightarrow> Inl BigIntRange)"

fun normalize_items :: "js_text_lib \<Rightarrow> js_value list \<Rightarrow> bundle_error + (bundle_item list \<times> int) option" where
  "normalize_items lib [] = Inr (Some ([], 0))"
| "normalize_items lib (v # vs) =
    (case normalize_item lib v of
      Inl err \<Rightarrow> Inl err
    | Inr None \<Rightarrow> Inr None
    | Inr (Some item) \<Rightarrow>
        and_then (item_cost lib item) (\<lambda>c.
        and_then (normalize_items lib vs) (\<lambda>r.
          Inr (map_option (\<lambda>(its, cost). (item # its, c + cost)) r))))"

definition raw_items :: "json_lib \<Rightarrow> raw_event \<Rightarrow> js_value list" where
  "raw_items json event =
    (case first_truthy event [''items'', ''legs''] of
      Jarr vs \<Rightarrow> vs
    | Jstr s \<Rightarrow> (case parse json s of Some (Jarr vs) \<Rightarrow> vs | _ \<Rightarrow> [])
    | _ \<Rightarrow> [])"

definition total_cost_field :: "js_text_lib \<Rightarrow> raw_event \<Rightarrow> int \<Rightarrow> string" where
  "total_cost_field lib event computed =
    (let raw = first_defined event [''totalCost'', ''total_cost'']
     in if raw \<noteq> Jundefined \<and> raw \<noteq> Jnull \<and> trim (js_text lib raw) \<noteq> [] then trim (js_text lib raw)
        else show_int computed)"

definition item_count_field :: "raw_event \<Rightarrow> nat \<Rightarrow> js_num" where
  "item_count_field event n =
    (case js_field ''itemCount'' event of
      Jnum k \<Rightarrow> k
    | _ \<Rightarrow> (case js_field ''item_count'' event of Jnum k \<Rightarrow> k | _ \<Rightarrow> Fin (of_nat n)))"

definition normalizeBundleEvent :: "js_text_lib \<Rightarrow> json_lib \<Rightarrow> raw_event \<Rightarrow> bundle_error + norm_bundle option" where
  "normalizeBundleEvent lib json event =
    and_then (trimmed_field event [''wallet'', ''buyer'', ''actor'']) (\<lambda>wallet.
    and_then (trimmed_field event [''txHash'', ''tx_hash'']) (\<lambda>txHash.
      let ledger = number_or_convert lib (js_field ''ledger'' event);
          rawTimestamp = first_truthy event [''timestamp'', ''occurredAt'', ''ledgerClosedAt'']
      in if wallet = [] \<or> txHash = [] \<or> ledger = NaN \<or> \<not> truthy rawTimestamp then Inr None
         else case new_date lib rawTimestamp of
           None \<Rightarrow> Inr None
         | Some t \<Rightarrow>
             let vs = raw_items json event
             in if vs = [] then Inr None
                else and_then (normalize_items lib vs) (\<lambda>r.
                  Inr (map_option (\<lambda>(its, cost). \<lparr>bn_wallet = wallet, bn_ledger = ledger, bn_txHash = txHash,
                    bn_timestamp = t, bn_totalCost = total_cost_field lib event cost,
                    bn_itemCount = item_count_field event (length its), bn_items = its,
                    bn_eventIndex = event_index_field lib event\<rparr>) r))))"

section \<open>The table of bundles\<close>

record bundle_row =
  bt_wallet :: string
  bt_totalCost :: string
  bt_itemCount :: int
  bt_items :: "bundle_item list"
  bt_ledger :: int
  bt_txHash :: string
  bt_timestamp :: instant

definition bundle_guard :: "js_text_lib \<Rightarrow> norm_bundle \<Rightarrow> string set option \<Rightarrow> bool \<times> string set option" where
  "bundle_guard lib n known =
    (case known of
      None \<Rightarrow> (False, None)
    | Some keys \<Rightarrow>
        (let key = bn_txHash n @ '':'' @ num_text lib (bn_eventIndex n)
         in if key \<in> keys then (True, known) else (False, Some (insert key keys))))"

definition bundle_row_of :: "norm_bundle \<Rightarrow> bundle_error + bundle_row" where
  "bundle_row_of n =
    (if is_integer_num (bn_ledger n) \<and> is_integer_num (bn_itemCount n) then
       Inr \<lparr>bt_wallet = bn_wallet n, bt_totalCost = bn_totalCost n, bt_itemCount = num_to_int (bn_itemCount n),
         bt_items = bn_items n, bt_ledger = num_to_int (bn_ledger n), bt_txHash = bn_txHash n,
         bt_timestamp = bn_timestamp n\<rparr>
     else Inl BadColumn)"

text \<open>One event: the result, the table and the set of events seen, when the caller passes one.\<close>

definition processBundleTradeEvent ::
  "js_text_lib \<Rightarrow> json_lib \<Rightarrow> raw_event \<Rightarrow> string set option \<Rightarrow> bundle_row list \<Rightarrow>
    (bundle_error + bool) \<times> string set option \<times> bundle_row list" where
  "processBundleTradeEvent lib json event known rows =
    (case normalizeBundleEvent lib json event of
      Inl err \<Rightarrow> (Inl err, known, rows)
    | Inr None \<Rightarrow> (Inr False, known, rows)
    | Inr (Some n) \<Rightarrow>
        (let (skip, seen1) = bundle_guard lib n known
         in if skip then (Inr False, seen1, rows)
            else if find_by bt_txHash (bn_txHash n) rows \<noteq> None then (Inr False, seen1, rows)
            else case bundle_row_of n of
              Inl err \<Rightarrow> (Inl err, seen1, rows)
            | Inr r \<Rightarrow> (Inr True, seen1, insert_row r rows)))"

definition bundle_type_ok :: "js_text_lib \<Rightarrow> raw_event \<Rightarrow> bool" where
  "bundle_type_ok lib event =
    (let v = first_truthy event [''eventType'', ''event_type''] in
     \<not> truthy v \<or> v = Jstr ''BundleExecuted'' \<or> v = Jstr ''BUNDLE_EXECUTED'')"

text \<open>A batch counts the events stored and skipped; an exception ends it.\<close>

fun bundle_loop ::
  "js_text_lib \<Rightarrow> json_lib \<Rightarrow> raw_event list \<Rightarrow> nat \<times> nat \<Rightarrow> string set option \<Rightarrow> bundle_row list \<Rightarrow>
    (bundle_error + nat \<times> nat) \<times> bundle_row list" where
  "bundle_loop lib json [] counts known rows = (Inr counts, rows)"
| "bundle_loop lib json (event # events) counts known rows =
    (if \<not> bundle_type_ok lib event then bundle_loop lib json events counts known rows
     else case processBundleTradeEvent lib json event known rows of
       (Inl err, _, rows1) \<Rightarrow> (Inl err, rows1)
     | (Inr ok, seen1, rows1) \<Rightarrow>
         bundle_loop lib json events
           (if ok then (fst counts + 1, snd counts) else (fst counts, snd counts + 1)) seen1 rows1)"

definition processBundleTradeEvents ::
  "js_text_lib \<Rightarrow> json_lib \<Rightarrow> raw_event list \<Rightarrow> bundle_row list \<Rightarrow> (bundle_error + nat \<times> nat) \<times> bundle_row list" where
  "processBundleTradeEvents lib json events rows = bundle_loop lib json events (0, 0) (Some {}) rows"

section \<open>Stored bundles\<close>

definition bundle_row_ok :: "bundle_row \<Rightarrow> bool" where
  "bundle_row_ok r \<longleftrightarrow> bt_wallet r \<noteq> [] \<and> bt_txHash r \<noteq> [] \<and> bt_items r \<noteq> [] \<and>
    (\<forall>i \<in> set (bt_items r). bi_key i \<noteq> [] \<and> 0 < bi_amount i)"

definition bundles_ok :: "bundle_row list \<Rightarrow> bool" where
  "bundles_ok rows \<longleftrightarrow> distinct (map bt_txHash rows) \<and> (\<forall>r \<in> set rows. bundle_row_ok r)"

lemma normalized_item_ok: "normalize_item lib v = Inr (Some i) \<Longrightarrow> bi_key i \<noteq> [] \<and> 0 < bi_amount i"
  by (auto simp: normalize_item_def Let_def split: option.splits js_value.splits js_num.splits if_splits bool.splits)

lemma normalized_items_ok:
  "normalize_items lib vs = Inr (Some (its, cost)) \<Longrightarrow>
    length its = length vs \<and> (\<forall>i \<in> set its. bi_key i \<noteq> [] \<and> 0 < bi_amount i)"
  by (induction vs arbitrary: its cost) (auto simp: normalized_item_ok split: option.splits sum.splits)

lemma normalized_bundle_ok:
  assumes "normalizeBundleEvent lib json event = Inr (Some n)"
  shows "bn_wallet n \<noteq> [] \<and> bn_txHash n \<noteq> [] \<and> bn_items n \<noteq> [] \<and>
    (\<forall>i \<in> set (bn_items n). bi_key i \<noteq> [] \<and> 0 < bi_amount i)"
proof -
  obtain its cost where "normalize_items lib (raw_items json event) = Inr (Some (its, cost))"
    "raw_items json event \<noteq> []" "bn_items n = its" "bn_wallet n \<noteq> []" "bn_txHash n \<noteq> []"
    using assms by (auto simp: normalizeBundleEvent_def Let_def split: if_splits option.splits)
  with normalized_items_ok show ?thesis by fastforce
qed

lemma bundle_step_ok:
  assumes "bundles_ok rows" "processBundleTradeEvent lib json event known rows = (r, known', rows')"
  shows "bundles_ok rows'"
  using assms normalized_bundle_ok [of lib json event]
  by (auto simp: processBundleTradeEvent_def Let_def bundle_row_of_def bundles_ok_def bundle_row_ok_def find_by_None_iff
      split: sum.splits option.splits prod.splits if_splits)

lemma bundle_loop_ok:
  "bundles_ok rows \<Longrightarrow> bundles_ok (snd (bundle_loop lib json events counts known rows))"
proof (induction events arbitrary: counts known rows)
  case (Cons event events)
  then show ?case
    using bundle_step_ok [OF Cons.prems, of lib json event known]
    by (auto split: sum.split prod.split)
qed simp

section \<open>Redelivery\<close>

text \<open>The event has been read without an exception and its transaction is stored.\<close>

definition covered :: "js_text_lib \<Rightarrow> json_lib \<Rightarrow> bundle_row list \<Rightarrow> raw_event \<Rightarrow> bool" where
  "covered lib json rows event \<longleftrightarrow>
    (\<exists>r. normalizeBundleEvent lib json event = Inr r \<and>
      (\<forall>n. r = Some n \<longrightarrow> bn_txHash n \<in> bt_txHash ` set rows))"

definition seen_stored :: "string set option \<Rightarrow> bundle_row list \<Rightarrow> bool" where
  "seen_stored known rows \<longleftrightarrow>
    (\<forall>keys. known = Some keys \<longrightarrow> (\<forall>k \<in> keys. \<exists>h t. k = h @ '':'' @ t \<and> CHR '':'' \<notin> set t \<and> h \<in> bt_txHash ` set rows))"

lemma key_hash_unique:
  assumes "h @ '':'' @ t = h' @ '':'' @ t'" "CHR '':'' \<notin> set t" "CHR '':'' \<notin> set t'"
  shows "h = h'"
proof -
  have eq: "rev t @ CHR '':'' # rev h = rev t' @ CHR '':'' # rev h'"
    using arg_cong [OF assms(1), of rev] by simp
  have "takeWhile (\<lambda>c. c \<noteq> CHR '':'') (rev s @ CHR '':'' # x) = rev s" if "CHR '':'' \<notin> set s" for s x
    using that by (auto simp: takeWhile_append)
  with eq assms(2,3) have "rev t = rev t'" by metis
  with eq show ?thesis by simp
qed

lemma step_covers:
  assumes colon: "\<And>n. CHR '':'' \<notin> set (num_text lib n)"
    and step: "processBundleTradeEvent lib json event known rows = (Inr b, seen1, rows1)" and known: "seen_stored known rows"
  shows "covered lib json rows1 event \<and> set rows \<subseteq> set rows1 \<and> seen_stored seen1 rows1"
proof -
  obtain r where r: "normalizeBundleEvent lib json event = Inr r"
    using step by (auto simp: processBundleTradeEvent_def split: sum.splits)
  show ?thesis
  proof (cases r)
    case None
    with r step known show ?thesis by (simp add: processBundleTradeEvent_def covered_def)
  next
    case (Some n)
    obtain skip seen2 where g: "bundle_guard lib n known = (skip, seen2)" by fastforce
    show ?thesis
    proof (cases skip)
      case True
      then obtain keys where keys: "known = Some keys" "bn_txHash n @ '':'' @ num_text lib (bn_eventIndex n) \<in> keys"
        using g by (auto simp: bundle_guard_def Let_def split: option.splits if_splits)
      then obtain h t where "bn_txHash n @ '':'' @ num_text lib (bn_eventIndex n) = h @ '':'' @ t" "CHR '':'' \<notin> set t"
        "h \<in> bt_txHash ` set rows"
        using known by (fastforce simp: seen_stored_def)
      then have "bn_txHash n \<in> bt_txHash ` set rows" using key_hash_unique colon by metis
      moreover have "rows1 = rows" "seen1 = known" using step r Some g True keys
        by (auto simp: processBundleTradeEvent_def bundle_guard_def Let_def split: if_splits)
      ultimately show ?thesis using r Some known by (simp add: covered_def)
    next
      case False
      have rows: "seen1 = seen2" "bn_txHash n \<in> bt_txHash ` set rows1" "set rows \<subseteq> set rows1"
        using step r Some g False
        by (auto simp: processBundleTradeEvent_def bundle_row_of_def find_by_None_iff image_iff
            dest: find_by_SomeD split: option.splits sum.splits if_splits)
      moreover have "seen_stored seen2 rows1"
        using g False known rows colon
        by (fastforce simp: bundle_guard_def Let_def seen_stored_def split: option.splits if_splits)
      ultimately show ?thesis using r Some by (simp add: covered_def)
    qed
  qed
qed

lemma covered_mono: "covered lib json rows event \<Longrightarrow> set rows \<subseteq> set rows' \<Longrightarrow> covered lib json rows' event"
  by (fastforce simp: covered_def)

lemma loop_covers:
  assumes colon: "\<And>n. CHR '':'' \<notin> set (num_text lib n)"
  shows "bundle_loop lib json events counts known rows = (Inr c, rows') \<Longrightarrow> seen_stored known rows \<Longrightarrow>
    (\<forall>event \<in> set events. bundle_type_ok lib event \<longrightarrow> covered lib json rows' event) \<and> set rows \<subseteq> set rows'"
proof (induction events arbitrary: counts known rows)
  case (Cons event events)
  show ?case
  proof (cases "bundle_type_ok lib event")
    case True
    then obtain ok seen1 rows1 where step: "processBundleTradeEvent lib json event known rows = (Inr ok, seen1, rows1)"
      and rest: "bundle_loop lib json events (if ok then (fst counts + 1, snd counts) else (fst counts, snd counts + 1)) seen1 rows1 = (Inr c, rows')"
      using Cons.prems(1) by (auto split: sum.splits prod.splits)
    note one = step_covers [OF colon step Cons.prems(2)]
    note more = Cons.IH [OF rest conjunct2 [OF conjunct2 [OF one]]]
    show ?thesis using one more covered_mono by (metis set_ConsD subset_trans)
  qed (use Cons in auto)
qed simp

lemma loop_of_covered:
  assumes "\<forall>event \<in> set events. bundle_type_ok lib event \<longrightarrow> covered lib json rows event"
  shows "bundle_loop lib json events counts known rows =
    (Inr (fst counts, snd counts + length (filter (bundle_type_ok lib) events)), rows)"
  using assms
proof (induction events arbitrary: counts known)
  case (Cons event events)
  show ?case
  proof (cases "bundle_type_ok lib event")
    case True
    with Cons.prems have "covered lib json rows event" by simp
    then have "\<exists>seen1. processBundleTradeEvent lib json event known rows = (Inr False, seen1, rows)"
      by (auto simp: covered_def processBundleTradeEvent_def find_by_None_iff split: option.split prod.split)
    then obtain seen1 where "processBundleTradeEvent lib json event known rows = (Inr False, seen1, rows)" ..
    with True Cons show ?thesis by simp
  qed (use Cons in simp)
qed simp

text \<open>C28: Bundles are stored once and well-formed: in whatever table of well-formed bundles a batch starts,
  after it each transaction still has one row, every row names a wallet and has items with a key and a
  positive amount; and redelivering a batch that ran to its end stores nothing, skipping every event.\<close>

theorem bundles_stored_once:
  assumes "bundles_ok rows" "\<And>n. CHR '':'' \<notin> set (num_text lib n)"
    and "processBundleTradeEvents lib json events rows = (r, rows')"
  shows "distinct (map bt_txHash rows') \<and> (\<forall>b \<in> set rows'. bt_wallet b \<noteq> [] \<and> bt_txHash b \<noteq> [] \<and> bt_items b \<noteq> [] \<and>
      (\<forall>i \<in> set (bt_items b). bi_key i \<noteq> [] \<and> 0 < bi_amount i)) \<and>
    (is_ok r \<longrightarrow> processBundleTradeEvents lib json events rows' =
      (Inr (0, length (filter (bundle_type_ok lib) events)), rows'))"
proof -
  have "bundles_ok rows'"
    using bundle_loop_ok [OF assms(1), of lib json events "(0, 0)" "Some {}"] assms(3) by (simp add: processBundleTradeEvents_def)
  moreover have "processBundleTradeEvents lib json events rows' = (Inr (0, length (filter (bundle_type_ok lib) events)), rows')"
    if ok: "is_ok r"
  proof -
    obtain c where "bundle_loop lib json events (0, 0) (Some {}) rows = (Inr c, rows')"
      using ok assms(3) that by (cases r; simp add: processBundleTradeEvents_def)
    from loop_covers [OF assms(2) this] have "\<forall>event \<in> set events. bundle_type_ok lib event \<longrightarrow> covered lib json rows' event"
      by (simp add: seen_stored_def)
    from loop_of_covered [OF this] show ?thesis by (simp add: processBundleTradeEvents_def)
  qed
  ultimately show ?thesis by (auto simp: bundles_ok_def bundle_row_ok_def)
qed

section \<open>Witness\<close>

definition example_bundle :: raw_event where
  "example_bundle = [(''buyer'', Jstr ''W''), (''txHash'', Jstr ''t''), (''ledger'', Jnum (Fin 4)), (''timestamp'', Jnum (Fin 9)),
    (''items'', Jarr [Jobj [(''key'', Jstr ''k''), (''amount'', Jnum (Fin 2)), (''price'', Jstr ''30'')]])]"

definition plain_text_lib :: js_text_lib where
  "plain_text_lib = \<lparr>num_text = (\<lambda>_. ''0''), parse_num = (\<lambda>_. NaN), parse_date = (\<lambda>_. None)\<rparr>"

theorem bundles_stored_once_witness:
  "\<exists>rows'. processBundleTradeEvents plain_text_lib \<lparr>stringify = (\<lambda>_. []), parse = (\<lambda>_. None)\<rparr> [example_bundle] [] =
      (Inr (1, 0), rows') \<and> map bt_totalCost rows' = [''60''] \<and>
    processBundleTradeEvents plain_text_lib \<lparr>stringify = (\<lambda>_. []), parse = (\<lambda>_. None)\<rparr> [example_bundle] rows' = (Inr (0, 1), rows')"
proof -
  let ?json = "\<lparr>stringify = (\<lambda>_. []), parse = (\<lambda>_. None)\<rparr>"
  obtain r rows' where run: "processBundleTradeEvents plain_text_lib ?json [example_bundle] [] = (r, rows')" by fastforce
  have "fst (processBundleTradeEvents plain_text_lib ?json [example_bundle] []) = Inr (1, 0) \<and>
      map bt_totalCost (snd (processBundleTradeEvents plain_text_lib ?json [example_bundle] [])) = [''60'']"
    by code_simp
  with run have r: "r = Inr (1, 0)" "map bt_totalCost rows' = [''60'']" by auto
  have "bundle_type_ok plain_text_lib example_bundle" by code_simp
  moreover have "bundles_ok []" by (simp add: bundles_ok_def)
  moreover have "CHR '':'' \<notin> set (num_text plain_text_lib n)" for n by (simp add: plain_text_lib_def)
  ultimately show ?thesis using bundles_stored_once [OF _ _ run] run r by auto
qed

end
