(* ===== verification/Discounts.thy ===== *)
theory Discounts
  imports Raw_Events
begin

text \<open>
  \<open>src/modules/indexer/volume-discount-tier-indexer.service.ts\<close> and the choice of a tier in
  \<open>src/modules/traders/trader-discount.service.ts\<close>: volume discount tiers, indexed from contract events,
  and the discount a wallet gets for its 30-day volume.

  What the cache returned, when it returned something, is an argument, and so is the volume. Thresholds
  are below \<open>10^21\<close>, where they print as plain digits. Cache invalidations and writes are left out.
\<close>

section \<open>Tiers\<close>

record tier_row =
  tr_tier :: int
  tr_name :: string
  tr_threshold :: int
  tr_bps :: int

definition VOLUME_DISCOUNT_EVENT_TYPES :: "string set" where
  "VOLUME_DISCOUNT_EVENT_TYPES = {''VolumeDiscountTierChanged'', ''VOLUME_DISCOUNT_TIER_CHANGED'',
    ''VolumeDiscountTierConfigUpdated'', ''VOLUME_TIER_CONFIG_UPDATED''}"

text \<open>\<open>discountBps ?? (feeBps !== undefined ? Math.max(0, 500 - feeBps) : undefined)\<close>.\<close>

definition tier_bps :: "js_text_lib \<Rightarrow> raw_event \<Rightarrow> js_value" where
  "tier_bps lib item =
    (let d = js_field ''discountBps'' item; f = js_field ''feeBps'' item
     in if d \<noteq> Jundefined \<and> d \<noteq> Jnull then d
        else if f = Jundefined then Jundefined
        else case to_number lib f of
          Fin q \<Rightarrow> Jnum (Fin (max 0 (fl (500 - q))))
        | NaN \<Rightarrow> Jnum NaN
        | Infinite pos \<Rightarrow> if pos then Jnum (Fin 0) else Jnum (Infinite True))"

record tier_item =
  ti_tier :: int
  ti_name :: js_value
  ti_threshold :: int
  ti_bps :: int

text \<open>A valid item with what is stored of it; \<open>None\<close> when \<open>isValidTierItem\<close> is false.\<close>

definition isValidTierItem :: "js_text_lib \<Rightarrow> js_value \<Rightarrow> tier_item option" where
  "isValidTierItem lib v =
    (case v of
      Jobj item \<Rightarrow>
        (case (js_field ''tier'' item, to_bigint lib (js_field ''volumeThreshold'' item), tier_bps lib item) of
          (Jnum t, Some threshold, Jnum bps) \<Rightarrow>
            if is_integer_num t \<and> 0 \<le> num_to_int t \<and> 0 \<le> threshold \<and>
               is_integer_num bps \<and> 0 \<le> num_to_int bps \<and> num_to_int bps \<le> 10000
            then Some \<lparr>ti_tier = num_to_int t, ti_name = js_field ''name'' item, ti_threshold = threshold,
              ti_bps = num_to_int bps\<rparr>
            else None
        | _ \<Rightarrow> None)
    | _ \<Rightarrow> None)"

fun valid_tiers :: "js_text_lib \<Rightarrow> js_value list \<Rightarrow> tier_item list option" where
  "valid_tiers lib [] = Some []"
| "valid_tiers lib (v # vs) =
    (case isValidTierItem lib v of
      None \<Rightarrow> None
    | Some item \<Rightarrow> map_option (\<lambda>rest. item # rest) (valid_tiers lib vs))"

definition event_tiers :: "js_text_lib \<Rightarrow> raw_event \<Rightarrow> tier_item list option" where
  "event_tiers lib event =
    (case js_field ''tiers'' event of
      Jarr (v # vs) \<Rightarrow> valid_tiers lib (v # vs)
    | _ \<Rightarrow> map_option (\<lambda>item. [item]) (isValidTierItem lib (Jobj event)))"

datatype discount_error = InvalidName

definition tier_name :: "tier_item \<Rightarrow> discount_error + string" where
  "tier_name item =
    (case ti_name item of
      Jstr s \<Rightarrow> Inr s
    | Jundefined \<Rightarrow> Inr (''TIER_'' @ show_int (ti_tier item))
    | Jnull \<Rightarrow> Inr (''TIER_'' @ show_int (ti_tier item))
    | _ \<Rightarrow> Inl InvalidName)"

fun upsert_tiers :: "tier_item list \<Rightarrow> tier_row list \<Rightarrow> (discount_error + unit) \<times> tier_row list" where
  "upsert_tiers [] rows = (Inr (), rows)"
| "upsert_tiers (item # rest) rows =
    (case tier_name item of
      Inl err \<Rightarrow> (Inl err, rows)
    | Inr name \<Rightarrow>
        let row = \<lparr>tr_tier = ti_tier item, tr_name = name, tr_threshold = ti_threshold item, tr_bps = ti_bps item\<rparr>
        in upsert_tiers rest (upsert_by tr_tier (ti_tier item) (\<lambda>_. row) row rows))"

definition discount_handler :: "js_text_lib \<Rightarrow> chain_event \<Rightarrow> tier_row list \<Rightarrow> (discount_error + unit) \<times> tier_row list" where
  "discount_handler lib e rows =
    (if ce_eventType e \<notin> VOLUME_DISCOUNT_EVENT_TYPES then (Inr (), rows)
     else case event_tiers lib (raw_of e) of
       None \<Rightarrow> (Inr (), rows)
     | Some its \<Rightarrow> upsert_tiers its rows)"

definition processVolumeDiscountTierEvents ::
  "js_text_lib \<Rightarrow> chain_event list \<Rightarrow> tier_row list \<Rightarrow> (discount_error + unit) \<times> tier_row list" where
  "processVolumeDiscountTierEvents lib es rows = processIndexerChainEvents (discount_handler lib) es rows"

section \<open>The discount of a wallet\<close>

definition DEFAULT_DISCOUNT_TIERS :: "tier_row list" where
  "DEFAULT_DISCOUNT_TIERS =
    [\<lparr>tr_tier = 0, tr_name = ''TIER_0'', tr_threshold = 0, tr_bps = 0\<rparr>,
     \<lparr>tr_tier = 1, tr_name = ''TIER_1'', tr_threshold = 1000000000000, tr_bps = 100\<rparr>,
     \<lparr>tr_tier = 2, tr_name = ''TIER_2'', tr_threshold = 5000000000000, tr_bps = 200\<rparr>]"

definition descending :: "tier_row list \<Rightarrow> tier_row list" where
  "descending rows = sort_key (\<lambda>r. - tr_threshold r) rows"

definition getVolumeDiscountTiers :: "tier_row list option \<Rightarrow> tier_row list \<Rightarrow> tier_row list" where
  "getVolumeDiscountTiers cached rows =
    (case cached of
      Some (t # ts) \<Rightarrow> t # ts
    | _ \<Rightarrow> if rows = [] then descending DEFAULT_DISCOUNT_TIERS else descending rows)"

record trader_discount =
  td_wallet :: string
  td_tier :: int
  td_tierLabel :: string
  td_discountBps :: int
  td_volume30d :: string

definition getTraderDiscount :: "trader_discount option \<Rightarrow> string \<Rightarrow> int \<Rightarrow> tier_row list \<Rightarrow> trader_discount" where
  "getTraderDiscount cached wallet volume30d tiers =
    (case cached of
      Some d \<Rightarrow> d
    | None \<Rightarrow>
        let matchedTier = (case find (\<lambda>t. tr_threshold t \<le> volume30d) tiers of
              Some t \<Rightarrow> t
            | None \<Rightarrow> if tiers = [] then hd DEFAULT_DISCOUNT_TIERS else last tiers)
        in \<lparr>td_wallet = wallet, td_tier = tr_tier matchedTier, td_tierLabel = tr_name matchedTier,
            td_discountBps = tr_bps matchedTier, td_volume30d = show_int volume30d\<rparr>)"

section \<open>Stored tiers are valid\<close>

definition tiers_ok :: "tier_row list \<Rightarrow> bool" where
  "tiers_ok rows \<longleftrightarrow> distinct (map tr_tier rows) \<and>
    (\<forall>r \<in> set rows. 0 \<le> tr_tier r \<and> 0 \<le> tr_threshold r \<and> 0 \<le> tr_bps r \<and> tr_bps r \<le> 10000)"

definition item_ok :: "tier_item \<Rightarrow> bool" where
  "item_ok i \<longleftrightarrow> 0 \<le> ti_tier i \<and> 0 \<le> ti_threshold i \<and> 0 \<le> ti_bps i \<and> ti_bps i \<le> 10000"

lemma valid_item_ok: "isValidTierItem lib v = Some i \<Longrightarrow> item_ok i"
  by (auto simp: isValidTierItem_def item_ok_def split: js_value.splits option.splits if_splits)

lemma valid_tiers_ok: "valid_tiers lib vs = Some its \<Longrightarrow> \<forall>i \<in> set its. item_ok i"
  by (induction vs arbitrary: its) (auto simp: valid_item_ok split: option.splits)

lemma event_tiers_ok: "event_tiers lib event = Some its \<Longrightarrow> \<forall>i \<in> set its. item_ok i"
  by (auto simp: event_tiers_def valid_item_ok split: js_value.splits list.splits option.splits dest!: valid_tiers_ok)

lemma upsert_tiers_ok: "tiers_ok rows \<Longrightarrow> \<forall>i \<in> set its. item_ok i \<Longrightarrow> tiers_ok (snd (upsert_tiers its rows))"
proof (induction its arbitrary: rows)
  case (Cons i its)
  show ?case
  proof (cases "tier_name i")
    case (Inr name)
    let ?row = "\<lparr>tr_tier = ti_tier i, tr_name = name, tr_threshold = ti_threshold i, tr_bps = ti_bps i\<rparr>"
    let ?rows = "upsert_by tr_tier (ti_tier i) (\<lambda>_. ?row) ?row rows"
    have "distinct (map tr_tier ?rows)"
      using Cons.prems(1) by (intro distinct_upsert) (auto simp: tiers_ok_def)
    moreover have "set ?rows \<subseteq> insert ?row (set rows)"
      by (auto simp: upsert_by_def set_modify_by split: option.split)
    ultimately have "tiers_ok ?rows" using Cons.prems by (fastforce simp: tiers_ok_def item_ok_def)
    with Cons Inr show ?thesis by (simp add: Let_def)
  qed (use Cons in simp)
qed simp

lemma discount_handler_ok: "tiers_ok rows \<Longrightarrow> tiers_ok (snd (discount_handler lib e rows))"
  by (auto simp: discount_handler_def upsert_tiers_ok dest!: event_tiers_ok split: option.split)

lemma run_discounts_ok: "tiers_ok rows \<Longrightarrow> tiers_ok (snd (run_events (discount_handler lib) es rows))"
proof (induction es arbitrary: rows)
  case (Cons e es)
  have "tiers_ok (snd (discount_handler lib e rows))" using Cons.prems by (rule discount_handler_ok)
  with Cons.IH show ?case by (auto split: prod.split sum.split)
qed simp

lemma indexed_tiers_ok: "tiers_ok rows \<Longrightarrow> tiers_ok (snd (processVolumeDiscountTierEvents lib es rows))"
  by (simp add: processVolumeDiscountTierEvents_def processIndexerChainEvents_def run_discounts_ok)

section \<open>Which tier a wallet gets\<close>

lemma find_descending:
  assumes "sorted_wrt (\<lambda>a b. tr_threshold b \<le> tr_threshold a) ts" "find (\<lambda>t. tr_threshold t \<le> v) ts = Some t"
  shows "t \<in> set ts \<and> tr_threshold t \<le> v \<and> (\<forall>u \<in> set ts. tr_threshold u \<le> v \<longrightarrow> tr_threshold u \<le> tr_threshold t)"
  using assms by (induction ts) (auto split: if_splits)

lemma descending_sorted: "sorted_wrt (\<lambda>a b. tr_threshold b \<le> tr_threshold a) (descending rows)"
  using sorted_sort_key [of "\<lambda>r. - tr_threshold r" rows] by (simp add: descending_def sorted_map)

lemma set_descending [simp]: "set (descending rows) = set rows" "descending rows = [] \<longleftrightarrow> rows = []"
  by (simp_all add: descending_def)

lemma last_of_descending:
  assumes "sorted_wrt (\<lambda>a b. tr_threshold b \<le> tr_threshold a) ts" "ts \<noteq> []"
  shows "\<forall>u \<in> set ts. tr_threshold (last ts) \<le> tr_threshold u"
  using assms by (induction ts) auto

text \<open>After any batch of tier events the configured tiers are valid, and the discount of a wallet is that of
  the highest threshold its volume reaches. A wallet that reaches none of the configured thresholds gets
  the discount of the lowest tier all the same.\<close>

theorem discount_tier_selected:
  assumes "tiers_ok rows" "snd (processVolumeDiscountTierEvents lib es rows) = rows'" "rows' \<noteq> []"
  shows "(\<forall>r \<in> set rows'. 0 \<le> tr_threshold r \<and> 0 \<le> tr_bps r \<and> tr_bps r \<le> 10000) \<and>
    (\<exists>t \<in> set rows'. td_tier (getTraderDiscount None wallet v (getVolumeDiscountTiers None rows')) = tr_tier t \<and>
      td_discountBps (getTraderDiscount None wallet v (getVolumeDiscountTiers None rows')) = tr_bps t \<and>
      (if \<exists>u \<in> set rows'. tr_threshold u \<le> v
       then tr_threshold t \<le> v \<and> (\<forall>u \<in> set rows'. tr_threshold u \<le> v \<longrightarrow> tr_threshold u \<le> tr_threshold t)
       else \<forall>u \<in> set rows'. tr_threshold t \<le> tr_threshold u))"
proof -
  have ok: "tiers_ok rows'" using indexed_tiers_ok [OF assms(1), of lib es] assms(2) by simp
  let ?ts = "descending rows'"
  have ts: "getVolumeDiscountTiers None rows' = ?ts" using assms(3) by (simp add: getVolumeDiscountTiers_def)
  have "\<exists>t \<in> set rows'. td_tier (getTraderDiscount None wallet v ?ts) = tr_tier t \<and>
      td_discountBps (getTraderDiscount None wallet v ?ts) = tr_bps t \<and>
      (if \<exists>u \<in> set rows'. tr_threshold u \<le> v
       then tr_threshold t \<le> v \<and> (\<forall>u \<in> set rows'. tr_threshold u \<le> v \<longrightarrow> tr_threshold u \<le> tr_threshold t)
       else \<forall>u \<in> set rows'. tr_threshold t \<le> tr_threshold u)"
  proof (cases "find (\<lambda>t. tr_threshold t \<le> v) ?ts")
    case None
    then have "\<not> (\<exists>u \<in> set rows'. tr_threshold u \<le> v)" by (auto simp: find_None_iff)
    moreover have "last ?ts \<in> set rows'" using assms(3) last_in_set [of ?ts] by simp
    moreover have "\<forall>u \<in> set rows'. tr_threshold (last ?ts) \<le> tr_threshold u"
      using last_of_descending [OF descending_sorted] assms(3) by simp
    ultimately show ?thesis using None assms(3) by (intro bexI [of _ "last ?ts"]) (simp_all add: getTraderDiscount_def Let_def)
  next
    case (Some t)
    from find_descending [OF descending_sorted this] have "t \<in> set rows'" "tr_threshold t \<le> v"
      "\<forall>u \<in> set rows'. tr_threshold u \<le> v \<longrightarrow> tr_threshold u \<le> tr_threshold t" by simp_all
    then show ?thesis using Some by (intro bexI [of _ t]) (auto simp: getTraderDiscount_def Let_def)
  qed
  with ok show ?thesis by (simp add: ts tiers_ok_def)
qed

section \<open>Witness\<close>

definition example_tier_event :: chain_event where
  "example_tier_event = \<lparr>ce_txHash = ''t'', ce_eventIndex = 0, ce_ledger = None, ce_eventType = ''VolumeDiscountTierChanged'',
    ce_fields = [(''tier'', Jnum (Fin 1)), (''volumeThreshold'', Jstr ''500''), (''discountBps'', Jnum (Fin 100))]\<rparr>"

theorem discount_tier_selected_witness:
  "\<exists>rows'. snd (processVolumeDiscountTierEvents \<lparr>num_text = (\<lambda>_. []), parse_num = (\<lambda>_. NaN), parse_date = (\<lambda>_. None)\<rparr>
      [example_tier_event] []) = rows' \<and> length rows' = 1 \<and>
    td_discountBps (getTraderDiscount None ''W'' 0 (getVolumeDiscountTiers None rows')) = 100"
proof -
  let ?lib = "\<lparr>num_text = (\<lambda>_. []), parse_num = (\<lambda>_. NaN), parse_date = (\<lambda>_. None)\<rparr>"
  let ?rows = "snd (processVolumeDiscountTierEvents ?lib [example_tier_event] [])"
  have run: "map (\<lambda>r. (tr_threshold r, tr_bps r)) ?rows = [(500, 100)]" by code_simp
  then obtain r where r: "?rows = [r]" "tr_bps r = 100" by (cases ?rows) auto
  have "tiers_ok []" by (simp add: tiers_ok_def)
  from discount_tier_selected [OF this refl, of ?lib "[example_tier_event]" "''W''" 0]
  have "td_discountBps (getTraderDiscount None ''W'' 0 (getVolumeDiscountTiers None ?rows)) = 100"
    unfolding r(1) using r(2) by auto
  then show ?thesis using r(1) by simp
qed

end
