(* ===== verification/Trades.thy ===== *)
theory Trades
  imports Ownership Referrals Bundles Discounts
begin

text \<open>
  The trade path of \<open>src/modules/indexer/indexer-pipeline.service.ts\<close> (\<open>processTradeEvents\<close> and the cursor)
  with the services it calls: circulating supply (\<open>persist-circulating-supply.service.ts\<close>), milestones
  (\<open>getTierForSupply\<close> of \<open>key-milestones.service.ts\<close>), price snapshots (\<open>price-snapshot.service.ts\<close>),
  positions, referrals, bundles, swaps and discount tiers; and the traded volumes of
  \<open>src/utils/trading-volume.utils.ts\<close>, which read the same activity table.

  Configuration and libraries are the record \<open>trade_env\<close>. A database call fails where the schema or the
  client rejects it (invalid dates, numbers that are not finite, a missing row) and otherwise succeeds.
  Caches, price alerts, log lines and the price broadcast are left out.
\<close>

section \<open>Tables\<close>

text \<open>The payload is JSON: it holds finite numbers or \<open>null\<close>.\<close>

record activity =
  ac_type :: string
  ac_actor :: string
  ac_creatorId :: "string option"
  ac_payload :: "(string \<times> js_value) list"
  ac_createdAt :: instant

record profile =
  pf_id :: string
  pf_supply :: rat
  pf_milestone :: int

record price_snapshot =
  ps_creator :: string
  ps_currentPrice :: int
  ps_price24hAgo :: int
  ps_lastTradeAt :: "instant option"

record price_point =
  pp_creator :: string
  pp_price :: int
  pp_supply :: int
  pp_direction :: string
  pp_recordedAt :: instant

record trade_db =
  db_own :: own_db
  db_referrals :: referral_db
  db_activities :: "activity list"
  db_profiles :: "profile list"
  db_snapshots :: "price_snapshot list"
  db_history :: "price_point list"
  db_bundles :: "bundle_row list"
  db_tiers :: "tier_row list"
  db_swaps :: "swap_row list"
  db_cursor :: "indexed_ledger option"

datatype trade_error =
    BadTradeValue
  | CreatorMissing
  | PriceNotInteger
  | SupplyNotInteger
  | ReferralFailed referral_error
  | BundleFailed bundle_error
  | DiscountFailed discount_error
  | SwapFailed swap_error

record trade_env =
  te_lib :: js_text_lib
  te_json :: json_lib
  te_rewardBps :: rat
  te_milestones :: "(int \<times> rat) list"

section \<open>Milestones and circulating supply\<close>

definition DEFAULT_MILESTONES :: "(int \<times> rat) list" where
  "DEFAULT_MILESTONES = [(1, 10), (2, 100), (3, 1000), (4, 10000)]"

fun tier_from :: "int \<Rightarrow> rat \<Rightarrow> (int \<times> rat) list \<Rightarrow> int" where
  "tier_from tier supply [] = tier"
| "tier_from tier supply ((t, threshold) # ms) =
    (if supply \<ge> threshold then tier_from (if t > 0 then t else tier) supply ms else tier)"

definition getTierForSupply :: "rat \<Rightarrow> (int \<times> rat) list \<Rightarrow> int" where
  "getTierForSupply supply milestones = tier_from 0 supply milestones"

definition is_trade :: "string \<Rightarrow> bool" where
  "is_trade t \<longleftrightarrow> t = ''KEY_BOUGHT'' \<or> t = ''KEY_SOLD''"

definition trades_of :: "string \<Rightarrow> activity list \<Rightarrow> activity list" where
  "trades_of creator acts = filter (\<lambda>a. ac_creatorId a = Some creator \<and> is_trade (ac_type a)) acts"

text \<open>\<open>Number(payload.amount ?? 0)\<close>.\<close>

definition payload_amount :: "js_text_lib \<Rightarrow> activity \<Rightarrow> rat" where
  "payload_amount lib a =
    (let v = js_field ''amount'' (ac_payload a)
     in case to_number lib (if v = Jundefined \<or> v = Jnull then Jnum (Fin 0) else v) of Fin q \<Rightarrow> q | _ \<Rightarrow> 0)"

definition supply_of :: "js_text_lib \<Rightarrow> activity list \<Rightarrow> rat" where
  "supply_of lib acts =
    foldl (\<lambda>total a. if ac_type a = ''KEY_BOUGHT'' then fl (total + payload_amount lib a)
      else fl (total - payload_amount lib a)) 0 acts"

text \<open>The transaction fails, on each of its three attempts alike, when the creator has no profile.\<close>

definition persistCirculatingSupply :: "trade_env \<Rightarrow> instant \<Rightarrow> string \<Rightarrow> trade_db \<Rightarrow> trade_error + rat \<times> trade_db" where
  "persistCirculatingSupply env now creator db =
    (let supply = supply_of (te_lib env) (trades_of creator (db_activities db))
     in case find_by pf_id creator (db_profiles db) of
          None \<Rightarrow> Inl CreatorMissing
        | Some p \<Rightarrow>
            let oldMilestone = pf_milestone p; newMilestone = getTierForSupply supply (te_milestones env);
                db1 = db\<lparr>db_profiles := modify_by pf_id creator
                  (\<lambda>p. p\<lparr>pf_supply := supply, pf_milestone := newMilestone\<rparr>) (db_profiles db)\<rparr>
            in Inr (supply,
                 if newMilestone = oldMilestone then db1
                 else db1\<lparr>db_activities := insert_row \<lparr>ac_type = ''MILESTONE_CROSSED'', ac_actor = ''system'',
                   ac_creatorId = Some creator, ac_payload = [(''keyId'', Jstr creator),
                     (''milestoneTier'', Jnum (Fin (of_int newMilestone))), (''oldMilestone'', Jnum (Fin (of_int oldMilestone))),
                     (''newMilestone'', Jnum (Fin (of_int newMilestone))), (''supply'', Jnum (Fin supply)),
                     (''direction'', Jstr (if newMilestone > oldMilestone then ''up'' else ''down''))],
                   ac_createdAt = now\<rparr> (db_activities db1)\<rparr>))"

section \<open>Price snapshots\<close>

definition DAY_MS :: int where
  "DAY_MS = 24 * 60 * 60 * 1000"

definition upsertPriceSnapshot :: "instant \<Rightarrow> string \<Rightarrow> int \<Rightarrow> instant \<Rightarrow> int \<Rightarrow> string \<Rightarrow> trade_db \<Rightarrow> trade_db" where
  "upsertPriceSnapshot now creator price tradeAt supply direction db =
    (let point = \<lparr>pp_creator = creator, pp_price = price, pp_supply = supply, pp_direction = direction, pp_recordedAt = tradeAt\<rparr>
     in case find_by ps_creator creator (db_snapshots db) of
          None \<Rightarrow>
            db\<lparr>db_snapshots := insert_row \<lparr>ps_creator = creator, ps_currentPrice = price, ps_price24hAgo = price,
                 ps_lastTradeAt = Some tradeAt\<rparr> (db_snapshots db),
               db_history := insert_row point (db_history db)\<rparr>
        | Some existing \<Rightarrow>
            if (case ps_lastTradeAt existing of None \<Rightarrow> False | Some t \<Rightarrow> tradeAt \<le> t) then db
            else
              let rotate = (case ps_lastTradeAt existing of None \<Rightarrow> False | Some t \<Rightarrow> t < now - DAY_MS)
              in db\<lparr>db_snapshots := modify_by ps_creator creator (\<lambda>s. s\<lparr>ps_currentPrice := price,
                     ps_price24hAgo := (if rotate then ps_currentPrice existing else ps_price24hAgo existing),
                     ps_lastTradeAt := Some tradeAt\<rparr>) (db_snapshots db),
                   db_history := insert_row point (db_history db)\<rparr>)"

section \<open>One trade event\<close>

definition required_fields :: "string list" where
  "required_fields = [''creatorId'', ''actor'', ''amount'', ''price'', ''feePaid'', ''tradeAt'', ''ledger'']"

definition field_missing :: "raw_event \<Rightarrow> string \<Rightarrow> bool" where
  "field_missing event f \<longleftrightarrow> js_field f event \<in> {Jundefined, Jnull, Jstr []}"

text \<open>Stroops to XLM, zero when that is no number or negative.\<close>

definition price_per_key :: "js_text_lib \<Rightarrow> js_value \<Rightarrow> rat" where
  "price_per_key lib price =
    (case (case to_bigint lib price of Some i \<Rightarrow> Fin (fl (fl (of_int i) / 10000000)) | None \<Rightarrow> to_number lib price) of
      Fin p \<Rightarrow> if p < 0 then 0 else p
    | _ \<Rightarrow> 0)"

definition payment_asset :: "raw_event \<Rightarrow> string" where
  "payment_asset event =
    (case js_field ''paymentAsset'' event of Jstr s \<Rightarrow> if trim s \<noteq> [] then to_upper (trim s) else ''XLM'' | _ \<Rightarrow> ''XLM'')"

text \<open>A number in a JSON column; one that is not finite becomes \<open>null\<close>.\<close>

definition json_number :: "js_num \<Rightarrow> js_value" where
  "json_number n = (case n of Fin q \<Rightarrow> Jnum (Fin q) | _ \<Rightarrow> Jnull)"

definition trade_activity :: "js_text_lib \<Rightarrow> string \<Rightarrow> string \<Rightarrow> string \<Rightarrow> instant \<Rightarrow> raw_event \<Rightarrow> activity" where
  "trade_activity lib kind actor creator tradeAt event =
    \<lparr>ac_type = kind, ac_actor = actor, ac_creatorId = Some creator,
     ac_payload = [(''amount'', json_number (to_number lib (js_field ''amount'' event))),
       (''price_at_trade'', Jstr (js_text lib (js_field ''price'' event))),
       (''fee_paid'', Jstr (js_text lib (js_field ''feePaid'' event))),
       (''ledger_sequence'', json_number (to_number lib (js_field ''ledger'' event))),
       (''payment_asset'', Jstr (payment_asset event))],
     ac_createdAt = tradeAt\<rparr>"

definition change_position :: "string \<Rightarrow> string \<Rightarrow> string \<Rightarrow> rat \<Rightarrow> rat \<Rightarrow> instant \<Rightarrow> own_db \<Rightarrow> own_db" where
  "change_position kind actor creator q price tradeAt own =
    (if kind = ''KEY_BOUGHT'' then recordKeyPurchase actor creator q price tradeAt own
     else record_sale_or_decrement actor creator q price tradeAt own)"

text \<open>Supply first, then the price snapshot with the supply after the trade.\<close>

definition record_supply_and_price ::
  "trade_env \<Rightarrow> instant \<Rightarrow> string \<Rightarrow> string \<Rightarrow> js_value \<Rightarrow> instant \<Rightarrow> trade_db \<Rightarrow> (trade_error + unit) \<times> trade_db" where
  "record_supply_and_price env now kind creator price tradeAt db =
    (case persistCirculatingSupply env now creator db of
      Inl err \<Rightarrow> (Inl err, db)
    | Inr (supply, db1) \<Rightarrow>
        (case to_bigint (te_lib env) price of
          None \<Rightarrow> (Inl PriceNotInteger, db1)
        | Some p \<Rightarrow>
            if \<not> is_integer_num (Fin supply) then (Inl SupplyNotInteger, db1)
            else (Inr (), upsertPriceSnapshot now creator p tradeAt (num_to_int (Fin supply))
              (if kind = ''KEY_BOUGHT'' then ''BUY'' else ''SELL'') db1)))"

definition index_trade :: "trade_env \<Rightarrow> instant \<Rightarrow> chain_event \<Rightarrow> trade_db \<Rightarrow> (trade_error + unit) \<times> trade_db" where
  "index_trade env now e db =
    (let event = raw_of e; lib = te_lib env; kind = ce_eventType e
     in if \<exists>f \<in> set required_fields. field_missing event f then (Inr (), db)
        else
          let tradeQty = to_number lib (js_field ''amount'' event);
              pricePerKeyXlm = price_per_key lib (js_field ''price'' event)
          in case (js_field ''actor'' event, js_field ''creatorId'' event, new_date lib (js_field ''tradeAt'' event)) of
               (Jstr actor, Jstr creator, Some tradeAt) \<Rightarrow>
                 (case recordFirstTradeReferralReward (te_rewardBps env) actor creator
                     (js_times (Fin pricePerKeyXlm) tradeQty) (Some (ce_txHash e)) (Some (ce_eventIndex e)) tradeAt
                     (db_referrals db) of
                   Inl err \<Rightarrow> (Inl (ReferralFailed err), db)
                 | Inr (_, refs) \<Rightarrow>
                     let db1 = db\<lparr>db_referrals := refs,
                           db_activities := insert_row (trade_activity lib kind actor creator tradeAt event) (db_activities db)\<rparr>
                     in case tradeQty of
                          Fin q \<Rightarrow> record_supply_and_price env now kind creator (js_field ''price'' event) tradeAt
                            (db1\<lparr>db_own := change_position kind actor creator q pricePerKeyXlm tradeAt (db_own db1)\<rparr>)
                        | _ \<Rightarrow> (Inl BadTradeValue, db1))
             | _ \<Rightarrow> (Inl BadTradeValue, db))"

section \<open>Dispatch, batches and the cursor\<close>

definition trade_handler :: "trade_env \<Rightarrow> instant \<Rightarrow> chain_event \<Rightarrow> trade_db \<Rightarrow> (trade_error + unit) \<times> trade_db" where
  "trade_handler env now e db =
    (if ce_eventType e = ''CREATOR_REGISTERED'' then (Inr (), db)
     else if ce_eventType e \<in> {''BundleExecuted'', ''BUNDLE_EXECUTED''} then
       (case processBundleTradeEvent (te_lib env) (te_json env) (raw_of e) None (db_bundles db) of
         (Inl err, _, rows) \<Rightarrow> (Inl (BundleFailed err), db\<lparr>db_bundles := rows\<rparr>)
       | (Inr _, _, rows) \<Rightarrow> (Inr (), db\<lparr>db_bundles := rows\<rparr>))
     else if ce_eventType e \<in> VOLUME_DISCOUNT_EVENT_TYPES then
       (case processVolumeDiscountTierEvents (te_lib env) [e] (db_tiers db) of
         (Inl err, rows) \<Rightarrow> (Inl (DiscountFailed err), db\<lparr>db_tiers := rows\<rparr>)
       | (Inr _, rows) \<Rightarrow> (Inr (), db\<lparr>db_tiers := rows\<rparr>))
     else if ce_eventType e \<in> SWAP_EVENT_TYPES then
       (case processAtomicSwapEvent (te_lib env) now (raw_of e) \<lparr>swap_rows = db_swaps db, seen = None\<rparr> of
         (Inl err, s) \<Rightarrow> (Inl (SwapFailed err), db\<lparr>db_swaps := swap_rows s\<rparr>)
       | (Inr _, s) \<Rightarrow> (Inr (), db\<lparr>db_swaps := swap_rows s\<rparr>))
     else if \<not> is_trade (ce_eventType e) then (Inr (), db)
     else index_trade env now e db)"

definition advanceIndexerCursorForBatch :: "instant \<Rightarrow> bool \<Rightarrow> chain_event list \<Rightarrow> trade_db \<Rightarrow> trade_db" where
  "advanceIndexerCursorForBatch now writeOk es db =
    db\<lparr>db_swaps := snd (markExpiredSwaps (Some now) (db_swaps db)),
       db_cursor := checkpointHighestLedger writeOk es (db_cursor db)\<rparr>"

definition processTradeEvents ::
  "trade_env \<Rightarrow> instant \<Rightarrow> bool \<Rightarrow> bool \<Rightarrow> chain_event list \<Rightarrow> trade_db \<Rightarrow> (trade_error + unit) \<times> trade_db" where
  "processTradeEvents env now writeOk advanceCursor es db =
    (case processIndexerChainEvents (trade_handler env now) es db of
      (Inl err, db1) \<Rightarrow> (Inl err, db1)
    | (Inr _, db1) \<Rightarrow> (Inr (), if advanceCursor then advanceIndexerCursorForBatch now writeOk es db1 else db1))"

section \<open>Traded volumes\<close>

definition in_window :: "instant \<Rightarrow> int \<Rightarrow> activity \<Rightarrow> bool" where
  "in_window now ms a \<longleftrightarrow> now - ms \<le> ac_createdAt a \<and> ac_createdAt a \<le> now"

text \<open>\<open>None\<close> where a price is no integer and \<open>BigInt\<close> throws.\<close>

fun sum_prices :: "js_text_lib \<Rightarrow> js_value list \<Rightarrow> int option" where
  "sum_prices lib [] = Some 0"
| "sum_prices lib (v # vs) =
    (if v = Jundefined then sum_prices lib vs
     else case (to_bigint lib v, sum_prices lib vs) of (Some a, Some b) \<Rightarrow> Some (a + b) | _ \<Rightarrow> None)"

definition compute24hVolume :: "js_text_lib \<Rightarrow> instant \<Rightarrow> string \<Rightarrow> trade_db \<Rightarrow> int option" where
  "compute24hVolume lib now creator db =
    sum_prices lib (map (\<lambda>a. js_field ''price'' (ac_payload a))
      (filter (in_window now DAY_MS) (trades_of creator (db_activities db))))"

definition payload_price :: "activity \<Rightarrow> js_value" where
  "payload_price a = first_defined (ac_payload a) [''price'', ''price_at_trade'']"

text \<open>\<open>buys\<close> are the prices of the wallet's \<open>Trade\<close> rows in the window, read when the activities sum to zero.\<close>

definition computeWallet30dVolume :: "js_text_lib \<Rightarrow> instant \<Rightarrow> string \<Rightarrow> js_value list \<Rightarrow> trade_db \<Rightarrow> int option" where
  "computeWallet30dVolume lib now wallet buys db =
    (case sum_prices lib (map payload_price (filter (\<lambda>a. ac_actor a = wallet \<and> is_trade (ac_type a) \<and>
        in_window now (30 * DAY_MS) a) (db_activities db))) of
      None \<Rightarrow> None
    | Some volume \<Rightarrow> if volume = 0 then sum_prices lib buys else Some volume)"

section \<open>Well-formed trade events\<close>

text \<open>What a trade event of the contract carries: a whole number of keys, a price in stroops, a date.\<close>

record trade_view =
  tv_kind :: string
  tv_actor :: string
  tv_creator :: string
  tv_qty :: int
  tv_price :: int
  tv_at :: instant
  tv_ledger :: int

definition trade_view_of :: "js_text_lib \<Rightarrow> chain_event \<Rightarrow> trade_view option" where
  "trade_view_of lib e =
    (let event = raw_of e
     in case (js_field ''actor'' event, js_field ''creatorId'' event, js_field ''amount'' event, js_field ''price'' event,
          js_field ''feePaid'' event, js_field ''tradeAt'' event, ce_ledger e) of
       (Jstr actor, Jstr creator, Jnum (Fin q), Jstr price, Jstr fee, Jstr at', Some ledger) \<Rightarrow>
         (case (read_int price, parse_date lib at') of
           (Some p, Some t) \<Rightarrow>
             if is_trade (ce_eventType e) \<and> actor \<noteq> [] \<and> creator \<noteq> [] \<and> price \<noteq> [] \<and> fee \<noteq> [] \<and> at' \<noteq> [] \<and>
               0 < q \<and> is_integer_num (Fin q) \<and> 0 \<le> p
             then Some \<lparr>tv_kind = ce_eventType e, tv_actor = actor, tv_creator = creator, tv_qty = \<lfloor>q\<rfloor>, tv_price = p,
               tv_at = t, tv_ledger = ledger\<rparr>
             else None
         | _ \<Rightarrow> None)
     | _ \<Rightarrow> None)"

definition stroops_to_xlm :: "int \<Rightarrow> rat" where
  "stroops_to_xlm p = fl (fl (of_int p) / 10000000)"

lemma raw_ledger: "ce_ledger e = Some l \<Longrightarrow> js_field ''ledger'' (raw_of e) = Jnum (Fin (of_int l))"
  by (simp add: raw_of_def js_field_def)

lemma fl_div_nonneg: "0 \<le> x \<Longrightarrow> 0 \<le> fl (fl x / 10000000)"
  by (simp add: fl_nonneg)

lemma view_parts:
  assumes "trade_view_of lib e = Some v"
  obtains price fee at' where
    "js_field ''actor'' (raw_of e) = Jstr (tv_actor v)" "js_field ''creatorId'' (raw_of e) = Jstr (tv_creator v)"
    "js_field ''amount'' (raw_of e) = Jnum (Fin (of_int (tv_qty v)))" "js_field ''price'' (raw_of e) = Jstr price"
    "js_field ''feePaid'' (raw_of e) = Jstr fee" "js_field ''tradeAt'' (raw_of e) = Jstr at'"
    "ce_ledger e = Some (tv_ledger v)" "read_int price = Some (tv_price v)" "parse_date lib at' = Some (tv_at v)"
    "is_trade (tv_kind v)" "ce_eventType e = tv_kind v" "tv_actor v \<noteq> []" "tv_creator v \<noteq> []" "price \<noteq> []" "fee \<noteq> []"
    "at' \<noteq> []" "0 < tv_qty v" "0 \<le> tv_price v"
proof -
  obtain actor creator q price fee at' ledger p t where f:
    "js_field ''actor'' (raw_of e) = Jstr actor" "js_field ''creatorId'' (raw_of e) = Jstr creator"
    "js_field ''amount'' (raw_of e) = Jnum (Fin q)" "js_field ''price'' (raw_of e) = Jstr price"
    "js_field ''feePaid'' (raw_of e) = Jstr fee" "js_field ''tradeAt'' (raw_of e) = Jstr at'"
    "ce_ledger e = Some ledger" "read_int price = Some p" "parse_date lib at' = Some t"
    and ok: "is_trade (ce_eventType e)" "actor \<noteq> []" "creator \<noteq> []" "price \<noteq> []" "fee \<noteq> []" "at' \<noteq> []"
      "0 < q" "is_integer_num (Fin q)" "0 \<le> p"
    and v: "v = \<lparr>tv_kind = ce_eventType e, tv_actor = actor, tv_creator = creator, tv_qty = \<lfloor>q\<rfloor>, tv_price = p,
               tv_at = t, tv_ledger = ledger\<rparr>"
    using assms by (auto simp: trade_view_of_def Let_def split: js_value.splits js_num.splits option.splits if_splits)
  have q: "q = of_int \<lfloor>q\<rfloor>" using ok(8) by (metis is_integer_num.simps(1))
  then have "0 < \<lfloor>q\<rfloor>" using ok(7) by (metis of_int_0_less_iff)
  with f ok q show thesis by (intro that [of price fee at']) (simp_all add: v)
qed

text \<open>The activity a well-formed event leaves, and the rest of its effect.\<close>

definition view_activity :: "js_text_lib \<Rightarrow> chain_event \<Rightarrow> trade_view \<Rightarrow> activity" where
  "view_activity lib e v = trade_activity lib (tv_kind v) (tv_actor v) (tv_creator v) (tv_at v) (raw_of e)"

lemma index_trade_view:
  assumes v: "trade_view_of lib e = Some v" and lib: "te_lib env = lib"
  shows "\<exists>refs. index_trade env now e db =
    record_supply_and_price env now (tv_kind v) (tv_creator v) (js_field ''price'' (raw_of e)) (tv_at v)
      (db\<lparr>db_referrals := refs, db_activities := insert_row (view_activity lib e v) (db_activities db),
        db_own := change_position (tv_kind v) (tv_actor v) (tv_creator v) (of_int (tv_qty v))
          (stroops_to_xlm (tv_price v)) (tv_at v) (db_own db)\<rparr>)"
proof -
  obtain price fee at' where f:
    "js_field ''actor'' (raw_of e) = Jstr (tv_actor v)" "js_field ''creatorId'' (raw_of e) = Jstr (tv_creator v)"
    "js_field ''amount'' (raw_of e) = Jnum (Fin (of_int (tv_qty v)))" "js_field ''price'' (raw_of e) = Jstr price"
    "js_field ''feePaid'' (raw_of e) = Jstr fee" "js_field ''tradeAt'' (raw_of e) = Jstr at'"
    "ce_ledger e = Some (tv_ledger v)" "read_int price = Some (tv_price v)" "parse_date lib at' = Some (tv_at v)"
    "is_trade (tv_kind v)" "ce_eventType e = tv_kind v" "tv_actor v \<noteq> []" "tv_creator v \<noteq> []" "price \<noteq> []" "fee \<noteq> []"
    "at' \<noteq> []" "0 < tv_qty v" "0 \<le> tv_price v"
    using view_parts [OF v] by metis
  have present: "\<not> (\<exists>f \<in> set required_fields. field_missing (raw_of e) f)"
    using f raw_ledger [OF f(7)] by (auto simp: required_fields_def field_missing_def)
  have price: "price_per_key lib (Jstr price) = stroops_to_xlm (tv_price v)"
    using fl_div_nonneg [of "of_int (tv_price v)"] f(8,18) by (simp add: price_per_key_def stroops_to_xlm_def not_less)
  have "js_times (Fin (stroops_to_xlm (tv_price v))) (Fin (of_int (tv_qty v))) =
      Fin (fl (stroops_to_xlm (tv_price v) * of_int (tv_qty v)))" by simp
  obtain b refs where refs: "recordFirstTradeReferralReward (te_rewardBps env) (tv_actor v) (tv_creator v)
      (Fin (fl (stroops_to_xlm (tv_price v) * of_int (tv_qty v)))) (Some (ce_txHash e)) (Some (ce_eventIndex e)) (tv_at v)
      (db_referrals db) = Inr (b, refs)"
    using reward_of_finite by metis
  show ?thesis
    using present by (intro exI [of _ refs]) (simp add: index_trade_def Let_def lib f price refs view_activity_def)
qed

lemma view_dispatch:
  assumes "trade_view_of lib e = Some v"
  shows "trade_handler env now e db = index_trade env now e db"
proof -
  have "is_trade (ce_eventType e)" using view_parts [OF assms] by metis
  then show ?thesis
    by (auto simp: trade_handler_def is_trade_def VOLUME_DISCOUNT_EVENT_TYPES_def SWAP_EVENT_TYPES_def)
qed

end
