(* ===== verification/Trade_Replay.thy ===== *)
theory Trade_Replay
  imports Trades
begin

text \<open>
  What the tables of \<open>Trades\<close> say after a run of the indexer: every number in them is determined by the
  sequence of trades processed. A position is the replay of the trades of its wallet and key, the
  circulating supply of a key is what was bought less what was sold, and that is what the wallets hold.

  Amounts are whole numbers of keys and stay below \<open>2^53\<close> in total, where doubles are exact.
\<close>

section \<open>The books\<close>

definition hold_step :: "trade_view \<Rightarrow> holding_state \<Rightarrow> holding_state" where
  "hold_step v h =
    (if tv_kind v = ''KEY_BOUGHT'' then bought (of_int (tv_qty v)) (stroops_to_xlm (tv_price v)) (tv_at v) h
     else sold (of_int (tv_qty v)) (stroops_to_xlm (tv_price v)) h)"

definition pair_of :: "trade_view \<Rightarrow> string \<times> string" where
  "pair_of v = (tv_actor v, tv_creator v)"

definition held :: "string \<times> string \<Rightarrow> trade_view list \<Rightarrow> holding_state" where
  "held k vs = foldl (\<lambda>h v. hold_step v h) flat (filter (\<lambda>v. pair_of v = k) vs)"

definition signed_qty :: "trade_view \<Rightarrow> int" where
  "signed_qty v = (if tv_kind v = ''KEY_BOUGHT'' then tv_qty v else - tv_qty v)"

definition net :: "(trade_view \<Rightarrow> bool) \<Rightarrow> trade_view list \<Rightarrow> int" where
  "net P vs = sum_list (map signed_qty (filter P vs))"

definition volume :: "trade_view list \<Rightarrow> int" where
  "volume vs = sum_list (map tv_qty vs)"

abbreviation of_creator :: "string \<Rightarrow> trade_view \<Rightarrow> bool" where
  "of_creator c v \<equiv> tv_creator v = c"

text \<open>Trades as the contract emits them.\<close>

definition proper_view :: "trade_view \<Rightarrow> bool" where
  "proper_view v \<longleftrightarrow> is_trade (tv_kind v) \<and> 0 < tv_qty v \<and> 0 \<le> tv_price v"

lemma proper_view_of: "trade_view_of lib e = Some v \<Longrightarrow> proper_view v"
  using view_parts [of lib e v] unfolding proper_view_def by metis

lemma volume_simps [simp]:
  "volume [] = 0" "volume (v # vs) = tv_qty v + volume vs" "volume (vs @ ws) = volume vs + volume ws"
  by (simp_all add: volume_def)

lemma net_simps [simp]:
  "net P [] = 0" "net P (v # vs) = (if P v then signed_qty v else 0) + net P vs" "net P (vs @ ws) = net P vs + net P ws"
  by (simp_all add: net_def)

lemma held_simps [simp]:
  "held k [] = flat" "held k (vs @ [v]) = (if pair_of v = k then hold_step v (held k vs) else held k vs)"
  by (simp_all add: held_def)

lemma volume_nonneg: "list_all proper_view vs \<Longrightarrow> 0 \<le> volume vs"
  by (induction vs) (auto simp: proper_view_def)

lemma net_le_volume: "list_all proper_view vs \<Longrightarrow> \<bar>net P vs\<bar> \<le> volume vs"
  by (induction vs) (auto simp: proper_view_def signed_qty_def)

lemma fl_whole_eq: "\<bar>i\<bar> < 2 ^ 53 \<Longrightarrow> x = of_int i \<Longrightarrow> fl x = x"
  by (simp add: fl_whole)

text \<open>A balance is an exact whole number.\<close>

lemma hold_step_balance:
  assumes "ho_balance h = of_int b" "\<bar>b\<bar> < 2 ^ 53" "\<bar>b + signed_qty v\<bar> < 2 ^ 53"
  shows "ho_balance (hold_step v h) = of_int (b + signed_qty v)"
proof -
  have "fl (of_int b) = of_int b" "fl (of_int (b + signed_qty v)) = of_int (b + signed_qty v)"
    using assms by (simp_all only: fl_whole)
  with assms(1) show ?thesis
    by (auto simp: hold_step_def bought_def sold_def signed_qty_def simp flip: of_int_diff split: if_splits)
qed

lemma held_balance:
  assumes "list_all proper_view vs" "volume vs < 2 ^ 53"
  shows "ho_balance (held k vs) = of_int (net (\<lambda>v. pair_of v = k) vs)"
  using assms
proof (induction vs rule: rev_induct)
  case (snoc v vs)
  have v: "proper_view v" "list_all proper_view vs" using snoc.prems by simp_all
  then have "0 < tv_qty v" by (simp add: proper_view_def)
  with snoc.prems have vol: "volume vs < 2 ^ 53" by simp
  let ?b = "net (\<lambda>v. pair_of v = k) vs"
  have "\<bar>?b\<bar> < 2 ^ 53" using net_le_volume [OF v(2), of "\<lambda>v. pair_of v = k"] vol by linarith
  moreover have "\<bar>?b + signed_qty v\<bar> < 2 ^ 53" if "pair_of v = k"
    using net_le_volume [of "vs @ [v]" "\<lambda>v. pair_of v = k"] snoc.prems that by simp
  ultimately show ?case
    using hold_step_balance [OF snoc.IH [OF v(2) vol], of v] snoc.IH [OF v(2) vol] by simp
qed (simp add: flat_def)

text \<open>What a wallet's pairs sum to, over any finite set of pairs that covers the trades.\<close>

lemma net_by_pairs:
  assumes "finite K" "pair_of ` set (filter (of_creator c) vs) \<subseteq> K" "\<forall>k \<in> K. snd k = c"
  shows "(\<Sum>k \<in> K. net (\<lambda>v. pair_of v = k) vs) = net (of_creator c) vs"
  using assms(2)
proof (induction vs)
  case (Cons v vs)
  have one: "(\<Sum>k \<in> K. if pair_of v = k then signed_qty v else 0) = (if tv_creator v = c then signed_qty v else 0)"
    using Cons.prems assms(1,3) by (auto simp: sum.delta' pair_of_def)
  have "(\<Sum>k \<in> K. net (\<lambda>v. pair_of v = k) (v # vs)) =
      (\<Sum>k \<in> K. (if pair_of v = k then signed_qty v else 0) + net (\<lambda>v. pair_of v = k) vs)" by simp
  also have "\<dots> = (\<Sum>k \<in> K. if pair_of v = k then signed_qty v else 0) + (\<Sum>k \<in> K. net (\<lambda>v. pair_of v = k) vs)"
    by (rule sum.distrib)
  also have "\<dots> = net (of_creator c) (v # vs)"
    using Cons one by (auto split: if_splits)
  finally show ?case .
qed simp

section \<open>The activities of the trades\<close>

definition records :: "activity \<Rightarrow> trade_view \<Rightarrow> bool" where
  "records a v \<longleftrightarrow> ac_type a = tv_kind v \<and> ac_actor a = tv_actor v \<and> ac_creatorId a = Some (tv_creator v) \<and>
    ac_createdAt a = tv_at v \<and> js_field ''amount'' (ac_payload a) = Jnum (Fin (of_int (tv_qty v))) \<and>
    (\<exists>s. js_field ''price_at_trade'' (ac_payload a) = Jstr s \<and> read_int s = Some (tv_price v)) \<and>
    js_field ''ledger_sequence'' (ac_payload a) = Jnum (Fin (of_int (tv_ledger v)))"

lemma view_recorded: "trade_view_of lib e = Some v \<Longrightarrow> records (view_activity lib e v) v"
  by (erule view_parts) (simp add: records_def view_activity_def trade_activity_def js_field_def raw_ledger
      [unfolded js_field_def] json_number_def)

lemma list_all2_filter:
  assumes "list_all2 R xs ys" "\<And>x y. R x y \<Longrightarrow> P x \<longleftrightarrow> Q y"
  shows "list_all2 R (filter P xs) (filter Q ys)"
  using assms by (induction rule: list_all2_induct) auto

abbreviation trade_log :: "trade_db \<Rightarrow> activity list" where
  "trade_log db \<equiv> filter (\<lambda>a. is_trade (ac_type a)) (db_activities db)"

lemma trades_of_log: "trades_of c acts = filter (\<lambda>a. ac_creatorId a = Some c) (filter (\<lambda>a. is_trade (ac_type a)) acts)"
  by (auto simp: trades_of_def intro: filter_cong)

lemma trades_of_recorded:
  "list_all2 records (trade_log db) vs \<Longrightarrow> list_all2 records (trades_of c (db_activities db)) (filter (of_creator c) vs)"
  unfolding trades_of_log by (rule list_all2_filter) (auto simp: records_def)

lemma recorded_amount: "records a v \<Longrightarrow> payload_amount lib a = of_int (tv_qty v)"
  by (simp add: records_def payload_amount_def)

text \<open>The supply the code recomputes from the activities.\<close>

lemma supply_of_recorded:
  assumes "list_all2 records acts vs" "list_all proper_view vs" "volume vs < 2 ^ 53"
  shows "supply_of lib acts = of_int (net (\<lambda>_. True) vs)"
  using assms
proof (induction vs arbitrary: acts rule: rev_induct)
  case (snoc v vs)
  obtain as a where acts: "acts = as @ [a]" "list_all2 records as vs" "records a v"
    using snoc.prems(1) by (auto simp: list_all2_append2 list_all2_Cons2)
  have v: "proper_view v" "list_all proper_view vs" using snoc.prems by simp_all
  then have vol: "volume vs < 2 ^ 53" using snoc.prems by (simp add: proper_view_def)
  have "\<bar>net (\<lambda>_. True) (vs @ [v])\<bar> < 2 ^ 53"
    using net_le_volume [OF snoc.prems(2), of "\<lambda>_. True"] snoc.prems(3) by linarith
  then have "fl (of_int (net (\<lambda>_. True) vs + signed_qty v)) = of_int (net (\<lambda>_. True) vs + signed_qty v)"
    by (intro fl_whole) simp
  moreover have "supply_of lib as = of_int (net (\<lambda>_. True) vs)" by (rule snoc.IH [OF acts(2) v(2) vol])
  moreover have "ac_type a = tv_kind v" using acts(3) by (simp add: records_def)
  ultimately show ?case
    by (auto simp: acts(1) supply_of_def recorded_amount [OF acts(3)] signed_qty_def)
qed (simp add: supply_of_def)

section \<open>The invariant\<close>

text \<open>The tables after the trades \<open>vs\<close>.\<close>

definition profile_ok :: "(int \<times> rat) list \<Rightarrow> trade_view list \<Rightarrow> profile \<Rightarrow> bool" where
  "profile_ok ms vs p \<longleftrightarrow> pf_supply p = of_int (net (of_creator (pf_id p)) vs) \<and>
    pf_milestone p = getTierForSupply (pf_supply p) ms"

definition own_ok :: "trade_view list \<Rightarrow> own_db \<Rightarrow> bool" where
  "own_ok vs own \<longleftrightarrow> (\<forall>k. holding_of k own = held k vs) \<and> distinct (map position_key (positions own)) \<and>
    pair_of ` set vs \<subseteq> position_key ` set (positions own)"

definition books_ok :: "(int \<times> rat) list \<Rightarrow> trade_view list \<Rightarrow> trade_db \<Rightarrow> bool" where
  "books_ok ms vs db \<longleftrightarrow> list_all2 records (trade_log db) vs \<and> own_ok vs (db_own db) \<and>
    distinct (map pf_id (db_profiles db)) \<and> list_all (profile_ok ms vs) (db_profiles db)"

text \<open>A trade adds its pair to the positions when it is new.\<close>

abbreviation keys_of :: "own_db \<Rightarrow> (string \<times> string) list" where
  "keys_of own \<equiv> map position_key (positions own)"

abbreviation with_key :: "string \<times> string \<Rightarrow> (string \<times> string) list \<Rightarrow> (string \<times> string) list" where
  "with_key k ks \<equiv> (if k \<in> set ks then ks else ks @ [k])"

lemma upsert_position_keys:
  assumes "position_key r = k" "\<And>p. position_key (f p) = position_key p"
  shows "map position_key (upsert_by position_key k f r ps) = with_key k (map position_key ps)"
  by (rule keys_upsert) (simp_all add: assms)

lemma update_keys: "keys_of (updateOwnership owner creator q t own) = with_key (owner, creator) (keys_of own)"
  by (simp add: updateOwnership_def Let_def upsert_position_keys position_key_def del: set_map)

lemma purchase_keys: "keys_of (recordKeyPurchase owner creator q p t own) = with_key (owner, creator) (keys_of own)"
  by (simp add: recordKeyPurchase_def Let_def upsert_position_keys position_key_def del: set_map)

lemma sale_keys: "keys_of (record_sale_or_decrement owner creator q p t own) = with_key (owner, creator) (keys_of own)"
proof (cases "recordKeySale owner creator q p t own")
  case (Inl err)
  then show ?thesis by (simp add: record_sale_or_decrement_def update_keys)
next
  case (Inr own')
  then obtain r where r: "find_by position_key (owner, creator) (positions own) = Some r"
    by (auto simp: recordKeySale_def split: option.splits)
  then have mem: "(owner, creator) \<in> set (keys_of own)"
    using find_by_None_iff [of position_key "(owner, creator)" "positions own"] by auto
  have "map position_key (modify_by position_key (owner, creator) (\<lambda>p. p\<lparr>po_balance := b, po_costBasis := c,
      po_realisedPnl := d\<rparr>) ps) = map position_key ps" for b c d ps
    by (rule keys_modify_by) (simp add: position_key_def)
  with Inr r mem show ?thesis
    by (auto simp: record_sale_or_decrement_def recordKeySale_def Let_def split: if_splits)
qed

lemma change_position_keys:
  "keys_of (change_position kind actor creator q p t own) = with_key (actor, creator) (keys_of own)"
  by (simp add: change_position_def purchase_keys sale_keys del: set_map)

lemma change_position_holding:
  assumes "proper_view v" "tv_qty v < 2 ^ 53"
  shows "holding_of k (change_position (tv_kind v) (tv_actor v) (tv_creator v) (of_int (tv_qty v))
      (stroops_to_xlm (tv_price v)) (tv_at v) own) =
    (if pair_of v = k then hold_step v (holding_of k own) else holding_of k own)"
proof -
  have "fl (of_int (tv_qty v)) = of_int (tv_qty v)" "0 < tv_qty v"
    using assms by (auto simp: proper_view_def intro!: fl_whole)
  then show ?thesis
    by (auto simp: change_position_def purchase_holding sale_holding hold_step_def pair_of_def)
qed

lemma own_ok_step:
  assumes "own_ok vs own" "proper_view v" "tv_qty v < 2 ^ 53"
  shows "own_ok (vs @ [v]) (change_position (tv_kind v) (tv_actor v) (tv_creator v) (of_int (tv_qty v))
      (stroops_to_xlm (tv_price v)) (tv_at v) own)"
proof -
  let ?own = "change_position (tv_kind v) (tv_actor v) (tv_creator v) (of_int (tv_qty v))
      (stroops_to_xlm (tv_price v)) (tv_at v) own"
  have keys: "keys_of ?own = with_key (pair_of v) (keys_of own)"
    by (simp add: change_position_keys pair_of_def)
  then have "set (keys_of ?own) = insert (pair_of v) (set (keys_of own))"
    by (metis insert_absorb list.simps(15) rotate1.simps(2) set_rotate1)
  moreover have "distinct (keys_of ?own)" unfolding keys using assms(1) by (simp add: own_ok_def)
  ultimately show ?thesis
    using assms(1) by (auto simp: own_ok_def change_position_holding [OF assms(2,3)])
qed

section \<open>Steps\<close>

lemma volume_filter: "list_all proper_view vs \<Longrightarrow> volume (filter P vs) \<le> volume vs"
  by (induction vs) (auto simp: proper_view_def)

lemma net_filter: "net (\<lambda>_. True) (filter P vs) = net P vs"
  by (induction vs) auto

lemma supply_of_creator:
  assumes "list_all2 records (trade_log db) vs" "list_all proper_view vs" "volume vs < 2 ^ 53"
  shows "supply_of lib (trades_of c (db_activities db)) = of_int (net (of_creator c) vs)"
proof -
  have "list_all proper_view (filter (of_creator c) vs)" using assms(2) by (simp add: list_all_iff)
  moreover have "volume (filter (of_creator c) vs) < 2 ^ 53" using volume_filter [OF assms(2)] assms(3) by (rule order_le_less_trans)
  ultimately show ?thesis
    using supply_of_recorded [OF trades_of_recorded [OF assms(1)]] by (simp add: net_filter)
qed

definition settled :: "(int \<times> rat) list \<Rightarrow> trade_view list \<Rightarrow> profile \<Rightarrow> profile" where
  "settled ms vs p = (let s = of_int (net (of_creator (pf_id p)) vs)
    in p\<lparr>pf_supply := s, pf_milestone := getTierForSupply s ms\<rparr>)"

lemma settled_id [simp]: "pf_id (settled ms vs p) = pf_id p"
  by (simp add: settled_def Let_def)

lemma settled_ok: "profile_ok ms vs p \<longleftrightarrow> settled ms vs p = p"
  by (cases p) (auto simp: profile_ok_def settled_def Let_def)

lemma snapshot_upsert_keeps:
  "db_activities (upsertPriceSnapshot now c p t s d db) = db_activities db"
  "db_own (upsertPriceSnapshot now c p t s d db) = db_own db"
  "db_profiles (upsertPriceSnapshot now c p t s d db) = db_profiles db"
  by (simp_all add: upsertPriceSnapshot_def Let_def split: option.split)

lemma modify_by_cong:
  "(\<And>r. r \<in> set rows \<Longrightarrow> key r = k \<Longrightarrow> f r = g r) \<Longrightarrow> modify_by key k f rows = modify_by key k g rows"
  by (induction rows) (auto simp: modify_by_def)

lemma supply_step:
  assumes vs: "list_all2 records (trade_log db) vs" "list_all proper_view vs" "volume vs < 2 ^ 53"
    and price: "read_int price = Some p"
  shows "record_supply_and_price env now kind c (Jstr price) t db =
    (if c \<in> pf_id ` set (db_profiles db) then (Inr (), snd (record_supply_and_price env now kind c (Jstr price) t db))
     else (Inl CreatorMissing, db))" (is ?result)
  and "trade_log (snd (record_supply_and_price env now kind c (Jstr price) t db)) = trade_log db" (is ?log)
  and "db_own (snd (record_supply_and_price env now kind c (Jstr price) t db)) = db_own db" (is ?own)
  and "c \<in> pf_id ` set (db_profiles db) \<Longrightarrow>
    db_profiles (snd (record_supply_and_price env now kind c (Jstr price) t db)) =
      modify_by pf_id c (settled (te_milestones env) vs) (db_profiles db)"
proof -
  have s: "supply_of (te_lib env) (trades_of c (db_activities db)) = of_int (net (of_creator c) vs)"
    using vs by (rule supply_of_creator)
  have cong: "modify_by pf_id c (\<lambda>p. p\<lparr>pf_supply := of_int (net (of_creator c) vs),
        pf_milestone := getTierForSupply (of_int (net (of_creator c) vs)) (te_milestones env)\<rparr>) (db_profiles db) =
      modify_by pf_id c (settled (te_milestones env) vs) (db_profiles db)"
    by (rule modify_by_cong) (simp add: settled_def Let_def)
  have none: "find_by pf_id c (db_profiles db) = None \<longleftrightarrow> c \<notin> pf_id ` set (db_profiles db)"
    by (simp add: find_by_None_iff)
  have not_trade: "\<not> is_trade ''MILESTONE_CROSSED''" by (simp add: is_trade_def)
  note unfolded = record_supply_and_price_def persistCirculatingSupply_def s Let_def price snapshot_upsert_keeps
  show ?result using none by (auto simp: unfolded split: option.split)
  show ?log by (auto simp: unfolded not_trade insert_row_def split: option.split)
  show ?own by (auto simp: unfolded split: option.split)
  show "db_profiles (snd (record_supply_and_price env now kind c (Jstr price) t db)) =
      modify_by pf_id c (settled (te_milestones env) vs) (db_profiles db)" if c: "c \<in> pf_id ` set (db_profiles db)"
  proof -
    obtain y where "find_by pf_id c (db_profiles db) = Some y" using c none by auto
    then show ?thesis by (simp add: unfolded if_distrib [of db_profiles] flip: cong)
  qed
qed

lemma settled_step:
  assumes "list_all (profile_ok ms vs) ps"
  shows "list_all (profile_ok ms (vs @ [v])) (modify_by pf_id (tv_creator v) (settled ms (vs @ [v])) ps)"
  using assms
  by (induction ps) (auto simp: modify_by_def settled_ok, auto simp: settled_def Let_def)

lemma ids_modify_settled: "map pf_id (modify_by pf_id c (settled ms vs) ps) = map pf_id ps"
  by (rule keys_modify_by) simp

text \<open>One trade of a registered creator.\<close>

lemma trade_step:
  assumes books: "books_ok (te_milestones env) vs db" and proper: "list_all proper_view vs"
    and v: "trade_view_of (te_lib env) e = Some v" and vol: "volume (vs @ [v]) < 2 ^ 53"
  shows "trade_handler env now e db =
      (if tv_creator v \<in> pf_id ` set (db_profiles db) then (Inr (), snd (trade_handler env now e db))
       else (Inl CreatorMissing, snd (trade_handler env now e db)))" (is ?result)
    and "tv_creator v \<in> pf_id ` set (db_profiles db) \<Longrightarrow> books_ok (te_milestones env) (vs @ [v]) (snd (trade_handler env now e db))"
    and "map pf_id (db_profiles (snd (trade_handler env now e db))) = map pf_id (db_profiles db)" (is ?ids)
proof -
  let ?ms = "te_milestones env"
  have pv: "proper_view v" "0 < tv_qty v" using proper_view_of [OF v] by (simp_all add: proper_view_def)
  have vol': "tv_qty v < 2 ^ 53" using vol volume_nonneg [OF proper] by simp
  obtain price where price: "js_field ''price'' (raw_of e) = Jstr price" "read_int price = Some (tv_price v)"
    using v by (rule view_parts) metis
  obtain refs where idx: "index_trade env now e db = record_supply_and_price env now (tv_kind v) (tv_creator v) (Jstr price) (tv_at v)
      (db\<lparr>db_referrals := refs, db_activities := insert_row (view_activity (te_lib env) e v) (db_activities db),
        db_own := change_position (tv_kind v) (tv_actor v) (tv_creator v) (of_int (tv_qty v))
          (stroops_to_xlm (tv_price v)) (tv_at v) (db_own db)\<rparr>)"
    using index_trade_view [OF v refl, of now db] price(1) by auto
  define db1 where "db1 = db\<lparr>db_referrals := refs,
      db_activities := insert_row (view_activity (te_lib env) e v) (db_activities db),
      db_own := change_position (tv_kind v) (tv_actor v) (tv_creator v) (of_int (tv_qty v))
        (stroops_to_xlm (tv_price v)) (tv_at v) (db_own db)\<rparr>"
  let ?rec = "record_supply_and_price env now (tv_kind v) (tv_creator v) (Jstr price) (tv_at v)"
  have step: "trade_handler env now e db = ?rec db1"
    using idx by (simp add: view_dispatch [OF v] db1_def)
  have db1: "db_profiles db1 = db_profiles db" "db_own db1 = change_position (tv_kind v) (tv_actor v) (tv_creator v)
      (of_int (tv_qty v)) (stroops_to_xlm (tv_price v)) (tv_at v) (db_own db)"
    by (simp_all add: db1_def)
  have log: "list_all2 records (trade_log db1) (vs @ [v])"
    using books view_recorded [OF v] pv(1)
    by (auto simp: db1_def books_ok_def insert_row_def view_activity_def trade_activity_def proper_view_def
        intro!: list_all2_appendI)
  have proper': "list_all proper_view (vs @ [v])" using proper pv by simp
  note s = supply_step [OF log proper' vol price(2), where env = env and now = now and kind = "tv_kind v" and
    c = "tv_creator v" and t = "tv_at v"]
  show ?result using s(1) unfolding step db1 by (auto split: if_splits)
  show ?ids using s(1,4) unfolding step db1 by (cases "tv_creator v \<in> pf_id ` set (db_profiles db)") (auto simp: ids_modify_settled db1)
  assume reg: "tv_creator v \<in> pf_id ` set (db_profiles db)"
  have "db_profiles (snd (?rec db1)) = modify_by pf_id (tv_creator v) (settled ?ms (vs @ [v])) (db_profiles db)"
    using s(4) reg by (simp add: db1)
  moreover have "own_ok (vs @ [v]) (db_own (snd (?rec db1)))"
    using books s(3) own_ok_step [of vs "db_own db" v, OF _ pv(1) vol'] by (simp add: books_ok_def db1)
  ultimately show "books_ok ?ms (vs @ [v]) (snd (trade_handler env now e db))"
    using books log s(2) settled_step [of ?ms vs "db_profiles db" v] ids_modify_settled
    unfolding step books_ok_def by (simp add: ids_modify_settled)
qed

section \<open>Batches\<close>

text \<open>The trades of a batch, in order, each event once.\<close>

definition views_of :: "js_text_lib \<Rightarrow> chain_event list \<Rightarrow> trade_view list" where
  "views_of lib es = List.map_filter (trade_view_of lib) es"

definition readable :: "js_text_lib \<Rightarrow> chain_event \<Rightarrow> bool" where
  "readable lib e \<longleftrightarrow> \<not> is_trade (ce_eventType e) \<or> trade_view_of lib e \<noteq> None"

lemma views_of_simps [simp]:
  "views_of lib [] = []"
  "views_of lib (e # es) = (case trade_view_of lib e of None \<Rightarrow> views_of lib es | Some v \<Rightarrow> v # views_of lib es)"
  "views_of lib (es @ fs) = views_of lib es @ views_of lib fs"
  by (auto simp: views_of_def List.map_filter_def split: option.split)

lemma views_proper: "list_all proper_view (views_of lib es)"
  by (induction es) (auto simp: proper_view_of split: option.split)

definition same_books :: "trade_db \<Rightarrow> trade_db \<Rightarrow> bool" where
  "same_books a b \<longleftrightarrow> db_own a = db_own b \<and> db_activities a = db_activities b \<and> db_profiles a = db_profiles b \<and>
    db_snapshots a = db_snapshots b \<and> db_history a = db_history b"

lemma books_ok_same: "same_books a b \<Longrightarrow> books_ok ms vs a = books_ok ms vs b"
  by (simp add: same_books_def books_ok_def)

text \<open>Events of other kinds change other tables.\<close>

lemma other_events_keep_books: "\<not> is_trade (ce_eventType e) \<Longrightarrow> same_books (snd (trade_handler env now e db)) db"
  by (auto simp: trade_handler_def same_books_def split: sum.split prod.split)

lemma view_is_trade: "\<not> is_trade (ce_eventType e) \<Longrightarrow> trade_view_of lib e = None"
  by (simp add: trade_view_of_def Let_def split: js_value.splits js_num.splits option.splits)

lemma run_trades_ok:
  assumes "run_events (trade_handler env now) es db = (Inr (), db')" "list_all (readable (te_lib env)) es"
    "books_ok (te_milestones env) vs db" "list_all proper_view vs" "volume (vs @ views_of (te_lib env) es) < 2 ^ 53"
  shows "books_ok (te_milestones env) (vs @ views_of (te_lib env) es) db'"
  using assms
proof (induction es arbitrary: vs db)
  case (Cons e es)
  obtain u db1 where step: "trade_handler env now e db = (Inr u, db1)" and rest: "run_events (trade_handler env now) es db1 = (Inr (), db')"
    using Cons.prems(1) by (auto split: sum.splits prod.splits)
  show ?case
  proof (cases "trade_view_of (te_lib env) e")
    case None
    then have "\<not> is_trade (ce_eventType e)" using Cons.prems(2) by (auto simp: readable_def)
    then have "books_ok (te_milestones env) vs db1"
      using other_events_keep_books [of e env now db] books_ok_same Cons.prems(3) by (metis snd_conv step)
    then show ?thesis using Cons.IH [OF rest, of vs] Cons.prems None by simp
  next
    case (Some v)
    have p: "proper_view v" by (rule proper_view_of [OF Some])
    have "0 \<le> volume (views_of (te_lib env) es)" by (rule volume_nonneg [OF views_proper])
    then have vol: "volume (vs @ [v]) < 2 ^ 53" using Cons.prems(5) Some by simp
    have reg: "tv_creator v \<in> pf_id ` set (db_profiles db)"
      using trade_step(1) [OF Cons.prems(3,4) Some vol, of now] step by (metis Inl_Inr_False fst_conv)
    have "books_ok (te_milestones env) (vs @ [v]) db1"
      using trade_step(2) [OF Cons.prems(3,4) Some vol reg, of now] step by simp
    then show ?thesis using Cons.IH [OF rest, of "vs @ [v]"] Cons.prems Some p by simp
  qed
qed simp

lemma dedupe_readable: "list_all P es \<Longrightarrow> list_all P (dedupeChainEvents es)"
proof -
  have "set (dedupe_from s es) \<subseteq> set es" for s
    by (induction es arbitrary: s) (auto simp: Let_def)
  then show "list_all P es \<Longrightarrow> list_all P (dedupeChainEvents es)" by (auto simp: list_all_iff dedupeChainEvents_def)
qed

lemma process_trades_ok:
  assumes "processTradeEvents env now writeOk adv es db = (Inr (), db')" "list_all (readable (te_lib env)) es"
    "books_ok (te_milestones env) vs db" "list_all proper_view vs"
    "volume (vs @ views_of (te_lib env) (dedupeChainEvents es)) < 2 ^ 53"
  shows "books_ok (te_milestones env) (vs @ views_of (te_lib env) (dedupeChainEvents es)) db'"
proof -
  obtain db1 where run: "run_events (trade_handler env now) (dedupeChainEvents es) db = (Inr (), db1)"
    and db': "same_books db' db1"
    using assms(1) by (auto simp: processTradeEvents_def processIndexerChainEvents_def advanceIndexerCursorForBatch_def
        same_books_def split: sum.splits prod.splits)
  show ?thesis
    using run_trades_ok [OF run dedupe_readable [OF assms(2)] assms(3-5)] books_ok_same [OF db'] by simp
qed

text \<open>Runs of the indexer over batches that were processed without an exception.\<close>

inductive trade_run :: "trade_env \<Rightarrow> trade_db \<Rightarrow> trade_view list \<Rightarrow> trade_db \<Rightarrow> bool" for env db0 where
  start: "trade_run env db0 [] db0"
| batch: "trade_run env db0 vs db \<Longrightarrow> processTradeEvents env now writeOk adv es db = (Inr (), db') \<Longrightarrow>
    list_all (readable (te_lib env)) es \<Longrightarrow>
    trade_run env db0 (vs @ views_of (te_lib env) (dedupeChainEvents es)) db'"

text \<open>Tables before the first trade: registered creators and no trades.\<close>

definition fresh_books :: "(int \<times> rat) list \<Rightarrow> trade_db \<Rightarrow> bool" where
  "fresh_books ms db \<longleftrightarrow> trade_log db = [] \<and> positions (db_own db) = [] \<and> distinct (map pf_id (db_profiles db)) \<and>
    list_all (\<lambda>p. pf_supply p = 0 \<and> pf_milestone p = getTierForSupply 0 ms) (db_profiles db)"

lemma fresh_books_ok: "fresh_books ms db \<Longrightarrow> books_ok ms [] db"
  by (auto simp: fresh_books_def books_ok_def own_ok_def holding_of_def profile_ok_def list_all_iff)

lemma run_proper: "trade_run env db0 vs db \<Longrightarrow> list_all proper_view vs"
  by (induction rule: trade_run.induct) (simp_all add: views_proper)

lemma run_books_ok:
  "trade_run env db0 vs db \<Longrightarrow> fresh_books (te_milestones env) db0 \<Longrightarrow> volume vs < 2 ^ 53 \<Longrightarrow>
    books_ok (te_milestones env) vs db"
proof (induction rule: trade_run.induct)
  case (batch vs db now writeOk adv es db')
  have "0 \<le> volume (views_of (te_lib env) (dedupeChainEvents es))" by (rule volume_nonneg [OF views_proper])
  then have "volume vs < 2 ^ 53" using batch.prems(2) by simp
  then show ?case
    using process_trades_ok [OF batch.hyps(2,3) _ run_proper [OF batch.hyps(1)] batch.prems(2)] batch.IH batch.prems(1)
    by simp
qed (rule fresh_books_ok)

text \<open>What the wallets hold of a key.\<close>

definition total_held :: "string \<Rightarrow> own_db \<Rightarrow> rat" where
  "total_held c own = sum_list (map po_balance (filter (\<lambda>p. po_creator p = c) (positions own)))"

lemma balances_sum_to_net:
  assumes own: "own_ok vs own" and vs: "list_all proper_view vs" "volume vs < 2 ^ 53"
  shows "total_held c own = of_int (net (of_creator c) vs)"
proof -
  let ?ps = "filter (\<lambda>p. po_creator p = c) (positions own)"
  have bal: "po_balance p = of_int (net (\<lambda>v. pair_of v = position_key p) vs)" if "p \<in> set (positions own)" for p
  proof -
    have "find_by position_key (position_key p) (positions own) = Some p"
      using own that by (intro find_by_distinct) (simp_all add: own_ok_def)
    then have "ho_balance (holding_of (position_key p) own) = po_balance p" by (simp add: holding_of_def)
    moreover have "holding_of (position_key p) own = held (position_key p) vs" using own unfolding own_ok_def by metis
    ultimately show ?thesis using held_balance [OF vs] by metis
  qed
  have d: "distinct (map position_key ?ps)" using own by (simp add: own_ok_def distinct_map_filter)
  let ?K = "set (map position_key ?ps)"
  have "total_held c own = sum_list (map (\<lambda>k. of_int (net (\<lambda>v. pair_of v = k) vs)) (map position_key ?ps))"
  proof -
    have "map po_balance ?ps = map (\<lambda>p. of_int (net (\<lambda>v. pair_of v = position_key p) vs)) ?ps"
      by (rule map_cong [OF refl]) (simp add: bal)
    then show ?thesis unfolding total_held_def map_map o_def by (rule arg_cong)
  qed
  also have "\<dots> = (\<Sum>k \<in> ?K. of_int (net (\<lambda>v. pair_of v = k) vs))"
    using d by (rule sum_list_distinct_conv_sum_set)
  also have "\<dots> = of_int (\<Sum>k \<in> ?K. net (\<lambda>v. pair_of v = k) vs)" by (rule of_int_sum [symmetric])
  also have "(\<Sum>k \<in> ?K. net (\<lambda>v. pair_of v = k) vs) = net (of_creator c) vs"
  proof (rule net_by_pairs)
    show "pair_of ` set (filter (of_creator c) vs) \<subseteq> ?K"
    proof
      fix k assume "k \<in> pair_of ` set (filter (of_creator c) vs)"
      then obtain v where v: "v \<in> set vs" "tv_creator v = c" "k = pair_of v" by auto
      then obtain p where p: "p \<in> set (positions own)" "position_key p = pair_of v"
        using own by (auto simp: own_ok_def)
      then have "po_creator p = c" using v by (simp add: position_key_def pair_of_def)
      with p v show "k \<in> ?K" by force
    qed
  qed (auto simp: position_key_def)
  finally show ?thesis .
qed

text \<open>Trades of registered creators never fail.\<close>

lemma run_trades_total:
  assumes "books_ok (te_milestones env) vs db" "list_all proper_view vs"
    "volume (vs @ views_of (te_lib env) es) < 2 ^ 53"
    "\<forall>e \<in> set es. \<exists>v. trade_view_of (te_lib env) e = Some v \<and> tv_creator v \<in> pf_id ` set (db_profiles db)"
  shows "\<exists>db'. run_events (trade_handler env now) es db = (Inr (), db') \<and> map pf_id (db_profiles db') = map pf_id (db_profiles db)"
  using assms
proof (induction es arbitrary: vs db)
  case (Cons e es)
  obtain v where v: "trade_view_of (te_lib env) e = Some v" "tv_creator v \<in> pf_id ` set (db_profiles db)"
    using Cons.prems(4) by auto
  have "0 \<le> volume (views_of (te_lib env) es)" by (rule volume_nonneg [OF views_proper])
  then have vol: "volume (vs @ [v]) < 2 ^ 53" using Cons.prems(3) v by simp
  note step = trade_step [OF Cons.prems(1,2) v(1) vol, of now]
  define db1 where "db1 = snd (trade_handler env now e db)"
  have h: "trade_handler env now e db = (Inr (), db1)" using step(1) v(2) by (simp add: db1_def)
  have ids: "map pf_id (db_profiles db1) = map pf_id (db_profiles db)" using step(3) by (simp add: db1_def)
  then have set: "pf_id ` set (db_profiles db1) = pf_id ` set (db_profiles db)" by (metis set_map)
  have b: "books_ok (te_milestones env) (vs @ [v]) db1" using step(2) v(2) by (simp add: db1_def)
  have p: "list_all proper_view (vs @ [v])" using Cons.prems(2) proper_view_of [OF v(1)] by simp
  have vol': "volume ((vs @ [v]) @ views_of (te_lib env) es) < 2 ^ 53" using Cons.prems(3) v by simp
  have reg: "\<forall>e \<in> set es. \<exists>v. trade_view_of (te_lib env) e = Some v \<and> tv_creator v \<in> pf_id ` set (db_profiles db1)"
    using Cons.prems(4) by (simp add: set)
  show ?case using Cons.IH [OF b p vol' reg] ids by (auto simp: h)
qed simp


section \<open>Redelivered events\<close>

lemma dedupe_subset: "set (dedupeChainEvents es) \<subseteq> set es"
  using dedupe_readable [of "\<lambda>e. e \<in> set es" es] by (auto simp: list_all_iff)

lemma process_batch:
  assumes "books_ok (te_milestones env) vs db" "list_all proper_view vs"
    "\<forall>e \<in> set es. \<exists>v. trade_view_of (te_lib env) e = Some v \<and> tv_creator v \<in> pf_id ` set (db_profiles db)"
    "volume (vs @ views_of (te_lib env) (dedupeChainEvents es)) < 2 ^ 53"
  shows "\<exists>db'. processTradeEvents env now writeOk adv es db = (Inr (), db') \<and>
    map pf_id (db_profiles db') = map pf_id (db_profiles db) \<and>
    books_ok (te_milestones env) (vs @ views_of (te_lib env) (dedupeChainEvents es)) db'"
proof -
  obtain db1 where "run_events (trade_handler env now) (dedupeChainEvents es) db = (Inr (), db1)"
      "map pf_id (db_profiles db1) = map pf_id (db_profiles db)"
    using run_trades_total [of env vs db "dedupeChainEvents es" now] assms dedupe_subset [of es] by blast
  then obtain db' where db': "processTradeEvents env now writeOk adv es db = (Inr (), db')"
      "map pf_id (db_profiles db') = map pf_id (db_profiles db)"
    by (simp add: processTradeEvents_def processIndexerChainEvents_def advanceIndexerCursorForBatch_def)
  have "list_all (readable (te_lib env)) es" using assms(3) by (auto simp: list_all_iff readable_def)
  with db' show ?thesis using process_trades_ok [OF db'(1) _ assms(1,2,4)] by blast
qed

lemma process_one:
  assumes "books_ok (te_milestones env) vs db" "list_all proper_view vs" "trade_view_of (te_lib env) e = Some v"
    "tv_creator v \<in> pf_id ` set (db_profiles db)" "volume (vs @ [v]) < 2 ^ 53"
  shows "\<exists>db'. processTradeEvents env now writeOk adv [e] db = (Inr (), db') \<and>
    map pf_id (db_profiles db') = map pf_id (db_profiles db) \<and> books_ok (te_milestones env) (vs @ [v]) db'"
  using process_batch [OF assms(1,2), of "[e]" now writeOk adv] assms(3-5) by (simp add: dedupeChainEvents_def)

text \<open>A trade that is delivered again in a later batch is counted again: position, circulating supply and
  activities all hold it twice.
\<close>

theorem redelivered_trade_counts_twice:
  assumes fresh: "fresh_books (te_milestones env) db0" and v: "trade_view_of (te_lib env) e = Some v"
    and p: "p \<in> set (db_profiles db0)" "pf_id p = tv_creator v" and vol: "2 * tv_qty v < 2 ^ 53"
  shows "\<exists>db1 db2. processTradeEvents env now writeOk adv [e] db0 = (Inr (), db1) \<and>
    processTradeEvents env now' writeOk' adv' [e] db1 = (Inr (), db2) \<and> length (trade_log db2) = 2 \<and>
    ho_balance (holding_of (pair_of v) (db_own db1)) = of_int (signed_qty v) \<and>
    ho_balance (holding_of (pair_of v) (db_own db2)) = of_int (2 * signed_qty v) \<and>
    (\<exists>q \<in> set (db_profiles db2). pf_id q = tv_creator v \<and> pf_supply q = of_int (2 * signed_qty v))"
proof -
  let ?ms = "te_milestones env"
  have proper: "list_all proper_view [v]" "list_all proper_view [v, v]" using proper_view_of [OF v] by simp_all
  then have q: "0 < tv_qty v" by (simp add: proper_view_def)
  have ids: "tv_creator v \<in> pf_id ` set (db_profiles db0)" using p by force
  obtain db1 where db1: "processTradeEvents env now writeOk adv [e] db0 = (Inr (), db1)"
      "map pf_id (db_profiles db1) = map pf_id (db_profiles db0)" "books_ok ?ms [v] db1"
    using process_one [OF fresh_books_ok [OF fresh] _ v ids, of now writeOk adv] vol q by auto
  then have ids1: "tv_creator v \<in> pf_id ` set (db_profiles db1)" using ids by (metis set_map)
  obtain db2 where db2: "processTradeEvents env now' writeOk' adv' [e] db1 = (Inr (), db2)"
      "map pf_id (db_profiles db2) = map pf_id (db_profiles db1)" "books_ok ?ms [v, v] db2"
    using process_one [OF db1(3) proper(1) v ids1, of now' writeOk' adv'] vol by auto
  have "tv_creator v \<in> pf_id ` set (db_profiles db2)" using ids1 db2(2) by (metis set_map)
  then obtain q where "q \<in> set (db_profiles db2)" "pf_id q = tv_creator v" "profile_ok ?ms [v, v] q"
    using db2(3) by (auto simp: books_ok_def list_all_iff)
  moreover have "ho_balance (holding_of (pair_of v) (db_own db1)) = of_int (signed_qty v)"
    using db1(3) held_balance [OF proper(1), of "pair_of v"] vol q by (auto simp: books_ok_def own_ok_def pair_of_def)
  moreover have "ho_balance (holding_of (pair_of v) (db_own db2)) = of_int (2 * signed_qty v)"
    using db2(3) held_balance [OF proper(2), of "pair_of v"] vol by (auto simp: books_ok_def own_ok_def pair_of_def)
  moreover have "length (trade_log db2) = 2" using db2(3) by (auto simp: books_ok_def dest: list_all2_lengthD)
  ultimately show ?thesis using db1(1) db2(1) by (auto simp: profile_ok_def intro!: exI [of _ db1] exI [of _ db2] bexI [of _ q])
qed

section \<open>Witnesses\<close>

definition buy_two :: chain_event where
  "buy_two = \<lparr>ce_txHash = ''a'', ce_eventIndex = 0, ce_ledger = Some 7, ce_eventType = ''KEY_BOUGHT'',
    ce_fields = [(''actor'', Jstr ''W''), (''creatorId'', Jstr ''K''), (''amount'', Jnum (Fin 2)), (''price'', Jstr ''5''),
      (''feePaid'', Jstr ''1''), (''tradeAt'', Jstr ''d'')]\<rparr>"

definition sell_one :: chain_event where
  "sell_one = \<lparr>ce_txHash = ''b'', ce_eventIndex = 0, ce_ledger = Some 8, ce_eventType = ''KEY_SOLD'',
    ce_fields = [(''actor'', Jstr ''W''), (''creatorId'', Jstr ''K''), (''amount'', Jnum (Fin 1)), (''price'', Jstr ''6''),
      (''feePaid'', Jstr ''1''), (''tradeAt'', Jstr ''dd'')]\<rparr>"

definition small_lib :: js_text_lib where
  "small_lib = \<lparr>num_text = (\<lambda>_. ''0''), parse_num = (\<lambda>s. case read_int s of Some i \<Rightarrow> Fin (of_int i) | None \<Rightarrow> NaN),
    parse_date = (\<lambda>s. Some (int (length s) * 1000))\<rparr>"

definition small_env :: trade_env where
  "small_env = \<lparr>te_lib = small_lib, te_json = \<lparr>stringify = (\<lambda>_. ''x''), parse = (\<lambda>_. None)\<rparr>, te_rewardBps = 100,
    te_milestones = DEFAULT_MILESTONES\<rparr>"

definition small_books :: trade_db where
  "small_books = \<lparr>db_own = \<lparr>positions = [], holdingSnapshots = []\<rparr>, db_referrals = \<lparr>ref_codes = [], referrals = [], fee_events = []\<rparr>, db_activities = [],
    db_profiles = [\<lparr>pf_id = ''K'', pf_supply = 0, pf_milestone = 0\<rparr>], db_snapshots = [], db_history = [], db_bundles = [],
    db_tiers = [], db_swaps = [], db_cursor = None\<rparr>"

lemma buy_two_view: "trade_view_of small_lib buy_two = Some \<lparr>tv_kind = ''KEY_BOUGHT'', tv_actor = ''W'', tv_creator = ''K'',
    tv_qty = 2, tv_price = 5, tv_at = 1000, tv_ledger = 7\<rparr>"
  by code_simp

lemma sell_one_view: "trade_view_of small_lib sell_one = Some \<lparr>tv_kind = ''KEY_SOLD'', tv_actor = ''W'', tv_creator = ''K'',
    tv_qty = 1, tv_price = 6, tv_at = 2000, tv_ledger = 8\<rparr>"
  by code_simp

lemma small_books_fresh: "fresh_books DEFAULT_MILESTONES small_books"
  by (simp add: fresh_books_def small_books_def getTierForSupply_def DEFAULT_MILESTONES_def)

lemma small_dedupe: "dedupeChainEvents [buy_two, sell_one] = [buy_two, sell_one]"
  by code_simp

lemma small_run: "\<exists>db. trade_run small_env small_books (views_of small_lib [buy_two, sell_one]) db"
proof -
  have "\<exists>db'. run_events (trade_handler small_env 0) [buy_two, sell_one] small_books = (Inr (), db') \<and>
      map pf_id (db_profiles db') = map pf_id (db_profiles small_books)"
    by (rule run_trades_total [where vs = "[]"])
      (simp_all add: small_env_def fresh_books_ok [OF small_books_fresh] buy_two_view sell_one_view, simp add: small_books_def)
  then obtain db where db: "processTradeEvents small_env 0 True True [buy_two, sell_one] small_books = (Inr (), db)"
    by (auto simp: processTradeEvents_def processIndexerChainEvents_def small_dedupe)
  have "trade_run small_env small_books ([] @ views_of (te_lib small_env) (dedupeChainEvents [buy_two, sell_one])) db"
    by (rule trade_run.batch [OF trade_run.start db]) (simp add: small_env_def readable_def buy_two_view sell_one_view)
  then show ?thesis unfolding small_dedupe by (auto simp: small_env_def)
qed


theorem redelivered_trade_counts_twice_witness:
  "\<exists>db1 db2. processTradeEvents small_env 0 True True [buy_two] small_books = (Inr (), db1) \<and>
    processTradeEvents small_env 0 True True [buy_two] db1 = (Inr (), db2) \<and>
    ho_balance (holding_of (''W'', ''K'') (db_own db2)) = 4"
  using redelivered_trade_counts_twice [of small_env small_books buy_two _ "\<lparr>pf_id = ''K'', pf_supply = 0, pf_milestone = 0\<rparr>"
      0 True True 0 True True] small_books_fresh buy_two_view
  by (fastforce simp: small_env_def small_books_def pair_of_def signed_qty_def)

end
