(* ===== verification/Reorg.thy ===== *)
theory Reorg
  imports Trade_Replay Ledger
begin

text \<open>
  \<open>src/modules/indexer/reorg-guard.service.ts\<close>: ingestion of ledgers that notices when the chain was
  reorganised, finds the fork point, rolls the tables back to it and ingests the canonical ledgers.

  A transaction is one step; one that throws leaves the tables as they were. The canonical chain is two
  arguments, \<open>fetchHeader\<close> and \<open>fetchEvents\<close>, each optional as in the code, and the event processor is an
  argument with the trade pipeline as its default. Row ids are generated in order of insertion, so
  \<open>orderBy id\<close> is the order of the list. Log lines are left out.
\<close>

section \<open>Tables\<close>

record ledger_header =
  lh_sequence :: int
  lh_hash :: string
  lh_previous :: "string option"

datatype event_status = CONFIRMED | REORGED

record ingested_event =
  ie_ledgerSequence :: int
  ie_ledgerHash :: string
  ie_txHash :: string
  ie_eventIndex :: int
  ie_eventType :: string
  ie_actor :: "string option"
  ie_creatorId :: "string option"
  ie_amount :: "string option"
  ie_priceStroops :: "string option"
  ie_tradeAt :: "instant option"
  ie_status :: event_status
  ie_reorgedAt :: "instant option"

text \<open>The \<open>Trade\<close> rows are written elsewhere; the guard deletes by their ledger.\<close>

record trade_row =
  tr_buyer :: string
  tr_creatorId :: string
  tr_quantity :: string
  tr_price :: string
  tr_ledger :: int
  tr_txHash :: string
  tr_timestamp :: instant
  tr_paymentAsset :: string
  tr_type :: string

record chain_db =
  cd_books :: trade_db
  cd_ingested :: "ingested_event list"
  cd_checkpoints :: "checkpoint list"
  cd_trades :: "trade_row list"

definition event_key :: "ingested_event \<Rightarrow> string \<times> int" where
  "event_key r = (ie_txHash r, ie_eventIndex r)"

section \<open>Recording a ledger\<close>

definition text_or_null :: "js_value \<Rightarrow> string option" where
  "text_or_null v = (case v of Jstr s \<Rightarrow> Some s | _ \<Rightarrow> None)"

definition string_or_null :: "js_text_lib \<Rightarrow> js_value \<Rightarrow> string option" where
  "string_or_null lib v = (if v = Jundefined \<or> v = Jnull then None else Some (js_text lib v))"

definition toIngestedEventFields :: "js_text_lib \<Rightarrow> chain_event \<Rightarrow> ledger_header \<Rightarrow> ingested_event" where
  "toIngestedEventFields lib e header =
    (let event = raw_of e; at' = js_field ''tradeAt'' event
     in \<lparr>ie_ledgerSequence = (case ce_ledger e of Some l \<Rightarrow> l | None \<Rightarrow> lh_sequence header),
         ie_ledgerHash = lh_hash header, ie_txHash = ce_txHash e, ie_eventIndex = ce_eventIndex e,
         ie_eventType = ce_eventType e, ie_actor = text_or_null (js_field ''actor'' event),
         ie_creatorId = text_or_null (js_field ''creatorId'' event),
         ie_amount = string_or_null lib (js_field ''amount'' event),
         ie_priceStroops = string_or_null lib (js_field ''price'' event),
         ie_tradeAt = (if at' = Jundefined \<or> at' = Jnull then None else parse_date lib (js_text lib at')),
         ie_status = CONFIRMED, ie_reorgedAt = None\<rparr>)"

definition upsert_event :: "ingested_event \<Rightarrow> ingested_event list \<Rightarrow> ingested_event list" where
  "upsert_event r rows = upsert_by event_key (event_key r) (\<lambda>_. r) r rows"

definition last_index :: "chain_event list \<Rightarrow> int" where
  "last_index es = (case map ce_eventIndex es of [] \<Rightarrow> 0 | i # is \<Rightarrow> fold max is i)"

definition recordLedgerIngestion ::
  "js_text_lib \<Rightarrow> (string \<Rightarrow> string) \<Rightarrow> instant \<Rightarrow> ledger_header \<Rightarrow> chain_event list \<Rightarrow> chain_db \<Rightarrow> chain_db" where
  "recordLedgerIngestion lib sha now header events db =
    (let uniqueEvents = dedupeChainEvents events;
         batchHash = computeBatchHash sha (map getChainEventId uniqueEvents)
     in db\<lparr>cd_ingested := fold (\<lambda>e. upsert_event (toIngestedEventFields lib e header)) uniqueEvents (cd_ingested db),
         cd_checkpoints := upsert_by cp_ledger (lh_sequence header)
           (\<lambda>c. c\<lparr>cp_ledgerHash := Some (lh_hash header), cp_previousLedgerHash := lh_previous header,
             cp_lastProcessedEventIndex := last_index uniqueEvents, cp_batchHash := batchHash, cp_completedAt := now\<rparr>)
           \<lparr>cp_ledger = lh_sequence header, cp_ledgerHash = Some (lh_hash header), cp_previousLedgerHash = lh_previous header,
            cp_lastProcessedEventIndex = last_index uniqueEvents, cp_batchHash = batchHash, cp_completedAt = now\<rparr>
           (cd_checkpoints db)\<rparr>)"

section \<open>The fork point\<close>

definition MAX_FORK_WALKBACK_LEDGERS :: nat where
  "MAX_FORK_WALKBACK_LEDGERS = 1000"

type_synonym fetch_header = "int \<Rightarrow> ledger_header option"

text \<open>The hash of a ledger on the incoming chain, where it can be told.\<close>

definition incoming_hash :: "ledger_header \<Rightarrow> fetch_header option \<Rightarrow> int \<Rightarrow> string option" where
  "incoming_hash header fetchHeader seq =
    (if seq = lh_sequence header - 1 then lh_previous header
     else case fetchHeader of
       Some fetch \<Rightarrow> map_option lh_hash (fetch seq)
     | None \<Rightarrow> None)"

fun walk_back :: "ledger_header \<Rightarrow> fetch_header option \<Rightarrow> checkpoint list \<Rightarrow> int \<Rightarrow> int" where
  "walk_back header fetchHeader [] oldestStored = oldestStored - 1"
| "walk_back header fetchHeader (c # cs) oldestStored =
    (let seq = cp_ledger c; incomingHash = incoming_hash header fetchHeader seq
     in if incomingHash = None then seq
        else if incomingHash = cp_ledgerHash c then seq
        else walk_back header fetchHeader cs oldestStored)"

definition stored_before :: "int \<Rightarrow> checkpoint list \<Rightarrow> checkpoint list" where
  "stored_before seq cps =
    take MAX_FORK_WALKBACK_LEDGERS (rev (sort_key cp_ledger (filter (\<lambda>c. cp_ledger c < seq) cps)))"

definition findForkPoint :: "ledger_header \<Rightarrow> fetch_header option \<Rightarrow> checkpoint list \<Rightarrow> int" where
  "findForkPoint header fetchHeader cps =
    (let stored = stored_before (lh_sequence header) cps
     in if stored = [] then lh_sequence header - 1
        else walk_back header fetchHeader stored (cp_ledger (last stored)))"

section \<open>Rolling back\<close>

text \<open>The distinct elements, each at its first place.\<close>

definition in_first_order :: "'a list \<Rightarrow> 'a list" where
  "in_first_order xs = fold (\<lambda>x acc. if x \<in> set acc then acc else acc @ [x]) xs []"

definition affected_creators :: "ingested_event list \<Rightarrow> string list" where
  "affected_creators rs = in_first_order (filter (\<lambda>c. c \<noteq> []) (List.map_filter ie_creatorId rs))"

definition latest_point :: "string \<Rightarrow> price_point list \<Rightarrow> price_point option" where
  "latest_point creator hs =
    (case rev (sort_key pp_recordedAt (filter (\<lambda>h. pp_creator h = creator) hs)) of [] \<Rightarrow> None | h # _ \<Rightarrow> Some h)"

definition from_earliest :: "instant list \<Rightarrow> instant \<Rightarrow> bool" where
  "from_earliest ts t \<longleftrightarrow> ts \<noteq> [] \<and> Min (set ts) \<le> t"

definition restore_prices :: "ingested_event list \<Rightarrow> string \<Rightarrow> trade_db \<Rightarrow> trade_db" where
  "restore_prices reorged creator db =
    (let creatorTradeTimes = List.map_filter ie_tradeAt (filter (\<lambda>r. ie_creatorId r = Some creator) reorged);
         history = filter (\<lambda>h. \<not> (pp_creator h = creator \<and> from_earliest creatorTradeTimes (pp_recordedAt h))) (db_history db);
         db1 = db\<lparr>db_history := history\<rparr>
     in case latest_point creator history of
          None \<Rightarrow> db1\<lparr>db_snapshots := filter (\<lambda>s. ps_creator s \<noteq> creator) (db_snapshots db)\<rparr>
        | Some latest \<Rightarrow> db1\<lparr>db_snapshots := upsert_by ps_creator creator
            (\<lambda>s. s\<lparr>ps_currentPrice := pp_price latest, ps_lastTradeAt := Some (pp_recordedAt latest)\<rparr>)
            \<lparr>ps_creator = creator, ps_currentPrice = pp_price latest, ps_price24hAgo = pp_price latest,
             ps_lastTradeAt = Some (pp_recordedAt latest)\<rparr> (db_snapshots db)\<rparr>)"

text \<open>The map from the texts \<open>actor:creatorId\<close> to pairs, in insertion order.\<close>

definition add_pair :: "ingested_event \<Rightarrow> (string \<times> string \<times> string) list \<Rightarrow> (string \<times> string \<times> string) list" where
  "add_pair r pairs =
    (case (ie_actor r, ie_creatorId r) of
      (Some actor, Some creator) \<Rightarrow>
        if is_trade (ie_eventType r) \<and> actor \<noteq> [] \<and> creator \<noteq> [] then
          (let key = actor @ '':'' @ creator
           in upsert_by fst key (\<lambda>_. (key, actor, creator)) (key, actor, creator) pairs)
        else pairs
    | _ \<Rightarrow> pairs)"

definition affected_pairs :: "ingested_event list \<Rightarrow> (string \<times> string) list" where
  "affected_pairs rs = map snd (fold add_pair rs [])"

definition drop_holding_snapshots :: "ingested_event list \<Rightarrow> string \<Rightarrow> string \<Rightarrow> own_db \<Rightarrow> own_db" where
  "drop_holding_snapshots reorged owner creator own =
    (let pairTradeTimes = List.map_filter ie_tradeAt (filter (\<lambda>r. ie_actor r = Some owner \<and> ie_creatorId r = Some creator) reorged)
     in own\<lparr>holdingSnapshots := filter (\<lambda>s. \<not> (hs_owner s = owner \<and> hs_creator s = creator \<and>
          from_earliest pairTradeTimes (hs_recordedAt s))) (holdingSnapshots own)\<rparr>)"

definition or_zero :: "js_value \<Rightarrow> js_value" where
  "or_zero v = (if v = Jundefined \<or> v = Jnull then Jnum (Fin 0) else v)"

text \<open>One turn of the loop that replays the activities of a position.\<close>

definition replay_activity :: "js_text_lib \<Rightarrow> activity \<Rightarrow> holding_state \<Rightarrow> holding_state" where
  "replay_activity lib a h =
    (let pricePerKeyXlm = (case to_number lib (or_zero (js_field ''price_at_trade'' (ac_payload a))) of
           Fin q \<Rightarrow> let p = fl (q / 10000000) in if p < 0 then 0 else p
         | _ \<Rightarrow> 0);
         balance = ho_balance h; costBasis = ho_costBasis h
     in case to_number lib (or_zero (js_field ''amount'' (ac_payload a))) of
          Fin amount \<Rightarrow>
            if amount = 0 then h
            else if ac_type a = ''KEY_BOUGHT'' then
              h\<lparr>ho_balance := fl (balance + amount), ho_costBasis := weighted_cost balance costBasis amount pricePerKeyXlm,
                ho_lastBuyAt := Some (ac_createdAt a)\<rparr>
            else if balance < amount then h\<lparr>ho_balance := fl (balance - amount)\<rparr>
            else h\<lparr>ho_balance := fl (balance - amount),
              ho_costBasis := (if fl (balance - amount) \<le> 0 then 0 else costBasis),
              ho_realisedPnl := fl (ho_realisedPnl h + fl (fl (pricePerKeyXlm - costBasis) * amount))\<rparr>
        | _ \<Rightarrow> h)"

definition pair_activities :: "string \<Rightarrow> string \<Rightarrow> activity list \<Rightarrow> activity list" where
  "pair_activities owner creator acts =
    sort_key ac_createdAt (filter (\<lambda>a. ac_creatorId a = Some creator \<and> ac_actor a = owner \<and> is_trade (ac_type a)) acts)"

definition rebuildOwnershipPosition :: "js_text_lib \<Rightarrow> activity list \<Rightarrow> string \<Rightarrow> string \<Rightarrow> own_db \<Rightarrow> own_db" where
  "rebuildOwnershipPosition lib acts owner creator own =
    (let activities = pair_activities owner creator acts;
         h = foldl (\<lambda>h a. replay_activity lib a h) flat activities
     in case find_by position_key (owner, creator) (positions own) of
          None \<Rightarrow>
            if activities = [] then own
            else own\<lparr>positions := insert_row \<lparr>po_owner = owner, po_creator = creator, po_balance = ho_balance h,
              po_costBasis = ho_costBasis h, po_realisedPnl = ho_realisedPnl h, po_lastBuyAt = ho_lastBuyAt h\<rparr> (positions own)\<rparr>
        | Some _ \<Rightarrow> own\<lparr>positions := modify_by position_key (owner, creator)
            (\<lambda>p. p\<lparr>po_balance := ho_balance h, po_costBasis := ho_costBasis h, po_realisedPnl := ho_realisedPnl h,
              po_lastBuyAt := ho_lastBuyAt h\<rparr>) (positions own)\<rparr>)"

definition restore_pair :: "js_text_lib \<Rightarrow> ingested_event list \<Rightarrow> string \<times> string \<Rightarrow> trade_db \<Rightarrow> trade_db" where
  "restore_pair lib reorged pair db =
    db\<lparr>db_own := rebuildOwnershipPosition lib (db_activities db) (fst pair) (snd pair)
      (drop_holding_snapshots reorged (fst pair) (snd pair) (db_own db))\<rparr>"

definition recompute_supply :: "trade_env \<Rightarrow> string \<Rightarrow> trade_db \<Rightarrow> trade_error + trade_db" where
  "recompute_supply env creator db =
    (let supply = supply_of (te_lib env) (trades_of creator (db_activities db))
     in if find_by pf_id creator (db_profiles db) = None then Inl CreatorMissing
        else Inr (db\<lparr>db_profiles := modify_by pf_id creator
          (\<lambda>p. p\<lparr>pf_supply := supply, pf_milestone := getTierForSupply supply (te_milestones env)\<rparr>) (db_profiles db)\<rparr>))"

fun recompute_supplies :: "trade_env \<Rightarrow> string list \<Rightarrow> trade_db \<Rightarrow> trade_error + trade_db" where
  "recompute_supplies env [] db = Inr db"
| "recompute_supplies env (c # cs) db = and_then (recompute_supply env c db) (recompute_supplies env cs)"

definition beyond :: "int \<Rightarrow> activity \<Rightarrow> bool" where
  "beyond forkPoint a \<longleftrightarrow> is_trade (ac_type a) \<and>
    (case js_field ''ledger_sequence'' (ac_payload a) of Jnum (Fin q) \<Rightarrow> of_int forkPoint < q | _ \<Rightarrow> False)"

definition reorged_event :: "int \<Rightarrow> ingested_event \<Rightarrow> bool" where
  "reorged_event forkPoint r \<longleftrightarrow> forkPoint < ie_ledgerSequence r \<and> ie_status r = CONFIRMED"

text \<open>What a rollback makes of the tables the trade pipeline writes.\<close>

definition rolled_books :: "trade_env \<Rightarrow> ingested_event list \<Rightarrow> int \<Rightarrow> trade_db \<Rightarrow> trade_error + trade_db" where
  "rolled_books env reorgedEvents forkPoint books =
    (let books1 = books\<lparr>db_activities := filter (\<lambda>a. \<not> beyond forkPoint a) (db_activities books)\<rparr>;
         creators = affected_creators reorgedEvents;
         books2 = fold (restore_prices reorgedEvents) creators books1;
         books3 = fold (restore_pair (te_lib env) reorgedEvents) (affected_pairs reorgedEvents) books2
     in recompute_supplies env creators books3)"

definition mark_reorged :: "instant \<Rightarrow> int \<Rightarrow> ingested_event \<Rightarrow> ingested_event" where
  "mark_reorged now fork r = (if reorged_event fork r then r\<lparr>ie_status := REORGED, ie_reorgedAt := Some now\<rparr> else r)"

definition rollbackToLedger :: "trade_env \<Rightarrow> instant \<Rightarrow> int \<Rightarrow> chain_db \<Rightarrow> (trade_error + nat \<times> nat) \<times> chain_db" where
  "rollbackToLedger env now forkPoint db =
    (let reorgedEvents = filter (reorged_event forkPoint) (cd_ingested db);
         reorgedLedgers = filter (\<lambda>c. forkPoint < cp_ledger c) (cd_checkpoints db)
     in case rolled_books env reorgedEvents forkPoint (cd_books db) of
          Inl err \<Rightarrow> (Inl err, db)
        | Inr books \<Rightarrow> (Inr (length reorgedLedgers, length reorgedEvents),
            \<lparr>cd_books = books, cd_ingested = map (mark_reorged now forkPoint) (cd_ingested db),
             cd_checkpoints = filter (\<lambda>c. cp_ledger c \<le> forkPoint) (cd_checkpoints db),
             cd_trades = filter (\<lambda>t. tr_ledger t \<le> forkPoint) (cd_trades db)\<rparr>))"

section \<open>Ingesting a ledger\<close>

record ledger_deps =
  ld_fetchHeader :: "fetch_header option"
  ld_fetchEvents :: "(int \<Rightarrow> chain_event list) option"
  ld_process :: "chain_event list \<Rightarrow> trade_db \<Rightarrow> (trade_error + unit) \<times> trade_db"

record ingest_result =
  ir_reorgDetected :: bool
  ir_forkPoint :: "int option"
  ir_reorgedLedgerCount :: nat
  ir_affectedEventCount :: nat
  ir_sequence :: int
  ir_eventsIngested :: nat
  ir_reingested :: "int list"

text \<open>Process the events of a ledger, then record it.\<close>

definition process_and_record ::
  "trade_env \<Rightarrow> (string \<Rightarrow> string) \<Rightarrow> instant \<Rightarrow> ledger_deps \<Rightarrow> ledger_header \<Rightarrow> chain_event list \<Rightarrow> chain_db \<Rightarrow>
    (trade_error + unit) \<times> chain_db" where
  "process_and_record env sha now deps header events db =
    (case ld_process deps events (cd_books db) of
      (Inl err, books) \<Rightarrow> (Inl err, db\<lparr>cd_books := books\<rparr>)
    | (Inr _, books) \<Rightarrow> (Inr (), recordLedgerIngestion (te_lib env) sha now header events (db\<lparr>cd_books := books\<rparr>)))"

fun reingest ::
  "trade_env \<Rightarrow> (string \<Rightarrow> string) \<Rightarrow> instant \<Rightarrow> ledger_deps \<Rightarrow> fetch_header \<Rightarrow> (int \<Rightarrow> chain_event list) \<Rightarrow> int list \<Rightarrow> chain_db \<Rightarrow>
    (trade_error + int list) \<times> chain_db" where
  "reingest env sha now deps fetchHeader fetchEvents [] db = (Inr [], db)"
| "reingest env sha now deps fetchHeader fetchEvents (seq # seqs) db =
    (case fetchHeader seq of
      None \<Rightarrow> (Inr [], db)
    | Some canonical \<Rightarrow>
        (case process_and_record env sha now deps canonical (fetchEvents seq) db of
          (Inl err, db1) \<Rightarrow> (Inl err, db1)
        | (Inr _, db1) \<Rightarrow>
            (case reingest env sha now deps fetchHeader fetchEvents seqs db1 of
              (Inl err, db2) \<Rightarrow> (Inl err, db2)
            | (Inr done_, db2) \<Rightarrow> (Inr (seq # done_), db2))))"

definition parent_mismatch :: "ledger_header \<Rightarrow> checkpoint list \<Rightarrow> bool" where
  "parent_mismatch header cps =
    (case (readCheckpoint (lh_sequence header - 1) cps, lh_previous header) of
      (Some storedParent, Some previous) \<Rightarrow>
        (case cp_ledgerHash storedParent of
          Some h \<Rightarrow> h \<noteq> [] \<and> previous \<noteq> [] \<and> previous \<noteq> h
        | None \<Rightarrow> False)
    | _ \<Rightarrow> False)"

text \<open>The reaction to a reorganisation: the outcome so far and the re-ingested ledgers.\<close>

definition recover ::
  "trade_env \<Rightarrow> (string \<Rightarrow> string) \<Rightarrow> instant \<Rightarrow> ledger_deps \<Rightarrow> ledger_header \<Rightarrow> chain_db \<Rightarrow>
    (trade_error + int \<times> nat \<times> nat \<times> int list) \<times> chain_db" where
  "recover env sha now deps header db =
    (let forkPoint = findForkPoint header (ld_fetchHeader deps) (cd_checkpoints db)
     in case rollbackToLedger env now forkPoint db of
          (Inl err, db1) \<Rightarrow> (Inl err, db1)
        | (Inr (ledgers, affected), db1) \<Rightarrow>
            (case (ld_fetchHeader deps, ld_fetchEvents deps) of
              (Some fetchHeader, Some fetchEvents) \<Rightarrow>
                (case reingest env sha now deps fetchHeader fetchEvents [forkPoint + 1..lh_sequence header - 1] db1 of
                  (Inl err, db2) \<Rightarrow> (Inl err, db2)
                | (Inr seqs, db2) \<Rightarrow> (Inr (forkPoint, ledgers, affected, seqs), db2))
            | _ \<Rightarrow> (Inr (forkPoint, ledgers, affected, []), db1)))"

definition ingestLedger ::
  "trade_env \<Rightarrow> (string \<Rightarrow> string) \<Rightarrow> instant \<Rightarrow> ledger_deps \<Rightarrow> ledger_header \<Rightarrow> chain_event list \<Rightarrow> chain_db \<Rightarrow>
    (trade_error + ingest_result) \<times> chain_db" where
  "ingestLedger env sha now deps header events db =
    (let uniqueEvents = dedupeChainEvents events;
         result = \<lparr>ir_reorgDetected = False, ir_forkPoint = None, ir_reorgedLedgerCount = 0, ir_affectedEventCount = 0,
           ir_sequence = lh_sequence header, ir_eventsIngested = length uniqueEvents, ir_reingested = []\<rparr>
     in case (if parent_mismatch header (cd_checkpoints db)
              then (case recover env sha now deps header db of
                      (Inl err, db1) \<Rightarrow> (Inl err, db1)
                    | (Inr (fork, ledgers, affected, seqs), db1) \<Rightarrow> (Inr (result\<lparr>ir_reorgDetected := True, ir_forkPoint := Some fork,
                        ir_reorgedLedgerCount := ledgers, ir_affectedEventCount := affected, ir_reingested := seqs\<rparr>), db1))
              else (Inr result, db)) of
          (Inl err, db1) \<Rightarrow> (Inl err, db1)
        | (Inr r, db1) \<Rightarrow>
            (case process_and_record env sha now deps header uniqueEvents db1 of
              (Inl err, db2) \<Rightarrow> (Inl err, db2)
            | (Inr _, db2) \<Rightarrow> (Inr r, db2)))"

section \<open>The log of ingested events\<close>

abbreviation confirmed :: "ingested_event \<Rightarrow> bool" where
  "confirmed r \<equiv> ie_status r = CONFIRMED"

text \<open>What a row says of its event, whatever the hash of its ledger.\<close>

definition core :: "ingested_event \<Rightarrow> ingested_event" where
  "core r = r\<lparr>ie_ledgerHash := [], ie_reorgedAt := None\<rparr>"

definition event_core :: "js_text_lib \<Rightarrow> chain_event \<Rightarrow> ingested_event" where
  "event_core lib e = toIngestedEventFields lib e \<lparr>lh_sequence = 0, lh_hash = [], lh_previous = None\<rparr>"

definition chain_key :: "chain_event \<Rightarrow> string \<times> int" where
  "chain_key e = (ce_txHash e, ce_eventIndex e)"

definition log_ok :: "js_text_lib \<Rightarrow> chain_event list \<Rightarrow> ingested_event list \<Rightarrow> bool" where
  "log_ok lib es rows \<longleftrightarrow> distinct (map event_key rows) \<and>
    mset (map core (filter confirmed rows)) = mset (map (event_core lib) es)"

lemma core_simps [simp]:
  "event_key (core r) = event_key r" "ie_status (core r) = ie_status r" "ie_ledgerSequence (core r) = ie_ledgerSequence r"
  "ie_actor (core r) = ie_actor r" "ie_creatorId (core r) = ie_creatorId r" "ie_eventType (core r) = ie_eventType r"
  by (simp_all add: core_def event_key_def)

lemma fields_simps [simp]:
  "event_key (toIngestedEventFields lib e h) = chain_key e" "confirmed (toIngestedEventFields lib e h)"
  "event_key (event_core lib e) = chain_key e" "confirmed (event_core lib e)"
  by (simp_all add: toIngestedEventFields_def event_core_def event_key_def chain_key_def Let_def)

lemma core_fields: "ce_ledger e = Some l \<Longrightarrow> core (toIngestedEventFields lib e h) = event_core lib e"
  by (simp add: core_def event_core_def toIngestedEventFields_def Let_def)

lemma log_ok_keys: "log_ok lib es rows \<Longrightarrow> r \<in> set rows \<Longrightarrow> confirmed r \<Longrightarrow> \<exists>e \<in> set es. core r = event_core lib e"
proof -
  assume "log_ok lib es rows" and r: "r \<in> set rows" "confirmed r"
  then have "set (map core (filter confirmed rows)) = set (map (event_core lib) es)"
    by (intro mset_eq_setD) (simp add: log_ok_def)
  moreover have "core r \<in> set (map core (filter confirmed rows))" using r by simp
  ultimately show ?thesis by auto
qed

lemma confirmed_upsert:
  assumes "distinct (map event_key rows)" "\<forall>r' \<in> set rows. confirmed r' \<longrightarrow> event_key r' \<noteq> event_key r" "confirmed r"
  shows "mset (map core (filter confirmed (upsert_event r rows))) = add_mset (core r) (mset (map core (filter confirmed rows)))"
  using assms
proof (induction rows)
  case (Cons s rows)
  show ?case
  proof (cases "event_key s = event_key r")
    case True
    then have "event_key r \<notin> event_key ` set rows" using Cons.prems(1) by auto
    then have "modify_by event_key (event_key r) (\<lambda>_. r) rows = rows"
      by (induction rows) (auto simp: modify_by_def)
    with True Cons.prems show ?thesis by (simp add: upsert_event_def upsert_by_def modify_by_def)
  next
    case False
    then have "upsert_event r (s # rows) = s # upsert_event r rows"
      by (simp add: upsert_event_def upsert_by_def modify_by_def insert_row_def split: option.split)
    with Cons show ?thesis by simp
  qed
qed (simp add: upsert_event_def upsert_by_def insert_row_def)

lemma log_ok_upsert:
  assumes log: "log_ok lib es rows" and e: "ce_ledger e = Some l" "chain_key e \<notin> chain_key ` set es"
  shows "log_ok lib (es @ [e]) (upsert_event (toIngestedEventFields lib e h) rows)"
proof -
  let ?r = "toIngestedEventFields lib e h"
  have "event_key r' \<noteq> event_key ?r" if r': "r' \<in> set rows" "confirmed r'" for r'
  proof
    assume eq: "event_key r' = event_key ?r"
    obtain e' where "e' \<in> set es" "core r' = event_core lib e'" using log_ok_keys [OF log r'] by blast
    then have "event_key r' = chain_key e'" by (metis core_simps(1) fields_simps(3))
    with eq e(2) \<open>e' \<in> set es\<close> show False by (metis fields_simps(1) imageI)
  qed
  moreover have "distinct (map event_key (upsert_event ?r rows))"
    unfolding upsert_event_def using log by (intro distinct_upsert) (simp_all add: log_ok_def)
  ultimately show ?thesis
    using log confirmed_upsert [of rows ?r] core_fields [OF e(1)] by (simp add: log_ok_def)
qed

lemma log_ok_upserts:
  assumes "log_ok lib es rows" "\<forall>e \<in> set fs. ce_ledger e \<noteq> None" "distinct (map chain_key (es @ fs))"
  shows "log_ok lib (es @ fs) (fold (\<lambda>e. upsert_event (toIngestedEventFields lib e h)) fs rows)"
  using assms
proof (induction fs arbitrary: es rows)
  case (Cons f fs)
  obtain l where l: "ce_ledger f = Some l" using Cons.prems(2) by auto
  have "log_ok lib (es @ [f]) (upsert_event (toIngestedEventFields lib f h) rows)"
    using Cons.prems(1,3) by (intro log_ok_upsert [OF _ l]) auto
  from Cons.IH [OF this] Cons.prems show ?case by simp
qed simp

text \<open>Marking the events beyond the fork point leaves the confirmed events up to it.\<close>

definition ledger_of :: "chain_event \<Rightarrow> int" where
  "ledger_of e = (case ce_ledger e of Some l \<Rightarrow> l | None \<Rightarrow> 0)"

lemma event_core_ledger: "ie_ledgerSequence (event_core lib e) = ledger_of e"
  by (simp add: event_core_def toIngestedEventFields_def ledger_of_def Let_def split: option.split)

lemma log_ok_mark:
  assumes "log_ok lib es rows"
  shows "log_ok lib (filter (\<lambda>e. ledger_of e \<le> fork) es) (map (mark_reorged now fork) rows)"
proof -
  have keys: "map event_key (map (mark_reorged now fork) rows) = map event_key rows"
    by (simp add: mark_reorged_def event_key_def)
  have "map core (filter confirmed (map (mark_reorged now fork) rows)) =
      filter (\<lambda>r. ie_ledgerSequence r \<le> fork) (map core (filter confirmed rows))"
    by (induction rows) (auto simp: mark_reorged_def reorged_event_def)
  then have "mset (map core (filter confirmed (map (mark_reorged now fork) rows))) =
      filter_mset (\<lambda>r. ie_ledgerSequence r \<le> fork) (mset (map core (filter confirmed rows)))"
    by (metis mset_filter)
  also have "\<dots> = filter_mset (\<lambda>r. ie_ledgerSequence r \<le> fork) (mset (map (event_core lib) es))"
    using assms by (simp only: log_ok_def)
  also have "\<dots> = mset (map (event_core lib) (filter (\<lambda>e. ledger_of e \<le> fork) es))"
    by (induction es) (simp_all add: event_core_ledger)
  finally show ?thesis using assms keys by (simp only: log_ok_def)
qed

text \<open>The events that a rollback treats as reorganised.\<close>

lemma reorged_cores:
  assumes "log_ok lib es rows"
  shows "mset (map core (filter (reorged_event fork) rows)) = mset (map (event_core lib) (filter (\<lambda>e. fork < ledger_of e) es))"
proof -
  have "map core (filter (reorged_event fork) rows) = filter (\<lambda>r. fork < ie_ledgerSequence r) (map core (filter confirmed rows))"
    by (induction rows) (auto simp: reorged_event_def)
  then have "mset (map core (filter (reorged_event fork) rows)) =
      filter_mset (\<lambda>r. fork < ie_ledgerSequence r) (mset (map core (filter confirmed rows)))"
    by (metis mset_filter)
  also have "\<dots> = filter_mset (\<lambda>r. fork < ie_ledgerSequence r) (mset (map (event_core lib) es))"
    using assms by (simp only: log_ok_def)
  also have "\<dots> = mset (map (event_core lib) (filter (\<lambda>e. fork < ledger_of e) es))"
    by (induction es) (simp_all add: event_core_ledger)
  finally show ?thesis .
qed

section \<open>Replaying a position\<close>

text \<open>\<open>Number(text)\<close> reads what \<open>BigInt(text)\<close> reads, exactly below \<open>2^53\<close>.\<close>

definition number_reads_integers :: "js_text_lib \<Rightarrow> bool" where
  "number_reads_integers lib \<longleftrightarrow>
    (\<forall>s i. read_int s = Some i \<longrightarrow> \<bar>i\<bar> < 2 ^ 53 \<longrightarrow> parse_num lib s = Fin (of_int i))"

definition doubles :: "holding_state \<Rightarrow> bool" where
  "doubles h \<longleftrightarrow> fl (ho_costBasis h) = ho_costBasis h \<and> fl (ho_realisedPnl h) = ho_realisedPnl h"

lemma weighted_cost_double:
  "fl price = price \<Longrightarrow> fl (weighted_cost b c q price) = weighted_cost b c q price"
  by (simp add: weighted_cost_def Let_def)

lemma hold_step_doubles: "doubles h \<Longrightarrow> doubles (hold_step v h)"
proof -
  have price: "fl (stroops_to_xlm (tv_price v)) = stroops_to_xlm (tv_price v)" by (simp add: stroops_to_xlm_def)
  show "doubles h \<Longrightarrow> doubles (hold_step v h)"
    by (simp add: doubles_def hold_step_def bought_def sold_def weighted_cost_double [OF price] computeCostBasisAfterSale_def)
qed

lemma steps_balance:
  assumes "list_all proper_view ws" "volume ws < 2 ^ 53"
  shows "ho_balance (foldl (\<lambda>h v. hold_step v h) flat ws) = of_int (net (\<lambda>_. True) ws)"
  using assms
proof (induction ws rule: rev_induct)
  case (snoc v ws)
  have v: "proper_view v" "list_all proper_view ws" using snoc.prems by simp_all
  then have vol: "volume ws < 2 ^ 53" using snoc.prems by (simp add: proper_view_def)
  have "\<bar>net (\<lambda>_. True) ws\<bar> < 2 ^ 53" using net_le_volume [OF v(2), of "\<lambda>_. True"] vol by linarith
  moreover have "\<bar>net (\<lambda>_. True) ws + signed_qty v\<bar> < 2 ^ 53"
    using net_le_volume [OF snoc.prems(1), of "\<lambda>_. True"] snoc.prems(2) by simp
  ultimately show ?case using hold_step_balance [OF snoc.IH [OF v(2) vol], of v] by simp
qed (simp add: flat_def)

text \<open>One turn of the replay computes what the indexer computed.\<close>

lemma replay_step:
  assumes lib: "number_reads_integers lib" and a: "records a v" and v: "proper_view v" "tv_price v < 2 ^ 53"
    and h: "doubles h" "ho_balance h = of_int b" "\<bar>b\<bar> < 2 ^ 53" "\<bar>b + signed_qty v\<bar> < 2 ^ 53"
  shows "replay_activity lib a h = hold_step v h"
proof -
  obtain s where s: "js_field ''price_at_trade'' (ac_payload a) = Jstr s" "read_int s = Some (tv_price v)"
    using a by (auto simp: records_def)
  have p: "\<bar>tv_price v\<bar> < 2 ^ 53" using v by (simp add: proper_view_def)
  have num: "parse_num lib s = Fin (of_int (tv_price v))" using lib s(2) p by (simp add: number_reads_integers_def)
  have "0 \<le> (of_int (tv_price v) :: rat)" using v(1) by (simp add: proper_view_def)
  then have price: "(let p = fl (of_int (tv_price v) / 10000000) in if p < 0 then 0 else p) = stroops_to_xlm (tv_price v)"
    using fl_nonneg [of "of_int (tv_price v) / 10000000"] by (simp add: stroops_to_xlm_def fl_whole [OF p])
  have f: "fl (of_int b) = of_int b" "fl (of_int (b + signed_qty v)) = of_int (b + signed_qty v)"
    using h by (simp_all only: fl_whole)
  have q: "tv_qty v \<noteq> 0" "ac_type a = tv_kind v" "ac_createdAt a = tv_at v"
      "js_field ''amount'' (ac_payload a) = Jnum (Fin (of_int (tv_qty v)))"
    using v a by (auto simp: proper_view_def records_def)
  show ?thesis
    using f h(1,2) q by (auto simp: replay_activity_def or_zero_def s(1) num price [unfolded Let_def] hold_step_def bought_def sold_def
        signed_qty_def doubles_def computeCostBasisAfterSale_def computeRealisedPnlForSale_def Let_def simp flip: of_int_add of_int_diff)
qed

lemma replay_steps:
  assumes lib: "number_reads_integers lib" and "list_all2 records as ws" "list_all proper_view ws"
    "list_all (\<lambda>v. tv_price v < 2 ^ 53) ws" "volume ws < 2 ^ 53"
  shows "foldl (\<lambda>h a. replay_activity lib a h) flat as = foldl (\<lambda>h v. hold_step v h) flat ws \<and>
    doubles (foldl (\<lambda>h v. hold_step v h) flat ws)"
  using assms(2-)
proof (induction ws arbitrary: as rule: rev_induct)
  case (snoc v ws)
  obtain bs a where as: "as = bs @ [a]" "list_all2 records bs ws" "records a v"
    using snoc.prems(1) by (auto simp: list_all2_append2 list_all2_Cons2)
  have v: "proper_view v" "list_all proper_view ws" "tv_price v < 2 ^ 53" "list_all (\<lambda>v. tv_price v < 2 ^ 53) ws"
    using snoc.prems by simp_all
  then have vol: "volume ws < 2 ^ 53" using snoc.prems by (simp add: proper_view_def)
  note IH = snoc.IH [OF as(2) v(2,4) vol]
  have "\<bar>net (\<lambda>_. True) ws\<bar> < 2 ^ 53" using net_le_volume [OF v(2), of "\<lambda>_. True"] vol by linarith
  moreover have "\<bar>net (\<lambda>_. True) ws + signed_qty v\<bar> < 2 ^ 53"
    using net_le_volume [OF snoc.prems(2), of "\<lambda>_. True"] snoc.prems(4) by simp
  ultimately show ?case
    using replay_step [OF lib as(3) v(1,3) _ steps_balance [OF v(2) vol]] IH hold_step_doubles as(1) by simp
qed (simp add: doubles_def flat_def)

text \<open>Activities whose instants ascend in the order of insertion are replayed in that order.\<close>

lemma sort_key_ascending: "sorted (map f xs) \<Longrightarrow> sort_key f xs = xs"
  by (induction xs) (auto intro: insort_is_Cons)

lemma records_at: "list_all2 records as vs \<Longrightarrow> map ac_createdAt as = map tv_at vs"
  by (induction rule: list_all2_induct) (auto simp: records_def)

lemma sorted_map_filter: "sorted (map f xs) \<Longrightarrow> sorted (map f (filter P xs))"
  by (induction xs) auto

lemma pair_activities_recorded:
  assumes "list_all2 records (filter (\<lambda>a. is_trade (ac_type a)) acts) vs" "sorted (map tv_at vs)"
  shows "list_all2 records (pair_activities owner creator acts) (filter (\<lambda>v. pair_of v = (owner, creator)) vs)"
proof -
  let ?as = "filter (\<lambda>a. ac_creatorId a = Some creator \<and> ac_actor a = owner) (filter (\<lambda>a. is_trade (ac_type a)) acts)"
  have rec: "list_all2 records ?as (filter (\<lambda>v. pair_of v = (owner, creator)) vs)"
    using assms(1) by (rule list_all2_filter) (auto simp: records_def pair_of_def)
  have "sorted (map ac_createdAt ?as)"
    unfolding records_at [OF rec] by (rule sorted_map_filter [OF assms(2)])
  then have "sort_key ac_createdAt ?as = ?as" by (rule sort_key_ascending)
  moreover have "filter (\<lambda>a. ac_creatorId a = Some creator \<and> ac_actor a = owner \<and> is_trade (ac_type a)) acts = ?as"
    by (auto intro: filter_cong)
  ultimately show ?thesis using rec by (simp add: pair_activities_def)
qed

lemma rebuilt_holding:
  "holding_of k (rebuildOwnershipPosition lib acts owner creator own) =
    (if k = (owner, creator) then foldl (\<lambda>h a. replay_activity lib a h) flat (pair_activities owner creator acts)
     else holding_of k own)"
proof -
  let ?h = "foldl (\<lambda>h a. replay_activity lib a h) flat (pair_activities owner creator acts)"
  show ?thesis
  proof (cases "find_by position_key (owner, creator) (positions own)")
    case None
    then show ?thesis
      by (auto simp: holding_of_def rebuildOwnershipPosition_def Let_def insert_row_def find_by_append position_key_def
          split: option.split)
  next
    case (Some p)
    have "find_by position_key k (modify_by position_key (owner, creator) (\<lambda>p. p\<lparr>po_balance := ho_balance ?h,
        po_costBasis := ho_costBasis ?h, po_realisedPnl := ho_realisedPnl ?h, po_lastBuyAt := ho_lastBuyAt ?h\<rparr>) (positions own)) =
      (if k = (owner, creator)
       then Some (p\<lparr>po_balance := ho_balance ?h, po_costBasis := ho_costBasis ?h, po_realisedPnl := ho_realisedPnl ?h,
         po_lastBuyAt := ho_lastBuyAt ?h\<rparr>)
       else find_by position_key k (positions own))"
      by (subst find_by_modify_by) (simp_all add: position_key_def Some)
    with Some show ?thesis by (simp add: holding_of_def rebuildOwnershipPosition_def Let_def)
  qed
qed

section \<open>Rolling back the books\<close>

definition beyond_view :: "int \<Rightarrow> trade_view \<Rightarrow> bool" where
  "beyond_view fork v \<longleftrightarrow> fork < tv_ledger v"

abbreviation kept :: "int \<Rightarrow> trade_view list \<Rightarrow> trade_view list" where
  "kept fork vs \<equiv> filter (\<lambda>v. \<not> beyond_view fork v) vs"

lemma beyond_recorded: "records a v \<Longrightarrow> proper_view v \<Longrightarrow> beyond fork a \<longleftrightarrow> beyond_view fork v"
  by (simp add: beyond_def records_def beyond_view_def proper_view_def)

lemma trade_log_rolled:
  assumes "list_all2 records (filter (\<lambda>a. is_trade (ac_type a)) acts) vs" "list_all proper_view vs"
  shows "list_all2 records (filter (\<lambda>a. is_trade (ac_type a)) (filter (\<lambda>a. \<not> beyond fork a) acts)) (kept fork vs)"
proof -
  have "filter (\<lambda>a. is_trade (ac_type a)) (filter (\<lambda>a. \<not> beyond fork a) acts) =
      filter (\<lambda>a. \<not> beyond fork a) (filter (\<lambda>a. is_trade (ac_type a)) acts)"
    by (induction acts) auto
  moreover have "list_all2 (\<lambda>a v. records a v \<and> proper_view v) (filter (\<lambda>a. is_trade (ac_type a)) acts) vs"
    using assms by (auto simp: list_all2_conv_all_nth list_all_length)
  then have "list_all2 (\<lambda>a v. records a v \<and> proper_view v)
      (filter (\<lambda>a. \<not> beyond fork a) (filter (\<lambda>a. is_trade (ac_type a)) acts)) (kept fork vs)"
    by (rule list_all2_filter) (auto simp: beyond_recorded)
  ultimately show ?thesis by (auto elim: list_all2_mono)
qed

lemma restore_prices_keeps:
  "db_own (restore_prices rs c db) = db_own db \<and> db_activities (restore_prices rs c db) = db_activities db \<and>
    db_profiles (restore_prices rs c db) = db_profiles db"
  by (simp add: restore_prices_def Let_def split: option.split)

lemma restore_prices_fold:
  "db_own (fold (restore_prices rs) cs db) = db_own db \<and> db_activities (fold (restore_prices rs) cs db) = db_activities db \<and>
    db_profiles (fold (restore_prices rs) cs db) = db_profiles db"
  by (induction cs arbitrary: db) (simp_all add: restore_prices_keeps)

lemma restore_pair_keeps:
  "db_activities (restore_pair lib rs k db) = db_activities db \<and> db_profiles (restore_pair lib rs k db) = db_profiles db"
  by (simp add: restore_pair_def)

lemma drop_snapshots_positions [simp]: "positions (drop_holding_snapshots rs o' c own) = positions own"
  by (simp add: drop_holding_snapshots_def Let_def)

lemma rebuilt_keys:
  "keys_of (rebuildOwnershipPosition lib acts owner creator own) =
    (if pair_activities owner creator acts = [] then keys_of own else with_key (owner, creator) (keys_of own))"
proof -
  have k: "(owner, creator) \<in> set (keys_of own) \<longleftrightarrow> find_by position_key (owner, creator) (positions own) \<noteq> None"
    using find_by_None_iff [of position_key "(owner, creator)" "positions own"] by simp
  have "map position_key (modify_by position_key (owner, creator) (\<lambda>p. p\<lparr>po_balance := b, po_costBasis := c,
      po_realisedPnl := r, po_lastBuyAt := t\<rparr>) ps) = map position_key ps" for b c r t ps
    by (rule keys_modify_by) (simp add: position_key_def)
  with k show ?thesis
    by (auto simp: rebuildOwnershipPosition_def Let_def position_key_def simp del: set_map split: option.split)
qed

text \<open>After rebuilding a list of pairs those pairs are the replay of the activities, the others are as they were.\<close>

lemma restore_pairs:
  assumes "\<forall>k \<in> set ks. foldl (\<lambda>h a. replay_activity lib a h) flat (pair_activities (fst k) (snd k) (db_activities db)) = g k"
  shows "db_activities (fold (restore_pair lib rs) ks db) = db_activities db \<and>
    db_profiles (fold (restore_pair lib rs) ks db) = db_profiles db \<and>
    (\<forall>k. holding_of k (db_own (fold (restore_pair lib rs) ks db)) = (if k \<in> set ks then g k else holding_of k (db_own db))) \<and>
    (distinct (keys_of (db_own db)) \<longrightarrow> distinct (keys_of (db_own (fold (restore_pair lib rs) ks db)))) \<and>
    set (keys_of (db_own db)) \<subseteq> set (keys_of (db_own (fold (restore_pair lib rs) ks db)))"
  using assms
proof (induction ks arbitrary: db)
  case (Cons k ks)
  let ?db1 = "restore_pair lib rs k db"
  have acts: "db_activities ?db1 = db_activities db" "db_profiles ?db1 = db_profiles db" by (simp_all add: restore_pair_keeps)
  have own: "holding_of k' (db_own ?db1) = (if k' = k then g k else holding_of k' (db_own db))" for k'
    using Cons.prems by (simp add: restore_pair_def rebuilt_holding) (simp add: holding_of_def)
  have keys: "keys_of (db_own ?db1) =
      (if pair_activities (fst k) (snd k) (db_activities db) = [] then keys_of (db_own db) else with_key k (keys_of (db_own db)))"
    by (simp add: restore_pair_def rebuilt_keys del: set_map)
  have "distinct (keys_of (db_own db)) \<longrightarrow> distinct (keys_of (db_own ?db1))" unfolding keys by simp
  moreover have "set (keys_of (db_own db)) \<subseteq> set (keys_of (db_own ?db1))" unfolding keys by auto
  moreover note Cons.IH [of ?db1]
  ultimately show ?case using Cons.prems by (auto simp: acts own simp del: set_map)
qed simp

lemma held_upto:
  assumes "k \<notin> pair_of ` set (filter (beyond_view fork) vs)"
  shows "held k (kept fork vs) = held k vs"
proof -
  have "filter (\<lambda>v. pair_of v = k) (kept fork vs) = filter (\<lambda>v. pair_of v = k) vs"
    using assms by (induction vs) auto
  then show ?thesis by (simp add: held_def)
qed

lemma net_upto:
  assumes "c \<notin> tv_creator ` set (filter (beyond_view fork) vs)"
  shows "net (of_creator c) (kept fork vs) = net (of_creator c) vs"
  using assms by (induction vs) auto

lemma rebuilt_is_held:
  assumes lib: "number_reads_integers lib"
    and log: "list_all2 records (filter (\<lambda>a. is_trade (ac_type a)) acts) vs"
    and vs: "list_all proper_view vs" "list_all (\<lambda>v. tv_price v < 2 ^ 53) vs" "sorted (map tv_at vs)" "volume vs < 2 ^ 53"
  shows "foldl (\<lambda>h a. replay_activity lib a h) flat (pair_activities (fst k) (snd k) acts) = held k vs"
proof -
  let ?ws = "filter (\<lambda>v. pair_of v = k) vs"
  have "list_all proper_view ?ws" "list_all (\<lambda>v. tv_price v < 2 ^ 53) ?ws" using vs by (auto simp: list_all_iff)
  moreover have "volume ?ws < 2 ^ 53" using volume_filter [OF vs(1)] vs(4) by (rule order_le_less_trans)
  ultimately show ?thesis
    using replay_steps [OF lib] pair_activities_recorded [OF log vs(3), of "fst k" "snd k"] by (simp add: held_def)
qed

section \<open>Recomputing the supplies\<close>

lemma recompute_supplies_ok:
  assumes "list_all2 records (trade_log db) vs" "list_all proper_view vs" "volume vs < 2 ^ 53"
    "\<forall>c \<in> set cs. c \<in> pf_id ` set (db_profiles db)"
  shows "recompute_supplies env cs db =
    Inr (db\<lparr>db_profiles := fold (\<lambda>c. modify_by pf_id c (settled (te_milestones env) vs)) cs (db_profiles db)\<rparr>)"
  using assms
proof (induction cs arbitrary: db)
  case (Cons c cs)
  let ?ps = "modify_by pf_id c (settled (te_milestones env) vs) (db_profiles db)"
  have s: "supply_of (te_lib env) (trades_of c (db_activities db)) = of_int (net (of_creator c) vs)"
    using Cons.prems(1-3) by (rule supply_of_creator)
  have "modify_by pf_id c (\<lambda>p. p\<lparr>pf_supply := of_int (net (of_creator c) vs),
        pf_milestone := getTierForSupply (of_int (net (of_creator c) vs)) (te_milestones env)\<rparr>) (db_profiles db) = ?ps"
    by (rule modify_by_cong) (simp add: settled_def Let_def)
  moreover have "find_by pf_id c (db_profiles db) \<noteq> None" using Cons.prems(4) by (simp add: find_by_None_iff)
  ultimately have one: "recompute_supply env c db = Inr (db\<lparr>db_profiles := ?ps\<rparr>)"
    by (simp add: recompute_supply_def Let_def s)
  have "pf_id ` set ?ps = pf_id ` set (db_profiles db)"
    using ids_modify_settled [of c "te_milestones env" vs "db_profiles db"] by (metis set_map)
  then show ?case
    using Cons.IH [of "db\<lparr>db_profiles := ?ps\<rparr>"] Cons.prems by (simp add: one)
qed simp

lemma settled_idem [simp]: "settled ms vs (settled ms vs p) = settled ms vs p"
  by (simp add: settled_def Let_def)

lemma fold_settled:
  "fold (\<lambda>c. modify_by pf_id c (settled ms vs)) cs ps = map (\<lambda>p. if pf_id p \<in> set cs then settled ms vs p else p) ps"
proof (induction cs arbitrary: ps)
  case (Cons c cs)
  show ?case by (simp add: Cons.IH) (simp add: modify_by_def)
qed simp

section \<open>What a rollback treats as affected\<close>

lemma set_in_first_order: "set (in_first_order xs) = set xs"
proof -
  have "set (fold (\<lambda>x acc. if x \<in> set acc then acc else acc @ [x]) xs acc) = set acc \<union> set xs" for acc
    by (induction xs arbitrary: acc) auto
  then show ?thesis by (simp add: in_first_order_def)
qed

lemma set_map_filter: "set (List.map_filter f xs) = {y. \<exists>x \<in> set xs. f x = Some y}"
  by (induction xs) (auto simp: List.map_filter_def)

definition event_view :: "js_text_lib \<Rightarrow> chain_event \<Rightarrow> trade_view" where
  "event_view lib e = the (trade_view_of lib e)"

text \<open>A trade event with a ledger, by a wallet whose address has no colon.\<close>

definition good_event :: "js_text_lib \<Rightarrow> chain_event \<Rightarrow> bool" where
  "good_event lib e \<longleftrightarrow> trade_view_of lib e \<noteq> None \<and> CHR '':'' \<notin> set (tv_actor (event_view lib e)) \<and>
    tv_price (event_view lib e) < 2 ^ 53"

lemma views_good: "list_all (good_event lib) es \<Longrightarrow> views_of lib es = map (event_view lib) es"
  by (induction es) (auto simp: good_event_def event_view_def)

lemma good_core:
  assumes "good_event lib e"
  shows "ie_actor (event_core lib e) = Some (tv_actor (event_view lib e))"
    "ie_creatorId (event_core lib e) = Some (tv_creator (event_view lib e))"
    "is_trade (ie_eventType (event_core lib e))" "tv_actor (event_view lib e) \<noteq> []" "tv_creator (event_view lib e) \<noteq> []"
    "CHR '':'' \<notin> set (tv_actor (event_view lib e))"
    "ledger_of e = tv_ledger (event_view lib e)" "ce_ledger e \<noteq> None"
proof -
  obtain v where v: "trade_view_of lib e = Some v" using assms by (auto simp: good_event_def)
  then have ev: "event_view lib e = v" by (simp add: event_view_def)
  show "CHR '':'' \<notin> set (tv_actor (event_view lib e))" using assms by (simp add: good_event_def)
  from v show "ie_actor (event_core lib e) = Some (tv_actor (event_view lib e))"
    "ie_creatorId (event_core lib e) = Some (tv_creator (event_view lib e))"
    "is_trade (ie_eventType (event_core lib e))" "tv_actor (event_view lib e) \<noteq> []" "tv_creator (event_view lib e) \<noteq> []"
    "ledger_of e = tv_ledger (event_view lib e)" "ce_ledger e \<noteq> None"
    unfolding ev by (auto elim!: view_parts simp: event_core_def toIngestedEventFields_def Let_def text_or_null_def ledger_of_def)
qed

text \<open>The rows of a rollback, seen through the events they came from.\<close>

lemma rows_of_cores:
  assumes "mset (map core rs) = mset (map (event_core lib) fs)"
  shows "\<forall>r \<in> set rs. \<exists>e \<in> set fs. core r = event_core lib e" "\<forall>e \<in> set fs. \<exists>r \<in> set rs. core r = event_core lib e"
    "length rs = length fs"
proof -
  have "set (map core rs) = set (map (event_core lib) fs)" using assms by (rule mset_eq_setD)
  then have sets: "core ` set rs = event_core lib ` set fs" by simp
  show "\<forall>r \<in> set rs. \<exists>e \<in> set fs. core r = event_core lib e" using sets by (metis image_iff)
  show "\<forall>e \<in> set fs. \<exists>r \<in> set rs. core r = event_core lib e" using sets by (metis image_iff)
  show "length rs = length fs" using assms by (metis length_map size_mset)
qed

lemma affected_creators_set:
  assumes "mset (map core rs) = mset (map (event_core lib) fs)" "list_all (good_event lib) fs"
  shows "set (affected_creators rs) = tv_creator ` event_view lib ` set fs"
proof -
  note rows = rows_of_cores [OF assms(1)]
  have "c \<in> set (affected_creators rs) \<longleftrightarrow> (\<exists>e \<in> set fs. c = tv_creator (event_view lib e))" for c
  proof -
    have "c \<in> set (affected_creators rs) \<longleftrightarrow> c \<noteq> [] \<and> (\<exists>r \<in> set rs. ie_creatorId r = Some c)"
      by (auto simp: affected_creators_def set_in_first_order set_map_filter)
    also have "\<dots> \<longleftrightarrow> c \<noteq> [] \<and> (\<exists>r \<in> set rs. ie_creatorId (core r) = Some c)" by simp
    also have "\<dots> \<longleftrightarrow> c \<noteq> [] \<and> (\<exists>e \<in> set fs. ie_creatorId (event_core lib e) = Some c)" using rows by metis
    also have "\<dots> \<longleftrightarrow> (\<exists>e \<in> set fs. c = tv_creator (event_view lib e))"
      using good_core(2,5) assms(2) by (auto simp: list_all_iff)
    finally show ?thesis .
  qed
  then show ?thesis by auto
qed

lemma pair_text_inj:
  "x \<notin> set a \<Longrightarrow> x \<notin> set a' \<Longrightarrow> a @ [x] @ c = a' @ [x] @ c' \<Longrightarrow> a = a' \<and> c = c'"
  by (induction a arbitrary: a') (auto simp: Cons_eq_append_conv append_eq_Cons_conv)

definition pair_entry :: "string \<times> string \<times> string \<Rightarrow> bool" where
  "pair_entry p \<longleftrightarrow> fst p = fst (snd p) @ '':'' @ snd (snd p) \<and> CHR '':'' \<notin> set (fst (snd p))"

lemma add_pair_entries:
  assumes "ie_actor r = Some a" "ie_creatorId r = Some c" "is_trade (ie_eventType r)" "a \<noteq> []" "c \<noteq> []" "CHR '':'' \<notin> set a"
    "list_all pair_entry m"
  shows "list_all pair_entry (add_pair r m)" "set (map snd (add_pair r m)) = insert (a, c) (set (map snd m))"
proof -
  define k where "k = a @ '':'' @ c"
  have add: "add_pair r m = upsert_by fst k (\<lambda>_. (k, a, c)) (k, a, c) m"
    using assms(1-5) by (simp add: add_pair_def Let_def k_def)
  have entry: "pair_entry (k, a, c)" using assms(6) by (simp add: pair_entry_def k_def)
  have same: "p = (k, a, c)" if "p \<in> set m" "fst p = k" for p
  proof -
    have "pair_entry p" using assms(7) that by (simp add: list_all_iff)
    then have "fst (snd p) @ [CHR '':''] @ snd (snd p) = a @ [CHR '':''] @ c" "CHR '':'' \<notin> set (fst (snd p))"
      using that by (simp_all add: pair_entry_def k_def)
    then have "fst (snd p) = a \<and> snd (snd p) = c" using pair_text_inj assms(6) by metis
    then show ?thesis using that by (simp add: prod_eq_iff)
  qed
  have mod: "modify_by fst k (\<lambda>_. (k, a, c)) m = m"
    unfolding modify_by_def
  proof (rule map_idI)
    fix p assume "p \<in> set m"
    then show "(if fst p = k then (k, a, c) else p) = p" using same [of p] by metis
  qed
  show "list_all pair_entry (add_pair r m)"
    using assms(7) entry by (auto simp: add upsert_by_def mod insert_row_def split: option.split)
  have "find_by fst k m \<noteq> None \<longleftrightarrow> (k, a, c) \<in> set m"
    using same find_by_None_iff [of fst k m] by force
  then show "set (map snd (add_pair r m)) = insert (a, c) (set (map snd m))"
    by (auto simp: add upsert_by_def mod insert_row_def split: option.split intro: rev_image_eqI)
qed

lemma affected_pairs_set:
  assumes "mset (map core rs) = mset (map (event_core lib) fs)" "list_all (good_event lib) fs"
  shows "set (affected_pairs rs) = pair_of ` event_view lib ` set fs"
proof -
  note rows = rows_of_cores [OF assms(1)]
  define P where "P r \<longleftrightarrow> (\<exists>a c. ie_actor r = Some a \<and> ie_creatorId r = Some c \<and> is_trade (ie_eventType r) \<and> a \<noteq> [] \<and> c \<noteq> [] \<and>
    CHR '':'' \<notin> set a)" for r :: ingested_event
  have P: "P r" if "r \<in> set rs" for r
  proof -
    obtain e where e: "e \<in> set fs" "core r = event_core lib e" using rows(1) \<open>r \<in> set rs\<close> by blast
    then have "good_event lib e" using assms(2) by (simp add: list_all_iff)
    moreover have "ie_actor r = ie_actor (event_core lib e)" "ie_creatorId r = ie_creatorId (event_core lib e)"
        "ie_eventType r = ie_eventType (event_core lib e)"
      using e(2) core_simps(4-6) by metis+
    ultimately show ?thesis using good_core [of lib e] by (simp add: P_def)
  qed
  have all: "\<forall>r \<in> set rs. P r \<Longrightarrow> list_all pair_entry m \<Longrightarrow> set (map snd (fold add_pair rs m)) =
      set (map snd m) \<union> {(a, c). \<exists>r \<in> set rs. ie_actor r = Some a \<and> ie_creatorId r = Some c}" for m
  proof (induction rs arbitrary: m)
    case (Cons r rs)
    then obtain a c where r: "ie_actor r = Some a" "ie_creatorId r = Some c" "is_trade (ie_eventType r)" "a \<noteq> []" "c \<noteq> []"
        "CHR '':'' \<notin> set a"
      by (auto simp: P_def)
    note step = add_pair_entries [OF r Cons.prems(2)]
    show ?case using Cons.IH [OF _ step(1)] Cons.prems(1) step(2) r(1,2) by auto
  qed auto
  have mem: "k \<in> set (affected_pairs rs) \<longleftrightarrow> (\<exists>r \<in> set rs. ie_actor r = Some (fst k) \<and> ie_creatorId r = Some (snd k))" for k
    using all [of "[]"] P by (auto simp: affected_pairs_def)
  have core: "ie_actor r = Some (fst k) \<and> ie_creatorId r = Some (snd k) \<longleftrightarrow> k = pair_of (event_view lib e)"
    if "core r = event_core lib e" "e \<in> set fs" for r e k
  proof -
    have "ie_actor r = ie_actor (event_core lib e)" "ie_creatorId r = ie_creatorId (event_core lib e)"
      using that(1) core_simps(4,5) by metis+
    moreover have "good_event lib e" using assms(2) that(2) by (simp add: list_all_iff)
    ultimately show ?thesis using good_core(1,2) by (auto simp: pair_of_def prod_eq_iff)
  qed
  show ?thesis
  proof (rule set_eqI)
    fix k
    have "k \<in> set (affected_pairs rs) \<longleftrightarrow> (\<exists>e \<in> set fs. k = pair_of (event_view lib e))"
      unfolding mem using rows(1,2) core by meson
    then show "k \<in> set (affected_pairs rs) \<longleftrightarrow> k \<in> pair_of ` event_view lib ` set fs" by auto
  qed
qed

section \<open>The tables follow the chain\<close>

text \<open>The tables after the ledgers \<open>hs\<close> with the events \<open>es\<close>, and nothing else.\<close>

definition chain_ok :: "trade_env \<Rightarrow> chain_event list \<Rightarrow> ledger_header list \<Rightarrow> chain_db \<Rightarrow> bool" where
  "chain_ok env es hs db \<longleftrightarrow> list_all (good_event (te_lib env)) es \<and>
    list_all (\<lambda>e. tv_creator (event_view (te_lib env) e) \<in> pf_id ` set (db_profiles (cd_books db))) es \<and>
    books_ok (te_milestones env) (map (event_view (te_lib env)) es) (cd_books db) \<and>
    log_ok (te_lib env) es (cd_ingested db) \<and>
    map (\<lambda>c. (cp_ledger c, cp_ledgerHash c)) (cd_checkpoints db) = map (\<lambda>h. (lh_sequence h, Some (lh_hash h))) hs"

text \<open>Trades arrive in the order of their instants, and few enough keys are traded.\<close>

definition timely :: "js_text_lib \<Rightarrow> chain_event list \<Rightarrow> bool" where
  "timely lib es \<longleftrightarrow> sorted (map tv_at (map (event_view lib) es)) \<and> volume (map (event_view lib) es) < 2 ^ 53"

lemma good_views:
  assumes "list_all (good_event lib) es"
  shows "list_all proper_view (map (event_view lib) es)" "list_all (\<lambda>v. tv_price v < 2 ^ 53) (map (event_view lib) es)"
  using assms by (auto simp: list_all_iff good_event_def event_view_def proper_view_of)

lemma upto_views:
  assumes "list_all (good_event lib) es"
  shows "kept fork (map (event_view lib) es) = map (event_view lib) (filter (\<lambda>e. ledger_of e \<le> fork) es)"
    "filter (beyond_view fork) (map (event_view lib) es) = map (event_view lib) (filter (\<lambda>e. fork < ledger_of e) es)"
  using assms by (induction es) (auto simp: beyond_view_def good_core)

lemma volume_upto: "list_all proper_view vs \<Longrightarrow> volume vs < 2 ^ 53 \<Longrightarrow> volume (filter P vs) < 2 ^ 53"
  using volume_filter by (rule order_le_less_trans)

lemma own_ok_restored:
  assumes own: "own_ok vs own" and ks: "set ks = pair_of ` set (filter (beyond_view fork) vs)"
    and ks': "\<forall>k. holding_of k own' = (if k \<in> set ks then held k (kept fork vs) else holding_of k own)"
    and keys: "distinct (keys_of own')" "set (keys_of own) \<subseteq> set (keys_of own')"
  shows "own_ok (kept fork vs) own'"
proof -
  have "holding_of k own' = held k (kept fork vs)" for k
  proof (cases "k \<in> set ks")
    case False
    then have "held k (kept fork vs) = held k vs" using ks by (intro held_upto) simp
    with False ks' own show ?thesis unfolding own_ok_def by metis
  qed (use ks' in metis)
  moreover have "pair_of ` set (kept fork vs) \<subseteq> set (keys_of own')"
  proof -
    have "pair_of ` set (kept fork vs) \<subseteq> pair_of ` set vs" by auto
    also have "\<dots> \<subseteq> set (keys_of own)" using own by (simp add: own_ok_def)
    finally show ?thesis using keys(2) by (rule subset_trans)
  qed
  ultimately show ?thesis using keys by (simp add: own_ok_def)
qed

lemma profiles_restored:
  assumes "list_all (profile_ok ms vs) ps" "set cs = tv_creator ` set (filter (beyond_view fork) vs)"
  shows "list_all (profile_ok ms (kept fork vs))
    (map (\<lambda>p. if pf_id p \<in> set cs then settled ms (kept fork vs) p else p) ps)"
proof -
  have "profile_ok ms (kept fork vs) p" if "profile_ok ms vs p" "pf_id p \<notin> set cs" for p
  proof -
    have "net (of_creator (pf_id p)) (kept fork vs) = net (of_creator (pf_id p)) vs"
      using that(2) assms(2) by (intro net_upto) simp
    with that(1) show ?thesis by (simp add: profile_ok_def)
  qed
  with assms(1) show ?thesis by (auto simp: list_all_iff settled_ok)
qed

lemma rolled_books_ok:
  assumes books: "books_ok (te_milestones env) vs db" and lib: "number_reads_integers (te_lib env)"
    and vs: "list_all proper_view vs" "list_all (\<lambda>v. tv_price v < 2 ^ 53) vs" "sorted (map tv_at vs)" "volume vs < 2 ^ 53"
    and cs: "set (affected_creators rs) = tv_creator ` set (filter (beyond_view fork) vs)"
    and ks: "set (affected_pairs rs) = pair_of ` set (filter (beyond_view fork) vs)"
    and reg: "tv_creator ` set vs \<subseteq> pf_id ` set (db_profiles db)"
  shows "\<exists>db'. rolled_books env rs fork db = Inr db' \<and> books_ok (te_milestones env) (kept fork vs) db' \<and>
    map pf_id (db_profiles db') = map pf_id (db_profiles db)"
proof -
  let ?lib = "te_lib env" and ?ms = "te_milestones env" and ?ws = "kept fork vs" and ?cs = "affected_creators rs"
  have ws: "list_all proper_view ?ws" "list_all (\<lambda>v. tv_price v < 2 ^ 53) ?ws" "sorted (map tv_at ?ws)" "volume ?ws < 2 ^ 53"
    using vs volume_upto [OF vs(1,4)] sorted_map_filter [OF vs(3)] by (auto simp: list_all_iff)
  define b1 where "b1 = db\<lparr>db_activities := filter (\<lambda>a. \<not> beyond fork a) (db_activities db)\<rparr>"
  define b2 where "b2 = fold (restore_prices rs) ?cs b1"
  define b3 where "b3 = fold (restore_pair ?lib rs) (affected_pairs rs) b2"
  have log: "list_all2 records (trade_log b1) ?ws"
    using trade_log_rolled [OF _ vs(1)] books by (simp add: b1_def books_ok_def)
  have b2: "db_own b2 = db_own db" "db_activities b2 = db_activities b1" "db_profiles b2 = db_profiles db"
    using restore_prices_fold [of rs ?cs b1] by (simp_all add: b2_def) (simp_all add: b1_def)
  have "\<forall>k \<in> set (affected_pairs rs).
      foldl (\<lambda>h a. replay_activity ?lib a h) flat (pair_activities (fst k) (snd k) (db_activities b2)) = held k ?ws"
    using rebuilt_is_held [OF lib _ ws] log by (simp add: b2)
  note pairs = restore_pairs [OF this, of rs, folded b3_def]
  have own: "own_ok ?ws (db_own b3)"
  proof (rule own_ok_restored [OF _ ks])
    show "own_ok vs (db_own db)" using books by (simp add: books_ok_def)
    then have "distinct (keys_of (db_own b2))" by (simp add: b2 own_ok_def)
    with pairs show "distinct (keys_of (db_own b3))" by blast
  qed (use pairs in \<open>simp_all only: b2 simp_thms\<close>)
  have b3: "db_activities b3 = db_activities b1" "db_profiles b3 = db_profiles db" using pairs by (simp_all add: b2)
  let ?ps = "map (\<lambda>p. if pf_id p \<in> set ?cs then settled ?ms ?ws p else p) (db_profiles db)"
  have "\<forall>c \<in> set ?cs. c \<in> pf_id ` set (db_profiles b3)" using reg by (auto simp: cs b3)
  then have "recompute_supplies env ?cs b3 = Inr (b3\<lparr>db_profiles := ?ps\<rparr>)"
    using recompute_supplies_ok [OF _ ws(1,4), of b3 ?cs env] log b3 by (simp add: fold_settled)
  then have "rolled_books env rs fork db = Inr (b3\<lparr>db_profiles := ?ps\<rparr>)"
    by (simp add: rolled_books_def Let_def b3_def b2_def b1_def)
  moreover have ids: "map pf_id ?ps = map pf_id (db_profiles db)" by simp
  moreover have "books_ok ?ms ?ws (b3\<lparr>db_profiles := ?ps\<rparr>)"
    unfolding books_ok_def using own log profiles_restored [OF _ cs, of ?ms "db_profiles db"] books
    by (simp add: b3 ids books_ok_def del: map_map)
  ultimately show ?thesis by auto
qed

lemma rollback_follows_chain:
  assumes ok: "chain_ok env es hs db" and time: "timely (te_lib env) es" and lib: "number_reads_integers (te_lib env)"
  shows "\<exists>db'. rollbackToLedger env now fork db =
      (Inr (length (filter (\<lambda>h. fork < lh_sequence h) hs), length (filter (\<lambda>e. fork < ledger_of e) es)), db') \<and>
    chain_ok env (filter (\<lambda>e. ledger_of e \<le> fork) es) (filter (\<lambda>h. lh_sequence h \<le> fork) hs) db' \<and>
    map pf_id (db_profiles (cd_books db')) = map pf_id (db_profiles (cd_books db))"
proof -
  let ?lib = "te_lib env" and ?gone = "filter (\<lambda>e. fork < ledger_of e) es" and ?vs = "map (event_view (te_lib env)) es"
  have good: "list_all (good_event ?lib) es" and log: "log_ok ?lib es (cd_ingested db)"
    and books: "books_ok (te_milestones env) ?vs (cd_books db)"
    and reg: "list_all (\<lambda>e. tv_creator (event_view ?lib e) \<in> pf_id ` set (db_profiles (cd_books db))) es"
    and cps: "map (\<lambda>c. (cp_ledger c, cp_ledgerHash c)) (cd_checkpoints db) = map (\<lambda>h. (lh_sequence h, Some (lh_hash h))) hs"
    using ok by (simp_all add: chain_ok_def)
  have good_gone: "list_all (good_event ?lib) ?gone" using good by (simp add: list_all_iff)
  note parts = upto_views [OF good, of fork]
  define rs where "rs = filter (reorged_event fork) (cd_ingested db)"
  have rs: "mset (map core rs) = mset (map (event_core ?lib) ?gone)" unfolding rs_def by (rule reorged_cores [OF log])
  have affected: "set (affected_creators rs) = tv_creator ` set (filter (beyond_view fork) ?vs)"
      "set (affected_pairs rs) = pair_of ` set (filter (beyond_view fork) ?vs)"
    using affected_creators_set [OF rs good_gone] affected_pairs_set [OF rs good_gone] by (simp_all only: parts(2) set_map)
  have "tv_creator ` set ?vs \<subseteq> pf_id ` set (db_profiles (cd_books db))" using reg by (auto simp: list_all_iff)
  then obtain b where b: "rolled_books env rs fork (cd_books db) = Inr b" "books_ok (te_milestones env) (kept fork ?vs) b"
      "map pf_id (db_profiles b) = map pf_id (db_profiles (cd_books db))"
    using rolled_books_ok [OF books lib good_views [OF good] _ _ affected] time by (auto simp: timely_def)
  have heads: "map (\<lambda>c. (cp_ledger c, cp_ledgerHash c)) (filter (\<lambda>c. P (cp_ledger c)) (cd_checkpoints db)) =
      map (\<lambda>h. (lh_sequence h, Some (lh_hash h))) (filter (\<lambda>h. P (lh_sequence h)) hs)" for P
    using arg_cong [OF cps, of "filter (\<lambda>x. P (fst x))"] by (simp add: filter_map o_def)
  then have lens: "length (filter (\<lambda>c. fork < cp_ledger c) (cd_checkpoints db)) = length (filter (\<lambda>h. fork < lh_sequence h) hs)"
    by (metis length_map)
  have ids: "pf_id ` set (db_profiles b) = pf_id ` set (db_profiles (cd_books db))" using b(3) by (metis set_map)
  show ?thesis
    using good reg b log_ok_mark [OF log] heads [of "\<lambda>l. l \<le> fork"] ids rows_of_cores(3) [OF rs] lens
    by (simp add: rollbackToLedger_def Let_def rs_def [symmetric] chain_ok_def parts(1) list_all_iff)
qed

section \<open>Following the chain forward\<close>

lemma dedupe_distinct: "distinct (map getChainEventId es) \<Longrightarrow> dedupeChainEvents es = es"
proof -
  have "distinct (map getChainEventId es) \<Longrightarrow> getChainEventId ` set es \<inter> seen = {} \<Longrightarrow> dedupe_from seen es = es" for seen
    by (induction es arbitrary: seen) (auto simp: Let_def)
  then show "distinct (map getChainEventId es) \<Longrightarrow> dedupeChainEvents es = es" by (simp add: dedupeChainEvents_def)
qed

lemma distinct_keys: "distinct (map getChainEventId es) \<Longrightarrow> distinct (map chain_key es)"
proof -
  have "map getChainEventId es = map (\<lambda>(t, i). t @ '':'' @ show_int i) (map chain_key es)"
    by (simp add: getChainEventId_def chain_key_def)
  then show "distinct (map getChainEventId es) \<Longrightarrow> distinct (map chain_key es)" by (metis distinct_map)
qed

text \<open>A ledger of the chain: its events are trades of registered creators, in this ledger, not seen before.\<close>

definition good_ledger :: "trade_env \<Rightarrow> string set \<Rightarrow> ledger_header \<times> chain_event list \<Rightarrow> bool" where
  "good_ledger env creators l \<longleftrightarrow> list_all (\<lambda>e. good_event (te_lib env) e \<and>
    tv_creator (event_view (te_lib env) e) \<in> creators \<and> ledger_of e = lh_sequence (fst l)) (snd l)"

definition creators_of :: "chain_db \<Rightarrow> string set" where
  "creators_of db = pf_id ` set (db_profiles (cd_books db))"

lemma good_ledger_views:
  assumes "good_ledger env (creators_of db) (h, fs)"
  shows "\<forall>e \<in> set fs. \<exists>v. trade_view_of (te_lib env) e = Some v \<and> tv_creator v \<in> pf_id ` set (db_profiles (cd_books db))"
proof
  fix e assume "e \<in> set fs"
  then have e: "good_event (te_lib env) e" "tv_creator (event_view (te_lib env) e) \<in> creators_of db"
    using assms by (auto simp: good_ledger_def list_all_iff)
  then obtain v where "trade_view_of (te_lib env) e = Some v" by (auto simp: good_event_def)
  with e show "\<exists>v. trade_view_of (te_lib env) e = Some v \<and> tv_creator v \<in> pf_id ` set (db_profiles (cd_books db))"
    by (simp add: event_view_def creators_of_def)
qed

lemma record_follows_chain:
  assumes ok: "chain_ok env es hs db" and deps: "ld_process deps = processTradeEvents env now' writeOk adv"
    and l: "good_ledger env (creators_of db) (h, fs)" and time: "timely (te_lib env) (es @ fs)"
    and ids: "distinct (map getChainEventId (es @ fs))" and fresh: "lh_sequence h \<notin> lh_sequence ` set hs"
  shows "\<exists>db'. process_and_record env sha now deps h fs db = (Inr (), db') \<and> chain_ok env (es @ fs) (hs @ [h]) db' \<and>
    creators_of db' = creators_of db"
proof -
  let ?lib = "te_lib env" and ?vs = "map (event_view (te_lib env)) es"
  have good: "list_all (good_event ?lib) fs" and reg: "\<forall>e \<in> set fs. tv_creator (event_view ?lib e) \<in> creators_of db"
    using l by (auto simp: good_ledger_def list_all_iff)
  have es: "list_all (good_event ?lib) es" "list_all (\<lambda>e. tv_creator (event_view ?lib e) \<in> creators_of db) es"
    and books: "books_ok (te_milestones env) ?vs (cd_books db)" and log: "log_ok ?lib es (cd_ingested db)"
    and cps: "map (\<lambda>c. (cp_ledger c, cp_ledgerHash c)) (cd_checkpoints db) = map (\<lambda>h. (lh_sequence h, Some (lh_hash h))) hs"
    using ok by (simp_all add: chain_ok_def creators_of_def)
  have d: "dedupeChainEvents fs = fs" using ids by (intro dedupe_distinct) simp
  have views: "views_of ?lib fs = map (event_view ?lib) fs" by (rule views_good [OF good])
  note good_ledger_views [OF l]
  then obtain b where b: "processTradeEvents env now' writeOk adv fs (cd_books db) = (Inr (), b)"
      "map pf_id (db_profiles b) = map pf_id (db_profiles (cd_books db))"
      "books_ok (te_milestones env) (map (event_view ?lib) (es @ fs)) b"
    using process_batch [OF books good_views(1) [OF es(1)], of fs now' writeOk adv] time by (auto simp: d views timely_def)
  have pf: "pf_id ` set (db_profiles b) = creators_of db" using b(2) by (metis creators_of_def set_map)
  have "\<forall>e \<in> set fs. ce_ledger e \<noteq> None" using good good_core(8) by (auto simp: list_all_iff)
  then have log': "log_ok ?lib (es @ fs) (fold (\<lambda>e. upsert_event (toIngestedEventFields ?lib e h)) fs (cd_ingested db))"
    using log_ok_upserts [OF log] distinct_keys [OF ids] by blast
  have "map cp_ledger (cd_checkpoints db) = map lh_sequence hs"
    using arg_cong [OF cps, of "map fst"] by (simp add: o_def)
  then have "find_by cp_ledger (lh_sequence h) (cd_checkpoints db) = None"
    using fresh by (metis find_by_None_iff set_map)
  then have "chain_ok env (es @ fs) (hs @ [h]) (recordLedgerIngestion ?lib sha now h fs (db\<lparr>cd_books := b\<rparr>))"
    using es good reg b(3) log' cps
    by (simp add: chain_ok_def recordLedgerIngestion_def Let_def d pf upsert_by_def insert_row_def list_all_iff ball_Un)
  moreover have "creators_of (recordLedgerIngestion ?lib sha now h fs (db\<lparr>cd_books := b\<rparr>)) = creators_of db"
    using pf by (simp add: recordLedgerIngestion_def Let_def creators_of_def)
  ultimately show ?thesis by (simp add: process_and_record_def deps b(1))
qed

section \<open>The fork point is the last ledger in common\<close>

lemma walk_back_stops:
  assumes "\<forall>c \<in> set xs. incoming_hash h f (cp_ledger c) \<noteq> None \<and> incoming_hash h f (cp_ledger c) \<noteq> cp_ledgerHash c"
    "incoming_hash h f (cp_ledger d) = cp_ledgerHash d"
  shows "walk_back h f (xs @ d # ys) oldest = cp_ledger d"
  using assms by (induction xs) (auto simp: Let_def)

lemma descending_split:
  assumes "d \<in> set cs" "distinct (map key cs)"
  obtains xs ys where "rev (sort_key key cs) = xs @ d # ys" "set xs = {c \<in> set cs. (key d :: int) < key c}" "distinct xs"
proof -
  have "d \<in> set (rev (sort_key key cs))" using assms(1) by simp
  then obtain xs ys where split: "rev (sort_key key cs) = xs @ d # ys" by (meson split_list)
  have dist: "distinct (map key (xs @ d # ys))"
    unfolding split [symmetric] using assms(2) by (simp add: rev_map [symmetric] distinct_map)
  have "sorted (rev (map key (xs @ d # ys)))"
    unfolding split [symmetric] by (simp add: rev_map)
  then have order: "\<forall>x \<in> set xs. key d \<le> key x" "\<forall>y \<in> set ys. key y \<le> key d"
    by (auto simp: sorted_append)
  have "set cs = set (xs @ d # ys)" unfolding split [symmetric] by simp
  moreover have "\<forall>x \<in> set xs. key d \<noteq> key x" using dist by auto
  ultimately have "set xs = {c \<in> set cs. key d < key c}" using order by force
  moreover have "distinct xs" using dist by (simp add: distinct_map)
  ultimately show thesis using split that by blast
qed

lemma fork_point_is_last_agreement:
  assumes d: "d \<in> set cps" "cp_ledger d < lh_sequence h" "incoming_hash h f (cp_ledger d) = cp_ledgerHash d"
    and diff: "\<forall>c \<in> set cps. cp_ledger d < cp_ledger c \<and> cp_ledger c < lh_sequence h \<longrightarrow>
      incoming_hash h f (cp_ledger c) \<noteq> None \<and> incoming_hash h f (cp_ledger c) \<noteq> cp_ledgerHash c"
    and near: "lh_sequence h - cp_ledger d \<le> int MAX_FORK_WALKBACK_LEDGERS" and dist: "distinct (map cp_ledger cps)"
  shows "findForkPoint h f cps = cp_ledger d"
proof -
  let ?cs = "filter (\<lambda>c. cp_ledger c < lh_sequence h) cps"
  have cs: "d \<in> set ?cs" "distinct (map cp_ledger ?cs)" using d dist by (simp_all add: distinct_map_filter)
  obtain xs ys where xs: "rev (sort_key cp_ledger ?cs) = xs @ d # ys" "set xs = {c \<in> set ?cs. cp_ledger d < cp_ledger c}" "distinct xs"
    by (rule descending_split [OF cs])
  have "inj_on cp_ledger (set xs)" using dist xs(2) by (auto simp: distinct_map inj_on_def)
  moreover have "cp_ledger ` set xs \<subseteq> {cp_ledger d + 1..lh_sequence h - 1}"
  proof
    fix l assume "l \<in> cp_ledger ` set xs"
    then have "cp_ledger d < l" "l < lh_sequence h" unfolding xs(2) by auto
    then show "l \<in> {cp_ledger d + 1..lh_sequence h - 1}" by simp
  qed
  ultimately have "card (set xs) \<le> card {cp_ledger d + 1..lh_sequence h - 1}" by (intro card_inj_on_le) auto
  then have "length xs < MAX_FORK_WALKBACK_LEDGERS" using near d(2) xs(3) by (simp add: distinct_card)
  then obtain k where "MAX_FORK_WALKBACK_LEDGERS - length xs = Suc k" by (metis Suc_diff_Suc)
  then have stored: "stored_before (lh_sequence h) cps = xs @ d # take k ys"
    unfolding stored_before_def xs(1) take_append by (simp only: take_Suc_Cons) (simp add: \<open>length xs < MAX_FORK_WALKBACK_LEDGERS\<close> less_imp_le)
  have "\<forall>c \<in> set xs. incoming_hash h f (cp_ledger c) \<noteq> None \<and> incoming_hash h f (cp_ledger c) \<noteq> cp_ledgerHash c"
    using xs(2) diff by auto
  then show ?thesis by (simp add: findForkPoint_def Let_def stored walk_back_stops d(3))
qed

section \<open>Chains of ledgers\<close>

type_synonym chain = "(ledger_header \<times> chain_event list) list"

abbreviation headers :: "chain \<Rightarrow> ledger_header list" where
  "headers ls \<equiv> map fst ls"

abbreviation events_of :: "chain \<Rightarrow> chain_event list" where
  "events_of ls \<equiv> concat (map snd ls)"

text \<open>
  A chain the network could have produced: consecutive ledgers that name the hash of their parent, with
  trades that were not seen before.
\<close>

fun linked :: "ledger_header list \<Rightarrow> bool" where
  "linked (a # b # hs) \<longleftrightarrow> lh_sequence b = lh_sequence a + 1 \<and> lh_hash a \<noteq> [] \<and> lh_previous b = Some (lh_hash a) \<and> linked (b # hs)"
| "linked _ \<longleftrightarrow> True"

definition good_chain :: "trade_env \<Rightarrow> string set \<Rightarrow> chain \<Rightarrow> bool" where
  "good_chain env creators ls \<longleftrightarrow> list_all (good_ledger env creators) ls \<and> timely (te_lib env) (events_of ls) \<and>
    distinct (map getChainEventId (events_of ls)) \<and> linked (headers ls)"

lemma linked_sequences:
  "linked hs \<Longrightarrow> map lh_sequence hs = (case hs of [] \<Rightarrow> [] | h # _ \<Rightarrow> [lh_sequence h..lh_sequence h + int (length hs) - 1])"
proof (induction hs rule: linked.induct)
  case (1 a b hs)
  then have "map lh_sequence (b # hs) = [lh_sequence a + 1..lh_sequence a + int (length (a # b # hs)) - 1]"
    by (simp add: algebra_simps)
  then show ?case by (simp add: upto_rec1 [of "lh_sequence a"])
qed simp_all

lemma linked_append: "linked (xs @ ys) \<Longrightarrow> linked xs \<and> linked ys"
  by (induction xs rule: linked.induct) (auto elim: linked.elims)

lemma linked_distinct: "linked hs \<Longrightarrow> distinct (map lh_sequence hs)"
  by (simp add: linked_sequences split: list.split)

lemma timely_append: "list_all (good_event lib) es \<Longrightarrow> list_all (good_event lib) fs \<Longrightarrow> timely lib (es @ fs) \<Longrightarrow> timely lib es"
  using volume_nonneg [OF good_views(1)] by (force simp: timely_def sorted_append)

lemma good_chain_events: "good_chain env creators ls \<Longrightarrow> list_all (good_event (te_lib env)) (events_of ls)"
  by (auto simp: good_chain_def good_ledger_def list_all_iff)

lemma good_chain_prefix: "good_chain env creators (xs @ ys) \<Longrightarrow> good_chain env creators xs"
  using good_chain_events [of env creators "xs @ ys"] timely_append linked_append [of "headers xs" "headers ys"]
  by (auto simp: good_chain_def)

lemma good_chain_ledgers:
  "good_chain env creators ls \<Longrightarrow> l \<in> set ls \<Longrightarrow> e \<in> set (snd l) \<Longrightarrow> ledger_of e = lh_sequence (fst l)"
  by (auto simp: good_chain_def good_ledger_def list_all_iff)

text \<open>Re-ingesting canonical ledgers after a rollback.\<close>

lemma reingest_follows_chain:
  assumes "chain_ok env (events_of ls) (headers ls) db" "good_chain env (creators_of db) (ls @ ms)"
    "\<forall>m \<in> set ms. fetchHeader (lh_sequence (fst m)) = Some (fst m) \<and> fetchEvents (lh_sequence (fst m)) = snd m"
    "ld_process deps = processTradeEvents env now' writeOk adv"
  shows "\<exists>db'. reingest env sha now deps fetchHeader fetchEvents (map lh_sequence (headers ms)) db =
      (Inr (map lh_sequence (headers ms)), db') \<and>
    chain_ok env (events_of (ls @ ms)) (headers (ls @ ms)) db' \<and> creators_of db' = creators_of db"
  using assms(1-3)
proof (induction ms arbitrary: ls db)
  case (Cons m ms)
  obtain h fs where m: "m = (h, fs)" by fastforce
  have good: "good_chain env (creators_of db) ((ls @ [m]) @ ms)" using Cons.prems(2) by simp
  then have pre: "good_chain env (creators_of db) (ls @ [m])" by (rule good_chain_prefix)
  then have "lh_sequence h \<notin> lh_sequence ` set (headers ls)"
    using linked_distinct [of "headers (ls @ [m])"] by (auto simp: good_chain_def m)
  then obtain db1 where db1: "process_and_record env sha now deps h fs db = (Inr (), db1)"
      "chain_ok env (events_of (ls @ [m])) (headers (ls @ [m])) db1" "creators_of db1 = creators_of db"
    using record_follows_chain [OF Cons.prems(1) assms(4), where h = h and fs = fs and sha = sha and now = now] pre
    by (auto simp: good_chain_def m)
  have "fetchHeader (lh_sequence h) = Some h" "fetchEvents (lh_sequence h) = fs" using Cons.prems(3) by (simp_all add: m)
  moreover obtain db2 where "reingest env sha now deps fetchHeader fetchEvents (map lh_sequence (headers ms)) db1 =
      (Inr (map lh_sequence (headers ms)), db2)"
      "chain_ok env (events_of ((ls @ [m]) @ ms)) (headers ((ls @ [m]) @ ms)) db2" "creators_of db2 = creators_of db1"
    using Cons.IH [OF db1(2)] good Cons.prems(3) by (auto simp: db1(3))
  ultimately show ?case using db1 by (simp add: m)
qed simp

text \<open>The reaction to a reorganisation brings the tables to the canonical chain.\<close>

lemma stored_ledgers:
  assumes "chain_ok env es hs db"
  shows "map cp_ledger (cd_checkpoints db) = map lh_sequence hs"
    "c \<in> set (cd_checkpoints db) \<Longrightarrow> \<exists>h \<in> set hs. cp_ledger c = lh_sequence h \<and> cp_ledgerHash c = Some (lh_hash h)"
    "h \<in> set hs \<Longrightarrow> \<exists>c \<in> set (cd_checkpoints db). cp_ledger c = lh_sequence h \<and> cp_ledgerHash c = Some (lh_hash h)"
proof -
  have cps: "map (\<lambda>c. (cp_ledger c, cp_ledgerHash c)) (cd_checkpoints db) = map (\<lambda>h. (lh_sequence h, Some (lh_hash h))) hs"
    using assms by (simp add: chain_ok_def)
  show "map cp_ledger (cd_checkpoints db) = map lh_sequence hs" using arg_cong [OF cps, of "map fst"] by (simp add: o_def)
  have sets: "(\<lambda>c. (cp_ledger c, cp_ledgerHash c)) ` set (cd_checkpoints db) = (\<lambda>h. (lh_sequence h, Some (lh_hash h))) ` set hs"
    using arg_cong [OF cps, of set] by simp
  show "\<exists>h \<in> set hs. cp_ledger c = lh_sequence h \<and> cp_ledgerHash c = Some (lh_hash h)" if "c \<in> set (cd_checkpoints db)"
  proof -
    have "(cp_ledger c, cp_ledgerHash c) \<in> (\<lambda>h. (lh_sequence h, Some (lh_hash h))) ` set hs" using sets that by blast
    then show ?thesis by auto
  qed
  show "\<exists>c \<in> set (cd_checkpoints db). cp_ledger c = lh_sequence h \<and> cp_ledgerHash c = Some (lh_hash h)" if "h \<in> set hs"
  proof -
    have "(lh_sequence h, Some (lh_hash h)) \<in> (\<lambda>c. (cp_ledger c, cp_ledgerHash c)) ` set (cd_checkpoints db)" using sets that by blast
    then show ?thesis by auto
  qed
qed

text \<open>
  A reorganisation: the tables follow \<open>trunk @ abandoned\<close>, the network follows \<open>trunk @ canonical\<close> and the
  incoming ledger \<open>incoming\<close> is the next one there. Both branches are not empty, the abandoned one reaches
  the parent of the incoming ledger, and no ledger is on both.
\<close>

definition forked :: "trade_env \<Rightarrow> string set \<Rightarrow> chain \<Rightarrow> chain \<Rightarrow> chain \<Rightarrow> ledger_header \<times> chain_event list \<Rightarrow> bool" where
  "forked env creators trunk abandoned canonical incoming \<longleftrightarrow>
    good_chain env creators (trunk @ abandoned) \<and> good_chain env creators (trunk @ canonical @ [incoming]) \<and>
    trunk \<noteq> [] \<and> canonical \<noteq> [] \<and> length canonical \<le> length abandoned \<and>
    length canonical < MAX_FORK_WALKBACK_LEDGERS \<and>
    list_all (\<lambda>h. list_all (\<lambda>h'. lh_sequence h = lh_sequence h' \<longrightarrow> lh_hash h \<noteq> lh_hash h') (headers canonical)) (headers abandoned) \<and>
    list_all (\<lambda>h. lh_hash h \<noteq> []) (headers abandoned)"

text \<open>The sources of the canonical chain know its ledgers.\<close>

definition serves :: "fetch_header \<Rightarrow> (int \<Rightarrow> chain_event list) \<Rightarrow> chain \<Rightarrow> bool" where
  "serves fetchHeader fetchEvents ls \<longleftrightarrow>
    list_all (\<lambda>l. fetchHeader (lh_sequence (fst l)) = Some (fst l) \<and> fetchEvents (lh_sequence (fst l)) = snd l) ls"

lemma linked_tail:
  assumes "linked (xs @ ys)" "xs \<noteq> []"
  shows "map lh_sequence ys = [lh_sequence (last xs) + 1..lh_sequence (last xs) + int (length ys)]"
    "x \<in> set xs \<Longrightarrow> lh_sequence x \<le> lh_sequence (last xs)" "linked (last xs # ys)"
proof -
  have "linked (butlast xs @ (last xs # ys))"
    using assms by (metis append.assoc append_Cons append_Nil append_butlast_last_id)
  then show l: "linked (last xs # ys)" by (blast dest: linked_append)
  have "map lh_sequence (last xs # ys) = [lh_sequence (last xs)..lh_sequence (last xs) + int (length ys)]"
    using linked_sequences [OF l] by simp
  then show "map lh_sequence ys = [lh_sequence (last xs) + 1..lh_sequence (last xs) + int (length ys)]"
    by (simp add: upto_rec1)
  have "linked xs" using assms(1) by (blast dest: linked_append)
  then have "\<forall>x \<in> set xs. lh_sequence x \<le> lh_sequence (last xs)"
    by (induction xs rule: linked.induct) fastforce+
  then show "x \<in> set xs \<Longrightarrow> lh_sequence x \<le> lh_sequence (last xs)" by simp
qed

section \<open>Recovery\<close>

text \<open>The sequences of the two branches.\<close>

lemma forked_sequences:
  assumes "forked env creators trunk abandoned canonical incoming"
  defines "L \<equiv> lh_sequence (fst (last trunk))" and "m \<equiv> int (length canonical)"
  shows "h \<in> set (headers trunk) \<Longrightarrow> lh_sequence h \<le> L" 
    "h \<in> set (headers abandoned) \<Longrightarrow> L < lh_sequence h"
    "map lh_sequence (headers canonical) = [L + 1..L + m]" "lh_sequence (fst incoming) = L + m + 1"
    "lh_previous (fst incoming) = Some (lh_hash (fst (last canonical)))" "lh_sequence (fst (last canonical)) = L + m"
    "lh_hash (fst (last canonical)) \<noteq> []" "1 \<le> m"
    "\<exists>h \<in> set (headers abandoned). lh_sequence h = L + m"
proof -
  have trunk: "headers trunk \<noteq> []" "last (headers trunk) = fst (last trunk)"
    and canonical: "headers canonical \<noteq> []" "last (headers canonical) = fst (last canonical)"
    using assms(1) by (auto simp: forked_def last_map)
  have a: "linked (headers trunk @ headers abandoned)" and c: "linked (headers trunk @ headers canonical @ [fst incoming])"
    using assms(1) by (simp_all add: forked_def good_chain_def)
  note ta = linked_tail [OF a trunk(1), unfolded trunk(2), folded L_def]
  note tc = linked_tail [OF c trunk(1), unfolded trunk(2), folded L_def]
  show m: "1 \<le> m" using canonical by (cases canonical) (auto simp: m_def)
  show "h \<in> set (headers trunk) \<Longrightarrow> lh_sequence h \<le> L" by (rule ta(2))
  show "L < lh_sequence h" if "h \<in> set (headers abandoned)"
  proof -
    have "lh_sequence h \<in> set (map lh_sequence (headers abandoned))" using that by auto
    then show ?thesis unfolding ta(1) by simp
  qed
  have all: "map lh_sequence (headers canonical) @ [lh_sequence (fst incoming)] = [L + 1..L + m] @ [L + m + 1]"
  proof -
    have "map lh_sequence (headers canonical) @ [lh_sequence (fst incoming)] = [L + 1..L + m + 1]"
      using tc(1) by (simp add: m_def ac_simps)
    also have "\<dots> = [L + 1..L + m] @ [L + m + 1]" using m upto_rec2 [of "L + 1" "L + m + 1"] by simp
    finally show ?thesis .
  qed
  then show seqs: "map lh_sequence (headers canonical) = [L + 1..L + m]" and "lh_sequence (fst incoming) = L + m + 1" by simp_all
  have "linked (last (headers canonical) # [fst incoming])"
    using linked_tail(3) [OF _ canonical(1), of "[fst incoming]"] c by (blast dest: linked_append)
  then show "lh_previous (fst incoming) = Some (lh_hash (fst (last canonical)))" "lh_hash (fst (last canonical)) \<noteq> []"
    "lh_sequence (fst (last canonical)) = L + m"
    using all by (simp_all add: canonical(2))
  have "m \<le> int (length abandoned)" using assms(1) by (simp add: forked_def m_def)
  then have "L + m \<in> set (map lh_sequence (headers abandoned))" using m unfolding ta(1) by simp
  then show "\<exists>h \<in> set (headers abandoned). lh_sequence h = L + m" by force
qed

lemma incoming_hash_canonical:
  assumes f: "forked env creators trunk abandoned canonical incoming" and s: "serves fetchHeader fetchEvents canonical"
    and q: "q \<in> set (headers canonical)"
  shows "incoming_hash (fst incoming) (Some fetchHeader) (lh_sequence q) = Some (lh_hash q)"
proof (cases "q = fst (last canonical)")
  case True
  with forked_sequences [OF f] show ?thesis by (simp add: incoming_hash_def)
next
  case False
  note seqs = forked_sequences [OF f]
  have "distinct (map lh_sequence (headers canonical))" using seqs(3) by simp
  moreover have "fst (last canonical) \<in> set (headers canonical)" using f by (simp add: forked_def)
  ultimately have "lh_sequence q \<noteq> lh_sequence (fst (last canonical))" using q False by (meson distinct_map inj_onD)
  then have "lh_sequence q \<noteq> lh_sequence (fst incoming) - 1" using seqs(4,6) by simp
  moreover have "fetchHeader (lh_sequence q) = Some q" using s q by (auto simp: serves_def list_all_iff)
  ultimately show ?thesis by (simp add: incoming_hash_def)
qed

text \<open>The fork is noticed, and the fork point is the last ledger of the trunk.\<close>

lemma abandoned_checkpoint:
  assumes f: "forked env creators trunk abandoned canonical incoming"
    and ok: "chain_ok env es (headers (trunk @ abandoned)) db" and c: "c \<in> set (cd_checkpoints db)"
    "lh_sequence (fst (last trunk)) < cp_ledger c" "q \<in> set (headers canonical)" "cp_ledger c = lh_sequence q"
  shows "\<exists>a. cp_ledgerHash c = Some a \<and> a \<noteq> [] \<and> a \<noteq> lh_hash q"
proof -
  obtain h where h: "h \<in> set (headers (trunk @ abandoned))" "cp_ledger c = lh_sequence h" "cp_ledgerHash c = Some (lh_hash h)"
    using stored_ledgers(2) [OF ok c(1)] by blast
  then have "h \<in> set (headers abandoned)" using forked_sequences(1) [OF f, of h] c(2) by auto
  then have "lh_hash h \<noteq> [] \<and> lh_hash h \<noteq> lh_hash q"
    using f c(3,4) h(2) by (auto simp: forked_def list_all_iff)
  with h(3) show ?thesis by simp
qed

lemma fork_noticed:
  assumes f: "forked env creators trunk abandoned canonical incoming"
    and ok: "chain_ok env es (headers (trunk @ abandoned)) db"
  shows "parent_mismatch (fst incoming) (cd_checkpoints db)"
proof -
  note seqs = forked_sequences [OF f]
  obtain h where "h \<in> set (headers (trunk @ abandoned))" "lh_sequence h = lh_sequence (fst incoming) - 1"
    using seqs(4,9) by auto
  then have "lh_sequence (fst incoming) - 1 \<in> set (map cp_ledger (cd_checkpoints db))"
    unfolding stored_ledgers(1) [OF ok] by force
  then obtain c where c: "find_by cp_ledger (lh_sequence (fst incoming) - 1) (cd_checkpoints db) = Some c"
    using find_by_None_iff [of cp_ledger "lh_sequence (fst incoming) - 1" "cd_checkpoints db"] by auto
  then have c': "c \<in> set (cd_checkpoints db)" "cp_ledger c = lh_sequence (fst (last canonical))"
    using find_by_SomeD [OF c] seqs(4,6) by simp_all
  have q: "fst (last canonical) \<in> set (headers canonical)" using f by (simp add: forked_def)
  have "lh_sequence (fst (last trunk)) < cp_ledger c" using c'(2) seqs(6,8) by linarith
  then obtain a where "cp_ledgerHash c = Some a" "a \<noteq> []" "a \<noteq> lh_hash (fst (last canonical))"
    using abandoned_checkpoint [OF f ok c'(1) _ q c'(2)] by blast
  then show ?thesis using seqs(5,7) c by (auto simp: parent_mismatch_def readCheckpoint_def)
qed

lemma fork_point_of_trunk:
  assumes f: "forked env creators trunk abandoned canonical incoming"
    and ok: "chain_ok env es (headers (trunk @ abandoned)) db"
    and s: "serves fetchHeader fetchEvents (last trunk # canonical)"
  shows "findForkPoint (fst incoming) (Some fetchHeader) (cd_checkpoints db) = lh_sequence (fst (last trunk))"
proof -
  note seqs = forked_sequences [OF f]
  let ?t = "fst (last trunk)"
  have "?t \<in> set (headers (trunk @ abandoned))" using f by (auto simp: forked_def)
  then obtain d where d: "d \<in> set (cd_checkpoints db)" "cp_ledger d = lh_sequence ?t" "cp_ledgerHash d = Some (lh_hash ?t)"
    using stored_ledgers(3) [OF ok] by blast
  have "findForkPoint (fst incoming) (Some fetchHeader) (cd_checkpoints db) = cp_ledger d"
  proof (rule fork_point_is_last_agreement [OF d(1)])
    show "cp_ledger d < lh_sequence (fst incoming)" using d(2) seqs(4,8) by simp
    show "incoming_hash (fst incoming) (Some fetchHeader) (cp_ledger d) = cp_ledgerHash d"
      using d(2,3) seqs(4,8) s f by (simp add: incoming_hash_def serves_def forked_def)
    show "lh_sequence (fst incoming) - cp_ledger d \<le> int MAX_FORK_WALKBACK_LEDGERS"
      using d(2) seqs(4) f by (simp add: forked_def)
    have "linked (headers (trunk @ abandoned))" using f by (simp add: forked_def good_chain_def)
    then show "distinct (map cp_ledger (cd_checkpoints db))"
      unfolding stored_ledgers(1) [OF ok] by (rule linked_distinct)
    show "\<forall>c \<in> set (cd_checkpoints db). cp_ledger d < cp_ledger c \<and> cp_ledger c < lh_sequence (fst incoming) \<longrightarrow>
        incoming_hash (fst incoming) (Some fetchHeader) (cp_ledger c) \<noteq> None \<and>
        incoming_hash (fst incoming) (Some fetchHeader) (cp_ledger c) \<noteq> cp_ledgerHash c"
    proof (intro ballI impI)
      fix c assume c: "c \<in> set (cd_checkpoints db)" "cp_ledger d < cp_ledger c \<and> cp_ledger c < lh_sequence (fst incoming)"
      then have "cp_ledger c \<in> set (map lh_sequence (headers canonical))" unfolding seqs(3) using seqs(4) d(2) by simp
      then obtain q where q: "q \<in> set (headers canonical)" "cp_ledger c = lh_sequence q" by auto
      have "serves fetchHeader fetchEvents canonical" using s by (simp add: serves_def)
      from incoming_hash_canonical [OF f this q(1)]
      show "incoming_hash (fst incoming) (Some fetchHeader) (cp_ledger c) \<noteq> None \<and>
          incoming_hash (fst incoming) (Some fetchHeader) (cp_ledger c) \<noteq> cp_ledgerHash c"
        using abandoned_checkpoint [OF f ok c(1) _ q] c(2) d(2) q(2) by auto
    qed
  qed
  with d(2) show ?thesis by simp
qed

lemma events_upto_trunk:
  assumes f: "forked env creators trunk abandoned canonical incoming"
  defines "L \<equiv> lh_sequence (fst (last trunk))"
  shows "filter (\<lambda>e. ledger_of e \<le> L) (events_of (trunk @ abandoned)) = events_of trunk"
    "filter (\<lambda>h. lh_sequence h \<le> L) (headers (trunk @ abandoned)) = headers trunk"
proof -
  have good: "good_chain env creators (trunk @ abandoned)" using f by (simp add: forked_def)
  note seqs = forked_sequences(1,2) [OF f, folded L_def]
  have "\<forall>l \<in> set (trunk @ abandoned). \<forall>e \<in> set (snd l). ledger_of e = lh_sequence (fst l)"
    using good_chain_ledgers [OF good] by blast
  then have "\<forall>e \<in> set (events_of trunk). ledger_of e \<le> L" "\<forall>e \<in> set (events_of abandoned). \<not> ledger_of e \<le> L"
    using seqs by force+
  then show "filter (\<lambda>e. ledger_of e \<le> L) (events_of (trunk @ abandoned)) = events_of trunk"
    by (simp only: map_append concat_append filter_append filter_True filter_False append_Nil2)
  have "\<forall>h \<in> set (headers trunk). lh_sequence h \<le> L" "\<forall>h \<in> set (headers abandoned). \<not> lh_sequence h \<le> L"
    using seqs by force+
  then show "filter (\<lambda>h. lh_sequence h \<le> L) (headers (trunk @ abandoned)) = headers trunk"
    by (simp only: map_append filter_append filter_True filter_False append_Nil2)
qed

lemma recovery:
  assumes f: "forked env (creators_of db) trunk abandoned canonical (h, fs)"
    and ok: "chain_ok env (events_of (trunk @ abandoned)) (headers (trunk @ abandoned)) db"
    and deps: "ld_fetchHeader deps = Some fetchHeader" "ld_fetchEvents deps = Some fetchEvents"
      "ld_process deps = processTradeEvents env now' writeOk adv"
    and s: "serves fetchHeader fetchEvents (last trunk # canonical)" and lib: "number_reads_integers (te_lib env)"
  shows "\<exists>db'. ingestLedger env sha now deps h fs db = (Inr \<lparr>ir_reorgDetected = True,
      ir_forkPoint = Some (lh_sequence (fst (last trunk))), ir_reorgedLedgerCount = length abandoned,
      ir_affectedEventCount = length (events_of abandoned), ir_sequence = lh_sequence h, ir_eventsIngested = length fs,
      ir_reingested = map lh_sequence (headers canonical)\<rparr>, db') \<and>
    chain_ok env (events_of (trunk @ canonical @ [(h, fs)])) (headers (trunk @ canonical @ [(h, fs)])) db' \<and>
    creators_of db' = creators_of db"
proof -
  define L where "L = lh_sequence (fst (last trunk))"
  have old: "good_chain env (creators_of db) (trunk @ abandoned)"
    and new: "good_chain env (creators_of db) ((trunk @ canonical) @ [(h, fs)])" using f by (simp_all add: forked_def)
  note part = events_upto_trunk [OF f, folded L_def]
  have gone: "length (filter (\<lambda>h. L < lh_sequence h) (headers (trunk @ abandoned))) = length abandoned"
    "length (filter (\<lambda>e. L < ledger_of e) (events_of (trunk @ abandoned))) = length (events_of abandoned)"
    using arg_cong [OF part(1), of length] arg_cong [OF part(2), of length]
      sum_length_filter_compl [of "\<lambda>e. ledger_of e \<le> L" "events_of (trunk @ abandoned)"]
      sum_length_filter_compl [of "\<lambda>h. lh_sequence h \<le> L" "headers (trunk @ abandoned)"]
    by (simp_all add: not_le)
  obtain db1 where db1: "rollbackToLedger env now L db = (Inr (length abandoned, length (events_of abandoned)), db1)"
      "chain_ok env (events_of trunk) (headers trunk) db1" "creators_of db1 = creators_of db"
    using rollback_follows_chain [OF ok _ lib, of now L] old unfolding part gone
    by (metis creators_of_def good_chain_def set_map)
  have seqs: "map lh_sequence (headers canonical) = [L + 1..lh_sequence h - 1]"
    using forked_sequences(3,4) [OF f] by (simp add: L_def)
  obtain db2 where db2: "reingest env sha now deps fetchHeader fetchEvents (map lh_sequence (headers canonical)) db1 =
      (Inr (map lh_sequence (headers canonical)), db2)"
      "chain_ok env (events_of (trunk @ canonical)) (headers (trunk @ canonical)) db2" "creators_of db2 = creators_of db"
    using reingest_follows_chain [OF db1(2) _ _ deps(3), of canonical fetchHeader fetchEvents sha now] s good_chain_prefix [OF new]
    by (auto simp: db1(3) serves_def list_all_iff)
  have re: "reingest env sha now deps fetchHeader fetchEvents [L + 1..lh_sequence h - 1] db1 =
      (Inr (map lh_sequence (headers canonical)), db2)"
    unfolding seqs [symmetric] by (rule db2(1))
  have "distinct (map lh_sequence (headers (trunk @ canonical) @ [h]))"
    using new linked_distinct [of "headers ((trunk @ canonical) @ [(h, fs)])"] by (simp add: good_chain_def)
  then obtain db3 where db3: "process_and_record env sha now deps h fs db2 = (Inr (), db3)"
      "chain_ok env (events_of (trunk @ canonical) @ fs) (headers (trunk @ canonical) @ [h]) db3" "creators_of db3 = creators_of db"
    using record_follows_chain [OF db2(2) deps(3), where h = h and fs = fs and sha = sha and now = now] new
    by (auto simp: good_chain_def db2(3))
  have d: "dedupeChainEvents fs = fs" using new by (intro dedupe_distinct) (simp add: good_chain_def)
  have "parent_mismatch h (cd_checkpoints db)" using fork_noticed [OF f ok] by simp
  moreover have "findForkPoint h (Some fetchHeader) (cd_checkpoints db) = L"
    using fork_point_of_trunk [OF f ok s] by (simp add: L_def)
  ultimately have "ingestLedger env sha now deps h fs db = (Inr \<lparr>ir_reorgDetected = True, ir_forkPoint = Some L,
      ir_reorgedLedgerCount = length abandoned, ir_affectedEventCount = length (events_of abandoned),
      ir_sequence = lh_sequence h, ir_eventsIngested = length fs, ir_reingested = map lh_sequence (headers canonical)\<rparr>, db3)"
    using re by (simp add: ingestLedger_def recover_def Let_def d deps(1,2) db1(1) db3(1))
  with db3 show ?thesis by (auto simp: L_def)
qed

section \<open>Equal accounts\<close>

text \<open>What an activity says of its trade, with its price as a number.\<close>

definition trade_facts :: "activity \<Rightarrow> string \<times> string \<times> string option \<times> instant \<times> js_value \<times> int option \<times> js_value" where
  "trade_facts a = (ac_type a, ac_actor a, ac_creatorId a, ac_createdAt a, js_field ''amount'' (ac_payload a),
    (case js_field ''price_at_trade'' (ac_payload a) of Jstr s \<Rightarrow> read_int s | _ \<Rightarrow> None),
    js_field ''ledger_sequence'' (ac_payload a))"

text \<open>Two databases that hold the same trades, positions, supplies, milestones and ledgers.\<close>

definition same_accounts :: "chain_db \<Rightarrow> chain_db \<Rightarrow> bool" where
  "same_accounts a b \<longleftrightarrow>
    map trade_facts (trade_log (cd_books a)) = map trade_facts (trade_log (cd_books b)) \<and>
    (\<forall>k. holding_of k (db_own (cd_books a)) = holding_of k (db_own (cd_books b))) \<and>
    (\<forall>c. map_option (\<lambda>p. (pf_supply p, pf_milestone p)) (find_by pf_id c (db_profiles (cd_books a))) =
      map_option (\<lambda>p. (pf_supply p, pf_milestone p)) (find_by pf_id c (db_profiles (cd_books b)))) \<and>
    mset (map core (filter confirmed (cd_ingested a))) = mset (map core (filter confirmed (cd_ingested b))) \<and>
    map (\<lambda>c. (cp_ledger c, cp_ledgerHash c)) (cd_checkpoints a) = map (\<lambda>c. (cp_ledger c, cp_ledgerHash c)) (cd_checkpoints b)"

lemma facts_of_record: "records a v \<Longrightarrow> trade_facts a = (tv_kind v, tv_actor v, Some (tv_creator v), tv_at v,
    Jnum (Fin (of_int (tv_qty v))), Some (tv_price v), Jnum (Fin (of_int (tv_ledger v))))"
  by (auto simp: records_def trade_facts_def)

lemma facts_of_records:
  assumes "list_all2 records as vs" "list_all2 records bs vs"
  shows "map trade_facts as = map trade_facts bs"
proof (rule nth_equalityI)
  show "length (map trade_facts as) = length (map trade_facts bs)" using assms by (simp add: list_all2_lengthD)
  fix i assume "i < length (map trade_facts as)"
  then have "records (as ! i) (vs ! i)" "records (bs ! i) (vs ! i)" "i < length as" "i < length bs"
    using assms by (simp_all add: list_all2_conv_all_nth)
  then show "map trade_facts as ! i = map trade_facts bs ! i" by (simp add: facts_of_record)
qed

lemma profile_lookup:
  assumes "books_ok ms vs db"
  shows "map_option (\<lambda>p. (pf_supply p, pf_milestone p)) (find_by pf_id c (db_profiles db)) =
    (if c \<in> pf_id ` set (db_profiles db)
     then Some (of_int (net (of_creator c) vs), getTierForSupply (of_int (net (of_creator c) vs)) ms) else None)"
proof (cases "find_by pf_id c (db_profiles db)")
  case None
  then show ?thesis by (simp add: find_by_None_iff)
next
  case (Some p)
  then have p: "p \<in> set (db_profiles db)" "pf_id p = c" using find_by_SomeD by fastforce+
  then have "profile_ok ms vs p" using assms by (simp add: books_ok_def list_all_iff)
  with Some p show ?thesis by (auto simp: profile_ok_def)
qed

lemma chain_determines_accounts:
  assumes "chain_ok env es hs a" "chain_ok env es hs b" "creators_of a = creators_of b"
  shows "same_accounts a b"
  unfolding same_accounts_def
proof (intro conjI allI)
  let ?vs = "map (event_view (te_lib env)) es"
  have books: "books_ok (te_milestones env) ?vs (cd_books a)" "books_ok (te_milestones env) ?vs (cd_books b)"
    using assms(1,2) by (simp_all add: chain_ok_def)
  show "map trade_facts (trade_log (cd_books a)) = map trade_facts (trade_log (cd_books b))"
    using books by (intro facts_of_records [of _ ?vs]) (simp_all add: books_ok_def)
  show "holding_of k (db_own (cd_books a)) = holding_of k (db_own (cd_books b))" for k
    using books unfolding books_ok_def own_ok_def by metis
  show "map_option (\<lambda>p. (pf_supply p, pf_milestone p)) (find_by pf_id c (db_profiles (cd_books a))) =
      map_option (\<lambda>p. (pf_supply p, pf_milestone p)) (find_by pf_id c (db_profiles (cd_books b)))" for c
    using assms(3) unfolding profile_lookup [OF books(1)] profile_lookup [OF books(2)] creators_of_def by simp
qed (use assms in \<open>simp_all add: chain_ok_def log_ok_def\<close>)

section \<open>From the first ledger\<close>

text \<open>Ingesting a list of ledgers one after the other, ending at an exception.\<close>

fun ingest_all ::
  "trade_env \<Rightarrow> (string \<Rightarrow> string) \<Rightarrow> instant \<Rightarrow> ledger_deps \<Rightarrow> chain \<Rightarrow> chain_db \<Rightarrow> (trade_error + unit) \<times> chain_db" where
  "ingest_all env sha now deps [] db = (Inr (), db)"
| "ingest_all env sha now deps ((h, fs) # ls) db =
    (case ingestLedger env sha now deps h fs db of
      (Inl err, db1) \<Rightarrow> (Inl err, db1)
    | (Inr _, db1) \<Rightarrow> ingest_all env sha now deps ls db1)"

definition fresh_chain :: "trade_env \<Rightarrow> chain_db \<Rightarrow> bool" where
  "fresh_chain env db \<longleftrightarrow> fresh_books (te_milestones env) (cd_books db) \<and> cd_ingested db = [] \<and> cd_checkpoints db = []"

lemma fresh_chain_ok: "fresh_chain env db \<Longrightarrow> chain_ok env [] [] db"
  by (simp add: fresh_chain_def chain_ok_def log_ok_def fresh_books_ok)

lemma no_mismatch:
  assumes ok: "chain_ok env es hs db"
    and parent: "\<forall>q \<in> set hs. lh_sequence q = lh_sequence h - 1 \<longrightarrow> lh_previous h = Some (lh_hash q)"
  shows "\<not> parent_mismatch h (cd_checkpoints db)"
proof
  assume "parent_mismatch h (cd_checkpoints db)"
  then obtain c a prev where c: "find_by cp_ledger (lh_sequence h - 1) (cd_checkpoints db) = Some c" "cp_ledgerHash c = Some a"
      "lh_previous h = Some prev" "prev \<noteq> a"
    by (auto simp: parent_mismatch_def readCheckpoint_def split: option.splits)
  then have "c \<in> set (cd_checkpoints db)" "cp_ledger c = lh_sequence h - 1" using find_by_SomeD [OF c(1)] by simp_all
  then obtain q where "q \<in> set hs" "lh_sequence q = lh_sequence h - 1" "lh_hash q = a"
    using stored_ledgers(2) [OF ok] c(2) by fastforce
  then show False using parent c(3,4) by auto
qed

lemma linked_parent:
  assumes "linked (hs @ [h])" "q \<in> set hs" "lh_sequence q = lh_sequence h - 1"
  shows "lh_previous h = Some (lh_hash q)"
proof -
  have ne: "hs \<noteq> []" using assms(2) by auto
  have last: "linked [last hs, h]" using linked_tail(3) [OF assms(1) ne] .
  have "distinct (map lh_sequence hs)" using assms(1) by (blast dest: linked_append linked_distinct)
  moreover have "lh_sequence q = lh_sequence (last hs)" using last assms(3) by simp
  ultimately have "q = last hs" using assms(2) last_in_set [OF ne] by (meson distinct_map inj_onD)
  then show ?thesis using last by simp
qed

lemma ingest_all_follows_chain:
  assumes "chain_ok env (events_of ls) (headers ls) db" "good_chain env (creators_of db) (ls @ ms)"
    "ld_process deps = processTradeEvents env now' writeOk adv"
  shows "\<exists>db'. ingest_all env sha now deps ms db = (Inr (), db') \<and>
    chain_ok env (events_of (ls @ ms)) (headers (ls @ ms)) db' \<and> creators_of db' = creators_of db"
  using assms(1,2)
proof (induction ms arbitrary: ls db)
  case (Cons m ms)
  obtain h fs where m: "m = (h, fs)" by fastforce
  have good: "good_chain env (creators_of db) ((ls @ [m]) @ ms)" using Cons.prems(2) by simp
  then have pre: "good_chain env (creators_of db) (ls @ [m])" by (rule good_chain_prefix)
  then have link: "linked (headers ls @ [h])" by (simp add: good_chain_def m)
  then have "lh_sequence h \<notin> lh_sequence ` set (headers ls)"
    using linked_distinct [of "headers (ls @ [m])"] by (auto simp: m)
  then obtain db1 where db1: "process_and_record env sha now deps h fs db = (Inr (), db1)"
      "chain_ok env (events_of (ls @ [m])) (headers (ls @ [m])) db1" "creators_of db1 = creators_of db"
    using record_follows_chain [OF Cons.prems(1) assms(3), where h = h and fs = fs and sha = sha and now = now] pre
    by (auto simp: good_chain_def m)
  have d: "dedupeChainEvents fs = fs" using pre by (intro dedupe_distinct) (simp add: good_chain_def m)
  have "\<exists>r. ingestLedger env sha now deps h fs db = (Inr r, db1)"
    using no_mismatch [OF Cons.prems(1)] linked_parent [OF link] by (simp add: ingestLedger_def d db1(1))
  moreover obtain db2 where "ingest_all env sha now deps ms db1 = (Inr (), db2)"
      "chain_ok env (events_of ((ls @ [m]) @ ms)) (headers ((ls @ [m]) @ ms)) db2" "creators_of db2 = creators_of db1"
    using Cons.IH [OF db1(2)] good by (auto simp: db1(3))
  ultimately show ?case using db1(3) by (auto simp: m)
qed simp

section \<open>Properties\<close>

text \<open>C2: A reorganisation is recovered from exactly: when the tables follow an abandoned branch and a ledger of
  the canonical branch comes in, whose sources serve the canonical ledgers, the fork is noticed, the fork
  point is the last common ledger, exactly the abandoned ledgers and events are counted, the canonical
  ledgers are ingested again, and the accounts are those of ingesting the canonical chain from the start.\<close>

theorem reorg_recovery_converges:
  assumes f: "forked env (creators_of db0) trunk abandoned canonical (h, fs)" and fresh: "fresh_chain env db0"
    and deps: "ld_fetchHeader deps = Some fetchHeader" "ld_fetchEvents deps = Some fetchEvents"
      "ld_process deps = processTradeEvents env now' writeOk adv"
    and s: "serves fetchHeader fetchEvents (last trunk # canonical)" and lib: "number_reads_integers (te_lib env)"
  shows "\<exists>db db' ref r. ingest_all env sha now deps (trunk @ abandoned) db0 = (Inr (), db) \<and>
    ingestLedger env sha now deps h fs db = (Inr r, db') \<and>
    ingest_all env sha now deps (trunk @ canonical @ [(h, fs)]) db0 = (Inr (), ref) \<and> same_accounts db' ref \<and>
    ir_reorgDetected r \<and> ir_forkPoint r = Some (lh_sequence (fst (last trunk))) \<and>
    ir_reorgedLedgerCount r = length abandoned \<and> ir_affectedEventCount r = length (events_of abandoned) \<and>
    ir_reingested r = map lh_sequence (headers canonical)"
proof -
  have start: "chain_ok env (events_of []) (headers []) db0" using fresh_chain_ok [OF fresh] by simp
  have chains: "good_chain env (creators_of db0) ([] @ trunk @ abandoned)"
      "good_chain env (creators_of db0) ([] @ trunk @ canonical @ [(h, fs)])"
    using f by (simp_all add: forked_def)
  obtain db where db: "ingest_all env sha now deps (trunk @ abandoned) db0 = (Inr (), db)"
      "chain_ok env (events_of (trunk @ abandoned)) (headers (trunk @ abandoned)) db" "creators_of db = creators_of db0"
    using ingest_all_follows_chain [OF start chains(1) deps(3), of sha now] by auto
  obtain ref where ref: "ingest_all env sha now deps (trunk @ canonical @ [(h, fs)]) db0 = (Inr (), ref)"
      "chain_ok env (events_of (trunk @ canonical @ [(h, fs)])) (headers (trunk @ canonical @ [(h, fs)])) ref"
      "creators_of ref = creators_of db0"
    using ingest_all_follows_chain [OF start chains(2) deps(3), of sha now] by auto
  have f': "forked env (creators_of db) trunk abandoned canonical (h, fs)" using f db(3) by simp
  show ?thesis
    using recovery [OF f' db(2) deps s lib, of sha now] chain_determines_accounts [OF _ ref(2)] db(1,3) ref(1,3) by fastforce
qed

text \<open>A ledger that replaces the stored tip of the same sequence is not noticed: its parent is the stored
  one, so nothing is rolled back, and the trades of both ledgers stay in the accounts.\<close>

theorem replaced_tip_keeps_old_trades:
  assumes old: "good_chain env (creators_of db0) (trunk @ [(h1, es1)])" and fresh: "fresh_chain env db0"
    and new: "good_chain env (creators_of db0) (trunk @ [(h2, es2)])" and trunk: "trunk \<noteq> []"
    and both: "timely (te_lib env) (events_of trunk @ es1 @ es2)" 
    and deps: "ld_process deps = processTradeEvents env now' writeOk adv"
  shows "\<exists>db db' r. ingest_all env sha now deps (trunk @ [(h1, es1)]) db0 = (Inr (), db) \<and>
    ingestLedger env sha now deps h2 es2 db = (Inr r, db') \<and> \<not> ir_reorgDetected r \<and>
    length (trade_log (cd_books db')) = length (events_of trunk) + length es1 + length es2 \<and>
    holding_of k (db_own (cd_books db')) = held k (map (event_view (te_lib env)) (events_of trunk @ es1 @ es2))"
proof -
  have start: "chain_ok env (events_of []) (headers []) db0" using fresh_chain_ok [OF fresh] by simp
  obtain db where db: "ingest_all env sha now deps (trunk @ [(h1, es1)]) db0 = (Inr (), db)"
      "chain_ok env (events_of (trunk @ [(h1, es1)])) (headers (trunk @ [(h1, es1)])) db" "creators_of db = creators_of db0"
    using ingest_all_follows_chain [OF start _ deps, of "trunk @ [(h1, es1)]" sha now] old by auto
  have links: "linked (headers trunk @ [h1])" "linked (headers trunk @ [h2])" using old new by (simp_all add: good_chain_def)
  have "lh_sequence h1 = lh_sequence h2"
    using linked_tail(1) [OF links(1)] linked_tail(1) [OF links(2)] trunk by simp
  then have quiet: "\<not> parent_mismatch h2 (cd_checkpoints db)"
    using no_mismatch [OF db(2), of h2] linked_parent [OF links(2)] by auto
  have d: "dedupeChainEvents es2 = es2" using new by (intro dedupe_distinct) (simp add: good_chain_def)
  let ?vs = "map (event_view (te_lib env)) (events_of trunk @ es1)"
  have good: "list_all (good_event (te_lib env)) es2" "list_all (good_event (te_lib env)) (events_of trunk @ es1)"
    using good_chain_events [OF new] good_chain_events [OF old] by simp_all
  have books: "books_ok (te_milestones env) ?vs (cd_books db)" using db(2) by (simp add: chain_ok_def)
  have views: "views_of (te_lib env) es2 = map (event_view (te_lib env)) es2" by (rule views_good [OF good(1)])
  have "good_ledger env (creators_of db) (h2, es2)" using new by (simp add: good_chain_def db(3))
  note good_ledger_views [OF this]
  then obtain b where b: "processTradeEvents env now' writeOk adv es2 (cd_books db) = (Inr (), b)"
      "books_ok (te_milestones env) (map (event_view (te_lib env)) (events_of trunk @ es1 @ es2)) b"
    using process_batch [OF books good_views(1) [OF good(2)], of es2 now' writeOk adv] both by (auto simp: d views timely_def)
  have "list_all2 records (trade_log b) (map (event_view (te_lib env)) (events_of trunk @ es1 @ es2))"
    "holding_of k (db_own b) = held k (map (event_view (te_lib env)) (events_of trunk @ es1 @ es2))"
    using b(2) unfolding books_ok_def own_ok_def by metis+
  then show ?thesis
    using db(1) quiet b(1) by (auto simp: ingestLedger_def process_and_record_def recordLedgerIngestion_def Let_def d deps
        dest: list_all2_lengthD)
qed

section \<open>Witnesses\<close>

definition header_at :: "int \<Rightarrow> string \<Rightarrow> string \<Rightarrow> ledger_header" where
  "header_at seq hash previous = \<lparr>lh_sequence = seq, lh_hash = hash, lh_previous = Some previous\<rparr>"

definition small_chain :: chain_db where
  "small_chain = \<lparr>cd_books = small_books, cd_ingested = [], cd_checkpoints = [], cd_trades = []\<rparr>"

text \<open>The sale of ledger 8 is in ledger 9 of the canonical branch.\<close>

definition sell_later :: chain_event where
  "sell_later = sell_one\<lparr>ce_ledger := Some 9\<rparr>"

abbreviation trunk_ledger :: "ledger_header \<times> chain_event list" where
  "trunk_ledger \<equiv> (header_at 7 ''t'' ''s'', [buy_two])"

definition small_fetch :: "int \<Rightarrow> ledger_header option" where
  "small_fetch seq = (if seq = 7 then Some (header_at 7 ''t'' ''s'') else if seq = 8 then Some (header_at 8 ''c'' ''t'') else None)"

definition small_events :: "int \<Rightarrow> chain_event list" where
  "small_events seq = (if seq = 7 then [buy_two] else [])"

definition small_deps :: ledger_deps where
  "small_deps = \<lparr>ld_fetchHeader = Some small_fetch, ld_fetchEvents = Some small_events,
    ld_process = processTradeEvents small_env 0 True True\<rparr>"

lemma sell_later_view: "trade_view_of small_lib sell_later = Some \<lparr>tv_kind = ''KEY_SOLD'', tv_actor = ''W'', tv_creator = ''K'',
    tv_qty = 1, tv_price = 6, tv_at = 2000, tv_ledger = 9\<rparr>"
  by code_simp

lemma small_ids: "getChainEventId buy_two = ''a:0''" "getChainEventId sell_one = ''b:0''" "getChainEventId sell_later = ''b:0''"
  by code_simp+

lemma small_creators: "creators_of small_chain = {''K''}"
  by (simp add: creators_of_def small_chain_def small_books_def)

lemma small_numbers: "number_reads_integers small_lib"
  by (simp add: number_reads_integers_def small_lib_def)

lemma small_chain_fresh: "fresh_chain small_env small_chain"
  using small_books_fresh by (simp add: fresh_chain_def small_chain_def small_env_def)

lemmas small_chain_simps = good_chain_def good_ledger_def good_event_def event_view_def timely_def ledger_of_def header_at_def
  small_creators small_ids buy_two_view sell_one_view sell_later_view

lemma small_env_lib [simp]: "te_lib small_env = small_lib"
  by (simp add: small_env_def)

lemma small_ledgers: "ce_ledger buy_two = Some 7" "ce_ledger sell_one = Some 8" "ce_ledger sell_later = Some 9"
  by (simp_all add: buy_two_def sell_one_def sell_later_def)

lemma small_fork: "forked small_env (creators_of small_chain) [trunk_ledger] [(header_at 8 ''a'' ''t'', [sell_one])]
    [(header_at 8 ''c'' ''t'', [])] (header_at 9 ''d'' ''c'', [sell_later])"
  by (simp add: forked_def small_chain_simps small_ledgers MAX_FORK_WALKBACK_LEDGERS_def)

theorem reorg_recovery_converges_witness:
  "\<exists>db db' ref r. ingest_all small_env id 0 small_deps [trunk_ledger, (header_at 8 ''a'' ''t'', [sell_one])] small_chain = (Inr (), db) \<and>
    ingestLedger small_env id 0 small_deps (header_at 9 ''d'' ''c'') [sell_later] db = (Inr r, db') \<and>
    ingest_all small_env id 0 small_deps [trunk_ledger, (header_at 8 ''c'' ''t'', []), (header_at 9 ''d'' ''c'', [sell_later])]
      small_chain = (Inr (), ref) \<and> same_accounts db' ref \<and> ir_forkPoint r = Some 7 \<and> ir_reingested r = [8]"
proof -
  have s: "serves small_fetch small_events [trunk_ledger, (header_at 8 ''c'' ''t'', [])]"
    by (simp add: serves_def small_fetch_def small_events_def header_at_def)
  from reorg_recovery_converges [OF small_fork small_chain_fresh, of small_deps small_fetch small_events 0 True True id 0] s small_numbers
  show ?thesis by (fastforce simp: small_deps_def header_at_def)
qed

theorem replaced_tip_keeps_old_trades_witness:
  "\<exists>db db' r. ingest_all small_env id 0 small_deps [trunk_ledger, (header_at 8 ''a'' ''t'', [sell_one])] small_chain = (Inr (), db) \<and>
    ingestLedger small_env id 0 small_deps (header_at 8 ''c'' ''t'') [] db = (Inr r, db') \<and> \<not> ir_reorgDetected r \<and>
    length (trade_log (cd_books db')) = 2"
proof -
  have "good_chain small_env (creators_of small_chain) ([trunk_ledger] @ [(header_at 8 ''a'' ''t'', [sell_one])])"
    "good_chain small_env (creators_of small_chain) ([trunk_ledger] @ [(header_at 8 ''c'' ''t'', [])])"
    "timely (te_lib small_env) (events_of [trunk_ledger] @ [sell_one] @ [])"
    by (simp_all add: small_chain_simps small_ledgers)
  from replaced_tip_keeps_old_trades [OF this(1) small_chain_fresh this(2) _ this(3), of small_deps 0 True True id 0]
  show ?thesis by (fastforce simp: small_deps_def)
qed

end
