(* ===== verification/Dividends.thy ===== *)
theory Dividends
  imports Trades Pagination
begin

text \<open>
  Dividends: the indexer of \<open>src/modules/indexer/dividend-indexer.service.ts\<close>, which turns snapshot and
  claim events into distributions and claims, and the distributions and balances of
  \<open>src/modules/dividends/dividend.service.ts\<close>.

  An operation is one step. Generated row ids are \<open>dv_id n\<close> for the \<open>n\<close>-th distribution; ids ascend with
  insertion. A \<open>Decimal(20, 7)\<close> column stores \<open>dv_enc q\<close> for a number \<open>q\<close>, rejects magnitudes from
  \<open>10^13\<close>, and reads back as \<open>fl\<close> of what it stores. Printing numbers and dates is an argument. Caches, log
  lines and the unsigned claim transaction are left out.
\<close>

section \<open>Tables\<close>

record dist_row =
  ds_id :: string
  ds_creatorId :: string
  ds_distributionDate :: instant
  ds_totalAmountXlm :: rat
  ds_holderCount :: int
  ds_perKeyAmountXlm :: rat
  ds_claimWindowStart :: "instant option"
  ds_claimWindowEnd :: "instant option"
  ds_chainSnapshotId :: "string option"
  ds_ledger :: int
  ds_txHash :: string
  ds_eventIndex :: int

record claim_row =
  cl_distributionId :: string
  cl_recipient :: string
  cl_amountXlm :: rat
  cl_claimedAt :: "instant option"

record creator_name =
  cn_id :: string
  cn_displayName :: string
  cn_handle :: string

record wallet_log =
  wl_type :: string
  wl_actor :: string
  wl_keyId :: string
  wl_creatorName :: string
  wl_amount :: rat
  wl_txHash :: string
  wl_timestamp :: instant
  wl_payload :: "(string \<times> js_value) list"

record dividend_db =
  dv_creators :: "creator_name list"
  dv_own :: own_db
  dv_dists :: "dist_row list"
  dv_claims :: "claim_row list"
  dv_activities :: "activity list"
  dv_log :: "wallet_log list"
  dv_cursor :: "indexed_ledger option"

datatype dividend_error = BadDividendValue | DistributionExists | CreatorNotFound

text \<open>Ids, columns, \<open>String(decimal)\<close>, \<open>toFixed(7)\<close> as a text and \<open>toISOString\<close>.\<close>

record dividend_env =
  dv_lib :: js_text_lib
  dv_id :: "nat \<Rightarrow> string"
  dv_enc :: "rat \<Rightarrow> rat"
  dv_decimal :: "rat \<Rightarrow> string"
  dv_fixed :: "rat \<Rightarrow> string"
  dv_iso :: "instant \<Rightarrow> string"

definition fits_column :: "rat \<Rightarrow> bool" where
  "fits_column q \<longleftrightarrow> \<bar>q\<bar> < 10 ^ 13"

definition claim_key :: "claim_row \<Rightarrow> string \<times> string" where
  "claim_key c = (cl_distributionId c, cl_recipient c)"

text \<open>Both unique constraints of a distribution; a missing snapshot id is never equal to another.\<close>

definition same_distribution :: "dist_row \<Rightarrow> dist_row \<Rightarrow> bool" where
  "same_distribution a b \<longleftrightarrow>
    (ds_ledger a = ds_ledger b \<and> ds_txHash a = ds_txHash b \<and> ds_eventIndex a = ds_eventIndex b) \<or>
    (ds_creatorId a = ds_creatorId b \<and> ds_chainSnapshotId a \<noteq> None \<and> ds_chainSnapshotId a = ds_chainSnapshotId b)"

section \<open>Reading the events\<close>

text \<open>The chains \<open>a || b || ...\<close> and \<open>a ?? b ?? ...\<close>; the last value is the result when the others fail.\<close>

fun or_values :: "js_value list \<Rightarrow> js_value" where
  "or_values [] = Jundefined"
| "or_values [v] = v"
| "or_values (v # vs) = (if truthy v then v else or_values vs)"

fun nullish_values :: "js_value list \<Rightarrow> js_value" where
  "nullish_values [] = Jundefined"
| "nullish_values [v] = v"
| "nullish_values (v # vs) = (if v = Jundefined \<or> v = Jnull then nullish_values vs else v)"

definition or_chain :: "raw_event \<Rightarrow> string list \<Rightarrow> js_value" where
  "or_chain event names = or_values (map (\<lambda>f. js_field f event) names)"

definition coalesce :: "raw_event \<Rightarrow> string list \<Rightarrow> js_value" where
  "coalesce event names = nullish_values (map (\<lambda>f. js_field f event) names)"

definition parseEventDate :: "js_text_lib \<Rightarrow> js_value \<Rightarrow> instant option" where
  "parseEventDate lib v =
    (case v of
      Jnum (Fin q) \<Rightarrow> if q < 100000000000 then time_clip (fl (q * 1000)) else time_clip q
    | Jstr s \<Rightarrow> if trim s = [] then None else parse_date lib s
    | _ \<Rightarrow> None)"

definition CLAIM_TYPES :: "string set" where
  "CLAIM_TYPES = {''DIVIDEND_CLAIMED'', ''DividendClaimed''}"

definition SNAPSHOT_TYPES :: "string set" where
  "SNAPSHOT_TYPES = {''DIVIDEND_DISTRIBUTED'', ''DIVIDEND_SNAPSHOT_CREATED'', ''DividendSnapshotCreated''}"

section \<open>Claim events\<close>

definition find_snapshot :: "string \<Rightarrow> string \<Rightarrow> dist_row list \<Rightarrow> dist_row option" where
  "find_snapshot creator ref rows =
    find (\<lambda>d. ds_creatorId d = creator \<and> (ds_id d = ref \<or> ds_chainSnapshotId d = Some ref)) rows"

text \<open>The pending claims of a wallet on a creator's distributions, oldest distribution first.\<close>

definition pending_claims :: "string \<Rightarrow> string \<Rightarrow> string option \<Rightarrow> dividend_db \<Rightarrow> claim_row list" where
  "pending_claims creator wallet only db =
    (let of_claim = (\<lambda>c. find_by ds_id (cl_distributionId c) (dv_dists db))
     in sort_key (\<lambda>c. case of_claim c of Some d \<Rightarrow> ds_distributionDate d | None \<Rightarrow> 0)
       (filter (\<lambda>c. cl_recipient c = wallet \<and> cl_claimedAt c = None \<and>
          (case of_claim c of Some d \<Rightarrow> ds_creatorId d = creator \<and> (only = None \<or> only = Some (ds_id d)) | None \<Rightarrow> False))
         (dv_claims db)))"

definition choose_claim :: "string \<Rightarrow> string \<Rightarrow> string option \<Rightarrow> rat option \<Rightarrow> dividend_db \<Rightarrow> claim_row option" where
  "choose_claim creator wallet ref amount db =
    (let distribution = (case ref of None \<Rightarrow> None | Some r \<Rightarrow> find_snapshot creator r (dv_dists db))
     in if ref \<noteq> None \<and> distribution = None then None
        else
          let matching = filter (\<lambda>c. amount = None \<or> amount = Some (fl (cl_amountXlm c)))
                (pending_claims creator wallet (map_option ds_id distribution) db)
          in if ref = None \<and> length matching \<noteq> 1 then None
             else (case matching of [] \<Rightarrow> None | c # _ \<Rightarrow> Some c))"

definition claimed_activity :: "dividend_env \<Rightarrow> string \<Rightarrow> string \<Rightarrow> claim_row \<Rightarrow> int \<Rightarrow> string \<Rightarrow> instant \<Rightarrow> activity" where
  "claimed_activity env creator wallet c ledger txHash claimDate =
    \<lparr>ac_type = ''DIVIDEND_CLAIMED'', ac_actor = wallet, ac_creatorId = Some creator,
     ac_payload = [(''amount_xlm'', Jstr (dv_decimal env (cl_amountXlm c))), (''claimant'', Jstr wallet),
       (''distribution_id'', Jstr (cl_distributionId c)), (''ledger_sequence'', Jnum (Fin (of_int ledger))),
       (''tx_hash'', Jstr txHash)],
     ac_createdAt = claimDate\<rparr>"

definition mark_claimed :: "(string \<times> string) \<Rightarrow> instant \<Rightarrow> claim_row list \<Rightarrow> claim_row list" where
  "mark_claimed k t claims = modify_where (\<lambda>c. claim_key c = k \<and> cl_claimedAt c = None) (\<lambda>c. c\<lparr>cl_claimedAt := Some t\<rparr>) claims"

text \<open>The transaction: the chosen claim is marked and its activity written, or nothing happens.\<close>

definition settle_claim ::
  "dividend_env \<Rightarrow> string \<Rightarrow> string \<Rightarrow> string option \<Rightarrow> rat option \<Rightarrow> int \<Rightarrow> string \<Rightarrow> instant \<Rightarrow> dividend_db \<Rightarrow> dividend_db" where
  "settle_claim env creator wallet ref amount ledger txHash claimDate db =
    (case choose_claim creator wallet ref amount db of
      None \<Rightarrow> db
    | Some c \<Rightarrow> db\<lparr>dv_claims := mark_claimed (claim_key c) claimDate (dv_claims db),
        dv_activities := insert_row (claimed_activity env creator wallet c ledger txHash claimDate) (dv_activities db)\<rparr>)"

text \<open>The fields of a claim event: rejected, skipped (\<open>None\<close>) or read. A reference or name that is no text is rejected by the database client.\<close>

definition read_claim ::
  "dividend_env \<Rightarrow> chain_event \<Rightarrow> dividend_error + (string \<times> string \<times> string option \<times> rat option \<times> instant) option" where
  "read_claim env e =
    (let event = raw_of e; lib = dv_lib env;
         creatorId = or_chain event [''creatorId'', ''keyId'', ''key_id''];
         claimant = or_chain event [''claimantAddress'', ''claimant_address'', ''wallet'', ''wallet_address''];
         amountXlm = coalesce event [''amountXlm'', ''amount_xlm'', ''claimedAmount''];
         claimedAt = or_chain event [''claimedAt'', ''claimed_at'', ''timestamp''];
         ref = or_chain event [''distributionId'', ''distribution_id'', ''snapshotId'', ''snapshot_id'']
     in if \<not> truthy creatorId \<or> \<not> truthy claimant \<or> \<not> truthy claimedAt \<or> ce_ledger e = None \<or> ce_txHash e = [] then Inr None
        else case (if amountXlm = Jundefined \<or> amountXlm = Jnull then Some None
                   else (case to_number lib amountXlm of Fin q \<Rightarrow> Some (Some q) | _ \<Rightarrow> None), parseEventDate lib claimedAt) of
          (Some amount, Some claimDate) \<Rightarrow>
            (case (creatorId, claimant, if truthy ref then (case ref of Jstr r \<Rightarrow> Some (Some r) | _ \<Rightarrow> None) else Some None) of
              (Jstr creator, Jstr wallet, Some snapshotReference) \<Rightarrow>
                Inr (Some (creator, wallet, snapshotReference, amount, claimDate))
            | _ \<Rightarrow> Inl BadDividendValue)
        | _ \<Rightarrow> Inr None)"

definition claim_event :: "dividend_env \<Rightarrow> chain_event \<Rightarrow> dividend_db \<Rightarrow> (dividend_error + unit) \<times> dividend_db" where
  "claim_event env e db =
    (case read_claim env e of
      Inl err \<Rightarrow> (Inl err, db)
    | Inr None \<Rightarrow> (Inr (), db)
    | Inr (Some (creator, wallet, snapshotReference, amount, claimDate)) \<Rightarrow>
        (Inr (), settle_claim env creator wallet snapshotReference amount (the (ce_ledger e)) (ce_txHash e) claimDate db))"

section \<open>Snapshot events\<close>

definition holders_of :: "string \<Rightarrow> own_db \<Rightarrow> position list" where
  "holders_of creator own = filter (\<lambda>p. po_creator p = creator \<and> 0 < po_balance p) (positions own)"

definition total_balance :: "position list \<Rightarrow> rat" where
  "total_balance holders = foldl (\<lambda>acc h. fl (acc + fl (po_balance h))) 0 holders"

text \<open>What one key is paid: the total over the keys held for a snapshot, over the holders otherwise.\<close>

definition per_key :: "string \<Rightarrow> rat \<Rightarrow> rat \<Rightarrow> position list \<Rightarrow> rat" where
  "per_key eventType amount effectiveHolderCount holders =
    (let allocationDenominator =
       (if eventType = ''DIVIDEND_SNAPSHOT_CREATED'' \<or> eventType = ''DividendSnapshotCreated'' then total_balance holders
        else effectiveHolderCount)
     in if allocationDenominator > 0 then to_fixed7 (fl (amount / allocationDenominator)) else 0)"

definition payout :: "rat \<Rightarrow> position \<Rightarrow> rat" where
  "payout perKey h = round7 (fl (fl perKey * fl (po_balance h)))"

definition claims_for :: "dividend_env \<Rightarrow> string \<Rightarrow> rat \<Rightarrow> position list \<Rightarrow> claim_row list" where
  "claims_for env distributionId perKey holders =
    map (\<lambda>h. \<lparr>cl_distributionId = distributionId, cl_recipient = po_owner h, cl_amountXlm = dv_enc env (payout perKey h),
      cl_claimedAt = None\<rparr>) holders"

text \<open>\<open>createMany\<close> with \<open>skipDuplicates\<close>.\<close>


fun insert_claims :: "claim_row list \<Rightarrow> claim_row list \<Rightarrow> claim_row list" where
  "insert_claims [] rows = rows"
| "insert_claims (c # cs) rows =
    insert_claims cs (if claim_key c \<in> set (map claim_key rows) then rows else insert_row c rows)"

definition distributed_activity :: "dividend_env \<Rightarrow> string \<Rightarrow> dist_row \<Rightarrow> rat \<Rightarrow> rat \<Rightarrow> activity" where
  "distributed_activity env distributor d amount perKey =
    \<lparr>ac_type = ''DIVIDEND_DISTRIBUTED'', ac_actor = distributor, ac_creatorId = Some (ds_creatorId d),
     ac_payload = [(''total_amount_xlm'', Jstr (num_text (dv_lib env) (Fin amount))), (''per_key_amount_xlm'', Jstr (dv_fixed env perKey)),
       (''holders_count'', Jnum (Fin (of_int (ds_holderCount d)))), (''distribution_id'', Jstr (ds_id d)),
       (''ledger_sequence'', Jnum (Fin (of_int (ds_ledger d))))],
     ac_createdAt = ds_distributionDate d\<rparr>"

definition record_distribution ::
  "dividend_env \<Rightarrow> string \<Rightarrow> dist_row \<Rightarrow> rat \<Rightarrow> rat \<Rightarrow> position list \<Rightarrow> dividend_db \<Rightarrow>
    (dividend_error + unit) \<times> dividend_db" where
  "record_distribution env distributor d amount perKey holders db =
    (if \<not> fits_column (ds_totalAmountXlm d) \<or> \<not> fits_column (ds_perKeyAmountXlm d) then (Inl BadDividendValue, db)
     else if list_ex (same_distribution d) (dv_dists db) then (Inr (), db)
     else if \<not> list_all (\<lambda>c. fits_column (cl_amountXlm c)) (claims_for env (ds_id d) perKey holders)
       then (Inl BadDividendValue, db)
     else (Inr (), db\<lparr>dv_dists := insert_row d (dv_dists db),
       dv_claims := insert_claims (claims_for env (ds_id d) perKey holders) (dv_claims db),
       dv_activities := insert_row (distributed_activity env distributor d amount perKey) (dv_activities db)\<rparr>))"

text \<open>A claim window: \<open>None\<close> when it was given and cannot be read.\<close>

definition window_bound :: "js_text_lib \<Rightarrow> js_value \<Rightarrow> instant option option" where
  "window_bound lib raw =
    (if \<not> truthy raw then Some None else case parseEventDate lib raw of None \<Rightarrow> None | Some t \<Rightarrow> Some (Some t))"

text \<open>The rest of a snapshot event once its fields are read: the holders, the amount per key, the transaction.\<close>

definition store_snapshot ::
  "dividend_env \<Rightarrow> chain_event \<Rightarrow> string \<Rightarrow> string \<Rightarrow> string option \<Rightarrow> rat \<Rightarrow> instant \<Rightarrow> instant option \<Rightarrow>
    instant option \<Rightarrow> js_value \<Rightarrow> dividend_db \<Rightarrow> (dividend_error + unit) \<times> dividend_db" where
  "store_snapshot env e creator who chainSnapshotId amount distributionDate windowStart windowEnd holdersCount db =
    (let holders = holders_of creator (dv_own db);
         effective = (if holdersCount = Jundefined \<or> holdersCount = Jnull then Jnum (Fin (of_nat (length holders)))
           else holdersCount)
     in case effective of
       Jnum (Fin n) \<Rightarrow>
         if \<not> is_integer_num (Fin n) then (Inl BadDividendValue, db)
         else
           let perKey = per_key (ce_eventType e) amount n holders
           in record_distribution env who
               \<lparr>ds_id = dv_id env (length (dv_dists db)), ds_creatorId = creator, ds_distributionDate = distributionDate,
                ds_totalAmountXlm = dv_enc env amount, ds_holderCount = num_to_int (Fin n),
                ds_perKeyAmountXlm = dv_enc env (fl perKey), ds_claimWindowStart = windowStart,
                ds_claimWindowEnd = windowEnd, ds_chainSnapshotId = chainSnapshotId,
                ds_ledger = the (ce_ledger e), ds_txHash = ce_txHash e, ds_eventIndex = ce_eventIndex e\<rparr>
               amount perKey holders db
     | _ \<Rightarrow> (Inl BadDividendValue, db))"

text \<open>The fields of a snapshot event: rejected, skipped (\<open>None\<close>) or read.\<close>

type_synonym snapshot_fields =
  "string \<times> string \<times> string option \<times> rat \<times> instant \<times> instant option \<times> instant option \<times> js_value"

definition read_snapshot :: "dividend_env \<Rightarrow> chain_event \<Rightarrow> dividend_error + snapshot_fields option" where
  "read_snapshot env e =
    (let event = raw_of e; lib = dv_lib env;
         creatorId = or_chain event [''creatorId'', ''keyId'', ''key_id''];
         totalAmountXlm = coalesce event [''totalDistributed'', ''total_distributed'', ''totalAmountXlm'', ''total_amount_xlm''];
         distributionDate = parseEventDate lib (or_chain event [''distributedAt'', ''distributed_at'', ''createdAt'', ''timestamp'']);
         holdersCount = coalesce event [''holdersCount'', ''holderCount'', ''holders_count''];
         distributor = (let d = or_chain event [''distributorAddress'', ''distributor_address'', ''distributor'']
           in if truthy d then d else Jstr ''unknown'');
         snapshotId = coalesce event [''snapshotId'', ''snapshot_id'']
     in if \<not> truthy creatorId \<or> totalAmountXlm = Jundefined \<or> ce_ledger e = None \<or> ce_txHash e = [] \<or> distributionDate = None
        then Inr None
        else case (to_number lib totalAmountXlm,
            window_bound lib (coalesce event [''claimWindowStart'', ''claim_window_start'', ''claimStart'']),
            window_bound lib (coalesce event [''claimWindowEnd'', ''claim_window_end'', ''claimEnd''])) of
          (Fin amount, Some windowStart, Some windowEnd) \<Rightarrow>
            if amount < 0 then Inr None
            else (case (creatorId, distributor, if snapshotId = Jundefined \<or> snapshotId = Jnull then Some None
                else (case snapshotId of Jstr s \<Rightarrow> Some (Some s) | _ \<Rightarrow> None)) of
              (Jstr creator, Jstr who, Some chainSnapshotId) \<Rightarrow>
                Inr (Some (creator, who, chainSnapshotId, amount, the distributionDate, windowStart, windowEnd, holdersCount))
            | _ \<Rightarrow> Inl BadDividendValue)
        | _ \<Rightarrow> Inr None)"

definition snapshot_event :: "dividend_env \<Rightarrow> chain_event \<Rightarrow> dividend_db \<Rightarrow> (dividend_error + unit) \<times> dividend_db" where
  "snapshot_event env e db =
    (case read_snapshot env e of
      Inl err \<Rightarrow> (Inl err, db)
    | Inr None \<Rightarrow> (Inr (), db)
    | Inr (Some (creator, who, snapshotId, amount, distributionDate, windowStart, windowEnd, holdersCount)) \<Rightarrow>
        store_snapshot env e creator who snapshotId amount distributionDate windowStart windowEnd holdersCount db)"

definition dividend_handler :: "dividend_env \<Rightarrow> chain_event \<Rightarrow> dividend_db \<Rightarrow> (dividend_error + unit) \<times> dividend_db" where
  "dividend_handler env e db =
    (if ce_eventType e \<in> CLAIM_TYPES then claim_event env e db
     else if ce_eventType e \<in> SNAPSHOT_TYPES then snapshot_event env e db
     else (Inr (), db))"

definition processDividendEvents ::
  "dividend_env \<Rightarrow> bool \<Rightarrow> bool \<Rightarrow> chain_event list \<Rightarrow> dividend_db \<Rightarrow> (dividend_error + unit) \<times> dividend_db" where
  "processDividendEvents env writeOk advanceCursor es db =
    (case processIndexerChainEvents (dividend_handler env) es db of
      (Inl err, db1) \<Rightarrow> (Inl err, db1)
    | (Inr _, db1) \<Rightarrow> (Inr (), if advanceCursor
        then db1\<lparr>dv_cursor := checkpointHighestLedger writeOk es (dv_cursor db1)\<rparr> else db1))"

section \<open>Contract logs\<close>

record contract_log =
  lg_contractId :: string
  lg_topics :: "string list"
  lg_data :: "(string \<times> js_value) list"
  lg_ledger :: int
  lg_txHash :: string
  lg_timestamp :: js_value
  lg_eventIndex :: "int option"

definition topic :: "nat \<Rightarrow> contract_log \<Rightarrow> js_value" where
  "topic n entry = (if n < length (lg_topics entry) then Jstr (lg_topics entry ! n) else Jundefined)"

text \<open>The named fields of the log's data, then the given values.\<close>

definition data_or :: "contract_log \<Rightarrow> string list \<Rightarrow> js_value list \<Rightarrow> js_value" where
  "data_or entry names vs = or_values (map (\<lambda>f. js_field f (lg_data entry)) names @ vs)"

definition data_nullish :: "contract_log \<Rightarrow> string list \<Rightarrow> js_value list \<Rightarrow> js_value" where
  "data_nullish entry names vs = nullish_values (map (\<lambda>f. js_field f (lg_data entry)) names @ vs)"

definition SNAPSHOT_TOPICS :: "string set" where
  "SNAPSHOT_TOPICS = {''dividendsnapshotcreated'', ''dividend_snapshot_created''}"

definition log_event :: "contract_log \<Rightarrow> string \<Rightarrow> (string \<times> js_value) list \<Rightarrow> chain_event" where
  "log_event entry eventType extra =
    \<lparr>ce_txHash = lg_txHash entry, ce_eventIndex = (case lg_eventIndex entry of None \<Rightarrow> 0 | Some n \<Rightarrow> n),
     ce_ledger = Some (lg_ledger entry), ce_eventType = eventType, ce_fields = extra\<rparr>"

definition snapshot_log :: "dividend_env \<Rightarrow> string \<Rightarrow> string \<Rightarrow> contract_log \<Rightarrow> chain_event" where
  "snapshot_log env topic0 stamp entry =
    (let lib = dv_lib env;
         created = topic0 \<in> SNAPSHOT_TOPICS;
         sumText = Jstr (js_text lib (data_nullish entry
           [''totalDistributed'', ''total_distributed'', ''totalAmountXlm'', ''total_amount_xlm'', ''totalAmount'']
           [topic 2 entry, Jstr ''0'']))
     in log_event entry (if created then ''DIVIDEND_SNAPSHOT_CREATED'' else ''DIVIDEND_DISTRIBUTED'')
       [(''creatorId'', data_or entry [''creatorId'', ''keyId'', ''key_id''] [topic 1 entry, Jstr (lg_contractId entry)]),
        (''totalAmountXlm'', sumText), (''totalDistributed'', sumText),
        (''holdersCount'', Jnum (to_number lib (data_nullish entry
          [''holdersCount'', ''holders_count'', ''holderCount'', ''holder_count''] [topic 3 entry, Jnum (Fin 0)]))),
        (''distributorAddress'', Jstr (js_text lib (data_or entry
          [''distributorAddress'', ''distributor_address'', ''distributor'']
          [if created then Jstr [] else topic 4 entry, Jstr []]))),
        (''distributedAt'', data_or entry [''distributedAt'', ''distributed_at'', ''createdAt'', ''timestamp''] [Jstr stamp]),
        (''claimWindowStart'', data_or entry [''claimWindowStart'', ''claim_window_start'', ''claimStart''] [Jundefined]),
        (''claimWindowEnd'', data_or entry [''claimWindowEnd'', ''claim_window_end'', ''claimEnd''] [Jundefined]),
        (''snapshotId'', data_or entry [''snapshotId'', ''snapshot_id''] [if created then topic 4 entry else Jundefined])])"

definition claim_log :: "dividend_env \<Rightarrow> string \<Rightarrow> string \<Rightarrow> contract_log \<Rightarrow> chain_event" where
  "claim_log env topic0 stamp entry =
    (let lib = dv_lib env;
         rawAmount = data_nullish entry [''amountXlm'', ''amount_xlm'', ''amount'', ''claimedAmount'', ''claimed_amount'']
           [topic 3 entry, Jundefined];
         distributionId = data_or entry [''distributionId'', ''distribution_id'', ''snapshotId'', ''snapshot_id'']
           [topic 4 entry, Jundefined]
     in log_event entry (if topic0 = ''dividendclaimed'' then ''DividendClaimed'' else ''DIVIDEND_CLAIMED'')
       [(''creatorId'', data_or entry [''creatorId'', ''keyId'', ''key_id''] [topic 1 entry, Jstr (lg_contractId entry)]),
        (''claimantAddress'', Jstr (js_text lib (data_or entry
          [''claimantAddress'', ''claimant_address'', ''claimant'', ''wallet'', ''walletAddress'', ''wallet_address'']
          [topic 2 entry, Jstr []]))),
        (''amountXlm'', if rawAmount = Jundefined then Jundefined else Jstr (js_text lib rawAmount)),
        (''distributionId'', distributionId), (''snapshotId'', distributionId),
        (''claimedAt'', data_or entry [''claimedAt'', ''claimed_at'', ''timestamp''] [Jstr stamp])])"

definition parseDividendContractLog :: "dividend_env \<Rightarrow> instant \<Rightarrow> contract_log \<Rightarrow> chain_event option" where
  "parseDividendContractLog env now entry =
    (case lg_topics entry of
      [] \<Rightarrow> None
    | t # _ \<Rightarrow>
        let topic0 = to_lower t;
            stamp = dv_iso env (case parseEventDate (dv_lib env) (lg_timestamp entry) of None \<Rightarrow> now | Some d \<Rightarrow> d)
        in if topic0 \<in> SNAPSHOT_TOPICS \<or> topic0 \<in> {''dividend_distributed'', ''dividenddistributed'', ''distributed''}
           then Some (snapshot_log env topic0 stamp entry)
           else if topic0 \<in> {''dividend_claimed'', ''dividendclaimed'', ''claimed''}
           then Some (claim_log env topic0 stamp entry)
           else None)"

definition processDividendContractLogs ::
  "dividend_env \<Rightarrow> instant \<Rightarrow> bool \<Rightarrow> contract_log list \<Rightarrow> dividend_db \<Rightarrow> (dividend_error + unit) \<times> dividend_db" where
  "processDividendContractLogs env now writeOk logs db =
    (let events = List.map_filter (parseDividendContractLog env now) logs
     in if events = [] then (Inr (), db) else processDividendEvents env writeOk True events db)"

section \<open>Distributions of the creator\<close>

text \<open>The defaults of the parameters: a transaction hash made from the time, ledger 1, event index 0.\<close>

definition holder_payments :: "rat \<Rightarrow> position list \<Rightarrow> (string \<times> rat) list" where
  "holder_payments perKey holders = map (\<lambda>h. (po_owner h, fl (fl (po_balance h) * perKey))) holders"

definition log_key :: "wallet_log \<Rightarrow> string \<times> string \<times> string" where
  "log_key r = (wl_txHash r, wl_actor r, wl_type r)"

definition log_payments ::
  "dividend_env \<Rightarrow> creator_name \<Rightarrow> string \<Rightarrow> string \<Rightarrow> rat \<Rightarrow> instant \<Rightarrow> position list \<Rightarrow> wallet_log list" where
  "log_payments env creator distributionId txHash perKey now holders =
    map (\<lambda>h. \<lparr>wl_type = ''dividend'', wl_actor = po_owner h, wl_keyId = cn_id creator,
      wl_creatorName = (if cn_displayName creator \<noteq> [] then cn_displayName creator else cn_handle creator),
      wl_amount = fl (fl (po_balance h) * perKey), wl_txHash = txHash, wl_timestamp = now,
      wl_payload = [(''distributionId'', Jstr distributionId), (''perKeyAmount'', Jnum (Fin perKey)),
        (''holderKeys'', Jnum (Fin (fl (po_balance h))))]\<rparr>) holders"

fun insert_logs :: "wallet_log list \<Rightarrow> wallet_log list \<Rightarrow> wallet_log list" where
  "insert_logs [] rows = rows"
| "insert_logs (r # rs) rows = insert_logs rs (if log_key r \<in> set (map log_key rows) then rows else insert_row r rows)"

text \<open>The writes are separate statements: those before a failure stay.\<close>

definition createDividendDistribution ::
  "dividend_env \<Rightarrow> instant \<Rightarrow> string \<Rightarrow> rat \<Rightarrow> string \<Rightarrow> string option \<Rightarrow> int option \<Rightarrow> dividend_db \<Rightarrow>
    (dividend_error + string \<times> int \<times> rat) \<times> dividend_db" where
  "createDividendDistribution env now creatorId totalAmount creatorWallet hash ledgerArg db =
    (let txHash = (case hash of Some h \<Rightarrow> h | None \<Rightarrow> ''tx-'' @ show_int now);
         ledger = (case ledgerArg of Some l \<Rightarrow> l | None \<Rightarrow> 1)
     in case find_by cn_id creatorId (dv_creators db) of
       None \<Rightarrow> (Inl CreatorNotFound, db)
     | Some creator \<Rightarrow>
         let holders = holders_of creatorId (dv_own db);
             totalKeys = total_balance holders;
             perKeyAmount = (if totalKeys > 0 then fl (totalAmount / totalKeys) else 0);
             d = \<lparr>ds_id = dv_id env (length (dv_dists db)), ds_creatorId = creatorId, ds_distributionDate = now,
               ds_totalAmountXlm = dv_enc env totalAmount, ds_holderCount = int (length holders),
               ds_perKeyAmountXlm = dv_enc env perKeyAmount, ds_claimWindowStart = None, ds_claimWindowEnd = None,
               ds_chainSnapshotId = None, ds_ledger = ledger, ds_txHash = txHash, ds_eventIndex = 0\<rparr>;
             claims = map (\<lambda>(w, a). \<lparr>cl_distributionId = ds_id d, cl_recipient = w, cl_amountXlm = dv_enc env a,
               cl_claimedAt = None\<rparr>) (holder_payments perKeyAmount holders)
         in if \<not> fits_column (ds_totalAmountXlm d) \<or> \<not> fits_column (ds_perKeyAmountXlm d) then (Inl BadDividendValue, db)
            else if list_ex (same_distribution d) (dv_dists db) then (Inl DistributionExists, db)
            else
              let db1 = db\<lparr>dv_dists := insert_row d (dv_dists db)\<rparr>
              in if \<not> list_all (\<lambda>c. fits_column (cl_amountXlm c)) claims then (Inl BadDividendValue, db1)
                 else (Inr (ds_id d, int (length holders), perKeyAmount),
                   db1\<lparr>dv_claims := insert_claims claims (dv_claims db1),
                     dv_log := insert_logs (log_payments env creator (ds_id d) txHash perKeyAmount now holders) (dv_log db1),
                     dv_activities := insert_row
                       \<lparr>ac_type = ''DIVIDEND_DISTRIBUTED'', ac_actor = creatorWallet, ac_creatorId = Some creatorId,
                        ac_payload = [(''distributionId'', Jstr (ds_id d)), (''totalAmount'', Jnum (Fin totalAmount)),
                          (''holderCount'', Jnum (Fin (of_nat (length holders)))), (''perKeyAmount'', Jnum (Fin perKeyAmount)),
                          (''txHash'', Jstr txHash)],
                        ac_createdAt = now\<rparr> (dv_activities db1)\<rparr>))"

section \<open>Reading dividends\<close>

text \<open>Newest first, the later row first among equal dates.\<close>

definition distributions_of :: "string \<Rightarrow> dividend_db \<Rightarrow> dist_row list" where
  "distributions_of creatorId db =
    rev (sort_key ds_distributionDate (filter (\<lambda>d. ds_creatorId d = creatorId) (dv_dists db)))"

definition page_size :: "nat \<Rightarrow> nat" where
  "page_size requested = min (if requested = 0 then 50 else requested) 100"

text \<open>An empty cursor counts as none.\<close>

definition cursor_arg :: "string option \<Rightarrow> string option" where
  "cursor_arg c = (if c = Some [] then None else c)"

definition getDividendDistributions :: "string \<Rightarrow> nat \<Rightarrow> string option \<Rightarrow> dividend_db \<Rightarrow> (dist_row, string) cursor_page" where
  "getDividendDistributions creatorId requested cur db =
    paginateQuery ds_id (cursor_window ds_id (distributions_of creatorId db)) (cursor_arg cur) (page_size requested)"

record wallet_snapshot =
  sn_snapshotId :: string
  sn_totalDistributed :: rat
  sn_claimableAmount :: rat
  sn_claimedAmount :: rat
  sn_claimWindowStart :: "instant option"
  sn_claimWindowEnd :: "instant option"
  sn_distributedAt :: instant

definition snapshot_view :: "string \<Rightarrow> dividend_db \<Rightarrow> dist_row \<Rightarrow> wallet_snapshot" where
  "snapshot_view wallet db d =
    (let claim = find_by claim_key (ds_id d, wallet) (dv_claims db);
         amount = (case claim of None \<Rightarrow> 0 | Some c \<Rightarrow> fl (cl_amountXlm c));
         isClaimed = (case claim of None \<Rightarrow> False | Some c \<Rightarrow> cl_claimedAt c \<noteq> None)
     in \<lparr>sn_snapshotId = (case ds_chainSnapshotId d of Some s \<Rightarrow> if s \<noteq> [] then s else ds_id d | None \<Rightarrow> ds_id d),
         sn_totalDistributed = fl (ds_totalAmountXlm d),
         sn_claimableAmount = (if isClaimed then 0 else amount),
         sn_claimedAmount = (if isClaimed then amount else 0),
         sn_claimWindowStart = ds_claimWindowStart d, sn_claimWindowEnd = ds_claimWindowEnd d,
         sn_distributedAt = ds_distributionDate d\<rparr>)"

definition getKeyWalletDividends :: "string \<Rightarrow> string \<Rightarrow> dividend_db \<Rightarrow> wallet_snapshot list" where
  "getKeyWalletDividends creatorId wallet db = map (snapshot_view wallet db) (distributions_of creatorId db)"

text \<open>Pending and claimed sums per key, in order of first appearance.\<close>

type_synonym key_sums = "(string \<times> rat \<times> rat) list"

definition ensure_key :: "string \<Rightarrow> key_sums \<Rightarrow> key_sums" where
  "ensure_key k table = (if k \<in> fst ` set table then table else table @ [(k, 0, 0)])"

definition add_amount :: "string \<Rightarrow> bool \<Rightarrow> rat \<Rightarrow> key_sums \<Rightarrow> key_sums" where
  "add_amount k claimed amount table =
    map (\<lambda>(k', p, c). if k' = k then if claimed then (k', p, fl (c + amount)) else (k', fl (p + amount), c) else (k', p, c)) table"

definition add_claim :: "dividend_db \<Rightarrow> claim_row \<Rightarrow> key_sums \<Rightarrow> key_sums" where
  "add_claim db c table =
    (case find_by ds_id (cl_distributionId c) (dv_dists db) of
      None \<Rightarrow> table
    | Some d \<Rightarrow> if ds_creatorId d = [] then table
        else add_amount (ds_creatorId d) (cl_claimedAt c \<noteq> None) (fl (cl_amountXlm c)) (ensure_key (ds_creatorId d) table))"

definition holder_sums :: "string \<Rightarrow> dividend_db \<Rightarrow> key_sums" where
  "holder_sums wallet db =
    fold (add_claim db) (filter (\<lambda>c. cl_recipient c = wallet) (dv_claims db))
      (fold (\<lambda>p. ensure_key (po_creator p))
        (filter (\<lambda>p. po_owner p = wallet \<and> 0 < po_balance p) (positions (dv_own db))) [])"

record holder_dividends =
  hd_totalPending :: rat
  hd_totalClaimed :: rat
  hd_total :: rat
  hd_keys :: "(string \<times> rat \<times> rat \<times> rat) list"

text \<open>\<open>rank\<close> stands for the order of \<open>localeCompare\<close>; the sums over the keys are taken before sorting.\<close>

definition getHolderDividends :: "(string \<Rightarrow> nat) \<Rightarrow> string \<Rightarrow> dividend_db \<Rightarrow> holder_dividends" where
  "getHolderDividends rank wallet db =
    (let rows = map (\<lambda>(k, p, c). (k, round7 p, round7 c, round7 (fl (p + c)))) (holder_sums wallet db);
         pending = round7 (foldl (\<lambda>acc (k, p, c, t). fl (acc + p)) 0 rows);
         claimed = round7 (foldl (\<lambda>acc (k, p, c, t). fl (acc + c)) 0 rows)
     in \<lparr>hd_totalPending = pending, hd_totalClaimed = claimed, hd_total = round7 (fl (pending + claimed)),
         hd_keys = sort_key (rank \<circ> fst) rows\<rparr>)"

text \<open>The pending amount shown with an unsigned claim transaction.\<close>

definition pending_amount :: "string \<Rightarrow> string \<Rightarrow> dividend_db \<Rightarrow> rat" where
  "pending_amount keyId wallet db =
    round7 (foldl (\<lambda>acc c. fl (acc + fl (cl_amountXlm c))) 0
      (filter (\<lambda>c. cl_recipient c = wallet \<and> cl_claimedAt c = None \<and>
        (case find_by ds_id (cl_distributionId c) (dv_dists db) of None \<Rightarrow> False | Some d \<Rightarrow> ds_creatorId d = keyId))
        (dv_claims db)))"

section \<open>Claims are settled once\<close>

inductive dividend_step :: "dividend_env \<Rightarrow> dividend_db \<Rightarrow> dividend_db \<Rightarrow> bool" for env where
  batch: "processDividendEvents env ok adv es db = (r, db') \<Longrightarrow> dividend_step env db db'"
| contract_logs: "processDividendContractLogs env now ok logs db = (r, db') \<Longrightarrow> dividend_step env db db'"
| creator: "createDividendDistribution env now c q w h l db = (r, db') \<Longrightarrow> dividend_step env db db'"
| trade: "dividend_step env db (db\<lparr>dv_own := own\<rparr>)"

text \<open>Amount and time of the claims of a wallet on a distribution: as logged, and as the claim rows have them.\<close>

definition logged_claims :: "string \<times> string \<Rightarrow> dividend_db \<Rightarrow> (js_value \<times> instant) list" where
  "logged_claims k db =
    map (\<lambda>a. (js_field ''amount_xlm'' (ac_payload a), ac_createdAt a))
      (filter (\<lambda>a. ac_type a = ''DIVIDEND_CLAIMED'' \<and> ac_actor a = snd k \<and>
         js_field ''distribution_id'' (ac_payload a) = Jstr (fst k)) (dv_activities db))"

definition settled_claims :: "dividend_env \<Rightarrow> string \<times> string \<Rightarrow> dividend_db \<Rightarrow> (js_value \<times> instant) list" where
  "settled_claims env k db =
    map (\<lambda>c. (Jstr (dv_decimal env (cl_amountXlm c)), the (cl_claimedAt c)))
      (filter (\<lambda>c. claim_key c = k \<and> cl_claimedAt c \<noteq> None) (dv_claims db))"

definition dividends_ok :: "dividend_env \<Rightarrow> dividend_db \<Rightarrow> bool" where
  "dividends_ok env db \<longleftrightarrow>
    map ds_id (dv_dists db) = map (dv_id env) [0..<length (dv_dists db)] \<and>
    distinct (map claim_key (dv_claims db)) \<and>
    cl_distributionId ` set (dv_claims db) \<subseteq> ds_id ` set (dv_dists db) \<and>
    (\<forall>k. logged_claims k db = settled_claims env k db)"

text \<open>Settled rows stay as they are.\<close>

definition keeps_settled :: "dividend_db \<Rightarrow> dividend_db \<Rightarrow> bool" where
  "keeps_settled db db' \<longleftrightarrow> {c \<in> set (dv_claims db). cl_claimedAt c \<noteq> None} \<subseteq> set (dv_claims db')"

lemma keeps_settled_refl [simp]: "keeps_settled db db"
  by (auto simp: keeps_settled_def)

lemma keeps_settled_trans: "keeps_settled db db1 \<Longrightarrow> keeps_settled db1 db2 \<Longrightarrow> keeps_settled db db2"
  by (auto simp: keeps_settled_def)

lemma insert_claims_prefix: "\<exists>new. insert_claims cs rows = rows @ new \<and> set new \<subseteq> set cs"
proof (induction cs arbitrary: rows)
  case (Cons c cs)
  show ?case
  proof (cases "claim_key c \<in> set (map claim_key rows)")
    case True
    then show ?thesis using Cons.IH [of rows] by auto
  next
    case False
    obtain new where "insert_claims cs (rows @ [c]) = (rows @ [c]) @ new" "set new \<subseteq> set cs"
      using Cons.IH by blast
    with False show ?thesis by (intro exI [of _ "c # new"]) (auto simp: insert_row_def)
  qed
qed simp

lemma distinct_insert_claims:
  "distinct (map claim_key rows) \<Longrightarrow> distinct (map claim_key (insert_claims cs rows))"
  by (induction cs rows rule: insert_claims.induct) (auto simp: insert_row_def)

lemma choose_claimD:
  assumes "choose_claim creator wallet ref amount db = Some c"
  shows "c \<in> set (dv_claims db)" "cl_claimedAt c = None" "cl_recipient c = wallet"
proof -
  let ?only = "map_option ds_id (case ref of None \<Rightarrow> None | Some r \<Rightarrow> find_snapshot creator r (dv_dists db))"
  have "c \<in> set (pending_claims creator wallet ?only db)"
    using assms by (auto simp: choose_claim_def Let_def filter_eq_Cons_iff split: if_splits list.splits option.splits)
  then show "c \<in> set (dv_claims db)" "cl_claimedAt c = None" "cl_recipient c = wallet"
    by (auto simp: pending_claims_def Let_def)
qed

lemma same_key_row: "distinct (map claim_key rows) \<Longrightarrow> c \<in> set rows \<Longrightarrow> r \<in> set rows \<Longrightarrow> claim_key r = claim_key c \<Longrightarrow> r = c"
  by (simp add: distinct_map inj_on_def)

lemma claim_key_settled [simp]: "claim_key (c\<lparr>cl_claimedAt := u\<rparr>) = claim_key c"
  by (simp add: claim_key_def)

lemma marked_claims:
  assumes "distinct (map claim_key rows)" "c \<in> set rows" "cl_claimedAt c = None"
  shows "filter (\<lambda>r. claim_key r = k \<and> cl_claimedAt r \<noteq> None) (mark_claimed (claim_key c) t rows) =
    filter (\<lambda>r. claim_key r = k \<and> cl_claimedAt r \<noteq> None) rows @
      (if k = claim_key c then [c\<lparr>cl_claimedAt := Some t\<rparr>] else [])"
  using assms
proof (induction rows)
  case (Cons r rows)
  show ?case
  proof (cases "r = c")
    case True
    with Cons.prems have "claim_key c \<notin> claim_key ` set rows" by auto
    then have no: "claim_key x \<noteq> claim_key c" if "x \<in> set rows" for x using that by (metis image_eqI)
    then have "mark_claimed (claim_key c) t rows = rows" "filter (\<lambda>r. claim_key r = claim_key c \<and> cl_claimedAt r \<noteq> None) rows = []"
      by (auto simp: mark_claimed_def modify_where_def filter_empty_conv no intro!: map_idI)
    with True Cons.prems show ?thesis by (auto simp: mark_claimed_def modify_where_def)
  next
    case False
    with Cons show ?thesis by (auto simp: mark_claimed_def modify_where_def)
  qed
qed simp

lemma marked_keys [simp]: "map claim_key (mark_claimed k t rows) = map claim_key rows"
  by (simp add: mark_claimed_def modify_where_def)

lemma marked_distributions [simp]: "cl_distributionId ` set (mark_claimed k t rows) = cl_distributionId ` set rows"
proof -
  have "fst ` claim_key ` set rs = cl_distributionId ` set rs" for rs by (simp add: image_image claim_key_def)
  then show ?thesis using arg_cong [OF marked_keys [of k t rows], of "\<lambda>ks. fst ` set ks"] by (simp only: set_map)
qed

lemma logged_is_settled: "dividends_ok env db \<Longrightarrow> logged_claims k db = settled_claims env k db"
  unfolding dividends_ok_def by blast

lemma settle_claim_ok:
  assumes ok: "dividends_ok env db"
  shows "dividends_ok env (settle_claim env creator wallet ref amount l h t db)"
    and "keeps_settled db (settle_claim env creator wallet ref amount l h t db)"
proof -
  let ?db = "settle_claim env creator wallet ref amount l h t db"
  have "dividends_ok env ?db \<and> keeps_settled db ?db"
  proof (cases "choose_claim creator wallet ref amount db")
    case None
    then show ?thesis using ok by (simp add: settle_claim_def)
  next
    case (Some c)
    note c = choose_claimD [OF Some]
    have ck: "claim_key c = (cl_distributionId c, wallet)" using c(3) by (simp add: claim_key_def)
    have dist: "distinct (map claim_key (dv_claims db))" using ok by (simp add: dividends_ok_def)
    have "logged_claims k ?db = settled_claims env k ?db" for k
    proof -
      note eq = logged_is_settled [OF ok, of k]
      have "logged_claims k ?db = logged_claims k db @
          (if k = claim_key c then [(Jstr (dv_decimal env (cl_amountXlm c)), t)] else [])"
        by (cases k) (auto simp: settle_claim_def Some logged_claims_def insert_row_def claimed_activity_def
            js_field_def ck)
      moreover have "settled_claims env k ?db = settled_claims env k db @
          (if k = claim_key c then [(Jstr (dv_decimal env (cl_amountXlm c)), t)] else [])"
        using marked_claims [OF dist c(1,2), of k t] by (simp add: settle_claim_def Some settled_claims_def)
      ultimately show ?thesis by (simp add: eq)
    qed
    then have "dividends_ok env ?db" using ok by (simp add: dividends_ok_def settle_claim_def Some)
    moreover have "keeps_settled db ?db"
      by (force simp: keeps_settled_def settle_claim_def Some mark_claimed_def modify_where_def)
    ultimately show ?thesis by simp
  qed
  then show "dividends_ok env ?db" "keeps_settled db ?db" by simp_all
qed

lemma insert_claims_ok:
  assumes ok: "dividends_ok env db" and id: "ds_id d = dv_id env (length (dv_dists db))"
    and cs: "cl_distributionId ` set cs \<subseteq> {ds_id d}" "\<forall>c \<in> set cs. cl_claimedAt c = None"
    and a: "ac_type a = ''DIVIDEND_DISTRIBUTED''"
    and db': "dv_dists db' = insert_row d (dv_dists db)" "dv_claims db' = insert_claims cs (dv_claims db)"
      "dv_activities db' = insert_row a (dv_activities db)"
  shows "dividends_ok env db'" and "keeps_settled db db'"
proof -
  obtain new where new: "insert_claims cs (dv_claims db) = dv_claims db @ new" "set new \<subseteq> set cs"
    using insert_claims_prefix by blast
  have "logged_claims k db' = logged_claims k db" for k
    using a by (simp add: logged_claims_def db' insert_row_def)
  moreover have "settled_claims env k db' = settled_claims env k db" for k
  proof -
    have "filter (\<lambda>c. claim_key c = k \<and> cl_claimedAt c \<noteq> None) new = []"
      using new(2) cs(2) by (auto simp: filter_empty_conv)
    then show ?thesis by (simp add: settled_claims_def db' new(1))
  qed
  moreover have "cl_distributionId ` set new \<subseteq> {ds_id d}" using new(2) cs(1) by auto
  then have "cl_distributionId ` set (dv_claims db') \<subseteq> ds_id ` set (dv_dists db')"
    using ok by (auto simp: dividends_ok_def db' new(1) insert_row_def)
  moreover have "distinct (map claim_key (dv_claims db'))"
    using ok by (simp add: dividends_ok_def db' distinct_insert_claims)
  ultimately show "dividends_ok env db'"
    using ok id by (simp add: dividends_ok_def db' insert_row_def)
  show "keeps_settled db db'" by (auto simp: keeps_settled_def db' new(1))
qed

lemma dist_only_ok:
  assumes "dividends_ok env db" "ds_id d = dv_id env (length (dv_dists db))"
  shows "dividends_ok env (db\<lparr>dv_dists := insert_row d (dv_dists db)\<rparr>)"
    and "keeps_settled db (db\<lparr>dv_dists := insert_row d (dv_dists db)\<rparr>)"
  using assms by (auto simp: dividends_ok_def keeps_settled_def insert_row_def logged_claims_def settled_claims_def)

lemma record_distribution_ok:
  assumes "dividends_ok env db" "ds_id d = dv_id env (length (dv_dists db))"
  shows "dividends_ok env (snd (record_distribution env who d amount p hs db)) \<and>
    keeps_settled db (snd (record_distribution env who d amount p hs db))"
proof -
  let ?db = "db\<lparr>dv_dists := insert_row d (dv_dists db),
       dv_claims := insert_claims (claims_for env (ds_id d) p hs) (dv_claims db),
       dv_activities := insert_row (distributed_activity env who d amount p) (dv_activities db)\<rparr>"
  have "dividends_ok env ?db" "keeps_settled db ?db"
    by (rule insert_claims_ok [OF assms, of "claims_for env (ds_id d) p hs" "distributed_activity env who d amount p"];
        auto simp: claims_for_def distributed_activity_def)+
  then show ?thesis using assms(1) by (auto simp: record_distribution_def)
qed

lemma create_ok:
  assumes ok: "dividends_ok env db"
  shows "dividends_ok env (snd (createDividendDistribution env now c q w h l db)) \<and>
    keeps_settled db (snd (createDividendDistribution env now c q w h l db))"
proof (cases "find_by cn_id c (dv_creators db)")
  case (Some creator)
  let ?hs = "holders_of c (dv_own db)"
  define p where "p = (if total_balance ?hs > 0 then fl (q / total_balance ?hs) else 0)"
  define hash where "hash = (case h of Some h \<Rightarrow> h | None \<Rightarrow> ''tx-'' @ show_int now)"
  define d where "d = \<lparr>ds_id = dv_id env (length (dv_dists db)), ds_creatorId = c, ds_distributionDate = now,
     ds_totalAmountXlm = dv_enc env q, ds_holderCount = int (length ?hs),
     ds_perKeyAmountXlm = dv_enc env p, ds_claimWindowStart = None, ds_claimWindowEnd = None,
     ds_chainSnapshotId = None, ds_ledger = (case l of Some l \<Rightarrow> l | None \<Rightarrow> 1), ds_txHash = hash, ds_eventIndex = 0\<rparr>"
  define cs where "cs = map (\<lambda>(w, a). \<lparr>cl_distributionId = ds_id d, cl_recipient = w, cl_amountXlm = dv_enc env a,
     cl_claimedAt = None\<rparr>) (holder_payments p ?hs)"
  define a where "a = \<lparr>ac_type = ''DIVIDEND_DISTRIBUTED'', ac_actor = w, ac_creatorId = Some c,
    ac_payload = [(''distributionId'', Jstr (ds_id d)), (''totalAmount'', Jnum (Fin q)),
      (''holderCount'', Jnum (Fin (of_nat (length ?hs)))), (''perKeyAmount'', Jnum (Fin p)),
      (''txHash'', Jstr hash)],
    ac_createdAt = now\<rparr>"
  define out where "out = db\<lparr>dv_dists := insert_row d (dv_dists db), dv_claims := insert_claims cs (dv_claims db),
    dv_log := insert_logs (log_payments env creator (ds_id d) hash p now ?hs) (dv_log db),
    dv_activities := insert_row a (dv_activities db)\<rparr>"
  have id: "ds_id d = dv_id env (length (dv_dists db))" by (simp add: d_def)
  have "dividends_ok env out" "keeps_settled db out"
    by (rule insert_claims_ok [OF ok id, of cs a]; force simp: cs_def a_def out_def)+
  moreover note dist_only_ok [OF ok id]
  moreover have "snd (createDividendDistribution env now c q w h l db) \<in>
      {db, db\<lparr>dv_dists := insert_row d (dv_dists db)\<rparr>, out}"
    unfolding createDividendDistribution_def Let_def Some option.case hash_def [symmetric] p_def [symmetric]
      d_def [symmetric] cs_def [symmetric] a_def [symmetric]
    by (simp add: out_def)
  ultimately show ?thesis using ok by auto
qed (simp add: createDividendDistribution_def ok)

lemma store_snapshot_ok:
  assumes ok: "dividends_ok env db"
  shows "dividends_ok env (snd (store_snapshot env e creator who s amount t ws we n db)) \<and>
    keeps_settled db (snd (store_snapshot env e creator who s amount t ws we n db))"
  unfolding store_snapshot_def Let_def
  by (auto simp: ok record_distribution_ok [OF ok] split: js_value.split js_num.split)

lemma dividend_handler_ok:
  assumes ok: "dividends_ok env db"
  shows "dividends_ok env (snd (dividend_handler env e db)) \<and> keeps_settled db (snd (dividend_handler env e db))"
proof -
  have "dividends_ok env (snd (claim_event env e db)) \<and> keeps_settled db (snd (claim_event env e db))"
    using ok settle_claim_ok [OF ok] by (auto simp: claim_event_def split: sum.split option.split prod.split)
  moreover have "dividends_ok env (snd (snapshot_event env e db)) \<and> keeps_settled db (snd (snapshot_event env e db))"
    using ok store_snapshot_ok [OF ok]
    by (auto simp: snapshot_event_def split: sum.split option.split prod.split)
  ultimately show ?thesis using ok by (simp add: dividend_handler_def)
qed

lemma run_dividends_ok:
  "dividends_ok env db \<Longrightarrow> dividends_ok env (snd (run_events (dividend_handler env) es db)) \<and>
    keeps_settled db (snd (run_events (dividend_handler env) es db))"
proof (induction es arbitrary: db)
  case (Cons e es)
  obtain r db1 where e: "dividend_handler env e db = (r, db1)" by force
  have db1: "dividends_ok env db1" "keeps_settled db db1" using dividend_handler_ok [OF Cons.prems, of e] e by simp_all
  show ?case using db1 Cons.IH [OF db1(1)] e by (cases r) (auto intro: keeps_settled_trans)
qed simp

lemma process_dividends_ok:
  assumes ok: "dividends_ok env db"
  shows "dividends_ok env (snd (processDividendEvents env w adv es db)) \<and>
    keeps_settled db (snd (processDividendEvents env w adv es db))"
proof -
  have cursor: "dividends_ok env (x\<lparr>dv_cursor := c\<rparr>) = dividends_ok env x" "keeps_settled db (x\<lparr>dv_cursor := c\<rparr>) = keeps_settled db x"
    for x c by (simp_all add: dividends_ok_def logged_claims_def settled_claims_def keeps_settled_def)
  show ?thesis
    using run_dividends_ok [OF ok, of "dedupeChainEvents es"]
    by (auto simp: processDividendEvents_def processIndexerChainEvents_def cursor split: prod.split sum.split)
qed

lemma dividend_step_ok: "dividend_step env db db' \<Longrightarrow> dividends_ok env db \<Longrightarrow> dividends_ok env db' \<and> keeps_settled db db'"
proof (induction rule: dividend_step.induct)
  case (batch ok adv es db r db')
  then show ?case using process_dividends_ok [of env db ok adv es] by simp
next
  case (contract_logs now ok logs db r db')
  then show ?case
    using process_dividends_ok [of env db ok True "List.map_filter (parseDividendContractLog env now) logs"]
    by (auto simp: processDividendContractLogs_def Let_def split: if_splits)
next
  case (creator now c q w h l db r db')
  then show ?case using create_ok [of env db now c q w h l] by simp
next
  case (trade db own)
  then show ?case by (simp add: dividends_ok_def logged_claims_def settled_claims_def keeps_settled_def)
qed

lemma no_claims_ok:
  assumes "dv_dists db = []" "dv_claims db = []" "\<forall>a \<in> set (dv_activities db). ac_type a \<noteq> ''DIVIDEND_CLAIMED''"
  shows "dividends_ok env db"
  using assms by (auto simp: dividends_ok_def logged_claims_def settled_claims_def filter_empty_conv)

lemma dividend_steps_ok:
  "(dividend_step env)\<^sup>*\<^sup>* db db' \<Longrightarrow> dividends_ok env db \<Longrightarrow> dividends_ok env db' \<and> keeps_settled db db'"
  by (induction rule: rtranclp_induct) (auto dest: dividend_step_ok keeps_settled_trans)

lemma length_filter_key: "distinct (map f xs) \<Longrightarrow> length (filter (\<lambda>x. f x = k \<and> P x) xs) \<le> 1"
  by (induction xs) (auto simp: filter_empty_conv image_iff)

text \<open>C29: However batches, contract logs, distributions of creators and trades follow each other, a distribution pays a
  wallet at most one claim; the claims written to the activities are exactly the claim rows marked as claimed,
  with their amounts and times, and a row once marked is never changed or removed.\<close>

theorem dividend_claims_settle_once:
  assumes "inj (dv_id env)" "dv_dists db = []" "dv_claims db = []"
    and "\<forall>a \<in> set (dv_activities db). ac_type a \<noteq> ''DIVIDEND_CLAIMED''"
    and run: "(dividend_step env)\<^sup>*\<^sup>* db db1" "(dividend_step env)\<^sup>*\<^sup>* db1 db2"
  shows "distinct (map ds_id (dv_dists db1)) \<and> distinct (map claim_key (dv_claims db1)) \<and>
    logged_claims k db1 = settled_claims env k db1 \<and> length (logged_claims k db1) \<le> 1 \<and>
    {c \<in> set (dv_claims db1). cl_claimedAt c \<noteq> None} \<subseteq> set (dv_claims db2)"
proof -
  have ok: "dividends_ok env db1" using dividend_steps_ok [OF run(1) no_claims_ok [OF assms(2-4)]] by simp
  then have rows: "distinct (map claim_key (dv_claims db1))" "map ds_id (dv_dists db1) = map (dv_id env) [0..<length (dv_dists db1)]"
    by (simp_all add: dividends_ok_def)
  have "distinct (map (dv_id env) [0..<n])" for n using assms(1) by (simp add: distinct_map inj_on_def)
  moreover have "length (logged_claims k db1) \<le> 1"
    using length_filter_key [OF rows(1), of k "\<lambda>c. cl_claimedAt c \<noteq> None"] by (simp add: logged_is_settled [OF ok] settled_claims_def)
  ultimately show ?thesis
    using rows dividend_steps_ok [OF run(2) ok] by (simp add: logged_is_settled [OF ok] keeps_settled_def)
qed

section \<open>What a snapshot pays\<close>

text \<open>The columns keep the double they are given up to their seven places.\<close>

definition column_near :: "(rat \<Rightarrow> rat) \<Rightarrow> bool" where
  "column_near enc \<longleftrightarrow> (\<forall>q. 0 \<le> q \<and> q \<le> 2 * 10 ^ 8 \<longrightarrow> \<bar>enc q - q\<bar> \<le> 1 / 10 ^ 7)"

text \<open>Whole balances, with a sum a double can hold.\<close>

definition whole_balances :: "position list \<Rightarrow> int \<Rightarrow> bool" where
  "whole_balances holders keys \<longleftrightarrow> (\<exists>ns. map po_balance holders = map of_int ns \<and> (\<forall>n \<in> set ns. 0 < n) \<and>
    sum_list ns = keys \<and> keys < 2 ^ 53)"

lemma foldl_whole:
  "map po_balance holders = map of_int ns \<Longrightarrow> (\<forall>n \<in> set ns. 0 < n) \<Longrightarrow> 0 \<le> a \<Longrightarrow> a + sum_list ns < 2 ^ 53 \<Longrightarrow>
    foldl (\<lambda>acc h. fl (acc + fl (po_balance h))) (of_int a) holders = of_int (a + sum_list ns)"
proof (induction ns arbitrary: holders a)
  case (Cons n ns)
  then obtain h hs where h: "holders = h # hs" "po_balance h = of_int n" "map po_balance hs = map of_int ns" by (auto simp: Cons_eq_map_conv)
  have s: "0 \<le> sum_list ns" using Cons.prems(2) by (intro sum_list_nonneg) (auto intro: less_imp_le)
  then have "fl (of_int a + fl (of_int n)) = of_int (a + n)"
    using Cons.prems fl_whole [of n] fl_whole [of "a + n"] by simp
  then show ?case using Cons.IH [OF h(3), of "a + n"] Cons.prems by (simp add: h add.assoc)
qed simp

lemma total_whole: "whole_balances holders keys \<Longrightarrow> total_balance holders = of_int keys"
  using foldl_whole [of holders _ 0] by (auto simp: whole_balances_def total_balance_def)

lemma rounded_near:
  assumes "0 \<le> y" "y \<le> 11 * 10 ^ 7"
  shows "\<bar>round7 (fl y) - y\<bar> \<le> 1 / 10 ^ 7" and "0 \<le> round7 (fl y)"
proof -
  have a: "\<bar>fl y - y\<bar> \<le> y / 2 ^ 53" "0 \<le> fl y" using assms fl_near fl_nonneg by auto
  have b: "\<bar>to_fixed7 (fl y) - fl y\<bar> \<le> 1 / (2 * 10 ^ 7)" "0 \<le> to_fixed7 (fl y)"
    using a(2) to_fixed7_near to_fixed7_nonneg by auto
  have c: "\<bar>fl (to_fixed7 (fl y)) - to_fixed7 (fl y)\<bar> \<le> to_fixed7 (fl y) / 2 ^ 53" using b(2) by (rule fl_near)
  have y: "y / 2 ^ 53 \<le> 2 / 10 ^ 8" using assms(2) by (simp add: divide_le_eq)
  then have "to_fixed7 (fl y) \<le> 12 * 10 ^ 7" using a(1) b(1) assms(2) unfolding abs_le_iff by simp
  then have "to_fixed7 (fl y) / 2 ^ 53 \<le> 2 / 10 ^ 8" by (simp add: divide_le_eq)
  with a b c y show "\<bar>round7 (fl y) - y\<bar> \<le> 1 / 10 ^ 7" unfolding round7_def abs_le_iff by simp
  show "0 \<le> round7 (fl y)" using b(2) by (simp add: round7_def fl_nonneg)
qed

lemma claim_near:
  assumes enc: "column_near enc" and n: "0 < n" "n \<le> keys" "keys \<le> 10 ^ 9" and b: "po_balance h = of_int n"
    and p: "\<bar>fl p - q\<bar> \<le> 1 / 10 ^ 7" "0 \<le> fl p" and q: "q * of_int keys \<le> 10 ^ 8" "0 \<le> q"
  shows "\<bar>enc (payout p h) - q * of_int n\<bar> \<le> (of_int n + 2) / 10 ^ 7"
proof -
  let ?x = "fl p * of_int n"
  have n': "(0::rat) < of_int n" "(of_int n :: rat) \<le> of_int keys" "(of_int keys :: rat) \<le> 10 ^ 9"
    using n by (simp_all only: of_int_0_less_iff of_int_le_iff) (metis of_int_le_iff of_int_numeral of_int_power)
  have "\<bar>?x - q * of_int n\<bar> = \<bar>fl p - q\<bar> * of_int n" using n'(1) by (simp add: abs_mult flip: left_diff_distrib)
  then have d: "\<bar>?x - q * of_int n\<bar> \<le> of_int n / 10 ^ 7" using mult_right_mono [OF p(1), of "of_int n"] n'(1) by simp
  have "q * of_int n \<le> q * of_int keys" using n'(2) q(2) by (rule mult_left_mono)
  then have x: "0 \<le> ?x" "?x \<le> 11 * 10 ^ 7" using d n' q(1) p(2) unfolding abs_le_iff by (simp_all)
  have "fl (of_int n) = (of_int n :: rat)" using n by (intro fl_whole) simp
  then have pay: "payout p h = round7 (fl ?x)" by (simp add: payout_def b)
  note r = rounded_near [OF x]
  have "round7 (fl ?x) \<le> 2 * 10 ^ 8" using r(1) x(2) unfolding abs_le_iff by simp
  then have "\<bar>enc (round7 (fl ?x)) - round7 (fl ?x)\<bar> \<le> 1 / 10 ^ 7" using enc r(2) by (simp add: column_near_def)
  with r(1) d show ?thesis unfolding pay abs_le_iff by (simp add: add_divide_distrib)
qed

lemma claims_near:
  assumes "column_near enc" "keys \<le> 10 ^ 9" "\<bar>fl p - q\<bar> \<le> 1 / 10 ^ 7" "0 \<le> fl p" "q * of_int keys \<le> 10 ^ 8" "0 \<le> q"
  shows "map po_balance hs = map of_int ns \<Longrightarrow> \<forall>n \<in> set ns. 0 < n \<and> n \<le> keys \<Longrightarrow>
    \<bar>sum_list (map (\<lambda>h. enc (payout p h)) hs) - q * of_int (sum_list ns)\<bar> \<le> (of_int (sum_list ns) + 2 * of_nat (length hs)) / 10 ^ 7"
proof (induction ns arbitrary: hs)
  case (Cons n ns)
  then obtain h hs' where h: "hs = h # hs'" "po_balance h = of_int n" "map po_balance hs' = map of_int ns" by (auto simp: Cons_eq_map_conv)
  have "\<bar>enc (payout p h) - q * of_int n\<bar> \<le> (of_int n + 2) / 10 ^ 7"
    using Cons.prems(2) by (intro claim_near [OF assms(1) _ _ assms(2) h(2) assms(3-6)]) auto
  then show ?case using Cons.IH [OF h(3)] Cons.prems(2) unfolding abs_le_iff
    by (simp add: h(1) algebra_simps add_divide_distrib)
qed simp

text \<open>C30: The claims of a snapshot add up to its total, up to the rounding of the seven places: at most \<open>10^-7\<close> for
  every key held and \<open>2 * 10^-7\<close> for every holder, whatever the total (to \<open>10^8\<close>) and the balances.\<close>

theorem snapshot_pays_its_total:
  assumes "eventType \<in> {''DIVIDEND_SNAPSHOT_CREATED'', ''DividendSnapshotCreated''}"
    and "column_near (dv_enc env)" "whole_balances holders keys" "0 < keys" "keys \<le> 10 ^ 9" "0 \<le> amount" "amount \<le> 10 ^ 8"
  shows "\<bar>sum_list (map cl_amountXlm (claims_for env distributionId (per_key eventType amount n holders) holders)) - amount\<bar> \<le>
    (of_int keys + 2 * of_nat (length holders)) / 10 ^ 7"
proof -
  let ?q = "amount / of_int keys" and ?p = "per_key eventType amount n holders"
  have k: "(0::rat) < of_int keys" "(1::rat) \<le> of_int keys" using assms(4) by simp_all
  have p: "?p = to_fixed7 (fl ?q)" using assms(1) k(1) by (auto simp: per_key_def total_whole [OF assms(3)])
  have q: "0 \<le> ?q" "?q * of_int keys = amount" using k assms(6) by simp_all
  have "?q \<le> amount / 1" using k assms(6) by (intro divide_left_mono) auto
  then have "?q \<le> 11 * 10 ^ 7" using assms(7) by simp
  note r = rounded_near [OF q(1) this]
  obtain ns where ns: "map po_balance holders = map of_int ns" "\<forall>n \<in> set ns. 0 < n" "sum_list ns = keys"
    using assms(3) by (auto simp: whole_balances_def)
  have "n \<le> keys" if "n \<in> set ns" for n
    using member_le_sum_list [OF that] ns(2,3) by (metis less_imp_le)
  then have "\<forall>n \<in> set ns. 0 < n \<and> n \<le> keys" using ns(2) by simp
  moreover have "map cl_amountXlm (claims_for env distributionId ?p holders) = map (\<lambda>h. dv_enc env (payout ?p h)) holders"
    by (simp add: claims_for_def)
  ultimately show ?thesis
    using claims_near [OF assms(2,5), of ?p ?q, OF _ _ _ q(1) ns(1)] r q(2) assms(7)
    by (simp add: p round7_def ns(3))
qed

section \<open>A small run\<close>

definition sample_lib :: js_text_lib where
  "sample_lib = \<lparr>num_text = (\<lambda>_. ''10''), parse_num = (\<lambda>_. NaN), parse_date = (\<lambda>_. None)\<rparr>"

definition sample_env :: dividend_env where
  "sample_env = \<lparr>dv_lib = sample_lib, dv_id = (\<lambda>n. replicate n CHR ''d''), dv_enc = (\<lambda>q. q), dv_decimal = (\<lambda>_. ''10''),
    dv_fixed = (\<lambda>_. ''2.0000000''), dv_iso = (\<lambda>_. ''2026-01-01'')\<rparr>"

definition sample_position :: "string \<Rightarrow> position" where
  "sample_position w = \<lparr>po_owner = w, po_creator = ''key'', po_balance = 5, po_costBasis = 1, po_realisedPnl = 0, po_lastBuyAt = None\<rparr>"

definition sample_db :: dividend_db where
  "sample_db = \<lparr>dv_creators = [], dv_own = \<lparr>positions = [sample_position ''wallet''], holdingSnapshots = []\<rparr>, dv_dists = [],
    dv_claims = [], dv_activities = [], dv_log = [], dv_cursor = None\<rparr>"

definition snapshot_of_ten :: chain_event where
  "snapshot_of_ten = \<lparr>ce_txHash = ''a'', ce_eventIndex = 0, ce_ledger = Some 7, ce_eventType = ''DIVIDEND_SNAPSHOT_CREATED'',
    ce_fields = [(''keyId'', Jstr ''key''), (''totalDistributed'', Jnum (Fin 10)), (''timestamp'', Jnum (Fin 1767225600000)),
      (''snapshotId'', Jstr ''s'')]\<rparr>"

definition claim_of_ten :: "string \<Rightarrow> chain_event" where
  "claim_of_ten hash = \<lparr>ce_txHash = hash, ce_eventIndex = 0, ce_ledger = Some 8, ce_eventType = ''DIVIDEND_CLAIMED'',
    ce_fields = [(''keyId'', Jstr ''key''), (''wallet'', Jstr ''wallet''), (''amountXlm'', Jnum (Fin 10)),
      (''timestamp'', Jnum (Fin 1767225700000)), (''snapshotId'', Jstr ''s'')]\<rparr>"

lemma sample_reads:
  "read_snapshot sample_env snapshot_of_ten =
    Inr (Some (''key'', ''unknown'', Some ''s'', 10, 1767225600000, None, None, Jundefined))"
  "read_claim sample_env (claim_of_ten h) =
    (if h = [] then Inr None else Inr (Some (''key'', ''wallet'', Some ''s'', Some 10, 1767225700000)))"
  by (simp_all add: read_snapshot_def read_claim_def Let_def or_chain_def coalesce_def raw_of_def js_field_def snapshot_of_ten_def
      claim_of_ten_def sample_env_def sample_lib_def parseEventDate_def time_clip_def window_bound_def)

lemma sample_numbers: "fl 2 = 2" "fl 5 = 5" "fl 10 = 10" "round7 10 = 10" "to_fixed7 2 = 2"
  using fl_whole [of 2] fl_whole [of 5] fl_whole [of 10] round7_whole [of 10] to_fixed7_whole [of 2] by simp_all

lemmas sample_defs = dividend_handler_def claim_event_def snapshot_event_def sample_reads store_snapshot_def Let_def
  per_key_def total_balance_def payout_def holders_of_def record_distribution_def claims_for_def fits_column_def
  insert_row_def settle_claim_def choose_claim_def find_snapshot_def pending_claims_def mark_claimed_def modify_where_def
  claim_key_def find_by_def sample_numbers CLAIM_TYPES_def SNAPSHOT_TYPES_def

lemma sample_dividend_fields:
  "dv_enc sample_env q = q" "dv_id sample_env n = replicate n CHR ''d''" "ce_eventType snapshot_of_ten = ''DIVIDEND_SNAPSHOT_CREATED''"
  "ce_ledger snapshot_of_ten = Some 7" "ce_txHash snapshot_of_ten = ''a''" "ce_eventIndex snapshot_of_ten = 0"
  "ce_eventType (claim_of_ten h) = ''DIVIDEND_CLAIMED''" "ce_txHash (claim_of_ten h) = h"
  by (simp_all add: sample_env_def snapshot_of_ten_def claim_of_ten_def)

definition sample_dist :: dist_row where
  "sample_dist = \<lparr>ds_id = [], ds_creatorId = ''key'', ds_distributionDate = 1767225600000, ds_totalAmountXlm = 10,
    ds_holderCount = 1, ds_perKeyAmountXlm = 2, ds_claimWindowStart = None, ds_claimWindowEnd = None,
    ds_chainSnapshotId = Some ''s'', ds_ledger = 7, ds_txHash = ''a'', ds_eventIndex = 0\<rparr>"

definition sample_claim :: "instant option \<Rightarrow> claim_row" where
  "sample_claim t = \<lparr>cl_distributionId = [], cl_recipient = ''wallet'', cl_amountXlm = 10, cl_claimedAt = t\<rparr>"

lemma sample_snapshot:
  "\<exists>db. dividend_handler sample_env snapshot_of_ten sample_db = (Inr (), db) \<and> dv_dists db = [sample_dist] \<and>
    dv_claims db = [sample_claim None]"
  by (simp add: sample_defs sample_dividend_fields sample_dist_def sample_claim_def sample_db_def sample_position_def)

lemma sample_settles:
  assumes "dv_dists db = [sample_dist]" "dv_claims db = [sample_claim None]" "h \<noteq> []"
  shows "\<exists>db'. dividend_handler sample_env (claim_of_ten h) db = (Inr (), db') \<and> dv_dists db' = [sample_dist] \<and>
    dv_claims db' = [sample_claim (Some 1767225700000)]"
  using assms by (simp add: sample_defs sample_dividend_fields sample_dist_def sample_claim_def)

lemma sample_settled:
  assumes "dv_dists db = [sample_dist]" "dv_claims db = [sample_claim (Some 1767225700000)]" "h \<noteq> []"
  shows "dividend_handler sample_env (claim_of_ten h) db = (Inr (), db)"
  using assms by (simp add: sample_defs sample_dividend_fields sample_dist_def sample_claim_def)

lemma sample_run:
  "\<exists>db. processDividendEvents sample_env True False [snapshot_of_ten, claim_of_ten ''b'', claim_of_ten ''c''] sample_db = (Inr (), db) \<and>
    dv_claims db = [sample_claim (Some 1767225700000)]"
proof -
  obtain db1 where 1: "dividend_handler sample_env snapshot_of_ten sample_db = (Inr (), db1)" "dv_dists db1 = [sample_dist]"
    "dv_claims db1 = [sample_claim None]" using sample_snapshot by blast
  obtain db2 where 2: "dividend_handler sample_env (claim_of_ten ''b'') db1 = (Inr (), db2)" "dv_dists db2 = [sample_dist]"
    "dv_claims db2 = [sample_claim (Some 1767225700000)]" using sample_settles [OF 1(2,3), of "''b''"] by auto
  have "dedupeChainEvents [snapshot_of_ten, claim_of_ten ''b'', claim_of_ten ''c''] =
      [snapshot_of_ten, claim_of_ten ''b'', claim_of_ten ''c'']" by code_simp
  then show ?thesis using 1(1) 2 sample_settled [OF 2(2,3), of "''c''"]
    by (simp add: processDividendEvents_def processIndexerChainEvents_def)
qed

theorem dividend_claims_settle_once_witness:
  "\<exists>db. (dividend_step sample_env)\<^sup>*\<^sup>* sample_db db \<and> logged_claims ([], ''wallet'') db = [(Jstr ''10'', 1767225700000)] \<and>
    sample_claim (Some 1767225700000) \<in> set (dv_claims db)"
proof -
  obtain db where run: "processDividendEvents sample_env True False [snapshot_of_ten, claim_of_ten ''b'', claim_of_ten ''c''] sample_db =
      (Inr (), db)" and c: "dv_claims db = [sample_claim (Some 1767225700000)]" using sample_run by blast
  have steps: "(dividend_step sample_env)\<^sup>*\<^sup>* sample_db db" using dividend_step.batch [OF run] by blast
  have "inj (dv_id sample_env)" by (rule injI) (metis length_replicate sample_dividend_fields(2))
  from dividend_claims_settle_once [OF this _ _ _ steps rtranclp.rtrancl_refl, of "([], ''wallet'')"]
  have "logged_claims ([], ''wallet'') db = settled_claims sample_env ([], ''wallet'') db"
    by (simp add: sample_db_def)
  then show ?thesis using steps c
    by (intro exI [of _ db]) (simp add: settled_claims_def sample_claim_def claim_key_def sample_env_def)
qed

theorem snapshot_pays_its_total_witness:
  "\<bar>sum_list (map cl_amountXlm (claims_for sample_env ''d'' (per_key ''DIVIDEND_SNAPSHOT_CREATED'' 1 2
      [sample_position ''a'', sample_position ''b'']) [sample_position ''a'', sample_position ''b''])) - 1\<bar> \<le> 14 / 10 ^ 7"
proof -
  have "column_near (dv_enc sample_env)" by (simp add: column_near_def sample_env_def)
  moreover have "whole_balances [sample_position ''a'', sample_position ''b''] 10"
    unfolding whole_balances_def by (rule exI [of _ "[5, 5]"]) (simp add: sample_position_def)
  ultimately show ?thesis
    using snapshot_pays_its_total [of "''DIVIDEND_SNAPSHOT_CREATED''" sample_env "[sample_position ''a'', sample_position ''b'']"
        10 1 "''d''" 2] by simp
qed

text \<open>An event of type \<open>DIVIDEND_DISTRIBUTED\<close> divides its total by the number of holders and then pays that amount for every
  key: with two holders of five keys each, a total of 10 becomes two claims of 25.\<close>

theorem distributed_event_overpays:
  "map cl_amountXlm (claims_for sample_env ''d'' (per_key ''DIVIDEND_DISTRIBUTED'' 10 2
    [sample_position ''a'', sample_position ''b'']) [sample_position ''a'', sample_position ''b'']) = [25, 25]"
proof -
  have "fl 25 = 25" "round7 25 = 25" "to_fixed7 5 = 5"
    using fl_whole [of 25] round7_whole [of 25] to_fixed7_whole [of 5] by simp_all
  then show ?thesis by (simp add: claims_for_def per_key_def payout_def sample_position_def sample_numbers sample_env_def)
qed

end
