(* ===== verification/Acl.thy ===== *)
theory Acl
  imports Deprecation
begin

text \<open>
  \<open>src/modules/acl/acl.service.ts\<close>: the contracts that may call the platform, with the functions each is
  permitted. Adding and removing takes signatures of two of three admins over a message that names the action,
  the contract and the functions; each change is recorded in an event table.

  The operations read the whitelist and write it in a later transaction, so each is a check and a commit;
  the step relation runs them interleaved. The signature loop is the one of \<open>Deprecation\<close> (the two files
  repeat it). Row ids are arguments. The contract call is a log line in the source and left out.
\<close>

section \<open>Tables\<close>

record acl_row =
  ax_id :: string
  ax_contract :: string
  ax_functions :: "string list"
  ax_addedBy :: string
  ax_createdAt :: instant

record acl_event =
  ev_type :: string
  ev_contract :: string
  ev_functions :: "string list"
  ev_actor :: string
  ev_signers :: "string list"
  ev_createdAt :: instant

record acl_db =
  aclRows :: "acl_row list"
  aclEvents :: "acl_event list"
  acl_audit :: audit

datatype acl_error =
    AclUnauthorized dep_error
  | AclEntryAlreadyExists string
  | AclEntryNotFound string
  | AclUniqueViolation
  | AclRowGone

section \<open>Signatures\<close>

definition ACL_MULTISIG_THRESHOLD :: nat where
  "ACL_MULTISIG_THRESHOLD = 2"

definition ACL_MULTISIG_SET_SIZE :: nat where
  "ACL_MULTISIG_SET_SIZE = 3"

definition acl_payload :: "string \<Rightarrow> string \<Rightarrow> string list \<Rightarrow> string" where
  "acl_payload action contractAddress permittedFunctions =
    ''acl:'' @ action @ '':'' @ contractAddress @ '':'' @ join_comma (sort permittedFunctions)"

definition buildAclCanonicalMessage :: "crypto_lib \<Rightarrow> string \<Rightarrow> string \<Rightarrow> string list \<Rightarrow> string" where
  "buildAclCanonicalMessage lib action contractAddress permittedFunctions =
    from_hex (sha256 lib (acl_payload action contractAddress permittedFunctions))"

definition verifyAclSignatures ::
  "crypto_lib \<Rightarrow> string option \<Rightarrow> string \<Rightarrow> string \<Rightarrow> string list \<Rightarrow> (string \<times> string) list \<Rightarrow> acl_error + string list" where
  "verifyAclSignatures lib env action contractAddress permittedFunctions sigs =
    (let message = buildAclCanonicalMessage lib action contractAddress permittedFunctions;
         adminSet = set (map to_lower (deprecation_admins env))
     in case check_signatures lib message adminSet sigs {} [] of
          Inl e \<Rightarrow> Inl (AclUnauthorized e)
        | Inr validWallets \<Rightarrow>
            if adminSet \<noteq> {} \<and> card adminSet \<noteq> ACL_MULTISIG_SET_SIZE then Inl (AclUnauthorized (WrongAdminSetSize (card adminSet)))
            else if length validWallets < ACL_MULTISIG_THRESHOLD then Inl (AclUnauthorized (TooFewSignatures (length validWallets)))
            else Inr validWallets)"

section \<open>Adding and removing\<close>

definition acl_metadata :: "string \<Rightarrow> string list \<Rightarrow> string list \<Rightarrow> js_value" where
  "acl_metadata contractAddress permittedFunctions signers =
    Jobj [(''contractAddress'', Jstr contractAddress), (''permittedFunctions'', Jarr (map Jstr permittedFunctions)),
      (''signers'', Jarr (map Jstr signers))]"

definition find_entry :: "string \<Rightarrow> acl_db \<Rightarrow> acl_row option" where
  "find_entry contractAddress db = find_by ax_contract contractAddress (aclRows db)"

text \<open>Adding: the check, and the transaction. A concurrent insert of the same contract violates the unique key.\<close>

definition acl_add_check ::
  "crypto_lib \<Rightarrow> string option \<Rightarrow> string \<Rightarrow> string list \<Rightarrow> (string \<times> string) list \<Rightarrow> acl_db \<Rightarrow> acl_error + string list" where
  "acl_add_check lib env contractAddress permittedFunctions sigs db =
    and_then (verifyAclSignatures lib env ''add'' contractAddress permittedFunctions sigs) (\<lambda>validWallets.
      if find_entry contractAddress db \<noteq> None then Inl (AclEntryAlreadyExists contractAddress) else Inr validWallets)"

definition acl_add_commit ::
  "instant \<Rightarrow> string \<Rightarrow> string \<Rightarrow> string list \<Rightarrow> string \<Rightarrow> string list \<Rightarrow> acl_db \<Rightarrow> acl_error + acl_row \<times> acl_db" where
  "acl_add_commit now rowId contractAddress permittedFunctions actor validWallets db =
    (if find_entry contractAddress db \<noteq> None then Inl AclUniqueViolation
     else
       let entry = \<lparr>ax_id = rowId, ax_contract = contractAddress, ax_functions = permittedFunctions, ax_addedBy = actor,
             ax_createdAt = now\<rparr>
       in Inr (entry, db\<lparr>aclRows := insert_row entry (aclRows db),
            aclEvents := insert_row \<lparr>ev_type = ''added'', ev_contract = contractAddress, ev_functions = permittedFunctions,
              ev_actor = actor, ev_signers = validWallets, ev_createdAt = now\<rparr> (aclEvents db),
            acl_audit := createAuditEntry actor ''acl_contract_added'' rowId
              (acl_metadata contractAddress permittedFunctions validWallets) (acl_audit db)\<rparr>))"

definition addAclEntry ::
  "crypto_lib \<Rightarrow> string option \<Rightarrow> instant \<Rightarrow> string \<Rightarrow> string \<Rightarrow> string list \<Rightarrow> (string \<times> string) list \<Rightarrow> string \<Rightarrow> acl_db \<Rightarrow>
    acl_error + acl_row \<times> acl_db" where
  "addAclEntry lib env now rowId contractAddress permittedFunctions sigs actor db =
    and_then (acl_add_check lib env contractAddress permittedFunctions sigs db) (\<lambda>validWallets.
      acl_add_commit now rowId contractAddress permittedFunctions actor validWallets db)"

text \<open>Removing: by row id or contract address; the signatures are checked against the row that was read.\<close>

definition acl_lookup :: "string \<Rightarrow> acl_db \<Rightarrow> acl_row option" where
  "acl_lookup contractId db = find (\<lambda>r. ax_id r = contractId \<or> ax_contract r = contractId) (aclRows db)"

definition acl_remove_check ::
  "crypto_lib \<Rightarrow> string option \<Rightarrow> string \<Rightarrow> (string \<times> string) list \<Rightarrow> acl_db \<Rightarrow> acl_error + acl_row \<times> string list" where
  "acl_remove_check lib env contractId sigs db =
    (case acl_lookup contractId db of
      None \<Rightarrow> Inl (AclEntryNotFound contractId)
    | Some existing \<Rightarrow>
        and_then (verifyAclSignatures lib env ''remove'' (ax_contract existing) (ax_functions existing) sigs)
          (\<lambda>validWallets. Inr (existing, validWallets)))"

definition acl_remove_commit :: "instant \<Rightarrow> acl_row \<Rightarrow> string \<Rightarrow> string list \<Rightarrow> acl_db \<Rightarrow> acl_error + acl_db" where
  "acl_remove_commit now existing actor validWallets db =
    (if find_by ax_id (ax_id existing) (aclRows db) = None then Inl AclRowGone
     else Inr (db\<lparr>aclRows := filter (\<lambda>r. ax_id r \<noteq> ax_id existing) (aclRows db),
       aclEvents := insert_row \<lparr>ev_type = ''removed'', ev_contract = ax_contract existing, ev_functions = ax_functions existing,
         ev_actor = actor, ev_signers = validWallets, ev_createdAt = now\<rparr> (aclEvents db),
       acl_audit := createAuditEntry actor ''acl_contract_removed'' (ax_id existing)
         (acl_metadata (ax_contract existing) (ax_functions existing) validWallets) (acl_audit db)\<rparr>))"

definition removeAclEntry ::
  "crypto_lib \<Rightarrow> string option \<Rightarrow> instant \<Rightarrow> string \<Rightarrow> (string \<times> string) list \<Rightarrow> string \<Rightarrow> acl_db \<Rightarrow> acl_error + acl_row \<times> acl_db" where
  "removeAclEntry lib env now contractId sigs actor db =
    and_then (acl_remove_check lib env contractId sigs db) (\<lambda>(existing, validWallets).
      and_then (acl_remove_commit now existing actor validWallets db) (\<lambda>db'. Inr (existing, db')))"

section \<open>Reading\<close>

record 'r acl_page =
  ap_items :: "'r list"
  ap_page :: int
  ap_limit :: int
  ap_totalCount :: int
  ap_totalPages :: int

definition acl_page_of :: "('r \<Rightarrow> instant) \<Rightarrow> int \<Rightarrow> int \<Rightarrow> 'r list \<Rightarrow> 'r acl_page" where
  "acl_page_of createdAt pageNo per rows =
    \<lparr>ap_items = take (nat per) (drop (nat ((pageNo - 1) * per)) (rev (sort_key createdAt rows))), ap_page = pageNo, ap_limit = per,
     ap_totalCount = int (length rows), ap_totalPages = max 1 (ceil_div (int (length rows)) per)\<rparr>"

definition listAclWhitelist :: "int \<Rightarrow> int \<Rightarrow> acl_db \<Rightarrow> acl_row acl_page" where
  "listAclWhitelist pageNo per db = acl_page_of ax_createdAt pageNo per (aclRows db)"

definition getAclHistory :: "int \<Rightarrow> int \<Rightarrow> acl_db \<Rightarrow> acl_event acl_page" where
  "getAclHistory pageNo per db = acl_page_of ev_createdAt pageNo per (aclEvents db)"

section \<open>Validated requests\<close>

definition name_start :: "char \<Rightarrow> bool" where
  "name_start c \<longleftrightarrow>
    (let n = of_char c :: nat in (65 \<le> n \<and> n \<le> 90) \<or> (97 \<le> n \<and> n \<le> 122) \<or> c = CHR ''_'')"

definition name_char :: "char \<Rightarrow> bool" where
  "name_char c \<longleftrightarrow> name_start c \<or> (let n = of_char c :: nat in 48 \<le> n \<and> n \<le> 57)"

definition function_name :: "string \<Rightarrow> bool" where
  "function_name s \<longleftrightarrow>
    (case s of [] \<Rightarrow> False | c # cs \<Rightarrow> name_start c \<and> list_all name_char cs) \<and> length s \<le> 64"

definition contract_address :: "string \<Rightarrow> bool" where
  "contract_address s \<longleftrightarrow>
    (case s of [] \<Rightarrow> False | c # cs \<Rightarrow> c = CHR ''C'' \<and> length cs = 55 \<and> list_all base32_char cs)"

definition ACL_MAX_FUNCTIONS :: nat where
  "ACL_MAX_FUNCTIONS = 50"

text \<open>The permitted functions after \<open>Array.from(new Set(fns))\<close>, or \<open>None\<close> when the request is rejected.\<close>

definition permitted_functions :: "string list \<Rightarrow> string list option" where
  "permitted_functions names =
    (if names \<noteq> [] \<and> length names \<le> ACL_MAX_FUNCTIONS \<and> list_all function_name names
     then Some (rev (remdups (rev names))) else None)"

section \<open>The whitelist follows its events\<close>

text \<open>
  The reachable states. An addition was checked in some earlier state; a removal uses a row that an earlier
  check read (\<open>pending\<close>). New rows get ids not used before.
\<close>

inductive acl_sys :: "crypto_lib \<Rightarrow> string option \<Rightarrow> acl_db \<Rightarrow> (acl_row \<times> string list) set \<Rightarrow> bool" for lib env where
  init: "aclRows db = [] \<Longrightarrow> aclEvents db = [] \<Longrightarrow> acl_sys lib env db {}"
| add: "acl_sys lib env db pending \<Longrightarrow> acl_add_check lib env c fs sigs earlier = Inr ws \<Longrightarrow>
    rowId \<notin> ax_id ` (set (aclRows db) \<union> fst ` pending) \<Longrightarrow>
    acl_add_commit now rowId c fs actor ws db = Inr (entry, db') \<Longrightarrow> acl_sys lib env db' pending"
| check_removal: "acl_sys lib env db pending \<Longrightarrow> acl_remove_check lib env contractId sigs db = Inr p \<Longrightarrow>
    acl_sys lib env db (insert p pending)"
| remove: "acl_sys lib env db pending \<Longrightarrow> (r, ws) \<in> pending \<Longrightarrow> acl_remove_commit now r actor ws db = Inr db' \<Longrightarrow>
    acl_sys lib env db' pending"

text \<open>The functions of each contract after an event, and what an event needs before it.\<close>

definition acl_apply :: "acl_event \<Rightarrow> (string \<Rightarrow> string list option) \<Rightarrow> string \<Rightarrow> string list option" where
  "acl_apply e m = m(ev_contract e := (if ev_type e = ''added'' then Some (ev_functions e) else None))"

definition acl_enabled :: "acl_event \<Rightarrow> (string \<Rightarrow> string list option) \<Rightarrow> bool" where
  "acl_enabled e m \<longleftrightarrow>
    (if ev_type e = ''added'' then m (ev_contract e) = None
     else ev_type e = ''removed'' \<and> m (ev_contract e) = Some (ev_functions e))"

definition acl_replay :: "acl_event list \<Rightarrow> string \<Rightarrow> string list option" where
  "acl_replay es = fold acl_apply es (\<lambda>_. None)"

definition acl_history :: "acl_event list \<Rightarrow> bool" where
  "acl_history es \<longleftrightarrow> (\<forall>i < length es. acl_enabled (es ! i) (acl_replay (take i es)))"

definition acl_action :: "acl_event \<Rightarrow> string" where
  "acl_action e = (if ev_type e = ''added'' then ''add'' else ''remove'')"

text \<open>Two different admins signed exactly this action, contract and set of functions.\<close>

definition acl_signed :: "crypto_lib \<Rightarrow> string option \<Rightarrow> acl_event \<Rightarrow> bool" where
  "acl_signed lib env e \<longleftrightarrow> distinct (map to_lower (ev_signers e)) \<and> 2 \<le> length (ev_signers e) \<and>
    (\<forall>w \<in> set (ev_signers e). stellar_address w \<and>
      (\<exists>sig. signature_ok lib (buildAclCanonicalMessage lib (acl_action e) (ev_contract e) (ev_functions e)) w sig) \<and>
      (deprecation_admins env = [] \<or> to_lower w \<in> set (map to_lower (deprecation_admins env))))"

lemma verified_signers:
  assumes "verifyAclSignatures lib env action c fs sigs = Inr ws"
  shows "distinct (map to_lower ws)" "2 \<le> length ws"
    "\<forall>w \<in> set ws. stellar_address w \<and> (\<exists>sig. signature_ok lib (buildAclCanonicalMessage lib action c fs) w sig) \<and>
      (deprecation_admins env = [] \<or> to_lower w \<in> set (map to_lower (deprecation_admins env)))"
proof -
  let ?adm = "set (map to_lower (deprecation_admins env))"
  from assms have check: "check_signatures lib (buildAclCanonicalMessage lib action c fs) ?adm sigs {} [] = Inr ws"
    and two: "2 \<le> length ws"
    by (auto simp: verifyAclSignatures_def Let_def ACL_MULTISIG_THRESHOLD_def split: sum.splits if_splits)
  from check_signatures_sound [OF check] have "distinct (map to_lower ws)"
    and "\<forall>w \<in> set ws. stellar_address w \<and> (?adm \<noteq> {} \<longrightarrow> to_lower w \<in> ?adm) \<and>
      (\<exists>p \<in> set sigs. w = trim (fst p) \<and> signature_ok lib (buildAclCanonicalMessage lib action c fs) w (snd p))"
    by auto
  then show "distinct (map to_lower ws)" "2 \<le> length ws"
    "\<forall>w \<in> set ws. stellar_address w \<and> (\<exists>sig. signature_ok lib (buildAclCanonicalMessage lib action c fs) w sig) \<and>
      (deprecation_admins env = [] \<or> to_lower w \<in> set (map to_lower (deprecation_admins env)))"
    using two by (auto simp: set_empty)
qed

definition acl_inv :: "crypto_lib \<Rightarrow> string option \<Rightarrow> acl_db \<Rightarrow> (acl_row \<times> string list) set \<Rightarrow> bool" where
  "acl_inv lib env db pending \<longleftrightarrow>
    distinct (map ax_contract (aclRows db)) \<and> distinct (map ax_id (aclRows db)) \<and>
    (\<forall>p \<in> pending. (\<forall>x \<in> set (aclRows db). ax_id x = ax_id (fst p) \<longrightarrow> x = fst p) \<and>
      (\<exists>sigs. verifyAclSignatures lib env ''remove'' (ax_contract (fst p)) (ax_functions (fst p)) sigs = Inr (snd p))) \<and>
    (\<lambda>c. map_option ax_functions (find_entry c db)) = acl_replay (aclEvents db) \<and>
    acl_history (aclEvents db) \<and> (\<forall>e \<in> set (aclEvents db). acl_signed lib env e)"

lemma acl_replay_snoc: "acl_replay (es @ [e]) = acl_apply e (acl_replay es)"
  by (simp add: acl_replay_def)

lemma acl_history_snoc: "acl_history (es @ [e]) \<longleftrightarrow> acl_history es \<and> acl_enabled e (acl_replay es)"
  by (auto simp: acl_history_def nth_append less_Suc_eq)

lemma acl_add_inv:
  assumes inv: "acl_inv lib env db pending" and ver: "verifyAclSignatures lib env ''add'' c fs sigs = Inr ws"
    and fresh: "rowId \<notin> ax_id ` (set (aclRows db) \<union> fst ` pending)"
    and c: "acl_add_commit now rowId c fs actor ws db = Inr (entry, db')"
  shows "acl_inv lib env db' pending"
proof -
  from c have none: "find_entry c db = None"
    and rows: "aclRows db' = aclRows db @ [\<lparr>ax_id = rowId, ax_contract = c, ax_functions = fs, ax_addedBy = actor, ax_createdAt = now\<rparr>]"
    and evs: "aclEvents db' = aclEvents db @ [\<lparr>ev_type = ''added'', ev_contract = c, ev_functions = fs, ev_actor = actor,
      ev_signers = ws, ev_createdAt = now\<rparr>]"
    by (auto simp: acl_add_commit_def Let_def insert_row_def split: if_splits)
  have entries: "map_option ax_functions (find_entry k db') =
      ((\<lambda>k. map_option ax_functions (find_entry k db))(c := Some fs)) k" for k
    using none by (auto simp: find_entry_def rows find_by_append split: option.split)
  have eq: "(\<lambda>c. map_option ax_functions (find_entry c db)) = acl_replay (aclEvents db)"
    using inv by (simp add: acl_inv_def)
  have "acl_replay (aclEvents db) c = None" using none by (simp flip: eq)
  moreover have "c \<notin> ax_contract ` set (aclRows db)" using none by (simp add: find_entry_def find_by_None_iff)
  ultimately show ?thesis
    using inv fresh verified_signers [OF ver]
    by (auto simp: acl_inv_def rows evs acl_replay_snoc acl_history_snoc acl_enabled_def acl_apply_def acl_signed_def
        acl_action_def entries eq)
qed

lemma acl_remove_inv:
  assumes inv: "acl_inv lib env db pending" and p: "(r, ws) \<in> pending" and c: "acl_remove_commit now r actor ws db = Inr db'"
  shows "acl_inv lib env db' pending"
proof -
  from c have some: "find_by ax_id (ax_id r) (aclRows db) \<noteq> None"
    and rows: "aclRows db' = filter (\<lambda>x. ax_id x \<noteq> ax_id r) (aclRows db)"
    and evs: "aclEvents db' = aclEvents db @ [\<lparr>ev_type = ''removed'', ev_contract = ax_contract r, ev_functions = ax_functions r,
      ev_actor = actor, ev_signers = ws, ev_createdAt = now\<rparr>]"
    by (auto simp: acl_remove_commit_def insert_row_def split: if_splits)
  have "(\<forall>x \<in> set (aclRows db). ax_id x = ax_id (fst (r, ws)) \<longrightarrow> x = fst (r, ws)) \<and>
      (\<exists>sigs. verifyAclSignatures lib env ''remove'' (ax_contract (fst (r, ws))) (ax_functions (fst (r, ws))) sigs = Inr (snd (r, ws)))"
    using inv p unfolding acl_inv_def by blast
  then have same: "\<forall>x \<in> set (aclRows db). ax_id x = ax_id r \<longrightarrow> x = r"
    and "\<exists>sigs. verifyAclSignatures lib env ''remove'' (ax_contract r) (ax_functions r) sigs = Inr ws" by simp_all
  then obtain sigs where ver: "verifyAclSignatures lib env ''remove'' (ax_contract r) (ax_functions r) sigs = Inr ws" by blast
  have r: "r \<in> set (aclRows db)" using some same find_by_SomeD [of ax_id "ax_id r" "aclRows db"] by auto
  have dist: "distinct (map ax_contract (aclRows db))" using inv by (simp add: acl_inv_def)
  have eq: "(\<lambda>c. map_option ax_functions (find_entry c db)) = acl_replay (aclEvents db)"
    using inv by (simp add: acl_inv_def)
  have found: "find_entry (ax_contract r) db = Some r" unfolding find_entry_def by (rule find_by_distinct [OF dist r])
  have entries: "find_entry k db' = (if k = ax_contract r then None else find_entry k db)" for k
  proof -
    have d': "distinct (map ax_contract (aclRows db'))" using dist by (simp add: rows distinct_map_filter)
    show ?thesis
    proof (cases "find_entry k db")
      case None
      then have "find_entry k db' = None" by (auto simp: find_entry_def find_by_None_iff rows)
      with None show ?thesis by simp
    next
      case (Some x)
      then have x: "x \<in> set (aclRows db)" "ax_contract x = k" by (auto simp: find_entry_def dest: find_by_SomeD)
      show ?thesis
      proof (cases "x = r")
        case True
        have "ax_contract y \<noteq> k" if "y \<in> set (aclRows db')" for y
          using that dist r True x(2) by (auto simp: rows distinct_map inj_on_def)
        then have "k \<notin> ax_contract ` set (aclRows db')" by blast
        then have "find_entry k db' = None" by (simp add: find_entry_def find_by_None_iff)
        then show ?thesis using True x(2) by simp
      next
        case False
        then have "x \<in> set (aclRows db')" using x(1) same by (auto simp: rows)
        then have "find_entry k db' = Some x" unfolding find_entry_def using find_by_distinct [OF d'] x(2) by blast
        moreover have "k \<noteq> ax_contract r" using found Some False by auto
        ultimately show ?thesis using Some by simp
      qed
    qed
  qed
  have "acl_replay (aclEvents db) (ax_contract r) = Some (ax_functions r)" using found by (simp flip: eq)
  moreover have "map_option ax_functions (find_entry k db') = ((\<lambda>k. map_option ax_functions (find_entry k db))(ax_contract r := None)) k"
    for k by (simp add: entries)
  ultimately show ?thesis
    using inv verified_signers [OF ver]
    by (auto simp: acl_inv_def rows evs acl_replay_snoc acl_history_snoc acl_enabled_def acl_apply_def acl_signed_def
        acl_action_def eq distinct_map_filter)
qed

lemma acl_sys_inv: "acl_sys lib env db pending \<Longrightarrow> acl_inv lib env db pending"
proof (induction rule: acl_sys.induct)
  case (init db)
  then show ?case by (auto simp: acl_inv_def acl_replay_def acl_history_def find_entry_def)
next
  case (add db pending c fs sigs earlier ws rowId now actor entry db')
  have "verifyAclSignatures lib env ''add'' c fs sigs = Inr ws"
    using add.hyps(2) by (auto simp: acl_add_check_def and_then_Inr_iff split: if_splits)
  then show ?case using add by (auto intro: acl_add_inv)
next
  case (check_removal db pending contractId sigs p)
  then obtain r where r: "find (\<lambda>r. ax_id r = contractId \<or> ax_contract r = contractId) (aclRows db) = Some r" and p: "fst p = r"
    and v: "verifyAclSignatures lib env ''remove'' (ax_contract r) (ax_functions r) sigs = Inr (snd p)"
    by (auto simp: acl_remove_check_def acl_lookup_def and_then_Inr_iff split: option.splits)
  have "r \<in> set (aclRows db)" using r by (rule find_Some_in [THEN conjunct1])
  moreover have "distinct (map ax_id (aclRows db))" using check_removal.IH by (simp add: acl_inv_def)
  ultimately have "\<forall>x \<in> set (aclRows db). ax_id x = ax_id r \<longrightarrow> x = r" by (simp add: distinct_map inj_on_def)
  then show ?case using check_removal.IH p v by (auto simp: acl_inv_def)
next
  case (remove db pending r ws now actor db')
  then show ?case by (auto intro: acl_remove_inv)
qed


section \<open>What a signed message says\<close>

lemma split_at_first: "x \<notin> set a \<Longrightarrow> x \<notin> set b \<Longrightarrow> a @ x # r = b @ x # s \<longleftrightarrow> a = b \<and> r = s"
proof (induction a arbitrary: b)
  case Nil
  then show ?case by (cases b) auto
next
  case (Cons y a)
  then show ?case by (cases b) auto
qed

lemma join_comma_Cons: "ps \<noteq> [] \<Longrightarrow> join_comma (p # ps) = p @ CHR '','' # join_comma ps"
  by (cases ps) (simp_all add: join_comma_def)

lemma join_comma_inj:
  "\<forall>p \<in> set ps. CHR '','' \<notin> set p \<and> p \<noteq> [] \<Longrightarrow> \<forall>q \<in> set qs. CHR '','' \<notin> set q \<and> q \<noteq> [] \<Longrightarrow>
    join_comma ps = join_comma qs \<Longrightarrow> ps = qs"
proof (induction ps arbitrary: qs)
  case Nil
  then show ?case by (cases qs) (auto simp: join_comma_def)
next
  case (Cons p ps)
  then obtain q qs' where qs: "qs = q # qs'" by (cases qs) (auto simp: join_comma_def)
  have sep: "CHR '','' \<notin> set p" "CHR '','' \<notin> set q" using Cons.prems qs by auto
  have one: "join_comma [x] = x" for x by (simp add: join_comma_def)
  show ?case
  proof (cases "ps = [] \<or> qs' = []")
    case True
    then show ?thesis
      using Cons.prems(3) sep join_comma_Cons [of ps p] join_comma_Cons [of qs' q]
      by (cases "ps = []"; cases "qs' = []") (auto simp: qs one)
  next
    case False
    then have "p @ CHR '','' # join_comma ps = q @ CHR '','' # join_comma qs'"
      using Cons.prems(3) by (simp add: qs join_comma_Cons)
    then have "p = q" "join_comma ps = join_comma qs'" using split_at_first [OF sep] by auto
    then show ?thesis using Cons.IH [of qs'] Cons.prems by (simp add: qs)
  qed
qed

lemma name_has_no_comma: "function_name s \<Longrightarrow> CHR '','' \<notin> set s \<and> s \<noteq> []"
  by (auto simp: function_name_def name_start_def name_char_def list_all_iff split: list.splits)

lemma address_has_no_colon: "contract_address s \<Longrightarrow> CHR '':'' \<notin> set s"
  by (auto simp: contract_address_def base32_char_def list_all_iff split: list.splits)

text \<open>C32: For validated requests the signed message determines the request: with a SHA-256 that has no collision on the
  two payloads, equal messages mean the same action, the same contract and the same functions up to order, so
  a signature for one request is no signature for another.\<close>

theorem acl_message_binds_request:
  assumes "action \<in> {''add'', ''remove''}" "action' \<in> {''add'', ''remove''}"
    and "contract_address c" "contract_address c'" "list_all function_name fs" "list_all function_name fs'"
    and collision_free: "from_hex (sha256 lib (acl_payload action c fs)) = from_hex (sha256 lib (acl_payload action' c' fs')) \<Longrightarrow>
      acl_payload action c fs = acl_payload action' c' fs'"
    and "buildAclCanonicalMessage lib action c fs = buildAclCanonicalMessage lib action' c' fs'"
  shows "action = action' \<and> c = c' \<and> mset fs = mset fs'"
proof -
  have colon: "CHR '':'' \<notin> set action" "CHR '':'' \<notin> set action'" using assms(1,2) by auto
  have "acl_payload action c fs = acl_payload action' c' fs'"
    using assms(8) by (intro collision_free) (simp add: buildAclCanonicalMessage_def)
  then have "action @ CHR '':'' # (c @ CHR '':'' # join_comma (sort fs)) =
      action' @ CHR '':'' # (c' @ CHR '':'' # join_comma (sort fs'))" by (simp add: acl_payload_def)
  then have "action = action'" and "c @ CHR '':'' # join_comma (sort fs) = c' @ CHR '':'' # join_comma (sort fs')"
    using split_at_first [OF colon] by auto
  moreover from this(2) have "c = c'" "join_comma (sort fs) = join_comma (sort fs')"
    using split_at_first [OF address_has_no_colon [OF assms(3)] address_has_no_colon [OF assms(4)]] by auto
  moreover from this(2) have "sort fs = sort fs'"
    using assms(5,6) name_has_no_comma by (intro join_comma_inj) (auto simp: list_all_iff)
  then have "mset fs = mset fs'" by (metis mset_sort)
  ultimately show ?thesis by simp
qed

section \<open>A small run\<close>

definition sample_contract :: string where
  "sample_contract = CHR ''C'' # replicate 55 (CHR ''A'')"

definition sample_sigs :: "(string \<times> string) list" where
  "sample_sigs = [(admin_wallet (CHR ''A''), ''A''), (admin_wallet (CHR ''B''), ''B'')]"

definition empty_acl :: acl_db where
  "empty_acl = \<lparr>aclRows = [], aclEvents = [], acl_audit = \<lparr>auditEvents = [], auditLog = []\<rparr>\<rparr>"

lemma sample_checked:
  "check_signatures accepting_crypto message (set (map to_lower (deprecation_admins (Some example_quorum)))) sample_sigs {} [] =
    Inr [admin_wallet (CHR ''A''), admin_wallet (CHR ''B'')]"
  by code_simp

lemma sample_admins: "card (set (map to_lower (deprecation_admins (Some example_quorum)))) = 3"
  by code_simp

lemma sample_verified:
  "verifyAclSignatures accepting_crypto (Some example_quorum) action c fs sample_sigs = Inr [admin_wallet (CHR ''A''), admin_wallet (CHR ''B'')]"
  by (simp add: verifyAclSignatures_def Let_def sample_checked [simplified] sample_admins [simplified] ACL_MULTISIG_SET_SIZE_def ACL_MULTISIG_THRESHOLD_def)

lemma sample_added_and_removed:
  "\<exists>db pending. acl_sys accepting_crypto (Some example_quorum) db pending \<and> aclRows db = [] \<and> length (aclEvents db) = 2"
proof -
  obtain ws where ws: "verifyAclSignatures accepting_crypto (Some example_quorum) ''add'' sample_contract [''pay''] sample_sigs = Inr ws"
    using sample_verified by blast
  obtain vs where vs: "verifyAclSignatures accepting_crypto (Some example_quorum) ''remove'' sample_contract [''pay''] sample_sigs = Inr vs"
    using sample_verified by blast
  have check: "acl_add_check accepting_crypto (Some example_quorum) sample_contract [''pay''] sample_sigs empty_acl = Inr ws"
    by (simp add: acl_add_check_def ws find_entry_def empty_acl_def)
  obtain r db1 where c: "acl_add_commit 1 ''row'' sample_contract [''pay''] ''admin'' ws empty_acl = Inr (r, db1)"
    by (simp add: acl_add_commit_def find_entry_def empty_acl_def Let_def)
  then have r: "ax_contract r = sample_contract" "ax_functions r = [''pay'']" "ax_id r = ''row''" "aclRows db1 = [r]"
    "length (aclEvents db1) = 1"
    by (auto simp: acl_add_commit_def find_entry_def empty_acl_def Let_def insert_row_def)
  have 0: "acl_sys accepting_crypto (Some example_quorum) empty_acl {}" by (rule acl_sys.init) (simp_all add: empty_acl_def)
  have 1: "acl_sys accepting_crypto (Some example_quorum) db1 {}"
    by (rule acl_sys.add [OF 0 check _ c]) (simp add: empty_acl_def)
  have "acl_remove_check accepting_crypto (Some example_quorum) ''row'' sample_sigs db1 = Inr (r, vs)"
    by (simp add: acl_remove_check_def acl_lookup_def r vs)
  with 1 have 2: "acl_sys accepting_crypto (Some example_quorum) db1 {(r, vs)}" by (rule acl_sys.check_removal)
  obtain db2 where d: "acl_remove_commit 2 r ''admin'' vs db1 = Inr db2" by (simp add: acl_remove_commit_def r find_by_def)
  have "acl_sys accepting_crypto (Some example_quorum) db2 {(r, vs)}" by (rule acl_sys.remove [OF 2 _ d]) simp
  moreover have "aclRows db2 = []" "length (aclEvents db2) = 2"
    using d r by (auto simp: acl_remove_commit_def insert_row_def find_by_def)
  ultimately show ?thesis by blast
qed


theorem acl_message_binds_request_witness:
  "buildAclCanonicalMessage accepting_crypto ''add'' sample_contract [''pay'', ''burn''] =
      buildAclCanonicalMessage accepting_crypto ''add'' sample_contract [''burn'', ''pay''] \<and>
    mset [''pay'', ''burn''] = mset [''burn'', ''pay'' :: string]"
proof -
  have p: "acl_payload ''add'' sample_contract [''pay'', ''burn''] = acl_payload ''add'' sample_contract [''burn'', ''pay'']" by code_simp
  have v: "contract_address sample_contract" "list_all function_name [''pay'', ''burn'']" "list_all function_name [''burn'', ''pay'']"
    by code_simp+
  have m: "buildAclCanonicalMessage accepting_crypto ''add'' sample_contract [''pay'', ''burn''] =
      buildAclCanonicalMessage accepting_crypto ''add'' sample_contract [''burn'', ''pay'']"
    by (simp add: buildAclCanonicalMessage_def p)
  show ?thesis
    using acl_message_binds_request [where lib = accepting_crypto, OF _ _ v(1) v(1) v(2) v(3) p m] m by blast
qed

end
