(* ===== verification/Stake_Nfts.thy ===== *)
theory Stake_Nfts
  imports Raw_Events
begin

text \<open>
  \<open>src/modules/staking/staking-indexer.service.ts\<close>: mint and transfer events of stake receipt NFTs, with
  the rows, the transfer history and the activities they write.

  Row ids are \<open>nft_id n\<close> for the \<open>n\<close>-th row. \<open>nft_decimal\<close> is what the \<open>Decimal\<close> column stores of a raw value
  (\<open>None\<close> when the client rejects it). Caches and log lines are left out.
\<close>

section \<open>Tables\<close>

record nft_row =
  nf_id :: string
  nf_tokenId :: string
  nf_owner :: string
  nf_keyId :: string
  nf_stakedAmount :: rat
  nf_lockExpiryLedger :: "int option"
  nf_lockExpiresAt :: "instant option"
  nf_mintLedger :: int
  nf_mintTxHash :: string

record nft_transfer =
  tr_nftId :: string
  tr_from :: "string option"
  tr_to :: string
  tr_ledger :: int
  tr_txHash :: string
  tr_eventIndex :: int
  tr_occurredAt :: instant

record nft_activity =
  na_type :: string
  na_actor :: string
  na_target :: "string option"
  na_creatorId :: "string option"
  na_payload :: "(string \<times> js_value) list"
  na_createdAt :: instant

record nft_db =
  nf_rows :: "nft_row list"
  nf_transfers :: "nft_transfer list"
  nf_activities :: "nft_activity list"

datatype nft_error = NftValueRejected | NftUniqueViolation

record nft_env =
  nft_lib :: js_text_lib
  nft_id :: "nat \<Rightarrow> string"
  nft_decimal :: "js_value \<Rightarrow> rat option"

definition transfer_key :: "nft_transfer \<Rightarrow> string \<times> int" where
  "transfer_key t = (tr_txHash t, tr_eventIndex t)"

section \<open>Required fields\<close>

definition missing :: "js_value \<Rightarrow> bool" where
  "missing v \<longleftrightarrow> v = Jundefined \<or> v = Jnull \<or> v = Jstr []"

definition MINT_REQUIRED_FIELDS :: "string list" where
  "MINT_REQUIRED_FIELDS =
    [''tokenId'', ''ownerAddress'', ''keyId'', ''stakedAmount'', ''mintTxHash'', ''mintedAt'', ''ledger'']"

definition TRANSFER_REQUIRED_FIELDS :: "string list" where
  "TRANSFER_REQUIRED_FIELDS =
    [''tokenId'', ''fromAddress'', ''toAddress'', ''occurredAt'', ''ledger'', ''txHash'', ''eventIndex'']"

definition all_present :: "string list \<Rightarrow> raw_event \<Rightarrow> bool" where
  "all_present names event \<longleftrightarrow> list_all (\<lambda>f. \<not> missing (js_field f event)) names"

section \<open>Mints\<close>

definition same_mint :: "string \<Rightarrow> nft_row \<Rightarrow> bool" where
  "same_mint hash r \<longleftrightarrow> nf_mintTxHash r = hash"

text \<open>An optional integer column: absent or null, or an integer; anything else is rejected.\<close>

definition int_column :: "js_value \<Rightarrow> int option option" where
  "int_column v =
    (case v of
      Jundefined \<Rightarrow> Some None
    | Jnull \<Rightarrow> Some None
    | Jnum n \<Rightarrow> if is_integer_num n then Some (Some (num_to_int n)) else None
    | _ \<Rightarrow> None)"

text \<open>\<open>v ? new Date(v) : null\<close>; an invalid date is rejected.\<close>

definition date_column :: "js_text_lib \<Rightarrow> js_value \<Rightarrow> instant option option" where
  "date_column lib v =
    (if \<not> truthy v then Some None else case new_date lib v of None \<Rightarrow> None | Some t \<Rightarrow> Some (Some t))"

definition mint_transfer :: "chain_event \<Rightarrow> string \<Rightarrow> string \<Rightarrow> instant \<Rightarrow> nft_transfer" where
  "mint_transfer e nftId owner mintedAt =
    \<lparr>tr_nftId = nftId, tr_from = None, tr_to = owner, tr_ledger = the (ce_ledger e), tr_txHash = ce_txHash e,
     tr_eventIndex = ce_eventIndex e, tr_occurredAt = mintedAt\<rparr>"

definition mint_activity :: "chain_event \<Rightarrow> nft_row \<Rightarrow> js_value \<Rightarrow> instant \<Rightarrow> nft_activity" where
  "mint_activity e r amount mintedAt =
    \<lparr>na_type = ''STAKE_NFT_MINTED'', na_actor = nf_owner r, na_target = None, na_creatorId = Some (nf_keyId r),
     na_payload = [(''tokenId'', Jstr (nf_tokenId r)), (''stakedAmount'', amount),
       (''lockExpiryLedger'', case nf_lockExpiryLedger r of None \<Rightarrow> Jnull | Some l \<Rightarrow> Jnum (Fin (of_int l))),
       (''ledger_sequence'', Jnum (Fin (of_int (nf_mintLedger r))))],
     na_createdAt = mintedAt\<rparr>"

definition mint_commit :: "chain_event \<Rightarrow> nft_row \<Rightarrow> js_value \<Rightarrow> instant \<Rightarrow> nft_db \<Rightarrow> (nft_error + unit) \<times> nft_db" where
  "mint_commit e r amount mintedAt db =
    (if nf_tokenId r \<in> nf_tokenId ` set (nf_rows db) \<or>
        (ce_txHash e, ce_eventIndex e) \<in> transfer_key ` set (nf_transfers db)
     then (Inl NftUniqueViolation, db)
     else (Inr (), db\<lparr>nf_rows := insert_row r (nf_rows db),
       nf_transfers := insert_row (mint_transfer e (nf_id r) (nf_owner r) mintedAt) (nf_transfers db),
       nf_activities := insert_row (mint_activity e r amount mintedAt) (nf_activities db)\<rparr>))"

text \<open>The row of a mint event, its transaction hash known; \<open>None\<close> when the database client rejects a value.\<close>

definition read_mint :: "nft_env \<Rightarrow> string \<Rightarrow> string \<Rightarrow> chain_event \<Rightarrow> (nft_row \<times> instant) option" where
  "read_mint env rowId hash e =
    (let event = raw_of e; lib = nft_lib env
     in case (js_field ''tokenId'' event, js_field ''ownerAddress'' event, js_field ''keyId'' event,
         nft_decimal env (js_field ''stakedAmount'' event)) of
       (Jstr token, Jstr owner, Jstr key, Some stored) \<Rightarrow>
         (case (new_date lib (js_field ''mintedAt'' event), int_column (js_field ''lockExpiryLedger'' event),
             date_column lib (js_field ''lockExpiresAt'' event)) of
           (Some mintedAt, Some expiryLedger, Some expiresAt) \<Rightarrow>
             Some (\<lparr>nf_id = rowId, nf_tokenId = token, nf_owner = owner, nf_keyId = key,
               nf_stakedAmount = stored, nf_lockExpiryLedger = expiryLedger, nf_lockExpiresAt = expiresAt,
               nf_mintLedger = the (ce_ledger e), nf_mintTxHash = hash\<rparr>, mintedAt)
         | _ \<Rightarrow> None)
     | _ \<Rightarrow> None)"

definition mint_handler :: "nft_env \<Rightarrow> chain_event \<Rightarrow> nft_db \<Rightarrow> (nft_error + unit) \<times> nft_db" where
  "mint_handler env e db =
    (if ce_eventType e \<noteq> ''STAKE_NFT_MINTED'' \<or> \<not> all_present MINT_REQUIRED_FIELDS (raw_of e) then (Inr (), db)
     else case js_field ''mintTxHash'' (raw_of e) of
       Jstr hash \<Rightarrow>
         if list_ex (same_mint hash) (nf_rows db) then (Inr (), db)
         else (case read_mint env (nft_id env (length (nf_rows db))) hash e of
           Some (r, mintedAt) \<Rightarrow> mint_commit e r (js_field ''stakedAmount'' (raw_of e)) mintedAt db
         | None \<Rightarrow> (Inl NftValueRejected, db))
     | _ \<Rightarrow> (Inl NftValueRejected, db))"

definition processStakeNftMintedEvents :: "nft_env \<Rightarrow> chain_event list \<Rightarrow> nft_db \<Rightarrow> (nft_error + unit) \<times> nft_db" where
  "processStakeNftMintedEvents env es db = processIndexerChainEvents (mint_handler env) es db"

section \<open>Transfers\<close>

definition move_row :: "chain_event \<Rightarrow> nft_row \<Rightarrow> string \<Rightarrow> string \<Rightarrow> instant \<Rightarrow> nft_transfer" where
  "move_row e r source dest occurredAt =
    \<lparr>tr_nftId = nf_id r, tr_from = Some source, tr_to = dest, tr_ledger = the (ce_ledger e), tr_txHash = ce_txHash e,
     tr_eventIndex = ce_eventIndex e, tr_occurredAt = occurredAt\<rparr>"

definition transfer_commit :: "chain_event \<Rightarrow> nft_row \<Rightarrow> string \<Rightarrow> string \<Rightarrow> instant \<Rightarrow> nft_db \<Rightarrow> nft_db" where
  "transfer_commit e r source dest occurredAt db =
    db\<lparr>nf_rows := modify_by nf_id (nf_id r) (\<lambda>x. x\<lparr>nf_owner := dest\<rparr>) (nf_rows db),
       nf_transfers := insert_row (move_row e r source dest occurredAt) (nf_transfers db),
       nf_activities := insert_row \<lparr>na_type = ''STAKE_NFT_TRANSFERRED'', na_actor = source, na_target = Some dest,
         na_creatorId = None, na_payload = [(''tokenId'', Jstr (nf_tokenId r)), (''nftId'', Jstr (nf_id r)),
           (''ledger_sequence'', Jnum (Fin (of_int (the (ce_ledger e)))))],
         na_createdAt = occurredAt\<rparr> (nf_activities db)\<rparr>"

definition read_move :: "nft_env \<Rightarrow> chain_event \<Rightarrow> (string \<times> string \<times> instant) option" where
  "read_move env e =
    (case (js_field ''fromAddress'' (raw_of e), js_field ''toAddress'' (raw_of e),
        new_date (nft_lib env) (js_field ''occurredAt'' (raw_of e))) of
      (Jstr source, Jstr dest, Some occurredAt) \<Rightarrow> Some (source, dest, occurredAt)
    | _ \<Rightarrow> None)"

definition transfer_handler :: "nft_env \<Rightarrow> chain_event \<Rightarrow> nft_db \<Rightarrow> (nft_error + unit) \<times> nft_db" where
  "transfer_handler env e db =
    (if ce_eventType e \<noteq> ''STAKE_NFT_TRANSFERRED'' \<or> \<not> all_present TRANSFER_REQUIRED_FIELDS (raw_of e) then (Inr (), db)
     else if (ce_txHash e, ce_eventIndex e) \<in> transfer_key ` set (nf_transfers db) then (Inr (), db)
     else case js_field ''tokenId'' (raw_of e) of
       Jstr token \<Rightarrow>
         (case find_by nf_tokenId token (nf_rows db) of
           None \<Rightarrow> (Inr (), db)
         | Some r \<Rightarrow>
             (case read_move env e of
               Some (source, dest, occurredAt) \<Rightarrow> (Inr (), transfer_commit e r source dest occurredAt db)
             | None \<Rightarrow> (Inl NftValueRejected, db)))
     | _ \<Rightarrow> (Inl NftValueRejected, db))"

definition processStakeNftTransferredEvents :: "nft_env \<Rightarrow> chain_event list \<Rightarrow> nft_db \<Rightarrow> (nft_error + unit) \<times> nft_db" where
  "processStakeNftTransferredEvents env es db = processIndexerChainEvents (transfer_handler env) es db"

section \<open>The owner is the receiver of the last transfer\<close>

inductive nft_step :: "nft_env \<Rightarrow> nft_db \<Rightarrow> nft_db \<Rightarrow> bool" for env where
  mints: "processStakeNftMintedEvents env es db = (r, db') \<Longrightarrow> nft_step env db db'"
| transfers: "processStakeNftTransferredEvents env es db = (r, db') \<Longrightarrow> nft_step env db db'"

definition history_of :: "string \<Rightarrow> nft_db \<Rightarrow> nft_transfer list" where
  "history_of nftId db = filter (\<lambda>t. tr_nftId t = nftId) (nf_transfers db)"

text \<open>A history starts with the mint, holds no other mint and ends at the owner.\<close>

definition history_ok :: "nft_row \<Rightarrow> nft_transfer list \<Rightarrow> bool" where
  "history_ok r hs \<longleftrightarrow>
    hs \<noteq> [] \<and> tr_from (hd hs) = None \<and> (\<forall>t \<in> set (tl hs). tr_from t \<noteq> None) \<and> tr_to (last hs) = nf_owner r"

definition issued_ids :: "nft_env \<Rightarrow> nft_row list \<Rightarrow> bool" where
  "issued_ids env rows \<longleftrightarrow> map nf_id rows = map (nft_id env) [0..<length rows]"

definition nft_ok :: "nft_env \<Rightarrow> nft_db \<Rightarrow> bool" where
  "nft_ok env db \<longleftrightarrow>
    issued_ids env (nf_rows db) \<and> distinct (map nf_id (nf_rows db)) \<and>
    distinct (map nf_tokenId (nf_rows db)) \<and> distinct (map nf_mintTxHash (nf_rows db)) \<and>
    distinct (map transfer_key (nf_transfers db)) \<and>
    tr_nftId ` set (nf_transfers db) \<subseteq> nf_id ` set (nf_rows db) \<and>
    (\<forall>r \<in> set (nf_rows db). history_ok r (history_of (nf_id r) db))"

text \<open>What later states keep: the mints and the transfers that were recorded.\<close>

definition nft_keeps :: "nft_db \<Rightarrow> nft_db \<Rightarrow> bool" where
  "nft_keeps db db' \<longleftrightarrow> nf_mintTxHash ` set (nf_rows db) \<subseteq> nf_mintTxHash ` set (nf_rows db') \<and>
    set (nf_transfers db) \<subseteq> set (nf_transfers db')"

lemma nft_keeps_refl [simp]: "nft_keeps db db"
  by (simp add: nft_keeps_def)

lemma nft_keeps_trans: "nft_keeps a b \<Longrightarrow> nft_keeps b c \<Longrightarrow> nft_keeps a c"
  unfolding nft_keeps_def by (meson subset_trans)

lemma read_mintD: "read_mint env rowId hash e = Some (r, t) \<Longrightarrow> nf_id r = rowId \<and> nf_mintTxHash r = hash"
  by (auto simp: read_mint_def Let_def split: js_value.splits option.splits)

lemma history_ok_snoc:
  "history_ok r hs \<Longrightarrow> tr_from t \<noteq> None \<Longrightarrow> tr_to t = dest \<Longrightarrow> history_ok (r\<lparr>nf_owner := dest\<rparr>) (hs @ [t])"
  by (cases hs) (auto simp: history_ok_def)

lemma mint_commit_ok:
  assumes inj: "inj (nft_id env)" and ok: "nft_ok env db" and id: "nf_id r = nft_id env (length (nf_rows db))"
    and hash: "nf_mintTxHash r \<notin> nf_mintTxHash ` set (nf_rows db)" and c: "mint_commit e r a t db = (Inr (), db')"
  shows "nft_ok env db' \<and> nft_keeps db db'"
proof -
  from c have tok: "nf_tokenId r \<notin> nf_tokenId ` set (nf_rows db)"
    and key: "(ce_txHash e, ce_eventIndex e) \<notin> transfer_key ` set (nf_transfers db)"
    and rows: "nf_rows db' = nf_rows db @ [r]"
    and trs: "nf_transfers db' = nf_transfers db @ [mint_transfer e (nf_id r) (nf_owner r) t]"
    by (auto simp: mint_commit_def insert_row_def split: if_splits)
  have ids: "map nf_id (nf_rows db) = map (nft_id env) [0..<length (nf_rows db)]" using ok by (simp add: nft_ok_def issued_ids_def)
  have "nft_id env (length (nf_rows db)) \<notin> nft_id env ` {0..<length (nf_rows db)}" using inj by (auto dest: injD)
  moreover have "nf_id ` set (nf_rows db) = nft_id env ` {0..<length (nf_rows db)}"
    using arg_cong [OF ids, of set] by simp
  ultimately have new: "nf_id r \<notin> nf_id ` set (nf_rows db)" by (simp add: id)
  moreover have "tr_nftId ` set (nf_transfers db) \<subseteq> nf_id ` set (nf_rows db)" using ok by (simp add: nft_ok_def)
  ultimately have "tr_nftId x \<noteq> nf_id r" if "x \<in> set (nf_transfers db)" for x using that by (metis image_eqI subsetD)
  then have fresh: "history_of (nf_id r) db = []" by (simp add: history_of_def filter_empty_conv)
  have hist: "history_of x db' = history_of x db @ (if x = nf_id r then [mint_transfer e x (nf_owner r) t] else [])" for x
    by (simp add: history_of_def trs mint_transfer_def)
  have "history_ok x (history_of (nf_id x) db')" if "x \<in> set (nf_rows db)" for x
  proof -
    have "nf_id x \<noteq> nf_id r" using that new by (metis image_eqI)
    then show ?thesis using that ok by (simp add: hist nft_ok_def)
  qed
  moreover have "history_ok r (history_of (nf_id r) db')" by (simp add: hist fresh history_ok_def mint_transfer_def)
  moreover have "transfer_key (mint_transfer e (nf_id r) (nf_owner r) t) = (ce_txHash e, ce_eventIndex e)"
    by (simp add: transfer_key_def mint_transfer_def)
  moreover have "tr_nftId (mint_transfer e (nf_id r) (nf_owner r) t) = nf_id r" by (simp add: mint_transfer_def)
  moreover have "issued_ids env (nf_rows db')" using ids by (simp add: issued_ids_def rows id)
  ultimately have "nft_ok env db'"
    using ok new tok key hash by (auto simp: nft_ok_def rows trs)
  then show ?thesis by (auto simp: nft_keeps_def rows trs)
qed

lemma transfer_commit_ok:
  assumes ok: "nft_ok env db" and r: "r \<in> set (nf_rows db)" and key: "(ce_txHash e, ce_eventIndex e) \<notin> transfer_key ` set (nf_transfers db)"
  shows "nft_ok env (transfer_commit e r s d t db) \<and> nft_keeps db (transfer_commit e r s d t db)"
proof -
  let ?db = "transfer_commit e r s d t db" and ?upd = "\<lambda>x. if nf_id x = nf_id r then x\<lparr>nf_owner := d\<rparr> else x"
  have rows: "nf_rows ?db = map ?upd (nf_rows db)" by (simp add: transfer_commit_def modify_by_def)
  have trs: "nf_transfers ?db = nf_transfers db @ [move_row e r s d t]" by (simp add: transfer_commit_def insert_row_def)
  have hist: "history_of x ?db = history_of x db @ (if x = nf_id r then [move_row e r s d t] else [])" for x
    by (simp add: history_of_def trs move_row_def)
  have "history_ok (?upd x) (history_of (nf_id (?upd x)) ?db)" if "x \<in> set (nf_rows db)" for x
    using that ok history_ok_snoc [of x "history_of (nf_id x) db" "move_row e r s d t" d]
    by (auto simp: hist nft_ok_def move_row_def)
  then have "\<forall>x \<in> set (nf_rows ?db). history_ok x (history_of (nf_id x) ?db)" by (simp only: rows set_map) blast
  moreover have cols: "map nf_id (nf_rows ?db) = map nf_id (nf_rows db)" "map nf_tokenId (nf_rows ?db) = map nf_tokenId (nf_rows db)"
    "map nf_mintTxHash (nf_rows ?db) = map nf_mintTxHash (nf_rows db)" "issued_ids env (nf_rows ?db) = issued_ids env (nf_rows db)"
    by (auto simp: rows issued_ids_def comp_def if_distrib cong: if_cong)
  moreover have "transfer_key (move_row e r s d t) = (ce_txHash e, ce_eventIndex e)" "tr_nftId (move_row e r s d t) = nf_id r"
    by (simp_all add: transfer_key_def move_row_def)
  moreover have "nf_id r \<in> nf_id ` set (nf_rows db)" using r by simp
  ultimately have "nft_ok env ?db"
    using ok key unfolding nft_ok_def set_map [symmetric] cols trs by auto
  moreover have "nft_keeps db ?db" unfolding nft_keeps_def set_map [symmetric] cols trs by auto
  ultimately show ?thesis by simp
qed

lemma mint_handler_ok:
  assumes inj: "inj (nft_id env)" and ok: "nft_ok env db" and h: "mint_handler env e db = (res, db')"
  shows "nft_ok env db' \<and> nft_keeps db db' \<and> (db' = db \<or> (\<exists>hash. ce_eventType e = ''STAKE_NFT_MINTED'' \<and>
    all_present MINT_REQUIRED_FIELDS (raw_of e) \<and> js_field ''mintTxHash'' (raw_of e) = Jstr hash \<and> list_ex (same_mint hash) (nf_rows db')))"
proof (cases "db' = db")
  case False
  then obtain hash r t where e: "ce_eventType e = ''STAKE_NFT_MINTED''" "all_present MINT_REQUIRED_FIELDS (raw_of e)"
    "js_field ''mintTxHash'' (raw_of e) = Jstr hash" and new: "\<not> list_ex (same_mint hash) (nf_rows db)"
    and read: "read_mint env (nft_id env (length (nf_rows db))) hash e = Some (r, t)"
    and commit: "mint_commit e r (js_field ''stakedAmount'' (raw_of e)) t db = (res, db')"
    using h by (auto simp: mint_handler_def split: if_splits js_value.splits option.splits)
  have res: "res = Inr ()" using commit False by (auto simp: mint_commit_def split: if_splits)
  note r = read_mintD [OF read]
  have "nf_mintTxHash r \<notin> nf_mintTxHash ` set (nf_rows db)" using new r by (auto simp: list_ex_iff same_mint_def)
  then have "nft_ok env db' \<and> nft_keeps db db'" using mint_commit_ok [OF inj ok _ _ commit [unfolded res]] r by simp
  moreover have "list_ex (same_mint hash) (nf_rows db')"
    using commit res r by (auto simp: mint_commit_def insert_row_def same_mint_def split: if_splits)
  ultimately show ?thesis using e by blast
qed (simp add: ok)

lemma transfer_handler_ok:
  assumes ok: "nft_ok env db" and h: "transfer_handler env e db = (res, db')"
  shows "nft_ok env db' \<and> nft_keeps db db' \<and> (db' = db \<or> transfer_handler env e db' = (Inr (), db'))"
proof (cases "db' = db")
  case False
  then obtain token r s d t where e: "ce_eventType e = ''STAKE_NFT_TRANSFERRED''" "all_present TRANSFER_REQUIRED_FIELDS (raw_of e)"
    "(ce_txHash e, ce_eventIndex e) \<notin> transfer_key ` set (nf_transfers db)"
    and r: "find_by nf_tokenId token (nf_rows db) = Some r" and db': "db' = transfer_commit e r s d t db"
    using h by (auto simp: transfer_handler_def split: if_splits js_value.splits option.splits)
  have "r \<in> set (nf_rows db)" using find_by_SomeD [OF r] by simp
  from transfer_commit_ok [OF ok this e(3)] have "nft_ok env db' \<and> nft_keeps db db'" by (simp add: db')
  moreover have "(ce_txHash e, ce_eventIndex e) \<in> transfer_key ` set (nf_transfers db')"
    by (simp add: db' transfer_commit_def insert_row_def move_row_def transfer_key_def)
  ultimately show ?thesis using e by (simp add: transfer_handler_def)
qed (simp add: ok)

lemma run_nft_ok:
  assumes handler: "\<And>e db res db'. nft_ok env db \<Longrightarrow> h e db = (res, db') \<Longrightarrow> nft_ok env db' \<and> nft_keeps db db'"
  shows "nft_ok env db \<Longrightarrow> run_events h es db = (res, db') \<Longrightarrow> nft_ok env db' \<and> nft_keeps db db'"
proof (induction es arbitrary: db)
  case (Cons e es)
  obtain r db1 where e: "h e db = (r, db1)" by fastforce
  have 1: "nft_ok env db1" "nft_keeps db db1" using handler [OF Cons.prems(1) e] by simp_all
  show ?case
  proof (cases r)
    case (Inl err)
    then show ?thesis using Cons.prems(2) e 1 by simp
  next
    case (Inr u)
    then have "run_events h es db1 = (res, db')" using Cons.prems(2) e by simp
    from Cons.IH [OF 1(1) this] 1(2) show ?thesis by (auto intro: nft_keeps_trans)
  qed
qed simp

lemma nft_step_ok: "inj (nft_id env) \<Longrightarrow> nft_step env db db' \<Longrightarrow> nft_ok env db \<Longrightarrow> nft_ok env db' \<and> nft_keeps db db'"
proof (erule nft_step.cases, goal_cases)
  case (1 es db r db')
  then show ?case
    using run_nft_ok [of env "mint_handler env", OF _ _ 1(5) [unfolded processStakeNftMintedEvents_def processIndexerChainEvents_def]]
      mint_handler_ok [OF 1(1)] by blast
next
  case (2 es db r db')
  then show ?case
    using run_nft_ok [of env "transfer_handler env", OF _ _ 2(5) [unfolded processStakeNftTransferredEvents_def processIndexerChainEvents_def]]
      transfer_handler_ok by blast
qed

lemma nft_steps_ok:
  "(nft_step env)\<^sup>*\<^sup>* db db' \<Longrightarrow> inj (nft_id env) \<Longrightarrow> nft_ok env db \<Longrightarrow> nft_ok env db' \<and> nft_keeps db db'"
  by (induction rule: rtranclp_induct) (auto dest: nft_step_ok intro: nft_keeps_trans)

text \<open>C34: After any batches of mints and transfers, in any order and with any repetitions, the history of a receipt NFT
  begins with its only mint and its owner is the receiver of the last transfer in it; token ids, mint
  transactions and transfer events are unique; and an event that has been applied changes nothing when it is
  delivered again at any later time.\<close>

theorem nft_owner_is_last_receiver:
  assumes inj: "inj (nft_id env)" and empty: "nf_rows db0 = []" "nf_transfers db0 = []" and run: "(nft_step env)\<^sup>*\<^sup>* db0 db"
  shows "(\<forall>r \<in> set (nf_rows db). history_ok r (history_of (nf_id r) db)) \<and>
    distinct (map nf_tokenId (nf_rows db)) \<and> distinct (map nf_mintTxHash (nf_rows db)) \<and> distinct (map transfer_key (nf_transfers db)) \<and>
    (\<forall>h \<in> {mint_handler env, transfer_handler env}. \<forall>e res db1 db2.
      h e db = (res, db1) \<and> db1 \<noteq> db \<and> (nft_step env)\<^sup>*\<^sup>* db1 db2 \<longrightarrow> h e db2 = (Inr (), db2))"
proof -
  have "nft_ok env db0" by (simp add: nft_ok_def empty issued_ids_def)
  then have ok: "nft_ok env db" using nft_steps_ok [OF run inj] by simp
  have "mint_handler env e db2 = (Inr (), db2)"
    if e: "mint_handler env e db = (res, db1)" "db1 \<noteq> db" and later: "(nft_step env)\<^sup>*\<^sup>* db1 db2" for e res db1 db2
  proof -
    from mint_handler_ok [OF inj ok e(1)] e(2) obtain hash where "nft_ok env db1"
      and h: "ce_eventType e = ''STAKE_NFT_MINTED''" "all_present MINT_REQUIRED_FIELDS (raw_of e)"
        "js_field ''mintTxHash'' (raw_of e) = Jstr hash" and "list_ex (same_mint hash) (nf_rows db1)" by blast
    then have "nft_keeps db1 db2" using nft_steps_ok [OF later inj] by simp
    moreover from \<open>list_ex (same_mint hash) (nf_rows db1)\<close> have "hash \<in> nf_mintTxHash ` set (nf_rows db1)"
      by (auto simp: list_ex_iff same_mint_def)
    ultimately have "hash \<in> nf_mintTxHash ` set (nf_rows db2)" unfolding nft_keeps_def by blast
    then have "list_ex (same_mint hash) (nf_rows db2)" by (auto simp: list_ex_iff same_mint_def)
    then show ?thesis using h by (simp add: mint_handler_def)
  qed
  moreover have "transfer_handler env e db2 = (Inr (), db2)"
    if e: "transfer_handler env e db = (res, db1)" "db1 \<noteq> db" and later: "(nft_step env)\<^sup>*\<^sup>* db1 db2" for e res db1 db2
  proof -
    have "nft_ok env db1" using transfer_handler_ok [OF ok e(1)] by simp
    then have "nft_keeps db1 db2" using nft_steps_ok [OF later inj] by simp
    moreover have "(ce_txHash e, ce_eventIndex e) \<in> transfer_key ` set (nf_transfers db1)"
      and "ce_eventType e = ''STAKE_NFT_TRANSFERRED''"
      using e by (auto simp: transfer_handler_def transfer_commit_def insert_row_def move_row_def transfer_key_def
          split: if_splits js_value.splits option.splits)
    ultimately have "(ce_txHash e, ce_eventIndex e) \<in> transfer_key ` set (nf_transfers db2)" by (auto simp: nft_keeps_def)
    then show ?thesis by (simp add: transfer_handler_def)
  qed
  ultimately show ?thesis using ok by (auto simp: nft_ok_def)
qed

section \<open>A small run\<close>

definition receipt_env :: nft_env where
  "receipt_env = \<lparr>nft_lib = \<lparr>num_text = (\<lambda>_. []), parse_num = (\<lambda>_. NaN), parse_date = (\<lambda>_. Some 5)\<rparr>,
    nft_id = (\<lambda>n. replicate n CHR ''n''), nft_decimal = (\<lambda>_. Some 3)\<rparr>"

definition receipt_mint :: chain_event where
  "receipt_mint = \<lparr>ce_txHash = ''m'', ce_eventIndex = 0, ce_ledger = Some 1, ce_eventType = ''STAKE_NFT_MINTED'',
    ce_fields = [(''tokenId'', Jstr ''t''), (''ownerAddress'', Jstr ''alice''), (''keyId'', Jstr ''k''), (''stakedAmount'', Jstr ''3''),
      (''mintTxHash'', Jstr ''m''), (''mintedAt'', Jstr ''now'')]\<rparr>"

definition receipt_move :: chain_event where
  "receipt_move = \<lparr>ce_txHash = ''x'', ce_eventIndex = 0, ce_ledger = Some 2, ce_eventType = ''STAKE_NFT_TRANSFERRED'',
    ce_fields = [(''tokenId'', Jstr ''t''), (''fromAddress'', Jstr ''alice''), (''toAddress'', Jstr ''bob''), (''occurredAt'', Jstr ''now'')]\<rparr>"

definition no_nfts :: nft_db where
  "no_nfts = \<lparr>nf_rows = [], nf_transfers = [], nf_activities = []\<rparr>"

definition minted_db :: nft_db where
  "minted_db = snd (processStakeNftMintedEvents receipt_env [receipt_mint] no_nfts)"

definition moved_db :: nft_db where
  "moved_db = snd (processStakeNftTransferredEvents receipt_env [receipt_move] minted_db)"

lemma receipt_rows: "map nf_owner (nf_rows moved_db) = [''bob'']" "length (nf_transfers moved_db) = 2"
  by code_simp+

theorem nft_owner_is_last_receiver_witness:
  "(nft_step receipt_env)\<^sup>*\<^sup>* no_nfts moved_db \<and> map nf_owner (nf_rows moved_db) = [''bob''] \<and>
    tr_to (last (history_of (nf_id (hd (nf_rows moved_db))) moved_db)) = ''bob''"
proof -
  have "nft_step receipt_env no_nfts minted_db" unfolding minted_db_def by (rule nft_step.mints) (rule surjective_pairing)
  moreover have "nft_step receipt_env minted_db moved_db" unfolding moved_db_def by (rule nft_step.transfers) (rule surjective_pairing)
  ultimately have steps: "(nft_step receipt_env)\<^sup>*\<^sup>* no_nfts moved_db" by simp
  have inj: "inj (nft_id receipt_env)" by (rule injI) (metis length_replicate nft_env.select_convs(2) receipt_env_def)
  obtain r where r: "nf_rows moved_db = [r]" "nf_owner r = ''bob''" using receipt_rows(1) by (auto simp: map_eq_Cons_conv)
  have empty: "nf_rows no_nfts = []" "nf_transfers no_nfts = []" by (simp_all add: no_nfts_def)
  from nft_owner_is_last_receiver [OF inj empty steps] r steps show ?thesis by (auto simp: history_ok_def)
qed

end
