(* ===== verification/Staking.thy ===== *)
theory Staking
  imports Raw_Events
begin

text \<open>
  \<open>src/modules/staking/staking-position.service.ts\<close> and \<open>src/modules/staking/staking.service.ts\<close>: lock
  periods, reward multiplier tiers, staking and unstaking, and the positions with tier and effective weight.

  Unstaking reads the position and marks it in a later statement, so it is a check and a commit; the step
  relation interleaves them. Row ids are arguments. \<open>se_column\<close> is what a \<open>Decimal(20, 7)\<close> column stores of
  an amount text (\<open>None\<close> when rejected), \<open>se_text\<close> prints such a column. The Redis entry of the tiers is
  \<open>sk_cache\<close>; its expiry is the step \<open>expire\<close>. Dates in answers are instants.
\<close>

section \<open>Tables\<close>

record multiplier_tier =
  mt_tier :: int
  mt_name :: string
  mt_lockPeriodSeconds :: int
  mt_lockPeriodDays :: int
  mt_multiplier :: rat
  mt_formatted :: string

record tier_entry =
  te_tier :: int
  te_name :: "string option"
  te_lockPeriodSeconds :: int
  te_multiplier :: rat

record staking_position =
  sp_id :: string
  sp_wallet :: string
  sp_keyId :: "string option"
  sp_amount :: rat
  sp_lockPeriodSeconds :: int
  sp_lockedAt :: instant
  sp_unlocksAt :: "instant option"
  sp_tier :: int
  sp_unstakedAt :: "instant option"
  sp_createdAt :: instant

text \<open>A key position, as the fallback reads it.\<close>

record key_position =
  kp_id :: string
  kp_owner :: string
  kp_creatorId :: string
  kp_balance :: rat
  kp_lockupExpiresAt :: "instant option"
  kp_lastBuyAt :: "instant option"
  kp_createdAt :: instant
  kp_updatedAt :: instant
  kp_frozen :: bool
  kp_frozenAt :: "instant option"

record staking_event =
  sv_staked :: bool
  sv_positionId :: string
  sv_wallet :: string
  sv_keyId :: "string option"
  sv_amount :: string
  sv_lockPeriodSeconds :: int
  sv_tier :: int
  sv_effectiveWeight :: string
  sv_lockedAt :: instant
  sv_unlocksAt :: "instant option"
  sv_occurredAt :: instant

record staking_db =
  sk_creators :: "string set"
  sk_tiers :: "tier_entry list"
  sk_cache :: "multiplier_tier list option"
  sk_positions :: "staking_position list"
  sk_keys :: "key_position list"
  sk_emitted :: "staking_event list"

datatype staking_error =
    InvalidLockPeriod string "string list"
  | StakingKeyNotFound string
  | StakingPositionNotFound string
  | PositionAlreadyUnstaked string
  | LockPeriodNotExpired instant
  | StakingValueRejected

record staking_env =
  se_lib :: js_text_lib
  se_column :: "string \<Rightarrow> rat option"
  se_text :: "rat \<Rightarrow> string"

section \<open>Lock periods\<close>

text \<open>An object used as a map from names, in insertion order.\<close>

definition put_option :: "string \<Rightarrow> int \<Rightarrow> (string \<times> int) list \<Rightarrow> (string \<times> int) list" where
  "put_option name v opts =
    (if name \<in> fst ` set opts then map (\<lambda>(n, x). (n, if n = name then v else x)) opts else opts @ [(name, v)])"

definition parse_entry :: "js_text_lib \<Rightarrow> string \<Rightarrow> (string \<times> int) list \<Rightarrow> (string \<times> int) list" where
  "parse_entry lib entry opts =
    (case map trim (split_on (CHR ''='') entry) of
      name # seconds # _ \<Rightarrow>
        (case parse_num lib seconds of
          Fin q \<Rightarrow> if name \<noteq> [] \<and> is_integer_num (Fin q) \<and> q \<ge> 0 then put_option name \<lfloor>q\<rfloor> opts else opts
        | _ \<Rightarrow> opts)
    | _ \<Rightarrow> opts)"

definition parseLockPeriodOptions :: "js_text_lib \<Rightarrow> string \<Rightarrow> (string \<times> int) list" where
  "parseLockPeriodOptions lib raw = fold (parse_entry lib) (split_on (CHR '','') raw) []"

section \<open>Multiplier tiers\<close>

definition DAY :: int where
  "DAY = 24 * 60 * 60"

definition DEFAULT_CONTRACT_MULTIPLIER_TIERS :: "multiplier_tier list" where
  "DEFAULT_CONTRACT_MULTIPLIER_TIERS =
    [\<lparr>mt_tier = 0, mt_name = ''Tier 0 (Flexible)'', mt_lockPeriodSeconds = 0, mt_lockPeriodDays = 0, mt_multiplier = 1,
      mt_formatted = ''1x''\<rparr>,
     \<lparr>mt_tier = 1, mt_name = ''Tier 1 (30 Days)'', mt_lockPeriodSeconds = 30 * DAY, mt_lockPeriodDays = 30,
      mt_multiplier = 5 / 4, mt_formatted = ''1.25x''\<rparr>,
     \<lparr>mt_tier = 2, mt_name = ''Tier 2 (90 Days)'', mt_lockPeriodSeconds = 90 * DAY, mt_lockPeriodDays = 90,
      mt_multiplier = 3 / 2, mt_formatted = ''1.5x''\<rparr>,
     \<lparr>mt_tier = 3, mt_name = ''Tier 3 (180 Days)'', mt_lockPeriodSeconds = 180 * DAY, mt_lockPeriodDays = 180,
      mt_multiplier = 2, mt_formatted = ''2x''\<rparr>,
     \<lparr>mt_tier = 4, mt_name = ''Tier 4 (365 Days)'', mt_lockPeriodSeconds = 365 * DAY, mt_lockPeriodDays = 365,
      mt_multiplier = 5 / 2, mt_formatted = ''2.5x''\<rparr>]"

definition tier_view :: "js_text_lib \<Rightarrow> tier_entry \<Rightarrow> multiplier_tier" where
  "tier_view lib t =
    (let mult = fl (te_multiplier t)
     in \<lparr>mt_tier = te_tier t, mt_name = (case te_name t of Some n \<Rightarrow> n | None \<Rightarrow> ''Tier '' @ show_int (te_tier t)),
         mt_lockPeriodSeconds = te_lockPeriodSeconds t,
         mt_lockPeriodDays = js_round (fl (of_int (te_lockPeriodSeconds t) / 86400)),
         mt_multiplier = mult, mt_formatted = num_text lib (Fin mult) @ ''x''\<rparr>)"

text \<open>Seeding the empty table with the defaults.\<close>

definition seeded_tiers :: "tier_entry list" where
  "seeded_tiers = map (\<lambda>t. \<lparr>te_tier = mt_tier t, te_name = Some (mt_name t), te_lockPeriodSeconds = mt_lockPeriodSeconds t,
    te_multiplier = mt_multiplier t\<rparr>) DEFAULT_CONTRACT_MULTIPLIER_TIERS"

definition getMultiplierTiers :: "staking_env \<Rightarrow> staking_db \<Rightarrow> multiplier_tier list \<times> staking_db" where
  "getMultiplierTiers env db =
    (case sk_cache db of
      Some (t # ts) \<Rightarrow> (t # ts, db)
    | _ \<Rightarrow>
        let rows = sort_key te_tier (sk_tiers db);
            result = (if rows \<noteq> [] then map (tier_view (se_lib env)) rows else DEFAULT_CONTRACT_MULTIPLIER_TIERS)
        in (result, db\<lparr>sk_tiers := (if rows \<noteq> [] then sk_tiers db else seeded_tiers), sk_cache := Some result\<rparr>))"

definition by_lock_period :: "multiplier_tier list \<Rightarrow> multiplier_tier list" where
  "by_lock_period tiers = sort_key (\<lambda>t. - mt_lockPeriodSeconds t) tiers"

definition matchTierForLockPeriod :: "int \<Rightarrow> multiplier_tier list \<Rightarrow> multiplier_tier" where
  "matchTierForLockPeriod lockPeriodSeconds tiers =
    (let sorted = by_lock_period tiers
     in case find (\<lambda>t. lockPeriodSeconds \<ge> mt_lockPeriodSeconds t) sorted of
          Some t \<Rightarrow> t
        | None \<Rightarrow> if sorted = [] then hd DEFAULT_CONTRACT_MULTIPLIER_TIERS else last sorted)"

text \<open>The tier of a position: its own while it exists, by lock period otherwise.\<close>

definition tier_of :: "staking_position \<Rightarrow> multiplier_tier list \<Rightarrow> multiplier_tier" where
  "tier_of p tiers =
    (case find (\<lambda>t. mt_tier t = sp_tier p) tiers of
      Some t \<Rightarrow> t
    | None \<Rightarrow> matchTierForLockPeriod (sp_lockPeriodSeconds p) tiers)"

fun negative_or_nan :: "js_num \<Rightarrow> bool" where
  "negative_or_nan (Fin q) = (q < 0)"
| "negative_or_nan NaN = True"
| "negative_or_nan (Infinite pos) = (\<not> pos)"

definition calculateEffectiveWeight :: "js_text_lib \<Rightarrow> string \<Rightarrow> rat \<Rightarrow> string" where
  "calculateEffectiveWeight lib stakeAmount multiplier =
    (let amount = parse_num lib stakeAmount; mult = Fin multiplier
     in if negative_or_nan amount \<or> negative_or_nan mult then ''0''
        else case js_times amount mult of
          Fin w \<Rightarrow> num_text lib (Fin (if is_integer_num (Fin w) then w else round7 w))
        | w \<Rightarrow> num_text lib w)"

section \<open>Staking and unstaking\<close>

text \<open>The amount a request may carry: \<open>^\d{1,13}(\.\d{1,7})?$\<close> with a positive number.\<close>

definition stake_amount_ok :: "js_text_lib \<Rightarrow> string \<Rightarrow> bool" where
  "stake_amount_ok lib s \<longleftrightarrow>
    (case split_on (CHR ''.'') s of
      [whole] \<Rightarrow> list_all is_digit whole \<and> 1 \<le> length whole \<and> length whole \<le> 13
    | [whole, part] \<Rightarrow> list_all is_digit whole \<and> 1 \<le> length whole \<and> length whole \<le> 13 \<and>
        list_all is_digit part \<and> 1 \<le> length part \<and> length part \<le> 7
    | _ \<Rightarrow> False) \<and>
    (case parse_num lib s of Fin q \<Rightarrow> 0 < q | _ \<Rightarrow> False)"

definition emit_staking :: "staking_event \<Rightarrow> staking_db \<Rightarrow> staking_db" where
  "emit_staking e db = db\<lparr>sk_emitted := sk_emitted db @ [e]\<rparr>"

text \<open>\<open>lockPeriodSeconds\<close> is a 32-bit column.\<close>

definition stakeKeys ::
  "staking_env \<Rightarrow> string \<Rightarrow> instant \<Rightarrow> string \<Rightarrow> string \<Rightarrow> string \<Rightarrow> string \<Rightarrow> string \<Rightarrow> staking_db \<Rightarrow>
    (staking_error + staking_position) \<times> staking_db" where
  "stakeKeys env rawOptions now rowId wallet keyId amount lockPeriod db =
    (let options = parseLockPeriodOptions (se_lib env) rawOptions
     in case map_of options lockPeriod of
       None \<Rightarrow> (Inl (InvalidLockPeriod lockPeriod (map fst options)), db)
     | Some lockPeriodSeconds \<Rightarrow>
         if keyId \<notin> sk_creators db then (Inl (StakingKeyNotFound keyId), db)
         else
           let (tiers, db1) = getMultiplierTiers env db;
               tier = matchTierForLockPeriod lockPeriodSeconds tiers;
               unlocksAt = now + lockPeriodSeconds * 1000
           in case se_column env amount of
             None \<Rightarrow> (Inl StakingValueRejected, db1)
           | Some stored \<Rightarrow>
               if lockPeriodSeconds \<ge> 2 ^ 31 then (Inl StakingValueRejected, db1)
               else
                 let position = \<lparr>sp_id = rowId, sp_wallet = wallet, sp_keyId = Some keyId, sp_amount = stored,
                       sp_lockPeriodSeconds = lockPeriodSeconds, sp_lockedAt = now, sp_unlocksAt = Some unlocksAt,
                       sp_tier = mt_tier tier, sp_unstakedAt = None, sp_createdAt = now\<rparr>
                 in (Inr position, emit_staking
                      \<lparr>sv_staked = True, sv_positionId = rowId, sv_wallet = wallet, sv_keyId = Some keyId, sv_amount = amount,
                       sv_lockPeriodSeconds = lockPeriodSeconds, sv_tier = mt_tier tier,
                       sv_effectiveWeight = calculateEffectiveWeight (se_lib env) amount (mt_multiplier tier),
                       sv_lockedAt = now, sv_unlocksAt = Some unlocksAt, sv_occurredAt = now\<rparr>
                      (db1\<lparr>sk_positions := insert_row position (sk_positions db1)\<rparr>)))"

text \<open>The checks on the position that was read.\<close>

definition unstake_check :: "instant \<Rightarrow> string \<Rightarrow> string \<Rightarrow> staking_db \<Rightarrow> staking_error + staking_position" where
  "unstake_check now wallet positionId db =
    (case find_by sp_id positionId (sk_positions db) of
      None \<Rightarrow> Inl (StakingPositionNotFound positionId)
    | Some p \<Rightarrow>
        if sp_wallet p \<noteq> wallet then Inl (StakingPositionNotFound positionId)
        else if sp_unstakedAt p \<noteq> None then Inl (PositionAlreadyUnstaked (sp_id p))
        else
          let unlocksAt = (case sp_unlocksAt p of Some t \<Rightarrow> t | None \<Rightarrow> sp_lockedAt p)
          in if unlocksAt > now then Inl (LockPeriodNotExpired unlocksAt) else Inr p)"

text \<open>The guarded update, and the event.\<close>

definition unstake_commit ::
  "staking_env \<Rightarrow> instant \<Rightarrow> staking_position \<Rightarrow> staking_db \<Rightarrow> (staking_error + string) \<times> staking_db" where
  "unstake_commit env now p db =
    (if \<not> list_ex (\<lambda>r. sp_id r = sp_id p \<and> sp_unstakedAt r = None) (sk_positions db)
     then (Inl (PositionAlreadyUnstaked (sp_id p)), db)
     else
       let db1 = db\<lparr>sk_positions := modify_where (\<lambda>r. sp_id r = sp_id p \<and> sp_unstakedAt r = None)
             (\<lambda>r. r\<lparr>sp_unstakedAt := Some now\<rparr>) (sk_positions db)\<rparr>;
           (tiers, db2) = getMultiplierTiers env db1;
           tier = tier_of p tiers;
           amount = se_text env (sp_amount p)
       in (Inr amount, emit_staking
            \<lparr>sv_staked = False, sv_positionId = sp_id p, sv_wallet = sp_wallet p, sv_keyId = sp_keyId p, sv_amount = amount,
             sv_lockPeriodSeconds = sp_lockPeriodSeconds p, sv_tier = mt_tier tier,
             sv_effectiveWeight = calculateEffectiveWeight (se_lib env) amount (mt_multiplier tier),
             sv_lockedAt = sp_lockedAt p, sv_unlocksAt = sp_unlocksAt p, sv_occurredAt = now\<rparr> db2))"

definition unstakePosition ::
  "staking_env \<Rightarrow> instant \<Rightarrow> string \<Rightarrow> string \<Rightarrow> staking_db \<Rightarrow> (staking_error + string) \<times> staking_db" where
  "unstakePosition env now wallet positionId db =
    (case unstake_check now wallet positionId db of
      Inl err \<Rightarrow> (Inl err, db)
    | Inr p \<Rightarrow> unstake_commit env now p db)"

section \<open>Reading positions\<close>

record position_view =
  pv_id :: string
  pv_wallet :: string
  pv_keyId :: "string option"
  pv_amount :: string
  pv_lockPeriodSeconds :: int
  pv_lockedAt :: "instant option"
  pv_unlocksAt :: "instant option"
  pv_tierData :: multiplier_tier
  pv_effectiveWeight :: string
  pv_frozen :: "bool option"
  pv_frozenAt :: "instant option"

definition staked_view :: "staking_env \<Rightarrow> multiplier_tier list \<Rightarrow> staking_position \<Rightarrow> position_view" where
  "staked_view env tiers p =
    (let tier = tier_of p tiers; amount = se_text env (sp_amount p)
     in \<lparr>pv_id = sp_id p, pv_wallet = sp_wallet p, pv_keyId = sp_keyId p, pv_amount = amount,
         pv_lockPeriodSeconds = sp_lockPeriodSeconds p, pv_lockedAt = Some (sp_lockedAt p), pv_unlocksAt = sp_unlocksAt p,
         pv_tierData = tier, pv_effectiveWeight = calculateEffectiveWeight (se_lib env) amount (mt_multiplier tier),
         pv_frozen = None, pv_frozenAt = None\<rparr>)"

text \<open>The lock period of a key position, from its lockup; its expiry is shown as \<open>lockupExpiresAt\<close>.\<close>

definition lockup_seconds :: "key_position \<Rightarrow> int" where
  "lockup_seconds k =
    (case kp_lockupExpiresAt k of
      None \<Rightarrow> 0
    | Some expires \<Rightarrow>
        let startTime = (case kp_lastBuyAt k of Some t \<Rightarrow> t | None \<Rightarrow> kp_createdAt k)
        in max 0 (js_round (fl (of_int (expires - startTime) / 1000))))"

definition held_view :: "staking_env \<Rightarrow> multiplier_tier list \<Rightarrow> key_position \<Rightarrow> position_view" where
  "held_view env tiers k =
    (let tier = matchTierForLockPeriod (lockup_seconds k) tiers; amount = se_text env (kp_balance k)
     in \<lparr>pv_id = kp_id k, pv_wallet = kp_owner k, pv_keyId = Some (kp_creatorId k), pv_amount = amount,
         pv_lockPeriodSeconds = lockup_seconds k, pv_lockedAt = None, pv_unlocksAt = kp_lockupExpiresAt k, pv_tierData = tier,
         pv_effectiveWeight = calculateEffectiveWeight (se_lib env) amount (mt_multiplier tier),
         pv_frozen = Some (kp_frozen k), pv_frozenAt = kp_frozenAt k\<rparr>)"

definition getStakingPositionById ::
  "staking_env \<Rightarrow> string \<Rightarrow> staking_db \<Rightarrow> (staking_error + position_view) \<times> staking_db" where
  "getStakingPositionById env positionId db =
    (let (tiers, db1) = getMultiplierTiers env db
     in case find_by sp_id positionId (sk_positions db1) of
          Some p \<Rightarrow> (Inr (staked_view env tiers p), db1)
        | None \<Rightarrow> (case find_by kp_id positionId (sk_keys db1) of
            Some k \<Rightarrow> (Inr (held_view env tiers k), db1)
          | None \<Rightarrow> (Inl (StakingPositionNotFound positionId), db1)))"

text \<open>Active positions, newest first; for a wallet without any, its key positions, last updated first.\<close>

definition getStakingPositions :: "staking_env \<Rightarrow> string option \<Rightarrow> staking_db \<Rightarrow> position_view list \<times> staking_db" where
  "getStakingPositions env wallet db =
    (let (tiers, db1) = getMultiplierTiers env db;
         staked = map (staked_view env tiers) (rev (sort_key sp_createdAt (filter (\<lambda>p. sp_unstakedAt p = None \<and>
           (wallet = None \<or> wallet = Some [] \<or> wallet = Some (sp_wallet p))) (sk_positions db1))));
         held = (case wallet of
           Some (c # w) \<Rightarrow> if staked \<noteq> [] then []
             else map (held_view env tiers) (rev (sort_key kp_updatedAt (filter (\<lambda>k. kp_owner k = c # w \<and> 0 < kp_balance k) (sk_keys db1))))
         | _ \<Rightarrow> [])
     in (staked @ held, db1))"

record weight_result =
  wr_positionId :: string
  wr_wallet :: string
  wr_stakedAmount :: string
  wr_lockPeriodSeconds :: int
  wr_multiplier :: rat
  wr_formatted :: string
  wr_effectiveWeight :: string
  wr_tier :: multiplier_tier

definition getPositionEffectiveWeight ::
  "staking_env \<Rightarrow> string \<Rightarrow> staking_db \<Rightarrow> (staking_error + weight_result) \<times> staking_db" where
  "getPositionEffectiveWeight env positionId db =
    (case getStakingPositionById env positionId db of
      (Inl err, db1) \<Rightarrow> (Inl err, db1)
    | (Inr v, db1) \<Rightarrow> (Inr \<lparr>wr_positionId = pv_id v, wr_wallet = pv_wallet v, wr_stakedAmount = pv_amount v,
        wr_lockPeriodSeconds = pv_lockPeriodSeconds v, wr_multiplier = mt_multiplier (pv_tierData v),
        wr_formatted = mt_formatted (pv_tierData v), wr_effectiveWeight = pv_effectiveWeight v, wr_tier = pv_tierData v\<rparr>, db1))"

section \<open>The tier of a lock period\<close>

lemma by_lock_period_props: "set (by_lock_period tiers) = set tiers" "sorted (map (\<lambda>t. - mt_lockPeriodSeconds t) (by_lock_period tiers))"
  by (simp_all add: by_lock_period_def)

lemma find_in_descending:
  assumes "sorted (map (\<lambda>t. - f t) xs)" "find (\<lambda>t. n \<ge> f t) xs = Some x"
  shows "x \<in> set xs \<and> f x \<le> n \<and> (\<forall>y \<in> set xs. f y \<le> n \<longrightarrow> f y \<le> (f x :: int))"
  using assms by (induction xs) (auto split: if_splits)

lemma last_of_sorted: "sorted (map (\<lambda>t. - f t) xs) \<Longrightarrow> y \<in> set xs \<Longrightarrow> (f (last xs) :: int) \<le> f y"
  by (induction xs) (auto split: if_splits)

text \<open>A lock period gets the tier with the longest requirement it meets; when it meets none, the tier with the
  shortest requirement.\<close>

theorem tier_matches_lock_period:
  assumes "tiers \<noteq> []"
  shows "matchTierForLockPeriod n tiers \<in> set tiers \<and>
    (if \<exists>t \<in> set tiers. mt_lockPeriodSeconds t \<le> n
     then mt_lockPeriodSeconds (matchTierForLockPeriod n tiers) \<le> n \<and>
       (\<forall>t \<in> set tiers. mt_lockPeriodSeconds t \<le> n \<longrightarrow> mt_lockPeriodSeconds t \<le> mt_lockPeriodSeconds (matchTierForLockPeriod n tiers))
     else \<forall>t \<in> set tiers. mt_lockPeriodSeconds (matchTierForLockPeriod n tiers) \<le> mt_lockPeriodSeconds t)"
proof (cases "find (\<lambda>t. n \<ge> mt_lockPeriodSeconds t) (by_lock_period tiers)")
  case None
  then have none: "\<forall>t \<in> set tiers. \<not> mt_lockPeriodSeconds t \<le> n" by (simp add: find_None_iff by_lock_period_props)
  have ne: "by_lock_period tiers \<noteq> []" using assms by (simp add: by_lock_period_def sort_key_Nil_iff)
  have m: "matchTierForLockPeriod n tiers = last (by_lock_period tiers)"
    using None ne by (simp add: matchTierForLockPeriod_def Let_def)
  have "last (by_lock_period tiers) \<in> set tiers" using last_in_set [OF ne] by (simp add: by_lock_period_props)
  moreover have "mt_lockPeriodSeconds (last (by_lock_period tiers)) \<le> mt_lockPeriodSeconds t" if "t \<in> set tiers" for t
    using last_of_sorted [OF by_lock_period_props(2), of t tiers] that by (simp add: by_lock_period_props)
  ultimately show ?thesis using none by (simp add: m)
next
  case (Some t)
  then show ?thesis
    using find_in_descending [OF by_lock_period_props(2) Some]
    by (auto simp: matchTierForLockPeriod_def Let_def by_lock_period_props)
qed

section \<open>Unstaking happens once and after the lock\<close>

text \<open>
  The reachable states. \<open>pending\<close> are the positions that an unstake request has checked, with its time. The tiers and
  the cache entry may change at any moment.
\<close>

inductive staking_sys :: "staking_env \<Rightarrow> staking_db \<Rightarrow> (staking_position \<times> instant) set \<Rightarrow> bool" for env where
  init: "sk_positions db = [] \<Longrightarrow> sk_emitted db = [] \<Longrightarrow> staking_sys env db {}"
| stake: "staking_sys env db pending \<Longrightarrow> rowId \<notin> sp_id ` set (sk_positions db) \<Longrightarrow>
    stakeKeys env options now rowId wallet keyId amount lockPeriod db = (r, db') \<Longrightarrow> staking_sys env db' pending"
| check: "staking_sys env db pending \<Longrightarrow> unstake_check now wallet positionId db = Inr p \<Longrightarrow>
    staking_sys env db (insert (p, now) pending)"
| unstake: "staking_sys env db pending \<Longrightarrow> (p, now) \<in> pending \<Longrightarrow> unstake_commit env now p db = (q, db') \<Longrightarrow>
    staking_sys env db' pending"
| tiers: "staking_sys env db pending \<Longrightarrow> staking_sys env (db\<lparr>sk_tiers := ts, sk_cache := c, sk_creators := cs, sk_keys := ks\<rparr>) pending"

definition unlock_time :: "staking_position \<Rightarrow> instant" where
  "unlock_time p = sp_lockedAt p + sp_lockPeriodSeconds p * 1000"

definition events_of :: "bool \<Rightarrow> string \<Rightarrow> staking_db \<Rightarrow> staking_event list" where
  "events_of staked pid db = filter (\<lambda>e. sv_staked e = staked \<and> sv_positionId e = pid) (sk_emitted db)"

definition position_ok :: "staking_db \<Rightarrow> staking_position \<Rightarrow> bool" where
  "position_ok db p \<longleftrightarrow> sp_unlocksAt p = Some (unlock_time p) \<and>
    map (\<lambda>e. (sv_wallet e, sv_occurredAt e)) (events_of False (sp_id p) db) =
      (case sp_unstakedAt p of None \<Rightarrow> [] | Some t \<Rightarrow> [(sp_wallet p, t)]) \<and>
    map (\<lambda>e. (sv_wallet e, sv_occurredAt e)) (events_of True (sp_id p) db) = [(sp_wallet p, sp_lockedAt p)] \<and>
    (case sp_unstakedAt p of None \<Rightarrow> True | Some t \<Rightarrow> unlock_time p \<le> t)"

definition as_staked :: "staking_position \<Rightarrow> staking_position" where
  "as_staked p = p\<lparr>sp_unstakedAt := None\<rparr>"

definition staking_inv :: "staking_db \<Rightarrow> (staking_position \<times> instant) set \<Rightarrow> bool" where
  "staking_inv db pending \<longleftrightarrow> distinct (map sp_id (sk_positions db)) \<and>
    sv_positionId ` set (sk_emitted db) \<subseteq> sp_id ` set (sk_positions db) \<and>
    (\<forall>p \<in> set (sk_positions db). position_ok db p) \<and>
    (\<forall>x \<in> pending. as_staked (fst x) \<in> as_staked ` set (sk_positions db) \<and> unlock_time (fst x) \<le> snd x)"

lemma tiers_keep [simp]:
  "sk_positions (snd (getMultiplierTiers env db)) = sk_positions db"
  "sk_emitted (snd (getMultiplierTiers env db)) = sk_emitted db"
  by (auto simp: getMultiplierTiers_def Let_def split: option.split list.split)

lemma stakeKeys_cases:
  obtains (fails) e db1 where "stakeKeys env opts now rowId w k a lp db = (Inl e, db1)" "sk_positions db1 = sk_positions db"
      "sk_emitted db1 = sk_emitted db"
  | (stakes) p ev db1 where "stakeKeys env opts now rowId w k a lp db = (Inr p, db1)" "sk_positions db1 = sk_positions db @ [p]"
      "sk_emitted db1 = sk_emitted db @ [ev]" "sp_id p = rowId" "sp_wallet p = w" "sp_unlocksAt p = Some (unlock_time p)"
      "sp_lockedAt p = now" "sp_unstakedAt p = None" "sv_staked ev" "sv_positionId ev = rowId" "sv_wallet ev = w" "sv_occurredAt ev = now"
proof (cases "\<exists>n stored. map_of (parseLockPeriodOptions (se_lib env) opts) lp = Some n \<and> k \<in> sk_creators db \<and> se_column env a = Some stored \<and> n < 2 ^ 31")
  case True
  then obtain n stored where n: "map_of (parseLockPeriodOptions (se_lib env) opts) lp = Some n" "k \<in> sk_creators db"
    "se_column env a = Some stored" "n < 2 ^ 31" by blast
  obtain ts db0 where t: "getMultiplierTiers env db = (ts, db0)" by fastforce
  have keep: "sk_positions db0 = sk_positions db" "sk_emitted db0 = sk_emitted db" using tiers_keep [of env db] by (simp_all add: t)
  define tier where "tier = matchTierForLockPeriod n ts"
  define p where "p = \<lparr>sp_id = rowId, sp_wallet = w, sp_keyId = Some k, sp_amount = stored, sp_lockPeriodSeconds = n,
    sp_lockedAt = now, sp_unlocksAt = Some (now + n * 1000), sp_tier = mt_tier tier, sp_unstakedAt = None, sp_createdAt = now\<rparr>"
  define ev where "ev = \<lparr>sv_staked = True, sv_positionId = rowId, sv_wallet = w, sv_keyId = Some k, sv_amount = a,
    sv_lockPeriodSeconds = n, sv_tier = mt_tier tier,
    sv_effectiveWeight = calculateEffectiveWeight (se_lib env) a (mt_multiplier tier),
    sv_lockedAt = now, sv_unlocksAt = Some (now + n * 1000), sv_occurredAt = now\<rparr>"
  have "stakeKeys env opts now rowId w k a lp db = (Inr p, emit_staking ev (db0\<lparr>sk_positions := insert_row p (sk_positions db0)\<rparr>))"
    using n by (simp add: stakeKeys_def t Let_def p_def ev_def tier_def)
  then show thesis
    by (rule stakes [where ev = ev]) (simp_all add: keep emit_staking_def insert_row_def p_def ev_def unlock_time_def)
next
  case False
  have "\<exists>e. stakeKeys env opts now rowId w k a lp db \<in> {(Inl e, db), (Inl e, snd (getMultiplierTiers env db))}"
    using False by (auto simp: stakeKeys_def Let_def not_less split: option.split prod.split)
  then show thesis using fails by auto
qed

lemma position_okD:
  "position_ok db p \<Longrightarrow> sp_unlocksAt p = Some (unlock_time p)"
  by (simp add: position_ok_def)

lemma as_staked_fields [simp]:
  "sp_id (as_staked p) = sp_id p" "unlock_time (as_staked p) = unlock_time p" "sp_unstakedAt (as_staked p) = None"
  by (simp_all add: as_staked_def unlock_time_def)

lemma stake_inv:
  assumes inv: "staking_inv db pending" and fresh: "rowId \<notin> sp_id ` set (sk_positions db)"
    and s: "stakeKeys env opts now rowId w k a lp db = (r, db')"
  shows "staking_inv db' pending"
proof (cases rule: stakeKeys_cases [of env opts now rowId w k a lp db])
  case (fails e db1)
  then show ?thesis using inv s by (auto simp: staking_inv_def position_ok_def events_of_def)
next
  case (stakes p ev db1)
  have db': "db' = db1" using stakes(1) s by simp
  have old: "events_of b x db' = events_of b x db @ (if b \<and> x = rowId then [ev] else [])" for b x
    using stakes by (auto simp: events_of_def db')
  have new: "events_of b rowId db = []" for b
    using inv fresh by (force simp: events_of_def staking_inv_def filter_empty_conv)
  have "position_ok db' x" if "x \<in> set (sk_positions db)" for x
    using inv that fresh by (auto simp: staking_inv_def position_ok_def old)
  moreover have "position_ok db' p" using stakes by (simp add: position_ok_def old new)
  ultimately show ?thesis
    using inv fresh stakes unfolding staking_inv_def db' by auto
qed

lemma unstake_commit_effect:
  assumes active: "list_ex (\<lambda>r. sp_id r = sp_id p \<and> sp_unstakedAt r = None) (sk_positions db)"
    and u: "unstake_commit env now p db = (r, db')"
  obtains ev where "r = Inr (se_text env (sp_amount p))"
    "sk_positions db' = map (\<lambda>r. if sp_id r = sp_id p \<and> sp_unstakedAt r = None then r\<lparr>sp_unstakedAt := Some now\<rparr> else r) (sk_positions db)"
    "sk_emitted db' = sk_emitted db @ [ev]"
    "\<not> sv_staked ev" "sv_positionId ev = sp_id p" "sv_wallet ev = sp_wallet p" "sv_occurredAt ev = now"
proof -
  let ?db1 = "db\<lparr>sk_positions := modify_where (\<lambda>r. sp_id r = sp_id p \<and> sp_unstakedAt r = None)
           (\<lambda>r. r\<lparr>sp_unstakedAt := Some now\<rparr>) (sk_positions db)\<rparr>"
  obtain ts db2 where t: "getMultiplierTiers env ?db1 = (ts, db2)" by fastforce
  have keep: "sk_positions db2 = sk_positions ?db1" "sk_emitted db2 = sk_emitted ?db1"
    using tiers_keep [of env ?db1] by (simp_all add: t)
  define amount where "amount = se_text env (sp_amount p)"
  define ev where "ev = \<lparr>sv_staked = False, sv_positionId = sp_id p, sv_wallet = sp_wallet p, sv_keyId = sp_keyId p, sv_amount = amount,
    sv_lockPeriodSeconds = sp_lockPeriodSeconds p, sv_tier = mt_tier (tier_of p ts),
    sv_effectiveWeight = calculateEffectiveWeight (se_lib env) amount (mt_multiplier (tier_of p ts)),
    sv_lockedAt = sp_lockedAt p, sv_unlocksAt = sp_unlocksAt p, sv_occurredAt = now\<rparr>"
  have "unstake_commit env now p db = (Inr amount, emit_staking ev db2)"
    using active t by (simp add: unstake_commit_def Let_def ev_def amount_def)
  then show thesis
    using u by (intro that [of ev]) (auto simp: emit_staking_def keep modify_where_def ev_def amount_def)
qed

lemma unstake_inv:
  assumes inv: "staking_inv db pending" and x: "(p, now) \<in> pending" and u: "unstake_commit env now p db = (r, db')"
  shows "staking_inv db' pending"
proof (cases "list_ex (\<lambda>r. sp_id r = sp_id p \<and> sp_unstakedAt r = None) (sk_positions db)")
  case False
  then show ?thesis using inv u by (simp add: unstake_commit_def)
next
  case True
  let ?upd = "\<lambda>r. if sp_id r = sp_id p \<and> sp_unstakedAt r = None then r\<lparr>sp_unstakedAt := Some now\<rparr> else r"
  obtain ev where db': "sk_positions db' = map ?upd (sk_positions db)" "sk_emitted db' = sk_emitted db @ [ev]"
    and ev: "\<not> sv_staked ev" "sv_positionId ev = sp_id p" "sv_wallet ev = sp_wallet p" "sv_occurredAt ev = now"
    by (rule unstake_commit_effect [OF True u])
  from inv x obtain q where q: "q \<in> set (sk_positions db)" "as_staked p = as_staked q" and ul: "unlock_time p \<le> now"
    by (fastforce simp: staking_inv_def)
  have ids: "sp_id p = sp_id q" "sp_wallet p = sp_wallet q" "unlock_time p = unlock_time q"
    using arg_cong [OF q(2), of sp_id] arg_cong [OF q(2), of sp_wallet] arg_cong [OF q(2), of unlock_time]
    by (simp_all add: as_staked_def unlock_time_def)
  have dist: "distinct (map sp_id (sk_positions db))" using inv by (simp add: staking_inv_def)
  then have only: "r = q" if "r \<in> set (sk_positions db)" "sp_id r = sp_id p" for r
    using that q(1) ids(1) by (simp add: distinct_map inj_on_def)
  have act: "sp_unstakedAt q = None" using True only by (auto simp: list_ex_iff)
  have old: "events_of b y db' = events_of b y db @ (if \<not> b \<and> y = sp_id p then [ev] else [])" for b y
    using ev by (auto simp: events_of_def db')
  have "position_ok db' (?upd r)" if r: "r \<in> set (sk_positions db)" for r
  proof (cases "sp_id r = sp_id p")
    case True
    then have "r = q" using only r by simp
    moreover have "position_ok db q" using inv q(1) by (simp add: staking_inv_def)
    ultimately show ?thesis using act ul ev ids by (simp add: position_ok_def old unlock_time_def)
  next
    case False
    then show ?thesis using inv r by (auto simp: staking_inv_def position_ok_def old)
  qed
  then have "\<forall>r \<in> set (sk_positions db'). position_ok db' r" by (simp only: db'(1) set_map) blast
  moreover have upd: "map as_staked (sk_positions db') = map as_staked (sk_positions db)"
    "map sp_id (sk_positions db') = map sp_id (sk_positions db)"
    by (auto simp: db'(1) as_staked_def)
  moreover have "sp_id q \<in> sp_id ` set (sk_positions db)" using q(1) by simp
  ultimately show ?thesis
    using inv ev ids(1) unfolding staking_inv_def set_map [symmetric] upd db'(2) by auto
qed

lemma check_okE:
  assumes "unstake_check now wallet positionId db = Inr p"
  shows "p \<in> set (sk_positions db)" "sp_id p = positionId" "sp_wallet p = wallet" "sp_unstakedAt p = None"
    "(case sp_unlocksAt p of Some t \<Rightarrow> t | None \<Rightarrow> sp_lockedAt p) \<le> now"
  using assms find_by_SomeD [of sp_id positionId "sk_positions db"]
  by (auto simp: unstake_check_def Let_def split: option.splits if_splits)

lemma staking_sys_inv: "staking_sys env db pending \<Longrightarrow> staking_inv db pending"
proof (induction rule: staking_sys.induct)
  case (init db)
  then show ?case by (simp add: staking_inv_def)
next
  case (stake db pending rowId options now wallet keyId amount lockPeriod r db')
  show ?case using stake.IH stake.hyps(2,3) by (rule stake_inv)
next
  case (check db pending now wallet positionId p)
  note p = check_okE [OF check.hyps(2)]
  have "position_ok db p" using check.IH p(1) unfolding staking_inv_def by blast
  then have "sp_unlocksAt p = Some (unlock_time p)" by (rule position_okD)
  then show ?case using check.IH p by (auto simp: staking_inv_def)
next
  case (unstake db pending p now q db')
  show ?case using unstake.IH unstake.hyps(2,3) by (rule unstake_inv)
next
  case (tiers db pending ts c cs ks)
  then show ?case by (simp add: staking_inv_def position_ok_def events_of_def)
qed


text \<open>An active position can be unstaked by its wallet from the end of its lock period on, and not before; a second
  request is told that it is unstaked already.\<close>

theorem unstake_answers:
  assumes sys: "staking_sys env db pending" and p: "p \<in> set (sk_positions db)" "sp_unstakedAt p = None"
  shows "if now < sp_lockedAt p + sp_lockPeriodSeconds p * 1000
    then unstakePosition env now (sp_wallet p) (sp_id p) db = (Inl (LockPeriodNotExpired (sp_lockedAt p + sp_lockPeriodSeconds p * 1000)), db)
    else \<exists>db'. unstakePosition env now (sp_wallet p) (sp_id p) db = (Inr (se_text env (sp_amount p)), db') \<and>
      fst (unstakePosition env later (sp_wallet p) (sp_id p) db') = Inl (PositionAlreadyUnstaked (sp_id p))"
proof -
  have inv: "staking_inv db pending" using sys by (rule staking_sys_inv)
  then have dist: "distinct (map sp_id (sk_positions db))" and u: "sp_unlocksAt p = Some (unlock_time p)"
    using p(1) by (auto simp: staking_inv_def position_okD)
  have found: "find_by sp_id (sp_id p) (sk_positions db) = Some p" by (rule find_by_distinct [OF dist p(1)])
  show ?thesis
  proof (cases "now < unlock_time p")
    case True
    then show ?thesis by (simp add: unstakePosition_def unstake_check_def found p(2) u unlock_time_def)
  next
    case False
    then have ok: "unstake_check now (sp_wallet p) (sp_id p) db = Inr p" by (simp add: unstake_check_def found p(2) u)
    obtain r db' where c: "unstake_commit env now p db = (r, db')" by fastforce
    have some: "list_ex (\<lambda>r. sp_id r = sp_id p \<and> sp_unstakedAt r = None) (sk_positions db)"
      using p by (auto simp: list_ex_iff)
    obtain r: "r = Inr (se_text env (sp_amount p))" and pos: "sk_positions db' =
        map (\<lambda>r. if sp_id r = sp_id p \<and> sp_unstakedAt r = None then r\<lparr>sp_unstakedAt := Some now\<rparr> else r) (sk_positions db)"
      by (rule unstake_commit_effect [OF some c])
    have "find_by sp_id (sp_id p) (sk_positions db') = Some (p\<lparr>sp_unstakedAt := Some now\<rparr>)"
    proof (rule find_by_distinct [of sp_id _ "p\<lparr>sp_unstakedAt := Some now\<rparr>", simplified])
      have "map sp_id (sk_positions db') = map sp_id (sk_positions db)" by (auto simp: pos)
      then show "distinct (map sp_id (sk_positions db'))" using dist by simp
      show "p\<lparr>sp_unstakedAt := Some now\<rparr> \<in> set (sk_positions db')" using p by (force simp: pos)
    qed
    then have "unstakePosition env later (sp_wallet p) (sp_id p) db' = (Inl (PositionAlreadyUnstaked (sp_id p)), db')"
      by (simp add: unstakePosition_def unstake_check_def)
    then show ?thesis using False ok c r by (simp add: unstakePosition_def unlock_time_def)
  qed
qed

section \<open>A small run\<close>

definition five_lib :: js_text_lib where
  "five_lib = \<lparr>num_text = (\<lambda>_. ''7''), parse_num = (\<lambda>s. if s = ''5'' then Fin 5 else NaN), parse_date = (\<lambda>_. None)\<rparr>"

definition five_env :: staking_env where
  "five_env = \<lparr>se_lib = five_lib, se_column = (\<lambda>_. Some 7), se_text = (\<lambda>_. ''7'')\<rparr>"

definition five_db :: staking_db where
  "five_db = \<lparr>sk_creators = {''key''}, sk_tiers = [], sk_cache = Some [hd DEFAULT_CONTRACT_MULTIPLIER_TIERS],
    sk_positions = [], sk_keys = [], sk_emitted = []\<rparr>"

definition five_position :: "instant option \<Rightarrow> staking_position" where
  "five_position t = \<lparr>sp_id = ''p'', sp_wallet = ''w'', sp_keyId = Some ''key'', sp_amount = 7, sp_lockPeriodSeconds = 5,
    sp_lockedAt = 100, sp_unlocksAt = Some 5100, sp_tier = 0, sp_unstakedAt = t, sp_createdAt = 100\<rparr>"

lemma five_staked:
  "\<exists>db. stakeKeys five_env ''flex=x, soon = 5'' 100 ''p'' ''w'' ''key'' ''7'' ''soon'' five_db = (Inr (five_position None), db) \<and>
    sk_positions db = [five_position None]"
proof -
  have "parseLockPeriodOptions five_lib ''flex=x, soon = 5'' = [(''soon'', 5)]" by code_simp
  then show ?thesis
    by (simp add: stakeKeys_def five_env_def five_db_def getMultiplierTiers_def Let_def emit_staking_def insert_row_def
        matchTierForLockPeriod_def by_lock_period_def DEFAULT_CONTRACT_MULTIPLIER_TIERS_def five_position_def)
qed

lemma five_system: "\<exists>db. staking_sys five_env db {} \<and> sk_positions db = [five_position None]"
proof -
  obtain db where s: "stakeKeys five_env ''flex=x, soon = 5'' 100 ''p'' ''w'' ''key'' ''7'' ''soon'' five_db = (Inr (five_position None), db)"
    "sk_positions db = [five_position None]" using five_staked by blast
  have "staking_sys five_env five_db {}" by (rule staking_sys.init) (simp_all add: five_db_def)
  then have "staking_sys five_env db {}" by (rule staking_sys.stake [OF _ _ s(1)]) (simp add: five_db_def)
  with s(2) show ?thesis by blast
qed

theorem tier_matches_lock_period_witness:
  "mt_lockPeriodSeconds (matchTierForLockPeriod 8000000 DEFAULT_CONTRACT_MULTIPLIER_TIERS) = 7776000"
proof -
  let ?t = "matchTierForLockPeriod 8000000 DEFAULT_CONTRACT_MULTIPLIER_TIERS"
  have "?t \<in> set DEFAULT_CONTRACT_MULTIPLIER_TIERS" "mt_lockPeriodSeconds ?t \<le> 8000000"
    "\<forall>t \<in> set DEFAULT_CONTRACT_MULTIPLIER_TIERS. mt_lockPeriodSeconds t \<le> 8000000 \<longrightarrow> mt_lockPeriodSeconds t \<le> mt_lockPeriodSeconds ?t"
    using tier_matches_lock_period [of DEFAULT_CONTRACT_MULTIPLIER_TIERS 8000000]
    by (simp_all add: DEFAULT_CONTRACT_MULTIPLIER_TIERS_def DAY_def)
  then show ?thesis by (auto simp: DEFAULT_CONTRACT_MULTIPLIER_TIERS_def DAY_def)
qed

theorem unstake_answers_witness:
  "\<exists>db db'. staking_sys five_env db {} \<and> unstakePosition five_env 5000 ''w'' ''p'' db = (Inl (LockPeriodNotExpired 5100), db) \<and>
    unstakePosition five_env 5100 ''w'' ''p'' db = (Inr ''7'', db') \<and>
    fst (unstakePosition five_env 5101 ''w'' ''p'' db') = Inl (PositionAlreadyUnstaked ''p'')"
proof -
  obtain db where sys: "staking_sys five_env db {}" and p: "sk_positions db = [five_position None]" using five_system by blast
  note a = unstake_answers [OF sys, of "five_position None"]
  have "unstakePosition five_env 5000 ''w'' ''p'' db = (Inl (LockPeriodNotExpired 5100), db)"
    using a [of 5000] by (simp add: p five_position_def)
  moreover obtain db' where "unstakePosition five_env 5100 ''w'' ''p'' db = (Inr ''7'', db')"
    "fst (unstakePosition five_env 5101 ''w'' ''p'' db') = Inl (PositionAlreadyUnstaked ''p'')"
    using a [of 5100 5101] by (auto simp: p five_position_def five_env_def)
  ultimately show ?thesis using sys by blast
qed


end
