(* ===== verification/Pricing.thy ===== *)
theory Pricing
  imports Js_Values
begin

text \<open>
  \<open>src/utils/pricing.utils.ts\<close>: the linear price curve that routes, limit checks and the vault use: cost of
  buying and payout of selling keys, with the protocol fee, and the unit prices. Amounts of stroops are
  \<open>BigInt\<close>s. Supplies, amounts and fees are numbers; below \<open>2^53\<close> their sums are exact. \<open>BigInt(n)\<close> throws for
  a number that is not an integer, and a fractional amount makes the loop run once more.
\<close>

datatype pricing_error = NegativeInput | ExceedsSupply | NotAnInteger

definition BASE_COST :: int where
  "BASE_COST = 10000000"

definition STEP :: int where
  "STEP = 1000000"

definition unit_base :: "int \<Rightarrow> int" where
  "unit_base supply = BASE_COST + supply * STEP"

text \<open>\<open>BigInt(n)\<close>.\<close>

definition big :: "rat \<Rightarrow> pricing_error + int" where
  "big q = (if is_integer_num (Fin q) then Inr \<lfloor>q\<rfloor> else Inl NotAnInteger)"

text \<open>The loops: \<open>k\<close> turns from index \<open>i\<close> on.\<close>

fun buy_loop :: "nat \<Rightarrow> rat \<Rightarrow> int \<Rightarrow> int \<Rightarrow> pricing_error + int" where
  "buy_loop 0 supply i acc = Inr acc"
| "buy_loop (Suc k) supply i acc =
    and_then (big (supply + of_int i)) (\<lambda>s. buy_loop k supply (i + 1) (acc + unit_base s))"

fun sell_loop :: "nat \<Rightarrow> rat \<Rightarrow> int \<Rightarrow> int \<Rightarrow> pricing_error + int" where
  "sell_loop 0 supply i acc = Inr acc"
| "sell_loop (Suc k) supply i acc =
    and_then (big (supply - 1 - of_int i)) (\<lambda>s. sell_loop k supply (i + 1) (acc + unit_base s))"

definition computeBuyCost :: "rat \<Rightarrow> rat \<Rightarrow> rat \<Rightarrow> pricing_error + int" where
  "computeBuyCost currentSupply amount feeBps =
    (if amount < 0 \<or> currentSupply < 0 then Inl NegativeInput
     else if amount = 0 then Inr 0
     else
       and_then (buy_loop (nat \<lceil>amount\<rceil>) currentSupply 0 0) (\<lambda>totalBaseCost.
       and_then (big feeBps) (\<lambda>bps.
         let totalCost = totalBaseCost + bigint_div (totalBaseCost * bps) 10000
         in Inr (if totalCost < 0 then 0 else totalCost))))"

definition computeSellPayout :: "rat \<Rightarrow> rat \<Rightarrow> rat \<Rightarrow> pricing_error + int" where
  "computeSellPayout currentSupply amount feeBps =
    (if amount < 0 \<or> currentSupply < 0 then Inl NegativeInput
     else if amount > currentSupply then Inl ExceedsSupply
     else if amount = 0 then Inr 0
     else
       and_then (sell_loop (nat \<lceil>amount\<rceil>) currentSupply 0 0) (\<lambda>grossPayout.
       and_then (big feeBps) (\<lambda>bps.
         let netPayout = grossPayout - bigint_div (grossPayout * bps) 10000
         in Inr (if netPayout < 0 then 0 else netPayout))))"

definition getBuyUnitPrice :: "rat \<Rightarrow> rat \<Rightarrow> pricing_error + int" where
  "getBuyUnitPrice currentSupply feeBps = computeBuyCost currentSupply 1 feeBps"

definition getSellUnitPrice :: "rat \<Rightarrow> rat \<Rightarrow> pricing_error + int" where
  "getSellUnitPrice currentSupply feeBps =
    (if currentSupply \<le> 0 then Inr 0 else computeSellPayout currentSupply 1 feeBps)"

section \<open>The loops as sums\<close>

text \<open>What the keys between two supplies cost before fees.\<close>

definition base_between :: "int \<Rightarrow> int \<Rightarrow> int" where
  "base_between s t = (\<Sum>k \<in> {s..<t}. unit_base k)"

lemma big_int [simp]: "big (of_int i) = Inr i"
  by (simp add: big_def)

lemma base_between_first: "s < t \<Longrightarrow> base_between s t = unit_base s + base_between (s + 1) t"
proof -
  assume "s < t"
  then have "{s..<t} = insert s {s + 1..<t}" by auto
  then show ?thesis by (simp add: base_between_def)
qed

lemma base_between_last: "s < t \<Longrightarrow> base_between s t = base_between s (t - 1) + unit_base (t - 1)"
proof -
  assume "s < t"
  then have "{s..<t} = insert (t - 1) {s..<t - 1}" by auto
  then show ?thesis by (simp add: base_between_def)
qed

lemma base_between_join: "s \<le> t \<Longrightarrow> t \<le> u \<Longrightarrow> base_between s u = base_between s t + base_between t u"
  unfolding base_between_def by (subst sum.union_disjoint [symmetric]) (auto intro: arg_cong2 [where f = sum] simp: ivl_disj_un)

lemma base_between_pos: "0 \<le> s \<Longrightarrow> s < t \<Longrightarrow> 0 < base_between s t"
  unfolding base_between_def by (rule sum_pos) (auto simp: unit_base_def BASE_COST_def STEP_def)

lemma buy_loop_sum: "buy_loop k (of_int s) i acc = Inr (acc + base_between (s + i) (s + i + int k))"
proof (induction k arbitrary: i acc)
  case 0
  then show ?case by (simp add: base_between_def)
next
  case (Suc k)
  have b: "big (of_int s + of_int i) = Inr (s + i)" using big_int [of "s + i"] by simp
  have "base_between (s + i) (s + i + int (Suc k)) = unit_base (s + i) + base_between (s + (i + 1)) (s + (i + 1) + int k)"
    using base_between_first [of "s + i" "s + i + int (Suc k)"] by (simp add: algebra_simps)
  then show ?case by (simp add: b Suc.IH)
qed

lemma sell_loop_sum: "sell_loop k (of_int s) i acc = Inr (acc + base_between (s - i - int k) (s - i))"
proof (induction k arbitrary: i acc)
  case 0
  then show ?case by (simp add: base_between_def)
next
  case (Suc k)
  have b: "big (of_int s - 1 - of_int i) = Inr (s - 1 - i)" using big_int [of "s - 1 - i"] by simp
  have "base_between (s - i - int (Suc k)) (s - i) = base_between (s - (i + 1) - int k) (s - (i + 1)) + unit_base (s - 1 - i)"
    using base_between_last [of "s - i - int (Suc k)" "s - i"] by (simp add: algebra_simps)
  then show ?case by (simp add: b Suc.IH)
qed

definition curve_fee :: "int \<Rightarrow> int \<Rightarrow> int" where
  "curve_fee base bps = base * bps div 10000"

lemma curve_fee_nonneg: "0 \<le> base \<Longrightarrow> 0 \<le> bps \<Longrightarrow> 0 \<le> curve_fee base bps"
  unfolding curve_fee_def by (intro pos_imp_zdiv_nonneg_iff [THEN iffD2] mult_nonneg_nonneg) auto

lemma buy_cost_closed:
  assumes "0 \<le> s" "0 < n" "0 \<le> bps"
  shows "computeBuyCost (of_int s) (of_int n) (of_int bps) =
    Inr (base_between s (s + n) + curve_fee (base_between s (s + n)) bps)"
proof -
  have g: "0 < base_between s (s + n)" using assms by (intro base_between_pos) auto
  then have "0 \<le> curve_fee (base_between s (s + n)) bps" using assms by (intro curve_fee_nonneg) auto
  then show ?thesis
    using assms g by (simp add: computeBuyCost_def buy_loop_sum bigint_div_nonneg curve_fee_def Let_def)
qed

lemma sell_payout_closed:
  assumes "0 < n" "n \<le> s" "0 \<le> bps"
  shows "computeSellPayout (of_int s) (of_int n) (of_int bps) =
    Inr (max 0 (base_between (s - n) s - curve_fee (base_between (s - n) s) bps))"
proof -
  have g: "0 < base_between (s - n) s" using assms by (intro base_between_pos) auto
  then show ?thesis
    using assms by (simp add: computeSellPayout_def sell_loop_sum bigint_div_nonneg curve_fee_def Let_def max_def)
qed

lemma double_base_between: "s \<le> t \<Longrightarrow> 2 * base_between s t = (t - s) * (2 * BASE_COST + (s + t - 1) * STEP)"
proof (induction "nat (t - s)" arbitrary: t)
  case 0
  then show ?case by (simp add: base_between_def)
next
  case (Suc k)
  then have "2 * base_between s (t - 1) = (t - 1 - s) * (2 * BASE_COST + (s + (t - 1) - 1) * STEP)" by (intro Suc.hyps(1)) auto
  moreover have "s < t" using Suc.hyps(2) by linarith
  ultimately show ?case using base_between_last [of s t] by (simp add: unit_base_def algebra_simps)
qed

text \<open>C35: The cost of buying \<open>n\<close> keys at supply \<open>s\<close> is the exact area under the linear curve plus the fee rounded
  down; selling the same keys back pays the same base minus the same fee, so a round trip costs exactly the two
  fees (all of it, when the fee is above the price) and never earns anything.\<close>

theorem round_trip_costs_both_fees:
  assumes "0 \<le> s" "0 < n" "0 \<le> bps"
  shows "\<exists>base cost payout.
    2 * base = n * (2 * BASE_COST + (2 * s + n - 1) * STEP) \<and>
    computeBuyCost (of_int s) (of_int n) (of_int bps) = Inr cost \<and> cost = base + base * bps div 10000 \<and>
    computeSellPayout (of_int (s + n)) (of_int n) (of_int bps) = Inr payout \<and>
    (if bps \<le> 10000 then cost - payout = 2 * (base * bps div 10000) else payout \<le> base) \<and> payout \<le> cost"
proof -
  let ?base = "base_between s (s + n)" and ?fee = "curve_fee (base_between s (s + n)) bps"
  have g: "0 < ?base" using assms by (intro base_between_pos) auto
  have fee: "0 \<le> ?fee" "bps \<le> 10000 \<longrightarrow> ?fee \<le> ?base"
  proof -
    show "0 \<le> ?fee" using g assms by (intro curve_fee_nonneg) auto
    have "?base * bps div 10000 \<le> ?base * 10000 div 10000" if "bps \<le> 10000"
      using that g by (intro zdiv_mono1) auto
    then show "bps \<le> 10000 \<longrightarrow> ?fee \<le> ?base" by (simp add: curve_fee_def)
  qed
  have "2 * ?base = n * (2 * BASE_COST + (2 * s + n - 1) * STEP)"
    using double_base_between [of s "s + n"] assms by (simp add: algebra_simps)
  moreover have "computeSellPayout (of_int (s + n)) (of_int n) (of_int bps) = Inr (max 0 (?base - ?fee))"
    using sell_payout_closed [of n "s + n" bps] assms by simp
  ultimately show ?thesis
    using buy_cost_closed [OF assms] fee g
    by (intro exI [of _ ?base] exI [of _ "?base + ?fee"] exI [of _ "max 0 (?base - ?fee)"]) (auto simp: curve_fee_def)
qed

theorem round_trip_costs_both_fees_witness:
  "\<exists>cost payout. computeBuyCost 10 5 500 = Inr cost \<and> computeSellPayout 15 5 500 = Inr payout \<and> cost - payout = 11000000"
proof -
  obtain base cost payout where b: "2 * base = 5 * (2 * BASE_COST + (2 * 10 + 5 - 1) * STEP)"
    "computeBuyCost 10 5 500 = Inr cost" "computeSellPayout 15 5 500 = Inr payout" "cost - payout = 2 * (base * 500 div 10000)"
    using round_trip_costs_both_fees [of 10 5 500] by auto
  from b(1) have "base = 110000000" by (simp add: BASE_COST_def STEP_def)
  with b show ?thesis by auto
qed

text \<open>Buying in two steps costs the same as buying at once, up to one stroop: the fee of each step is rounded down.\<close>

theorem buying_in_steps:
  assumes "0 \<le> s" "0 < m" "0 < n" "0 \<le> bps"
  shows "\<exists>one first second. computeBuyCost (of_int s) (of_int (m + n)) (of_int bps) = Inr one \<and>
    computeBuyCost (of_int s) (of_int m) (of_int bps) = Inr first \<and>
    computeBuyCost (of_int (s + m)) (of_int n) (of_int bps) = Inr second \<and>
    first + second \<le> one \<and> one \<le> first + second + 1"
proof -
  have join: "base_between s (s + (m + n)) = base_between s (s + m) + base_between (s + m) (s + m + n)"
    using base_between_join [of s "s + m" "s + m + n"] assms by (simp add: add.assoc)
  let ?a = "base_between s (s + m) * bps" and ?b = "base_between (s + m) (s + m + n) * bps"
  have "?a div 10000 + ?b div 10000 \<le> (?a + ?b) div 10000" "(?a + ?b) div 10000 \<le> ?a div 10000 + ?b div 10000 + 1"
    by linarith+
  then show ?thesis
    using buy_cost_closed [of s "m + n" bps] buy_cost_closed [of s m bps] buy_cost_closed [of "s + m" n bps] assms
    by (auto simp: join curve_fee_def distrib_right)
qed

theorem buying_in_steps_witness:
  "\<exists>one first second. computeBuyCost 0 3 333 = Inr one \<and> computeBuyCost 0 1 333 = Inr first \<and>
    computeBuyCost 1 2 333 = Inr second \<and> first + second \<le> one \<and> one \<le> first + second + 1"
  using buying_in_steps [of 0 1 2 333] by simp

end
