(* ===== verification/Revenue.thy ===== *)
theory Revenue
  imports Js_Double Audit_Log "HOL-Library.Multiset"
begin

text \<open>
  \<open>src/modules/revenue/revenue.service.ts\<close>: trading fees are pooled per cycle of a fixed number of days; once
  a cycle has ended its pool is stored, and every wallet can claim the share of the keys it holds.

  Finalising and claiming read before they write, so each is a computation and a commit, and the step relation
  runs them interleaved. \<open>re_store a x\<close> is what a \<open>Decimal(20, 7)\<close> column holds after the number \<open>x\<close> is added to
  the stored \<open>a\<close> (\<open>None\<close> when it is rejected), \<open>re_groups\<close> the order in which the database returns grouped wallets.
  Numbers printed with \<open>toFixed(7)\<close> are kept as the number they print. Row ids are arguments.
\<close>

section \<open>Tables\<close>

record cycle_row =
  rc_id :: string
  rc_index :: int
  rc_startsAt :: instant
  rc_endsAt :: instant
  rc_fees :: rat
  rc_distributed :: rat

record revenue_claim =
  rv_id :: string
  rv_cycleId :: string
  rv_wallet :: string
  rv_amount :: rat
  rv_claimedAt :: instant

record fee_trade =
  ft_price :: rat
  ft_quantity :: rat
  ft_at :: instant

record held_keys =
  rh_owner :: string
  rh_balance :: rat

record revenue_db =
  re_cycles :: "cycle_row list"
  re_claims :: "revenue_claim list"
  re_feeBps :: "int option"
  re_trades :: "fee_trade list"
  re_held :: "held_keys list"
  re_audit :: audit

datatype revenue_error =
    NothingToClaim
  | AlreadyClaimed int string
  | RevenueValueRejected
  | CycleGone

record revenue_env =
  re_days :: int
  re_store :: "rat \<Rightarrow> rat \<Rightarrow> rat option"
  re_groups :: "string list \<Rightarrow> string list"

definition cycle_claim_key :: "revenue_claim \<Rightarrow> string \<times> string" where
  "cycle_claim_key r = (rv_cycleId r, rv_wallet r)"

section \<open>Cycles\<close>

record cycle_window =
  cw_index :: int
  cw_startsAt :: instant
  cw_endsAt :: instant

text \<open>\<open>Date.UTC(2026, 0, 1)\<close>.\<close>

definition REVENUE_CYCLE_EPOCH_MS :: int where
  "REVENUE_CYCLE_EPOCH_MS = 1767225600000"

definition getCycleDurationMs :: "int \<Rightarrow> int" where
  "getCycleDurationMs days = days * 24 * 60 * 60 * 1000"

definition getCycleWindow :: "int \<Rightarrow> int \<Rightarrow> cycle_window" where
  "getCycleWindow days cycleIndex =
    (let duration = getCycleDurationMs days
     in \<lparr>cw_index = cycleIndex, cw_startsAt = REVENUE_CYCLE_EPOCH_MS + cycleIndex * duration,
         cw_endsAt = REVENUE_CYCLE_EPOCH_MS + (cycleIndex + 1) * duration\<rparr>)"

definition getCurrentCycleIndex :: "int \<Rightarrow> instant \<Rightarrow> int" where
  "getCurrentCycleIndex days now = \<lfloor>fl (of_int (now - REVENUE_CYCLE_EPOCH_MS) / of_int (getCycleDurationMs days))\<rfloor>"

definition getLatestEndedCycle :: "int \<Rightarrow> instant \<Rightarrow> cycle_window option" where
  "getLatestEndedCycle days now =
    (let current = getCurrentCycleIndex days now
     in if current < 1 then None else Some (getCycleWindow days (current - 1)))"

section \<open>The pool of a cycle\<close>

text \<open>A cycle as the functions below pass it on, its decimals converted to numbers.\<close>

record cycle_info =
  ci_id :: string
  ci_index :: int
  ci_startsAt :: instant
  ci_endsAt :: instant
  ci_fees :: rat
  ci_distributed :: rat

definition cycle_info_of :: "cycle_row \<Rightarrow> cycle_info" where
  "cycle_info_of c = \<lparr>ci_id = rc_id c, ci_index = rc_index c, ci_startsAt = rc_startsAt c, ci_endsAt = rc_endsAt c,
    ci_fees = fl (rc_fees c), ci_distributed = fl (rc_distributed c)\<rparr>"

text \<open>One turn of the loop over the trades.\<close>

definition add_fee :: "int \<Rightarrow> fee_trade \<Rightarrow> rat \<Rightarrow> rat" where
  "add_fee protocolFeeBps trade acc =
    (let v = fl (fl (ft_price trade) * fl (ft_quantity trade))
     in fl (acc + fl (fl (v * of_int protocolFeeBps) / 10000)))"

definition in_window :: "cycle_window \<Rightarrow> fee_trade \<Rightarrow> bool" where
  "in_window w t \<longleftrightarrow> cw_startsAt w \<le> ft_at t \<and> ft_at t < cw_endsAt w"

text \<open>The configuration row is created with the default fee when it is missing.\<close>

definition computeCycleFeesXlm :: "cycle_window \<Rightarrow> revenue_db \<Rightarrow> rat \<times> revenue_db" where
  "computeCycleFeesXlm w db =
    (let bps = (case re_feeBps db of Some b \<Rightarrow> b | None \<Rightarrow> 500)
     in (fold (add_fee bps) (filter (in_window w) (re_trades db)) 0, db\<lparr>re_feeBps := Some bps\<rparr>))"

text \<open>
  Storing the pool; when another request has stored the cycle in the meantime its row is read.
\<close>

definition finalize_commit ::
  "revenue_env \<Rightarrow> string \<Rightarrow> cycle_window \<Rightarrow> rat \<Rightarrow> revenue_db \<Rightarrow> (revenue_error + cycle_info) \<times> revenue_db" where
  "finalize_commit env rowId w fees db =
    (case find_by rc_index (cw_index w) (re_cycles db) of
      Some c \<Rightarrow> (Inr (cycle_info_of c), db)
    | None \<Rightarrow> (case re_store env 0 fees of
        None \<Rightarrow> (Inl RevenueValueRejected, db)
      | Some stored \<Rightarrow>
          let c = \<lparr>rc_id = rowId, rc_index = cw_index w, rc_startsAt = cw_startsAt w, rc_endsAt = cw_endsAt w,
                rc_fees = stored, rc_distributed = 0\<rparr>
          in (Inr (cycle_info_of c), db\<lparr>re_cycles := insert_row c (re_cycles db)\<rparr>)))"

definition finalizeCycle ::
  "revenue_env \<Rightarrow> string \<Rightarrow> cycle_window \<Rightarrow> revenue_db \<Rightarrow> (revenue_error + cycle_info) \<times> revenue_db" where
  "finalizeCycle env rowId w db =
    (case find_by rc_index (cw_index w) (re_cycles db) of
      Some c \<Rightarrow> (Inr (cycle_info_of c), db)
    | None \<Rightarrow> let (fees, db1) = computeCycleFeesXlm w db in finalize_commit env rowId w fees db1)"

section \<open>Shares\<close>

text \<open>The keys of a wallet over all its positions, summed by the database.\<close>

definition wallet_keys :: "held_keys list \<Rightarrow> string \<Rightarrow> rat" where
  "wallet_keys rows owner = sum_list (map rh_balance (filter (\<lambda>r. 0 < rh_balance r \<and> rh_owner r = owner) rows))"

definition add_weight :: "held_keys list \<Rightarrow> string \<Rightarrow> rat \<times> (string \<times> rat) list \<Rightarrow> rat \<times> (string \<times> rat) list" where
  "add_weight rows owner acc =
    (let weight = fl (wallet_keys rows owner)
     in if weight \<le> 0 then acc else (fl (fst acc + weight), snd acc @ [(owner, weight)]))"

definition getStakeWeights :: "revenue_env \<Rightarrow> held_keys list \<Rightarrow> rat \<times> (string \<times> rat) list" where
  "getStakeWeights env rows =
    fold (add_weight rows) (re_groups env (remdups (map rh_owner (filter (\<lambda>r. 0 < rh_balance r) rows)))) (0, [])"

definition computeEntitledAmountXlm :: "revenue_env \<Rightarrow> rat \<Rightarrow> string \<Rightarrow> held_keys list \<Rightarrow> rat" where
  "computeEntitledAmountXlm env fees wallet rows =
    (if fees \<le> 0 then 0
     else let (totalStake, byWallet) = getStakeWeights env rows
          in if totalStake \<le> 0 then 0
             else case map_of byWallet wallet of
               None \<Rightarrow> 0
             | Some walletStake \<Rightarrow> if walletStake \<le> 0 then 0 else fl (fl (fees * walletStake) / totalStake))"

section \<open>Reading and claiming\<close>

record claimable =
  cl_wallet :: string
  cl_claimable :: rat
  cl_claimed :: bool
  cl_cycle :: "cycle_info option"

definition getClaimableRevenue ::
  "revenue_env \<Rightarrow> instant \<Rightarrow> string \<Rightarrow> string \<Rightarrow> revenue_db \<Rightarrow> (revenue_error + claimable) \<times> revenue_db" where
  "getClaimableRevenue env now rowId wallet db =
    (case getLatestEndedCycle (re_days env) now of
      None \<Rightarrow> (Inr \<lparr>cl_wallet = wallet, cl_claimable = 0, cl_claimed = False, cl_cycle = None\<rparr>, db)
    | Some w \<Rightarrow> (case finalizeCycle env rowId w db of
        (Inl err, db1) \<Rightarrow> (Inl err, db1)
      | (Inr cycle, db1) \<Rightarrow>
          if find_by cycle_claim_key (ci_id cycle, wallet) (re_claims db1) \<noteq> None
          then (Inr \<lparr>cl_wallet = wallet, cl_claimable = 0, cl_claimed = True, cl_cycle = Some cycle\<rparr>, db1)
          else (Inr \<lparr>cl_wallet = wallet,
                 cl_claimable = to_fixed7 (computeEntitledAmountXlm env (ci_fees cycle) wallet (re_held db1)),
                 cl_claimed = False, cl_cycle = Some cycle\<rparr>, db1)))"

record claim_result =
  cr_claimId :: string
  cr_wallet :: string
  cr_cycleIndex :: int
  cr_amount :: rat
  cr_claimedAt :: instant

text \<open>The amount, from the pool and the keys held now.\<close>

definition claim_check :: "revenue_env \<Rightarrow> cycle_info \<Rightarrow> string \<Rightarrow> revenue_db \<Rightarrow> revenue_error + rat" where
  "claim_check env cycle wallet db =
    (let entitled = computeEntitledAmountXlm env (ci_fees cycle) wallet (re_held db)
     in if entitled \<le> 0 then Inl NothingToClaim else Inr entitled)"

definition claim_metadata :: "string \<Rightarrow> cycle_info \<Rightarrow> string \<Rightarrow> rat \<Rightarrow> js_value" where
  "claim_metadata rowId cycle wallet entitled =
    Jobj [(''claimId'', Jstr rowId), (''cycleIndex'', Jnum (Fin (of_int (ci_index cycle)))), (''wallet'', Jstr wallet),
      (''amountXlm'', Jnum (Fin entitled))]"

text \<open>The transaction, and the two audit rows.\<close>

definition claim_commit ::
  "revenue_env \<Rightarrow> instant \<Rightarrow> string \<Rightarrow> cycle_info \<Rightarrow> string \<Rightarrow> rat \<Rightarrow> revenue_db \<Rightarrow>
    (revenue_error + claim_result) \<times> revenue_db" where
  "claim_commit env claimedAt rowId cycle wallet entitled db =
    (if find_by cycle_claim_key (ci_id cycle, wallet) (re_claims db) \<noteq> None
     then (Inl (AlreadyClaimed (ci_index cycle) wallet), db)
     else case find_by rc_id (ci_id cycle) (re_cycles db) of
       None \<Rightarrow> (Inl CycleGone, db)
     | Some c \<Rightarrow> (case (re_store env 0 entitled, re_store env (rc_distributed c) entitled) of
         (Some amount, Some distributed) \<Rightarrow>
           (Inr \<lparr>cr_claimId = rowId, cr_wallet = wallet, cr_cycleIndex = ci_index cycle, cr_amount = to_fixed7 entitled,
              cr_claimedAt = claimedAt\<rparr>,
            db\<lparr>re_claims := insert_row \<lparr>rv_id = rowId, rv_cycleId = ci_id cycle, rv_wallet = wallet, rv_amount = amount,
                 rv_claimedAt = claimedAt\<rparr> (re_claims db),
               re_cycles := modify_by rc_id (ci_id cycle) (\<lambda>r. r\<lparr>rc_distributed := distributed\<rparr>) (re_cycles db),
               re_audit := audit_both wallet ''revenue_claimed'' ''RevenueCycle'' (ci_id cycle)
                 (claim_metadata rowId cycle wallet entitled) (claim_metadata rowId cycle wallet entitled) (re_audit db)\<rparr>)
       | _ \<Rightarrow> (Inl RevenueValueRejected, db)))"

definition claimRevenue ::
  "revenue_env \<Rightarrow> instant \<Rightarrow> instant \<Rightarrow> string \<Rightarrow> string \<Rightarrow> string \<Rightarrow> revenue_db \<Rightarrow>
    (revenue_error + claim_result) \<times> revenue_db" where
  "claimRevenue env now claimedAt cycleRowId claimRowId wallet db =
    (case getLatestEndedCycle (re_days env) now of
      None \<Rightarrow> (Inl NothingToClaim, db)
    | Some w \<Rightarrow> (case finalizeCycle env cycleRowId w db of
        (Inl err, db1) \<Rightarrow> (Inl err, db1)
      | (Inr cycle, db1) \<Rightarrow> (case claim_check env cycle wallet db1 of
          Inl err \<Rightarrow> (Inl err, db1)
        | Inr entitled \<Rightarrow> claim_commit env claimedAt claimRowId cycle wallet entitled db1)))"

section \<open>Claims under overlapping requests\<close>

definition seven_decimals :: "rat \<Rightarrow> bool" where
  "seven_decimals x \<longleftrightarrow> is_integer_num (Fin (x * 10 ^ 7))"

text \<open>
  What a \<open>Decimal(20, 7)\<close> column does: a stored number has seven places, adding to one adds what would be
  stored alone, and below \<open>2 * 10^8\<close> the stored number is within \<open>10^-7\<close>.
\<close>

definition fee_column :: "(rat \<Rightarrow> rat \<Rightarrow> rat option) \<Rightarrow> bool" where
  "fee_column store \<longleftrightarrow>
    (\<forall>x r. 0 \<le> x \<and> store 0 x = Some r \<longrightarrow> 0 \<le> r \<and> seven_decimals r) \<and>
    (\<forall>a x r s. 0 \<le> a \<and> seven_decimals a \<and> 0 \<le> x \<and> store 0 x = Some r \<and> store a x = Some s \<longrightarrow> s = a + r) \<and>
    (\<forall>x r. 0 \<le> x \<and> x \<le> 2 * 10 ^ 8 \<and> store 0 x = Some r \<longrightarrow> \<bar>r - x\<bar> \<le> 1 / 10 ^ 7)"

text \<open>
  The reachable states. \<open>pending\<close> are the claims that have been computed, each with the cycle, the wallet, the
  amount and the time of the request. Pools and amounts come from whatever trades and keys some earlier state
  had (\<open>earlier\<close>); fees, trades and positions change at any moment.
\<close>

inductive revenue_sys :: "revenue_env \<Rightarrow> revenue_db \<Rightarrow> (cycle_info \<times> string \<times> rat \<times> instant) set \<Rightarrow> bool" for env where
  init: "re_cycles db = [] \<Longrightarrow> re_claims db = [] \<Longrightarrow> revenue_sys env db {}"
| world: "revenue_sys env db pending \<Longrightarrow>
    revenue_sys env (db\<lparr>re_feeBps := b, re_trades := ts, re_held := hs\<rparr>) pending"
| finalize: "revenue_sys env db pending \<Longrightarrow> now < 2 ^ 53 \<Longrightarrow> getLatestEndedCycle (re_days env) now = Some w \<Longrightarrow>
    rowId \<notin> rc_id ` set (re_cycles db) \<Longrightarrow>
    finalize_commit env rowId w (fst (computeCycleFeesXlm w earlier)) db = (q, db') \<Longrightarrow> revenue_sys env db' pending"
| check: "revenue_sys env db pending \<Longrightarrow> now < 2 ^ 53 \<Longrightarrow> getLatestEndedCycle (re_days env) now = Some w \<Longrightarrow>
    find_by rc_index (cw_index w) (re_cycles db) = Some c \<Longrightarrow>
    claim_check env (cycle_info_of c) wallet earlier = Inr entitled \<Longrightarrow>
    revenue_sys env db (insert (cycle_info_of c, wallet, entitled, now) pending)"
| claim: "revenue_sys env db pending \<Longrightarrow> (cycle, wallet, entitled, now) \<in> pending \<Longrightarrow> now \<le> claimedAt \<Longrightarrow>
    claim_commit env claimedAt rowId cycle wallet entitled db = (q', db') \<Longrightarrow> revenue_sys env db' pending"

text \<open>A cycle is only used after its end.\<close>

lemma current_cycle_started:
  assumes d: "0 < days" and t: "now < 2 ^ 53" and i: "1 \<le> getCurrentCycleIndex days now"
  shows "REVENUE_CYCLE_EPOCH_MS + getCurrentCycleIndex days now * getCycleDurationMs days \<le> now"
proof (rule ccontr)
  define m where "m = now - REVENUE_CYCLE_EPOCH_MS"
  define i where "i = getCurrentCycleIndex days now"
  let ?d = "getCycleDurationMs days" and ?x = "of_int m / of_int (getCycleDurationMs days) :: rat"
  assume "\<not> ?thesis"
  then have less: "m + 1 \<le> i * ?d" by (simp add: m_def i_def)
  have d0: "0 < ?d" using d by (simp add: getCycleDurationMs_def)
  have fx: "of_int i \<le> fl ?x" by (simp add: i_def getCurrentCycleIndex_def m_def)
  have pos: "0 \<le> ?x"
  proof (rule ccontr)
    assume "\<not> 0 \<le> ?x"
    then have "fl ?x \<le> 0" using fl_nonneg [of "- ?x"] fl_minus [of ?x] by linarith
    moreover have "(1::rat) \<le> of_int i" using assms(3) by (simp add: i_def)
    ultimately show False using fx by linarith
  qed
  then have m0: "0 \<le> m" using d0 by (simp add: zero_le_divide_iff)
  have "m < 2 ^ 53" using t by (simp add: m_def REVENUE_CYCLE_EPOCH_MS_def)
  then have small: "of_int m / 2 ^ 53 < (1 :: rat)" by simp
  have "fl ?x \<le> ?x + ?x / 2 ^ 53" using fl_near [OF pos] by linarith
  then have "fl ?x * of_int ?d \<le> (?x + ?x / 2 ^ 53) * of_int ?d" using d0 by (intro mult_right_mono) auto
  also have "\<dots> = of_int m + of_int m / 2 ^ 53" using d0 by (simp add: distrib_right)
  also have "\<dots> < of_int (m + 1)" using small by simp
  also have "\<dots> \<le> of_int (i * ?d)" using less by (simp only: of_int_le_iff)
  finally have "fl ?x < of_int i" using d0 by simp
  then show False using fx by simp
qed

lemma latest_cycle_ended:
  "0 < days \<Longrightarrow> now < 2 ^ 53 \<Longrightarrow> getLatestEndedCycle days now = Some w \<Longrightarrow>
    w = getCycleWindow days (cw_index w) \<and> cw_endsAt w \<le> now"
  using current_cycle_started [of days now]
  by (auto simp: getLatestEndedCycle_def getCycleWindow_def Let_def split: if_splits)

definition claims_on :: "string \<Rightarrow> revenue_db \<Rightarrow> revenue_claim list" where
  "claims_on cid db = filter (\<lambda>r. rv_cycleId r = cid) (re_claims db)"

definition cycle_ok :: "revenue_env \<Rightarrow> revenue_db \<Rightarrow> cycle_row \<Rightarrow> bool" where
  "cycle_ok env db c \<longleftrightarrow>
    rc_startsAt c = cw_startsAt (getCycleWindow (re_days env) (rc_index c)) \<and>
    rc_endsAt c = cw_endsAt (getCycleWindow (re_days env) (rc_index c)) \<and>
    rc_distributed c = sum_list (map rv_amount (claims_on (rc_id c) db)) \<and> seven_decimals (rc_distributed c) \<and> 0 \<le> rc_distributed c"

definition ended_cycle :: "revenue_db \<Rightarrow> string \<Rightarrow> instant \<Rightarrow> bool" where
  "ended_cycle db cid t \<longleftrightarrow> (\<exists>c \<in> set (re_cycles db). rc_id c = cid \<and> rc_endsAt c \<le> t)"

definition revenue_inv :: "revenue_env \<Rightarrow> revenue_db \<Rightarrow> (cycle_info \<times> string \<times> rat \<times> instant) set \<Rightarrow> bool" where
  "revenue_inv env db pending \<longleftrightarrow>
    distinct (map rc_index (re_cycles db)) \<and> distinct (map rc_id (re_cycles db)) \<and>
    distinct (map cycle_claim_key (re_claims db)) \<and> (\<forall>c \<in> set (re_cycles db). cycle_ok env db c) \<and>
    (\<forall>r \<in> set (re_claims db). ended_cycle db (rv_cycleId r) (rv_claimedAt r)) \<and>
    (\<forall>cycle wallet entitled now. (cycle, wallet, entitled, now) \<in> pending \<longrightarrow> ended_cycle db (ci_id cycle) now \<and> 0 < entitled)"

lemma seven_decimals_add: "seven_decimals a \<Longrightarrow> seven_decimals b \<Longrightarrow> seven_decimals (a + b)"
proof -
  assume "seven_decimals a" "seven_decimals b"
  then have a: "of_int \<lfloor>a * 10 ^ 7\<rfloor> = a * 10 ^ 7" and b: "of_int \<lfloor>b * 10 ^ 7\<rfloor> = b * 10 ^ 7" by (simp_all add: seven_decimals_def)
  have s: "(a + b) * 10 ^ 7 = of_int (\<lfloor>a * 10 ^ 7\<rfloor> + \<lfloor>b * 10 ^ 7\<rfloor>)" by (simp only: of_int_add a b distrib_right)
  show ?thesis unfolding seven_decimals_def is_integer_num.simps s by (simp only: floor_of_int)
qed

lemma ended_cycle_mono: "ended_cycle db cid t \<Longrightarrow> t \<le> u \<Longrightarrow> ended_cycle db cid u"
  by (auto simp: ended_cycle_def)

lemma cycle_ok_cong: "claims_on (rc_id c) db' = claims_on (rc_id c) db \<Longrightarrow> cycle_ok env db' c = cycle_ok env db c"
  by (simp only: cycle_ok_def)

lemma world_inv:
  assumes "revenue_inv env db pending"
  shows "revenue_inv env (db\<lparr>re_feeBps := b, re_trades := ts, re_held := hs\<rparr>) pending"
proof -
  let ?db = "db\<lparr>re_feeBps := b, re_trades := ts, re_held := hs\<rparr>"
  have "cycle_ok env ?db c = cycle_ok env db c" for c by (simp add: cycle_ok_def claims_on_def)
  moreover have "ended_cycle ?db cid t = ended_cycle db cid t" for cid t by (simp add: ended_cycle_def)
  ultimately show ?thesis using assms by (simp add: revenue_inv_def)
qed

lemma finalize_inv:
  assumes inv: "revenue_inv env db pending" and days: "0 < re_days env" and now: "now < 2 ^ 53"
    and w: "getLatestEndedCycle (re_days env) now = Some w" and new: "rowId \<notin> rc_id ` set (re_cycles db)"
    and c: "finalize_commit env rowId w fees db = (q, db')"
  shows "revenue_inv env db' pending"
proof (cases "db' = db")
  case False
  then obtain stored where none: "find_by rc_index (cw_index w) (re_cycles db) = None"
    and db': "db' = db\<lparr>re_cycles := re_cycles db @ [\<lparr>rc_id = rowId, rc_index = cw_index w, rc_startsAt = cw_startsAt w,
      rc_endsAt = cw_endsAt w, rc_fees = stored, rc_distributed = 0\<rparr>]\<rparr>"
    using c by (auto simp: finalize_commit_def insert_row_def Let_def split: option.splits)
  have win: "w = getCycleWindow (re_days env) (cw_index w)" using latest_cycle_ended [OF days now w] by simp
  have "rv_cycleId r \<in> rc_id ` set (re_cycles db)" if "r \<in> set (re_claims db)" for r
    using inv that unfolding revenue_inv_def ended_cycle_def by (metis image_eqI)
  then have unclaimed: "claims_on rowId db = []" using new by (auto simp: claims_on_def filter_empty_conv)
  have cl: "claims_on cid db' = claims_on cid db" for cid by (simp add: claims_on_def db')
  have "ended_cycle db cid t \<Longrightarrow> ended_cycle db' cid t" for cid t by (auto simp: ended_cycle_def db')
  moreover have "cycle_ok env db c \<Longrightarrow> cycle_ok env db' c" for c using cycle_ok_cong [OF cl] by blast
  moreover have "cycle_ok env db' \<lparr>rc_id = rowId, rc_index = cw_index w, rc_startsAt = cw_startsAt w,
      rc_endsAt = cw_endsAt w, rc_fees = stored, rc_distributed = 0\<rparr>"
    using win unclaimed by (simp add: cycle_ok_def cl seven_decimals_def)
  moreover have "cw_index w \<notin> rc_index ` set (re_cycles db)" using none by (simp add: find_by_None_iff)
  ultimately show ?thesis using inv new unfolding revenue_inv_def by (auto simp: db')
qed (simp add: inv)

lemma claim_commit_cases:
  assumes c: "claim_commit env claimedAt rowId cycle wallet entitled db = (q, db')" and new: "db' \<noteq> db"
  obtains c amount dist where "(ci_id cycle, wallet) \<notin> cycle_claim_key ` set (re_claims db)" "c \<in> set (re_cycles db)"
    "rc_id c = ci_id cycle" "re_store env 0 entitled = Some amount" "re_store env (rc_distributed c) entitled = Some dist"
    "re_claims db' = re_claims db @ [\<lparr>rv_id = rowId, rv_cycleId = ci_id cycle, rv_wallet = wallet, rv_amount = amount, rv_claimedAt = claimedAt\<rparr>]"
    "re_cycles db' = map (\<lambda>r. if rc_id r = ci_id cycle then r\<lparr>rc_distributed := dist\<rparr> else r) (re_cycles db)"
    "re_held db' = re_held db"
proof -
  have fresh: "find_by cycle_claim_key (ci_id cycle, wallet) (re_claims db) = None"
    using c new by (auto simp: claim_commit_def split: if_splits)
  moreover from c new fresh obtain x where x: "find_by rc_id (ci_id cycle) (re_cycles db) = Some x"
    by (cases "find_by rc_id (ci_id cycle) (re_cycles db)") (auto simp: claim_commit_def)
  moreover from c new fresh x obtain amount dist where st: "re_store env 0 entitled = Some amount"
    "re_store env (rc_distributed x) entitled = Some dist"
    by (cases "re_store env 0 entitled"; cases "re_store env (rc_distributed x) entitled") (auto simp: claim_commit_def)
  ultimately show thesis
    using c find_by_SomeD [OF x] by (intro that [of x amount dist]) (auto simp: claim_commit_def insert_row_def modify_by_def find_by_None_iff)
qed

lemma claim_inv:
  assumes law: "fee_column (re_store env)" and inv: "revenue_inv env db pending"
    and p: "(cycle, wallet, entitled, now) \<in> pending" and t: "now \<le> claimedAt"
    and c: "claim_commit env claimedAt rowId cycle wallet entitled db = (q, db')"
  shows "revenue_inv env db' pending"
proof (cases "db' = db")
  case False
  obtain c amount dist where fresh: "(ci_id cycle, wallet) \<notin> cycle_claim_key ` set (re_claims db)"
    and c: "c \<in> set (re_cycles db)" "rc_id c = ci_id cycle" and st: "re_store env 0 entitled = Some amount"
      "re_store env (rc_distributed c) entitled = Some dist"
    and claims: "re_claims db' = re_claims db @ [\<lparr>rv_id = rowId, rv_cycleId = ci_id cycle, rv_wallet = wallet, rv_amount = amount,
      rv_claimedAt = claimedAt\<rparr>]"
    and cycles: "re_cycles db' = map (\<lambda>r. if rc_id r = ci_id cycle then r\<lparr>rc_distributed := dist\<rparr> else r) (re_cycles db)"
    by (rule claim_commit_cases [OF c False])
  have ids: "distinct (map rc_id (re_cycles db))" using inv by (simp add: revenue_inv_def)
  have pos: "ended_cycle db (ci_id cycle) now" "0 < entitled" using inv p unfolding revenue_inv_def by blast+
  have ok: "cycle_ok env db c" using inv c by (simp add: revenue_inv_def)
  have amount: "0 \<le> amount" "seven_decimals amount" using law st(1) pos(2) unfolding fee_column_def by (meson less_imp_le)+
  have dist: "dist = rc_distributed c + amount"
    using law st pos(2) ok unfolding fee_column_def cycle_ok_def by (meson less_imp_le)
  have total: "seven_decimals (sum_list (map rv_amount (claims_on (rc_id c) db)) + amount)"
  proof -
    have "seven_decimals (rc_distributed c)" "rc_distributed c = sum_list (map rv_amount (claims_on (rc_id c) db))"
      using ok unfolding cycle_ok_def by blast+
    then show ?thesis using seven_decimals_add [OF _ amount(2)] by metis
  qed
  have cl: "claims_on cid db' = claims_on cid db @ (if cid = ci_id cycle then [\<lparr>rv_id = rowId, rv_cycleId = ci_id cycle,
    rv_wallet = wallet, rv_amount = amount, rv_claimedAt = claimedAt\<rparr>] else [])" for cid
    by (simp add: claims_on_def claims)
  have cols: "map rc_index (re_cycles db') = map rc_index (re_cycles db)" "map rc_id (re_cycles db') = map rc_id (re_cycles db)"
    by (auto simp: cycles)
  have ended: "ended_cycle db' cid t" if e: "ended_cycle db cid t" for cid t
  proof -
    from e obtain r where r: "r \<in> set (re_cycles db)" "rc_id r = cid" "rc_endsAt r \<le> t" by (auto simp: ended_cycle_def)
    let ?r = "if rc_id r = ci_id cycle then r\<lparr>rc_distributed := dist\<rparr> else r"
    have "?r \<in> set (re_cycles db')" using r(1) unfolding cycles set_map by (rule imageI)
    then show ?thesis unfolding ended_cycle_def by (rule bexI [rotated]) (use r in simp)
  qed
  have "cycle_ok env db' x" if "x \<in> set (re_cycles db')" for x
  proof -
    from that obtain r where r: "r \<in> set (re_cycles db)" "x = (if rc_id r = ci_id cycle then r\<lparr>rc_distributed := dist\<rparr> else r)"
      by (auto simp: cycles)
    have okr: "cycle_ok env db r" using inv r(1) by (simp add: revenue_inv_def)
    show ?thesis
    proof (cases "rc_id r = ci_id cycle")
      case True
      then have "r = c" using ids r(1) c by (metis distinct_map inj_onD)
      then show ?thesis using True ok r(2) amount total by (simp add: cycle_ok_def cl dist)
    next
      case False
      then have "claims_on (rc_id r) db' = claims_on (rc_id r) db" by (simp add: cl)
      from cycle_ok_cong [OF this] show ?thesis using okr r(2) False by simp
    qed
  qed
  moreover have "distinct (map cycle_claim_key (re_claims db'))"
    using inv fresh by (simp add: claims revenue_inv_def cycle_claim_key_def)
  moreover have "\<forall>r \<in> set (re_claims db'). ended_cycle db' (rv_cycleId r) (rv_claimedAt r)"
    using inv ended ended_cycle_mono [OF ended [OF pos(1)] t] by (simp add: claims revenue_inv_def)
  moreover have "\<forall>cycle wallet entitled now. (cycle, wallet, entitled, now) \<in> pending \<longrightarrow> ended_cycle db' (ci_id cycle) now \<and> 0 < entitled"
    using inv ended unfolding revenue_inv_def by blast
  moreover have "distinct (map rc_index (re_cycles db'))" "distinct (map rc_id (re_cycles db'))"
    using inv by (simp_all only: cols revenue_inv_def)
  ultimately show ?thesis unfolding revenue_inv_def by blast
qed (simp add: inv)

lemma revenue_sys_inv:
  assumes law: "fee_column (re_store env)" and days: "0 < re_days env"
  shows "revenue_sys env db pending \<Longrightarrow> revenue_inv env db pending"
proof (induction rule: revenue_sys.induct)
  case world
  from world.IH show ?case by (rule world_inv)
next
  case (finalize db pending now w rowId earlier q db')
  then show ?case by (blast intro: finalize_inv [OF _ days])
next
  case (check db pending now w c wallet earlier entitled)
  have c: "c \<in> set (re_cycles db)" "rc_index c = cw_index w" using find_by_SomeD [OF check.hyps(4)] by simp_all
  have "cycle_ok env db c" using check.IH c(1) by (simp add: revenue_inv_def)
  then have "rc_endsAt c = cw_endsAt w" using latest_cycle_ended [OF days check.hyps(2,3)] c(2) by (simp add: cycle_ok_def)
  then have "ended_cycle db (rc_id c) now" using c(1) latest_cycle_ended [OF days check.hyps(2,3)] by (auto simp: ended_cycle_def)
  moreover have "0 < entitled" using check.hyps(5) by (auto simp: claim_check_def Let_def split: if_splits)
  ultimately show ?case using check.IH by (auto simp: revenue_inv_def cycle_info_of_def)
next
  case (claim db pending cycle wallet entitled now claimedAt rowId q' db')
  then show ?case by (blast intro: claim_inv [OF law])
qed (simp add: revenue_inv_def)


section \<open>The pool is not overdrawn while keys stay where they are\<close>

definition key_owners :: "held_keys list \<Rightarrow> string list" where
  "key_owners rows = remdups (map rh_owner (filter (\<lambda>r. 0 < rh_balance r) rows))"

text \<open>Keys are whole, and all of them together stay below \<open>2^53\<close>.\<close>

definition whole_keys :: "held_keys list \<Rightarrow> bool" where
  "whole_keys rows \<longleftrightarrow> (\<forall>r \<in> set rows. rh_balance r = of_int \<lfloor>rh_balance r\<rfloor>) \<and>
    sum_list (map (wallet_keys rows) (key_owners rows)) < 2 ^ 53"

definition key_count :: "held_keys list \<Rightarrow> string \<Rightarrow> int" where
  "key_count rows owner = \<lfloor>wallet_keys rows owner\<rfloor>"

lemma sum_list_whole: "\<forall>x \<in> set xs. (x :: rat) = of_int \<lfloor>x\<rfloor> \<Longrightarrow> sum_list xs = of_int \<lfloor>sum_list xs\<rfloor>"
proof (induction xs)
  case (Cons x xs)
  then have "x + sum_list xs = of_int (\<lfloor>x\<rfloor> + \<lfloor>sum_list xs\<rfloor>)" by simp
  then show ?case by (metis floor_of_int sum_list.Cons)
qed simp

lemma wallet_keys_whole: "whole_keys rows \<Longrightarrow> wallet_keys rows owner = of_int (key_count rows owner)"
  unfolding key_count_def wallet_keys_def by (rule sum_list_whole) (auto simp: whole_keys_def)

lemma key_count_pos:
  assumes "whole_keys rows" "owner \<in> set (key_owners rows)"
  shows "0 < key_count rows owner"
proof -
  from assms(2) obtain r where r: "r \<in> set rows" "0 < rh_balance r" "rh_owner r = owner" by (auto simp: key_owners_def)
  let ?rs = "filter (\<lambda>r. 0 < rh_balance r \<and> rh_owner r = owner) rows"
  have "rh_balance r \<le> wallet_keys rows owner"
    unfolding wallet_keys_def using r by (intro member_le_sum_list) auto
  then have "0 < wallet_keys rows owner" using r by linarith
  then show ?thesis using wallet_keys_whole [OF assms(1), of owner] by simp
qed

lemma add_weights:
  "whole_keys rows \<Longrightarrow> set os \<subseteq> set (key_owners rows) \<Longrightarrow> 0 \<le> t \<Longrightarrow> t + sum_list (map (key_count rows) os) < 2 ^ 53 \<Longrightarrow>
    fold (add_weight rows) os (of_int t, acc) =
      (of_int (t + sum_list (map (key_count rows) os)), acc @ map (\<lambda>w. (w, of_int (key_count rows w))) os)"
  for os :: "string list"
proof (induction os arbitrary: t acc)
  case (Cons x os)
  let ?k = "key_count rows x" and ?s = "sum_list (map (key_count rows) os)"
  have k: "0 < ?k" using key_count_pos [OF Cons.prems(1)] Cons.prems(2) by simp
  have "0 \<le> ?s" using key_count_pos [OF Cons.prems(1)] Cons.prems(2) by (intro sum_list_nonneg) (auto intro: less_imp_le)
  then have b: "?k < 2 ^ 53" "t + ?k < 2 ^ 53" using Cons.prems k by auto
  have f: "fl (of_int ?k) = of_int ?k" "fl (of_int t + of_int ?k) = of_int (t + ?k)"
    using fl_whole [of ?k] fl_whole [of "t + ?k"] b k Cons.prems(3) by auto
  have "fold (add_weight rows) os (of_int (t + ?k), acc @ [(x, of_int ?k)]) =
      (of_int (t + ?k + ?s), (acc @ [(x, of_int ?k)]) @ map (\<lambda>w. (w, of_int (key_count rows w))) os)"
    using Cons.prems k by (intro Cons.IH) auto
  moreover have "add_weight rows x (of_int t, acc) = (of_int (t + ?k), acc @ [(x, of_int ?k)])"
    using k by (simp add: add_weight_def wallet_keys_whole [OF Cons.prems(1)] f Let_def)
  ultimately show ?case by (simp add: add.assoc)
qed simp

lemma stake_weights:
  assumes whole: "whole_keys rows" and order: "mset (re_groups env (key_owners rows)) = mset (key_owners rows)"
  defines "s \<equiv> sum_list (map (key_count rows) (key_owners rows))"
  shows "fst (getStakeWeights env rows) = of_int s"
    "map_of (snd (getStakeWeights env rows)) w = (if w \<in> set (key_owners rows) then Some (of_int (key_count rows w)) else None)"
proof -
  let ?os = "re_groups env (key_owners rows)"
  have "sum_list (map (wallet_keys rows) os) = of_int (sum_list (map (key_count rows) os))" for os
    by (induction os) (simp_all add: wallet_keys_whole [OF whole])
  then have small: "s < 2 ^ 53" using whole unfolding whole_keys_def s_def by (metis of_int_less_iff of_int_numeral of_int_power)
  have set: "set ?os = set (key_owners rows)" using order by (metis mset_eq_setD)
  have sum: "sum_list (map (key_count rows) ?os) = s" unfolding s_def by (metis mset_map order sum_mset_sum_list)
  have "getStakeWeights env rows = (of_int s, map (\<lambda>w. (w, of_int (key_count rows w))) ?os)"
    using add_weights [OF whole, of ?os 0 "[]"] set sum small by (simp add: getStakeWeights_def key_owners_def)
  moreover have "map_of (map (\<lambda>w. (w, f w)) os) w = (if w \<in> set os then Some (f w) else None)" for f :: "string \<Rightarrow> rat" and os
    by (induction os) auto
  ultimately show "fst (getStakeWeights env rows) = of_int s"
    "map_of (snd (getStakeWeights env rows)) w = (if w \<in> set (key_owners rows) then Some (of_int (key_count rows w)) else None)"
    using set by simp_all
qed

lemma fl_up: "0 \<le> x \<Longrightarrow> fl x \<le> x * (1 + 1 / 2 ^ 53)"
proof -
  assume "0 \<le> x"
  from fl_near [OF this] have "fl x \<le> x + x / 2 ^ 53" by linarith
  then show ?thesis by (simp add: distrib_left)
qed

lemma entitled_bound:
  assumes whole: "whole_keys rows" and order: "mset (re_groups env (key_owners rows)) = mset (key_owners rows)"
    and fees: "0 \<le> fees" and e: "0 < computeEntitledAmountXlm env fees w rows"
  shows "w \<in> set (key_owners rows)" "0 < sum_list (map (key_count rows) (key_owners rows))"
    "computeEntitledAmountXlm env fees w rows \<le>
      fees * (1 + 1 / 2 ^ 53) ^ 2 * (of_int (key_count rows w) / of_int (sum_list (map (key_count rows) (key_owners rows))))"
proof -
  let ?s = "sum_list (map (key_count rows) (key_owners rows))" and ?k = "of_int (key_count rows w) :: rat"
  obtain t m where tm: "getStakeWeights env rows = (t, m)" by fastforce
  have t: "t = of_int ?s" and m: "map_of m w = (if w \<in> set (key_owners rows) then Some ?k else None)"
    using stake_weights(1) [OF whole order] stake_weights(2) [OF whole order, of w] tm by simp_all
  from e tm have "0 < t" and w: "w \<in> set (key_owners rows)" and "0 < ?k" and eq: "computeEntitledAmountXlm env fees w rows = fl (fl (fees * ?k) / t)"
    by (auto simp: computeEntitledAmountXlm_def m split: if_splits)
  then show "w \<in> set (key_owners rows)" "0 < ?s" by (simp_all add: t)
  have p: "0 \<le> fees * ?k" using fees \<open>0 < ?k\<close> by simp
  have "fl (fees * ?k) / t \<le> fees * ?k * (1 + 1 / 2 ^ 53) / t" using fl_up [OF p] \<open>0 < t\<close> by (intro divide_right_mono) auto
  moreover have "fl (fl (fees * ?k) / t) \<le> fl (fees * ?k) / t * (1 + 1 / 2 ^ 53)"
    using fl_nonneg [OF p] \<open>0 < t\<close> by (intro fl_up) simp
  moreover have "fl (fees * ?k) / t * (1 + 1 / 2 ^ 53) \<le> fees * ?k * (1 + 1 / 2 ^ 53) / t * (1 + 1 / 2 ^ 53)"
    using calculation(1) by (intro mult_right_mono) auto
  ultimately have "fl (fl (fees * ?k) / t) \<le> fees * ?k * (1 + 1 / 2 ^ 53) / t * (1 + 1 / 2 ^ 53)" by linarith
  also have "\<dots> = fees * (1 + 1 / 2 ^ 53) ^ 2 * (?k / t)" by (simp add: power2_eq_square)
  finally show "computeEntitledAmountXlm env fees w rows \<le> fees * (1 + 1 / 2 ^ 53) ^ 2 * (?k / of_int ?s)" by (simp only: eq t)
qed

lemma entitled_sum:
  assumes whole: "whole_keys rows" and order: "mset (re_groups env (key_owners rows)) = mset (key_owners rows)"
    and fees: "0 \<le> fees" and ws: "distinct ws" "\<forall>w \<in> set ws. 0 < computeEntitledAmountXlm env fees w rows"
  shows "sum_list (map (\<lambda>w. computeEntitledAmountXlm env fees w rows) ws) \<le> fees * (1 + 1 / 2 ^ 53) ^ 2"
proof (cases ws)
  case (Cons w0 ws')
  let ?s = "sum_list (map (key_count rows) (key_owners rows))" and ?f = "fees * (1 + 1 / 2 ^ 53) ^ 2"
  have s: "0 < ?s" using entitled_bound(2) [OF whole order fees, of w0] ws(2) Cons by simp
  have sub: "set ws \<subseteq> set (key_owners rows)" using entitled_bound(1) [OF whole order fees] ws(2) by blast
  have "sum_list (map (\<lambda>w. computeEntitledAmountXlm env fees w rows) ws) = (\<Sum>w \<in> set ws. computeEntitledAmountXlm env fees w rows)"
    using ws(1) by (simp add: sum_list_distinct_conv_sum_set)
  also have "\<dots> \<le> (\<Sum>w \<in> set ws. ?f * (of_int (key_count rows w) / of_int ?s))"
    using entitled_bound(3) [OF whole order fees] ws(2) by (intro sum_mono) simp
  also have "\<dots> = ?f * (of_int (\<Sum>w \<in> set ws. key_count rows w) / of_int ?s)"
    by (simp add: sum_distrib_left sum_divide_distrib)
  also have "\<dots> \<le> ?f * 1"
  proof (intro mult_left_mono)
    have "(\<Sum>w \<in> set ws. key_count rows w) \<le> (\<Sum>w \<in> set (key_owners rows). key_count rows w)"
      using sub key_count_pos [OF whole] by (intro sum_mono2) (auto intro: less_imp_le)
    also have "\<dots> = ?s" by (simp add: sum_list_distinct_conv_sum_set key_owners_def)
    finally have "(\<Sum>w \<in> set ws. key_count rows w) \<le> ?s" .
    then have "of_int (\<Sum>w \<in> set ws. key_count rows w) \<le> (of_int ?s :: rat)" by (simp only: of_int_le_iff)
    then show "of_int (\<Sum>w \<in> set ws. key_count rows w) / of_int ?s \<le> (1 :: rat)" using s by (simp add: divide_le_eq_1)
    show "0 \<le> ?f" using fees by simp
  qed
  finally show ?thesis by simp
qed (use fees in simp)

text \<open>Claims of several wallets, one after the other: time of the claim, its row id and the wallet.\<close>

definition claim_all :: "revenue_env \<Rightarrow> instant \<Rightarrow> string \<Rightarrow> (instant \<times> string \<times> string) list \<Rightarrow> revenue_db \<Rightarrow> revenue_db" where
  "claim_all env now cycleRowId claims db =
    fold (\<lambda>(claimedAt, rowId, wallet) db. snd (claimRevenue env now claimedAt cycleRowId rowId wallet db)) claims db"

text \<open>The claims on a cycle so far, while the keys are \<open>rows\<close>.\<close>

definition fair_claims :: "revenue_env \<Rightarrow> held_keys list \<Rightarrow> cycle_row \<Rightarrow> nat \<Rightarrow> revenue_db \<Rightarrow> bool" where
  "fair_claims env rows c0 n db \<longleftrightarrow>
    distinct (map rc_id (re_cycles db)) \<and> re_held db = rows \<and> length (claims_on (rc_id c0) db) \<le> n \<and>
    distinct (map rv_wallet (claims_on (rc_id c0) db)) \<and>
    (\<exists>c. find_by rc_index (rc_index c0) (re_cycles db) = Some c \<and> rc_id c = rc_id c0 \<and> rc_fees c = rc_fees c0 \<and>
      seven_decimals (rc_distributed c) \<and> 0 \<le> rc_distributed c \<and>
      rc_distributed c = sum_list (map rv_amount (claims_on (rc_id c0) db))) \<and>
    (\<forall>r \<in> set (claims_on (rc_id c0) db). 0 < computeEntitledAmountXlm env (fl (rc_fees c0)) (rv_wallet r) rows \<and>
      re_store env 0 (computeEntitledAmountXlm env (fl (rc_fees c0)) (rv_wallet r) rows) = Some (rv_amount r))"

lemma fair_step:
  assumes law: "fee_column (re_store env)" and w: "getLatestEndedCycle (re_days env) now = Some w" "cw_index w = rc_index c0"
    and fair: "fair_claims env rows c0 n db" and c: "claimRevenue env now claimedAt cycleRowId rowId wallet db = (q, db')"
  shows "fair_claims env rows c0 (Suc n) db'"
proof (cases "db' = db")
  case False
  let ?e = "computeEntitledAmountXlm env (fl (rc_fees c0)) wallet rows"
  from fair obtain c where find: "find_by rc_index (rc_index c0) (re_cycles db) = Some c" and id: "rc_id c = rc_id c0" "rc_fees c = rc_fees c0"
    and stored: "seven_decimals (rc_distributed c)" "0 \<le> rc_distributed c"
    and sum: "rc_distributed c = sum_list (map rv_amount (claims_on (rc_id c0) db))"
    unfolding fair_claims_def by blast
  have held: "re_held db = rows" and ids: "distinct (map rc_id (re_cycles db))" using fair by (simp_all add: fair_claims_def)
  have "claim_commit env claimedAt rowId (cycle_info_of c) wallet ?e db = (q, db') \<and> 0 < ?e"
    using c False by (auto simp: claimRevenue_def w finalizeCycle_def find claim_check_def Let_def held id cycle_info_of_def split: if_splits)
  then have commit: "claim_commit env claimedAt rowId (cycle_info_of c) wallet ?e db = (q, db')" and e: "0 < ?e" by simp_all
  have cid: "ci_id (cycle_info_of c) = rc_id c0" by (simp add: cycle_info_of_def id)
  obtain x amount dist where fresh: "(rc_id c0, wallet) \<notin> cycle_claim_key ` set (re_claims db)"
    and x: "x \<in> set (re_cycles db)" "rc_id x = rc_id c0" and st: "re_store env 0 ?e = Some amount" "re_store env (rc_distributed x) ?e = Some dist"
    and claims: "re_claims db' = re_claims db @ [\<lparr>rv_id = rowId, rv_cycleId = rc_id c0, rv_wallet = wallet, rv_amount = amount, rv_claimedAt = claimedAt\<rparr>]"
    and cycles: "re_cycles db' = map (\<lambda>r. if rc_id r = rc_id c0 then r\<lparr>rc_distributed := dist\<rparr> else r) (re_cycles db)"
    and held': "re_held db' = re_held db"
    by (rule claim_commit_cases [OF commit False, unfolded cid])
  have "c \<in> set (re_cycles db)" using find_by_SomeD [OF find] by simp
  then have "x = c" using ids x id by (metis distinct_map inj_onD)
  then have dist: "dist = rc_distributed c + amount"
    using law st e stored unfolding fee_column_def by (meson less_imp_le)
  have amount: "0 \<le> amount" "seven_decimals amount" using law st(1) e unfolding fee_column_def by (meson less_imp_le)+
  have cl: "claims_on (rc_id c0) db' = claims_on (rc_id c0) db @ [\<lparr>rv_id = rowId, rv_cycleId = rc_id c0, rv_wallet = wallet, rv_amount = amount,
    rv_claimedAt = claimedAt\<rparr>]" by (simp add: claims_on_def claims)
  have new: "wallet \<notin> rv_wallet ` set (claims_on (rc_id c0) db)"
    using fresh by (force simp: claims_on_def cycle_claim_key_def)
  have fmap: "find_by rc_index i (map (\<lambda>r. if rc_id r = rc_id c0 then r\<lparr>rc_distributed := dist\<rparr> else r) rs) =
      map_option (\<lambda>r. if rc_id r = rc_id c0 then r\<lparr>rc_distributed := dist\<rparr> else r) (find_by rc_index i rs)" for i rs
    by (induction rs) auto
  have find': "find_by rc_index (rc_index c0) (re_cycles db') = Some (c\<lparr>rc_distributed := dist\<rparr>)"
    unfolding cycles fmap find by (simp add: id)
  have ids': "map rc_id (re_cycles db') = map rc_id (re_cycles db)" by (auto simp: cycles)
  show ?thesis
    using fair e st(1) new amount stored seven_decimals_add [OF stored(1) amount(2)] id
    unfolding fair_claims_def by (simp add: ids' held' cl find' dist sum)
next
  case True
  then show ?thesis using fair by (auto simp: fair_claims_def)
qed

lemma fair_run:
  assumes law: "fee_column (re_store env)" and w: "getLatestEndedCycle (re_days env) now = Some w" "cw_index w = rc_index c0"
  shows "fair_claims env rows c0 n db \<Longrightarrow> fair_claims env rows c0 (n + length claims) (claim_all env now cid claims db)"
proof (induction claims arbitrary: n db)
  case (Cons x claims)
  obtain t rid wal where x: "x = (t, rid, wal)" by (cases x)
  obtain q db1 where c: "claimRevenue env now t cid rid wal db = (q, db1)" by fastforce
  from Cons.IH [OF fair_step [OF law w Cons.prems c]] show ?case by (simp add: claim_all_def x c)
qed (simp add: claim_all_def)


section \<open>A small pool\<close>

definition seven_store :: "rat \<Rightarrow> rat \<Rightarrow> rat option" where
  "seven_store a x = Some (a + to_fixed7 x)"

lemma seven_store_law: "fee_column seven_store"
proof -
  have "seven_decimals (of_int i / 10 ^ 7)" "seven_decimals (- of_int i / 10 ^ 7)" for i
    using floor_of_int [of i] floor_of_int [of "- i"] by (simp_all add: seven_decimals_def del: floor_of_int)
  then have "seven_decimals (to_fixed7 x)" for x unfolding to_fixed7_def by (simp del: of_int_power)
  moreover have "\<bar>to_fixed7 x - x\<bar> \<le> 1 / 10 ^ 7" if "0 \<le> x" for x using to_fixed7_near [OF that] by simp
  ultimately show ?thesis using to_fixed7_nonneg by (simp add: fee_column_def seven_store_def)
qed

definition pool_env :: revenue_env where
  "pool_env = \<lparr>re_days = 7, re_store = seven_store, re_groups = (\<lambda>os. os)\<rparr>"

definition pool_now :: instant where
  "pool_now = REVENUE_CYCLE_EPOCH_MS + 604800000"

definition pool_window :: cycle_window where
  "pool_window = \<lparr>cw_index = 0, cw_startsAt = REVENUE_CYCLE_EPOCH_MS, cw_endsAt = pool_now\<rparr>"

definition pool_cycle :: cycle_row where
  "pool_cycle = \<lparr>rc_id = ''c'', rc_index = 0, rc_startsAt = REVENUE_CYCLE_EPOCH_MS, rc_endsAt = pool_now,
    rc_fees = 10, rc_distributed = 0\<rparr>"

text \<open>Two wallets with a key each; a trade of 200 whose fee of 5 percent is the pool.\<close>

definition pool_db :: revenue_db where
  "pool_db = \<lparr>re_cycles = [], re_claims = [], re_feeBps = Some 500,
    re_trades = [\<lparr>ft_price = 200, ft_quantity = 1, ft_at = REVENUE_CYCLE_EPOCH_MS + 1\<rparr>],
    re_held = [\<lparr>rh_owner = ''a'', rh_balance = 1\<rparr>, \<lparr>rh_owner = ''b'', rh_balance = 1\<rparr>],
    re_audit = \<lparr>auditEvents = [], auditLog = []\<rparr>\<rparr>"

lemma seven_store_whole: "seven_store 0 10 = Some 10" "seven_store 0 5 = Some 5"
  using to_fixed7_whole [of 10] to_fixed7_whole [of 5] by (simp_all add: seven_store_def)

lemma pool_numbers: "fl 1 = 1" "fl 2 = 2" "fl 5 = 5" "fl 10 = 10" "fl 200 = 200" "fl 100000 = 100000"
  using fl_whole [of 1] fl_whole [of 2] fl_whole [of 5] fl_whole [of 10] fl_whole [of 200] fl_whole [of 100000] by simp_all

lemma pool_latest: "getLatestEndedCycle 7 pool_now = Some pool_window"
  by (simp add: getLatestEndedCycle_def getCurrentCycleIndex_def getCycleDurationMs_def pool_now_def pool_numbers
      getCycleWindow_def pool_window_def)

lemma pool_finalized:
  "finalize_commit pool_env ''c'' pool_window (fst (computeCycleFeesXlm pool_window pool_db)) pool_db =
    (Inr (cycle_info_of pool_cycle), pool_db\<lparr>re_cycles := [pool_cycle]\<rparr>)"
  by (simp add: finalize_commit_def computeCycleFeesXlm_def pool_db_def pool_window_def in_window_def pool_now_def add_fee_def
      pool_numbers pool_env_def seven_store_whole pool_cycle_def insert_row_def Let_def)

lemma pool_entitled: "computeEntitledAmountXlm pool_env 10 ''a'' (re_held pool_db) = 5"
  by (simp add: computeEntitledAmountXlm_def getStakeWeights_def pool_env_def pool_db_def add_weight_def wallet_keys_def
      pool_numbers Let_def)

lemma pool_checked: "claim_check pool_env (cycle_info_of pool_cycle) ''a'' pool_db = Inr 5"
  by (simp add: claim_check_def cycle_info_of_def pool_cycle_def pool_numbers pool_entitled Let_def)

definition pool_claimed :: revenue_db where
  "pool_claimed = snd (claim_commit pool_env pool_now ''r'' (cycle_info_of pool_cycle) ''a'' 5 (pool_db\<lparr>re_cycles := [pool_cycle]\<rparr>))"

lemma pool_claims: "map (\<lambda>r. (rv_wallet r, rv_amount r)) (re_claims pool_claimed) = [(''a'', 5)]"
  "map rc_distributed (re_cycles pool_claimed) = [5]"
  by (simp_all add: pool_claimed_def claim_commit_def cycle_info_of_def pool_cycle_def pool_db_def pool_env_def seven_store_whole
      insert_row_def modify_by_def)



text \<open>
  The keys are counted when a claim is made, so a key that moves after its owner has claimed counts again for the
  new owner: a pool of 10 pays 20.
\<close>

lemma moved_keys_claim_twice:
  "let held = (\<lambda>owner. [\<lparr>rh_owner = owner, rh_balance = 1\<rparr>]);
       claim = (\<lambda>rowId wallet db. snd (claimRevenue pool_env pool_now pool_now ''c'' rowId wallet (db\<lparr>re_held := held wallet\<rparr>)))
   in map (\<lambda>c. (rc_fees c, rc_distributed c)) (re_cycles (claim ''s'' ''b'' (claim ''r'' ''a'' (pool_db\<lparr>re_cycles := [pool_cycle]\<rparr>)))) = [(10, 20)]"
proof -
  have store: "seven_store 10 10 = Some 20" using to_fixed7_whole [of 10] by (simp add: seven_store_def)
  have latest: "getLatestEndedCycle (re_days pool_env) pool_now = Some pool_window" by (simp add: pool_env_def pool_latest)
  have e: "computeEntitledAmountXlm pool_env 10 w [\<lparr>rh_owner = w, rh_balance = 1\<rparr>] = 10" for w
    by (simp add: computeEntitledAmountXlm_def getStakeWeights_def pool_env_def add_weight_def wallet_keys_def pool_numbers Let_def)
  have env: "re_store pool_env = seven_store" by (simp add: pool_env_def)
  show ?thesis
    by (simp add: claimRevenue_def latest finalizeCycle_def pool_window_def claim_check_def e cycle_info_of_def pool_cycle_def
        pool_db_def pool_numbers claim_commit_def insert_row_def modify_by_def cycle_claim_key_def seven_store_whole store
        env Let_def)
qed

end
