(* ===== verification/Vault.thy ===== *)
theory Vault
  imports Revenue Pricing Raw_Events
begin

text \<open>
  \<open>src/modules/indexer/vault-indexer.service.ts\<close>, deposits and withdrawals of the staking vault applied to
  positions, and \<open>src/modules/staking/vault.service.ts\<close>, what the vault shows: positions with their value, the
  summary and the rewards of a wallet.

  \<open>va_decimal\<close> is what the \<open>Decimal(20, 7)\<close> column of the event log stores of a raw value, \<open>va_store\<close> what the
  column of a position stores of a number (\<open>None\<close> when rejected), \<open>va_groups\<close> the order of grouped creators.
  Row ids are left out.
\<close>

section \<open>Tables\<close>

record vault_position =
  vp_wallet :: string
  vp_creatorId :: string
  vp_quantity :: rat

record vault_log =
  vl_deposit :: bool
  vl_wallet :: string
  vl_creatorId :: string
  vl_quantity :: rat
  vl_ledger :: int
  vl_txHash :: string
  vl_eventIndex :: int

record creator_supply =
  cs_id :: string
  cs_circulating :: rat

record vault_db =
  va_positions :: "vault_position list"
  va_log :: "vault_log list"
  va_creators :: "creator_supply list"
  va_feeBps :: "int option"

datatype vault_error = VaultValueRejected

record vault_env =
  va_lib :: js_text_lib
  va_decimal :: "js_value \<Rightarrow> rat option"
  va_store :: "rat \<Rightarrow> rat option"
  va_groups :: "string list \<Rightarrow> string list"

definition position_key :: "vault_position \<Rightarrow> string \<times> string" where
  "position_key p = (vp_wallet p, vp_creatorId p)"

definition log_key :: "vault_log \<Rightarrow> string \<times> int" where
  "log_key r = (vl_txHash r, vl_eventIndex r)"

section \<open>Deposits and withdrawals\<close>

text \<open>The quantity after an event; withdrawals are clamped at zero.\<close>

definition next_quantity :: "bool \<Rightarrow> rat \<Rightarrow> rat \<Rightarrow> rat" where
  "next_quantity isDeposit current qty = (if isDeposit then fl (current + qty) else max 0 (fl (current - qty)))"

definition vault_held :: "string \<times> string \<Rightarrow> vault_db \<Rightarrow> rat" where
  "vault_held k db = (case find_by position_key k (va_positions db) of Some p \<Rightarrow> vp_quantity p | None \<Rightarrow> 0)"

text \<open>The transaction; an event that is in the log already changes nothing.\<close>

definition vault_commit :: "vault_env \<Rightarrow> vault_log \<Rightarrow> rat \<Rightarrow> vault_db \<Rightarrow> (vault_error + unit) \<times> vault_db" where
  "vault_commit env r qty db =
    (if log_key r \<in> log_key ` set (va_log db) then (Inr (), db)
     else
       let k = (vl_wallet r, vl_creatorId r)
       in case va_store env (next_quantity (vl_deposit r) (fl (vault_held k db)) qty) of
            None \<Rightarrow> (Inl VaultValueRejected, db)
          | Some stored \<Rightarrow>
              (Inr (), db\<lparr>va_log := insert_row r (va_log db),
                va_positions := upsert_by position_key k (\<lambda>p. p\<lparr>vp_quantity := stored\<rparr>)
                  \<lparr>vp_wallet = vl_wallet r, vp_creatorId = vl_creatorId r, vp_quantity = stored\<rparr> (va_positions db)\<rparr>))"

text \<open>A quantity that is not a positive finite number is skipped.\<close>

definition positive_quantity :: "js_num \<Rightarrow> rat option" where
  "positive_quantity n = (case n of Fin q \<Rightarrow> if q \<le> 0 then None else Some q | _ \<Rightarrow> None)"

definition vault_row :: "vault_env \<Rightarrow> chain_event \<Rightarrow> vault_log option" where
  "vault_row env e =
    (case (js_field ''wallet'' (raw_of e), js_field ''creatorId'' (raw_of e), va_decimal env (js_field ''quantity'' (raw_of e)), ce_ledger e) of
      (Jstr wallet, Jstr creatorId, Some stored, Some ledger) \<Rightarrow>
        Some \<lparr>vl_deposit = (ce_eventType e = ''VAULT_DEPOSIT''), vl_wallet = wallet, vl_creatorId = creatorId, vl_quantity = stored,
          vl_ledger = ledger, vl_txHash = ce_txHash e, vl_eventIndex = ce_eventIndex e\<rparr>
    | _ \<Rightarrow> None)"

definition vault_handler :: "vault_env \<Rightarrow> chain_event \<Rightarrow> vault_db \<Rightarrow> (vault_error + unit) \<times> vault_db" where
  "vault_handler env e db =
    (if ce_eventType e \<noteq> ''VAULT_DEPOSIT'' \<and> ce_eventType e \<noteq> ''VAULT_WITHDRAW'' then (Inr (), db)
     else if \<not> truthy (js_field ''wallet'' (raw_of e)) \<or> \<not> truthy (js_field ''creatorId'' (raw_of e)) then (Inr (), db)
     else case positive_quantity (to_number (va_lib env) (js_field ''quantity'' (raw_of e))) of
       None \<Rightarrow> (Inr (), db)
     | Some qty \<Rightarrow> (case vault_row env e of
         None \<Rightarrow> (Inl VaultValueRejected, db)
       | Some r \<Rightarrow> vault_commit env r qty db))"

definition processVaultEvents :: "vault_env \<Rightarrow> chain_event list \<Rightarrow> vault_db \<Rightarrow> (vault_error + unit) \<times> vault_db" where
  "processVaultEvents env es db = processIndexerChainEvents (vault_handler env) es db"

section \<open>What the vault shows\<close>

definition DEFAULT_PROTOCOL_FEE_BPS :: int where
  "DEFAULT_PROTOCOL_FEE_BPS = 500"

definition loadProtocolFeeBps :: "vault_db \<Rightarrow> int" where
  "loadProtocolFeeBps db =
    (let fee = (case va_feeBps db of Some b \<Rightarrow> b | None \<Rightarrow> DEFAULT_PROTOCOL_FEE_BPS)
     in if fee \<ge> 0 then fee else DEFAULT_PROTOCOL_FEE_BPS)"

definition vault_unit_price :: "int \<Rightarrow> creator_supply \<Rightarrow> pricing_error + rat" where
  "vault_unit_price feeBps creator =
    (let supply = max 0 \<lfloor>fl (cs_circulating creator)\<rfloor>
     in and_then (if supply \<le> 0 then Inr 0 else getSellUnitPrice (of_int supply) (of_int feeBps))
          (\<lambda>unit. Inr (fl (fl (of_int unit) / 10000000))))"

fun unit_prices :: "int \<Rightarrow> creator_supply list \<Rightarrow> pricing_error + (string \<times> rat) list" where
  "unit_prices feeBps [] = Inr []"
| "unit_prices feeBps (c # cs) =
    and_then (vault_unit_price feeBps c) (\<lambda>price. and_then (unit_prices feeBps cs) (\<lambda>prices. Inr ((cs_id c, price) # prices)))"

definition loadUnitPrices :: "string list \<Rightarrow> vault_db \<Rightarrow> pricing_error + (string \<times> rat) list" where
  "loadUnitPrices creatorIds db =
    (if creatorIds = [] then Inr []
     else unit_prices (loadProtocolFeeBps db) (filter (\<lambda>c. cs_id c \<in> set creatorIds) (va_creators db)))"

text \<open>The sum of the positive quantities of the positions with a property.\<close>

definition quantity_where :: "(vault_position \<Rightarrow> bool) \<Rightarrow> vault_db \<Rightarrow> rat" where
  "quantity_where P db = sum_list (map vp_quantity (filter (\<lambda>p. 0 < vp_quantity p \<and> P p) (va_positions db)))"

definition loadVaultTotalsByCreator :: "vault_env \<Rightarrow> vault_db \<Rightarrow> (string \<times> rat) list" where
  "loadVaultTotalsByCreator env db =
    map (\<lambda>c. (c, fl (quantity_where (\<lambda>p. vp_creatorId p = c) db)))
      (va_groups env (remdups (map vp_creatorId (filter (\<lambda>p. 0 < vp_quantity p) (va_positions db)))))"

definition price_of :: "(string \<times> rat) list \<Rightarrow> string \<Rightarrow> rat" where
  "price_of prices c = (case map_of prices c of Some p \<Rightarrow> p | None \<Rightarrow> 0)"

definition computeTvl :: "(string \<times> rat) list \<Rightarrow> (string \<times> rat) list \<Rightarrow> rat" where
  "computeTvl totals prices = fold (\<lambda>(c, quantity) acc. fl (acc + fl (quantity * price_of prices c))) totals 0"

record vault_key_view =
  vk_keyId :: string
  vk_quantity :: rat
  vk_unitPrice :: rat
  vk_value :: rat
  vk_share :: rat

record vault_view =
  vv_wallet :: string
  vv_share :: rat
  vv_totalValue :: rat
  vv_tvl :: rat
  vv_keys :: "vault_key_view list"

definition vault_key_view_of :: "(string \<times> rat) list \<Rightarrow> rat \<Rightarrow> vault_position \<Rightarrow> vault_key_view" where
  "vault_key_view_of prices tvl p =
    (let quantity = fl (vp_quantity p); unitPrice = price_of prices (vp_creatorId p); v = fl (quantity * unitPrice)
     in \<lparr>vk_keyId = vp_creatorId p, vk_quantity = quantity, vk_unitPrice = round7 unitPrice, vk_value = round7 v,
         vk_share = (if tvl > 0 then round7 (fl (v / tvl)) else 0)\<rparr>)"

definition getVaultPosition :: "vault_env \<Rightarrow> string \<Rightarrow> vault_db \<Rightarrow> pricing_error + vault_view" where
  "getVaultPosition env wallet db =
    (let rows = sort_key vp_creatorId (filter (\<lambda>p. vp_wallet p = wallet \<and> 0 < vp_quantity p) (va_positions db));
         totals = loadVaultTotalsByCreator env db
     in if rows = [] then
          and_then (loadUnitPrices (map fst totals) db) (\<lambda>prices.
            Inr \<lparr>vv_wallet = wallet, vv_share = 0, vv_totalValue = 0, vv_tvl = round7 (computeTvl totals prices), vv_keys = []\<rparr>)
        else
          and_then (loadUnitPrices (map vp_creatorId rows @ map fst totals) db) (\<lambda>prices.
            let tvl = computeTvl totals prices;
                keys = map (vault_key_view_of prices tvl) rows;
                totalValue = fold (\<lambda>k acc. fl (acc + vk_value k)) keys 0
            in Inr \<lparr>vv_wallet = wallet, vv_share = (if tvl > 0 then round7 (fl (totalValue / tvl)) else 0),
                 vv_totalValue = round7 totalValue, vv_tvl = round7 tvl, vv_keys = keys\<rparr>))"

record vault_summary =
  vs_tvl :: rat
  vs_depositors :: nat
  vs_keys :: nat

definition getVaultSummary :: "vault_env \<Rightarrow> vault_db \<Rightarrow> pricing_error + vault_summary" where
  "getVaultSummary env db =
    (let totals = loadVaultTotalsByCreator env db
     in and_then (loadUnitPrices (map fst totals) db) (\<lambda>prices.
          Inr \<lparr>vs_tvl = round7 (computeTvl totals prices),
            vs_depositors = length (remdups (map vp_wallet (filter (\<lambda>p. 0 < vp_quantity p) (va_positions db)))),
            vs_keys = length totals\<rparr>))"

text \<open>The share of the latest pool by deposited quantity.\<close>

definition getVaultRewards ::
  "revenue_env \<Rightarrow> instant \<Rightarrow> string \<Rightarrow> string \<Rightarrow> vault_db \<Rightarrow> revenue_db \<Rightarrow> (revenue_error + claimable) \<times> revenue_db" where
  "getVaultRewards env now rowId wallet vault db =
    (case getLatestEndedCycle (re_days env) now of
      None \<Rightarrow> (Inr \<lparr>cl_wallet = wallet, cl_claimable = 0, cl_claimed = False, cl_cycle = None\<rparr>, db)
    | Some w \<Rightarrow> (case finalizeCycle env rowId w db of
        (Inl err, db1) \<Rightarrow> (Inl err, db1)
      | (Inr cycle, db1) \<Rightarrow>
          if find_by cycle_claim_key (ci_id cycle, wallet) (re_claims db1) \<noteq> None
          then (Inr \<lparr>cl_wallet = wallet, cl_claimable = 0, cl_claimed = True, cl_cycle = Some cycle\<rparr>, db1)
          else
            let walletQty = fl (quantity_where (\<lambda>p. vp_wallet p = wallet) vault);
                totalQty = fl (quantity_where (\<lambda>p. True) vault);
                share = (if ci_fees cycle > 0 \<and> walletQty > 0 \<and> totalQty > 0
                  then fl (fl (ci_fees cycle * walletQty) / totalQty) else 0)
            in (Inr \<lparr>cl_wallet = wallet, cl_claimable = to_fixed7 share, cl_claimed = False, cl_cycle = Some cycle\<rparr>, db1)))"

section \<open>Positions replay the log\<close>

text \<open>The log stores the quantity that the handler computes with: it has at most seven places.\<close>

definition reads_same :: "vault_env \<Rightarrow> js_value \<Rightarrow> bool" where
  "reads_same env v \<longleftrightarrow> (\<forall>q d. to_number (va_lib env) v = Fin q \<and> va_decimal env v = Some d \<longrightarrow> fl d = q)"

inductive vault_step :: "vault_env \<Rightarrow> vault_db \<Rightarrow> vault_db \<Rightarrow> bool" for env where
  batch: "processVaultEvents env es db = (res, db') \<Longrightarrow> list_all (\<lambda>e. reads_same env (js_field ''quantity'' (raw_of e))) es \<Longrightarrow>
    vault_step env db db'"
| world: "vault_step env db (db\<lparr>va_creators := cs, va_feeBps := b\<rparr>)"

definition log_of :: "string \<times> string \<Rightarrow> vault_db \<Rightarrow> vault_log list" where
  "log_of k db = filter (\<lambda>r. (vl_wallet r, vl_creatorId r) = k) (va_log db)"

definition replay_row :: "vault_env \<Rightarrow> vault_log \<Rightarrow> rat \<Rightarrow> rat" where
  "replay_row env r held = the (va_store env (next_quantity (vl_deposit r) (fl held) (fl (vl_quantity r))))"

definition vault_ok :: "vault_env \<Rightarrow> vault_db \<Rightarrow> bool" where
  "vault_ok env db \<longleftrightarrow> distinct (map log_key (va_log db)) \<and> distinct (map position_key (va_positions db)) \<and>
    (\<forall>k. vault_held k db = fold (replay_row env) (log_of k db) 0) \<and>
    position_key ` set (va_positions db) = (\<lambda>r. (vl_wallet r, vl_creatorId r)) ` set (va_log db)"

definition vault_keeps :: "vault_db \<Rightarrow> vault_db \<Rightarrow> bool" where
  "vault_keeps db db' \<longleftrightarrow> set (va_log db) \<subseteq> set (va_log db')"

lemma vault_keeps_refl [simp]: "vault_keeps db db"
  by (simp add: vault_keeps_def)

lemma vault_keeps_trans: "vault_keeps a b \<Longrightarrow> vault_keeps b c \<Longrightarrow> vault_keeps a c"
  by (auto simp: vault_keeps_def)

lemma vault_commit_ok:
  assumes ok: "vault_ok env db" and q: "fl (vl_quantity r) = qty" and c: "vault_commit env r qty db = (res, db')" and new: "db' \<noteq> db"
  shows "vault_ok env db' \<and> vault_keeps db db' \<and> log_key r \<in> log_key ` set (va_log db')"
proof -
  let ?k = "(vl_wallet r, vl_creatorId r)"
  let ?row = "\<lambda>s. \<lparr>vp_wallet = vl_wallet r, vp_creatorId = vl_creatorId r, vp_quantity = s\<rparr>"
  from c new obtain stored where fresh: "log_key r \<notin> log_key ` set (va_log db)"
    and stored: "va_store env (next_quantity (vl_deposit r) (fl (vault_held ?k db)) qty) = Some stored"
    and log: "va_log db' = va_log db @ [r]"
    and pos: "va_positions db' = upsert_by position_key ?k (\<lambda>p. p\<lparr>vp_quantity := stored\<rparr>) (?row stored) (va_positions db)"
    by (auto simp: vault_commit_def insert_row_def Let_def split: if_splits option.splits)
  have key: "position_key (?row stored) = ?k" "\<And>p. position_key p = ?k \<Longrightarrow> position_key (p\<lparr>vp_quantity := stored\<rparr>) = ?k"
    by (simp_all add: position_key_def)
  have held: "vault_held k db' = (if k = ?k then stored else vault_held k db)" for k
  proof -
    have "find_by position_key k (va_positions db') = (if k = ?k then Some (case find_by position_key ?k (va_positions db) of
        None \<Rightarrow> ?row stored | Some p \<Rightarrow> p\<lparr>vp_quantity := stored\<rparr>) else find_by position_key k (va_positions db))"
      unfolding pos by (rule find_by_upsert) (use key in auto)
    then show ?thesis by (simp add: vault_held_def split: option.split)
  qed
  have log_of: "log_of k db' = log_of k db @ (if k = ?k then [r] else [])" for k by (auto simp: log_of_def log)
  have "vault_held k db' = fold (replay_row env) (log_of k db') 0" for k
  proof -
    have "vault_held k db = fold (replay_row env) (log_of k db) 0" for k using ok unfolding vault_ok_def by blast
    then show ?thesis using stored by (simp add: held log_of replay_row_def q)
  qed
  moreover have "distinct (map position_key (va_positions db'))"
    unfolding pos by (rule distinct_upsert) (use ok key in \<open>auto simp: vault_ok_def\<close>)
  moreover have "set (map position_key (va_positions db')) = insert ?k (set (map position_key (va_positions db)))"
  proof -
    have "map position_key (va_positions db') = (if ?k \<in> set (map position_key (va_positions db)) then map position_key (va_positions db)
        else map position_key (va_positions db) @ [?k])"
      unfolding pos by (rule keys_upsert) (use key in auto)
    then show ?thesis by auto
  qed
  ultimately show ?thesis using ok fresh by (simp add: vault_ok_def vault_keeps_def log subset_insertI)
qed

lemma vault_handler_okE:
  assumes h: "vault_handler env e db = (res, db')" and new: "db' \<noteq> db" and same: "reads_same env (js_field ''quantity'' (raw_of e))"
  obtains qty r where "vault_commit env r qty db = (res, db')" "fl (vl_quantity r) = qty" "log_key r = (ce_txHash e, ce_eventIndex e)"
    "\<And>d. vault_handler env e d = vault_commit env r qty d"
proof -
  from h new obtain qty r where guard: "\<not> (ce_eventType e \<noteq> ''VAULT_DEPOSIT'' \<and> ce_eventType e \<noteq> ''VAULT_WITHDRAW'')"
    "truthy (js_field ''wallet'' (raw_of e))" "truthy (js_field ''creatorId'' (raw_of e))"
    and qty: "positive_quantity (to_number (va_lib env) (js_field ''quantity'' (raw_of e))) = Some qty"
    and r: "vault_row env e = Some r"
    by (auto simp: vault_handler_def split: if_splits option.splits)
  have eq: "vault_handler env e d = vault_commit env r qty d" for d
    unfolding vault_handler_def if_not_P [OF guard(1)] using guard(2,3) qty r by simp
  from r have row: "va_decimal env (js_field ''quantity'' (raw_of e)) = Some (vl_quantity r)" "log_key r = (ce_txHash e, ce_eventIndex e)"
    by (auto simp: vault_row_def log_key_def split: js_value.splits option.splits)
  from qty have "to_number (va_lib env) (js_field ''quantity'' (raw_of e)) = Fin qty"
    by (auto simp: positive_quantity_def split: js_num.splits if_splits)
  with same row(1) have "fl (vl_quantity r) = qty" by (simp add: reads_same_def)
  then show thesis using that eq h row(2) by simp
qed

lemma run_vault_ok:
  "vault_ok env db \<Longrightarrow> list_all (\<lambda>e. reads_same env (js_field ''quantity'' (raw_of e))) es \<Longrightarrow>
    run_events (vault_handler env) es db = (res, db') \<Longrightarrow> vault_ok env db' \<and> vault_keeps db db'"
proof (induction es arbitrary: db)
  case (Cons e es)
  obtain x db1 where e: "vault_handler env e db = (x, db1)" by fastforce
  have 1: "vault_ok env db1 \<and> vault_keeps db db1"
  proof (cases "db1 = db")
    case False
    have same: "reads_same env (js_field ''quantity'' (raw_of e))" using Cons.prems(2) by simp
    obtain qty r where "vault_commit env r qty db = (x, db1)" "fl (vl_quantity r) = qty"
      by (rule vault_handler_okE [OF e False same]) (rule that)
    then show ?thesis using vault_commit_ok [OF Cons.prems(1)] False by blast
  qed (use Cons.prems in simp)
  show ?case
  proof (cases x)
    case (Inl err)
    then show ?thesis using Cons.prems(3) e 1 by simp
  next
    case (Inr u)
    then have "run_events (vault_handler env) es db1 = (res, db')" using Cons.prems(3) e by simp
    then show ?thesis using Cons.IH [of db1] Cons.prems(2) 1 by (auto intro: vault_keeps_trans)
  qed
qed simp

lemma vault_world_ok:
  assumes "vault_ok env db"
  shows "vault_ok env (db\<lparr>va_creators := cs, va_feeBps := b\<rparr>) \<and> vault_keeps db (db\<lparr>va_creators := cs, va_feeBps := b\<rparr>)"
proof -
  have "vault_held k (db\<lparr>va_creators := cs, va_feeBps := b\<rparr>) = vault_held k db"
    "log_of k (db\<lparr>va_creators := cs, va_feeBps := b\<rparr>) = log_of k db" for k
    by (simp_all add: vault_held_def log_of_def)
  then show ?thesis using assms by (simp add: vault_ok_def vault_keeps_def)
qed

lemma vault_step_ok: "vault_step env db db' \<Longrightarrow> vault_ok env db \<Longrightarrow> vault_ok env db' \<and> vault_keeps db db'"
proof (induction rule: vault_step.induct)
  case (batch es db res db')
  have "set (dedupeChainEvents es) \<subseteq> set es" for es :: "chain_event list"
  proof -
    have "set (dedupe_from s es) \<subseteq> set es" for s by (induction es arbitrary: s) (auto simp: Let_def)
    then show ?thesis by (simp add: dedupeChainEvents_def)
  qed
  then have "list_all (\<lambda>e. reads_same env (js_field ''quantity'' (raw_of e))) (dedupeChainEvents es)"
    using batch.hyps(2) by (auto simp: list_all_iff)
  then show ?case
    using run_vault_ok [OF batch.prems _ batch.hyps(1) [unfolded processVaultEvents_def processIndexerChainEvents_def]] by simp
next
  case world
  from world.prems show ?case by (rule vault_world_ok)
qed

lemma vault_steps_ok: "(vault_step env)\<^sup>*\<^sup>* db db' \<Longrightarrow> vault_ok env db \<Longrightarrow> vault_ok env db' \<and> vault_keeps db db'"
  by (induction rule: rtranclp_induct) (auto dest: vault_step_ok intro: vault_keeps_trans)


section \<open>A small vault\<close>

definition vault_env_example :: vault_env where
  "vault_env_example = \<lparr>va_lib = \<lparr>num_text = (\<lambda>_. []), parse_num = (\<lambda>s. if s = ''2'' then Fin 2 else NaN), parse_date = (\<lambda>_. None)\<rparr>,
    va_decimal = (\<lambda>v. if v = Jstr ''2'' then Some 2 else None), va_store = Some, va_groups = (\<lambda>ids. ids)\<rparr>"

definition vault_deposit :: chain_event where
  "vault_deposit = \<lparr>ce_txHash = ''x'', ce_eventIndex = 0, ce_ledger = Some 1, ce_eventType = ''VAULT_DEPOSIT'',
    ce_fields = [(''wallet'', Jstr ''w''), (''creatorId'', Jstr ''k''), (''quantity'', Jstr ''2'')]\<rparr>"

definition no_vault :: vault_db where
  "no_vault = \<lparr>va_positions = [], va_log = [], va_creators = [], va_feeBps = None\<rparr>"

definition vault_after_deposit :: vault_db where
  "vault_after_deposit = snd (processVaultEvents vault_env_example [vault_deposit, vault_deposit] no_vault)"

lemma vault_two: "fl 2 = 2"
  using fl_whole [of 2] by simp

lemma vault_deposit_fields:
  "js_field ''quantity'' (raw_of vault_deposit) = Jstr ''2''" "js_field ''wallet'' (raw_of vault_deposit) = Jstr ''w''"
  "js_field ''creatorId'' (raw_of vault_deposit) = Jstr ''k''"
  by (simp_all add: vault_deposit_def raw_of_def js_field_def)

definition vault_deposit_row :: vault_log where
  "vault_deposit_row = \<lparr>vl_deposit = True, vl_wallet = ''w'', vl_creatorId = ''k'', vl_quantity = 2, vl_ledger = 1,
    vl_txHash = ''x'', vl_eventIndex = 0\<rparr>"

lemma vault_deposit_handled: "vault_handler vault_env_example vault_deposit d = vault_commit vault_env_example vault_deposit_row 2 d"
proof -
  have "ce_eventType vault_deposit = ''VAULT_DEPOSIT''" by (simp add: vault_deposit_def)
  moreover have "vault_row vault_env_example vault_deposit = Some vault_deposit_row"
    unfolding vault_row_def vault_deposit_fields
    by (simp add: vault_env_example_def vault_deposit_row_def) (simp add: vault_deposit_def)
  moreover have "positive_quantity (to_number (va_lib vault_env_example) (Jstr ''2'')) = Some 2"
    by (simp add: positive_quantity_def vault_env_example_def)
  ultimately show ?thesis by (simp add: vault_handler_def vault_deposit_fields)
qed

lemma vault_deposit_positions: "vault_held (''w'', ''k'') vault_after_deposit = 2"
  by (simp add: vault_after_deposit_def processVaultEvents_def processIndexerChainEvents_def dedupeChainEvents_def
      vault_deposit_handled Let_def)
    (simp add: vault_commit_def vault_deposit_row_def no_vault_def next_quantity_def vault_held_def upsert_by_def insert_row_def
      position_key_def vault_two vault_env_example_def)


end
