(* ===== verification/Delegation.thy ===== *)
theory Delegation
  imports Governance Stake_Nfts
begin

text \<open>
  \<open>src/modules/governance/governance-delegation-indexer.service.ts\<close> and \<open>governance-delegation.service.ts\<close>:
  vote delegations per wallet and key, kept from chain events with their history; and
  \<open>src/modules/keys/key-proposal-votes.service.ts\<close>: votes whose weight is the voter's keys and those of the wallets
  that delegate to it.

  Caches, log lines, row ids and the payload of vote activities are left out. The vote reads and then writes in a
  transaction, so it is a check and a commit.
\<close>

section \<open>Tables\<close>

record delegation =
  dg_delegator :: string
  dg_keyId :: string
  dg_delegatee :: string
  dg_isActive :: bool
  dg_ledger :: int
  dg_txHash :: string
  dg_occurredAt :: instant

record delegation_event =
  dh_delegator :: string
  dh_keyId :: string
  dh_delegatee :: "string option"
  dh_set :: bool
  dh_ledger :: int
  dh_txHash :: string
  dh_eventIndex :: int
  dh_occurredAt :: instant

record key_holding =
  kh_owner :: string
  kh_creatorId :: string
  kh_balance :: rat

record delegation_db =
  dgRows :: "delegation list"
  dgHistory :: "delegation_event list"
  dgActivities :: "nft_activity list"

datatype delegation_error = DelegationValueRejected

definition delegation_key :: "delegation \<Rightarrow> string \<times> string" where
  "delegation_key d = (dg_delegator d, dg_keyId d)"

definition history_key :: "delegation_event \<Rightarrow> string \<times> int" where
  "history_key h = (dh_txHash h, dh_eventIndex h)"

definition recorded :: "chain_event \<Rightarrow> delegation_db \<Rightarrow> bool" where
  "recorded e db \<longleftrightarrow> (ce_txHash e, ce_eventIndex e) \<in> history_key ` set (dgHistory db)"

section \<open>Setting a delegation\<close>

definition DELEGATION_SET_REQUIRED_FIELDS :: "string list" where
  "DELEGATION_SET_REQUIRED_FIELDS =
    [''delegatorWallet'', ''delegateeWallet'', ''keyId'', ''occurredAt'', ''ledger'', ''txHash'', ''eventIndex'']"

definition read_scope :: "js_text_lib \<Rightarrow> chain_event \<Rightarrow> (string \<times> string \<times> instant) option" where
  "read_scope lib e =
    (case (js_field ''delegatorWallet'' (raw_of e), js_field ''keyId'' (raw_of e), new_date lib (js_field ''occurredAt'' (raw_of e))) of
      (Jstr delegator, Jstr key, Some t) \<Rightarrow> Some (delegator, key, t)
    | _ \<Rightarrow> None)"

definition history_row :: "chain_event \<Rightarrow> string \<Rightarrow> string \<Rightarrow> string option \<Rightarrow> instant \<Rightarrow> delegation_event" where
  "history_row e delegator key delegatee t =
    \<lparr>dh_delegator = delegator, dh_keyId = key, dh_delegatee = delegatee, dh_set = (delegatee \<noteq> None), dh_ledger = the (ce_ledger e),
     dh_txHash = ce_txHash e, dh_eventIndex = ce_eventIndex e, dh_occurredAt = t\<rparr>"

definition set_activity :: "chain_event \<Rightarrow> string \<Rightarrow> string \<Rightarrow> string \<Rightarrow> string option \<Rightarrow> instant \<Rightarrow> nft_activity" where
  "set_activity e delegator key delegatee previous t =
    \<lparr>na_type = ''GOVERNANCE_DELEGATION_SET'', na_actor = delegator, na_target = Some delegatee, na_creatorId = Some key,
     na_payload = [(''delegatorWallet'', Jstr delegator), (''delegateeWallet'', Jstr delegatee),
       (''previousDelegatee'', case previous of None \<Rightarrow> Jnull | Some p \<Rightarrow> Jstr p), (''keyId'', Jstr key),
       (''ledger_sequence'', Jnum (Fin (of_int (the (ce_ledger e)))))],
     na_createdAt = t\<rparr>"

text \<open>An event older than the stored state is only recorded.\<close>

definition set_commit :: "chain_event \<Rightarrow> string \<Rightarrow> string \<Rightarrow> string \<Rightarrow> instant \<Rightarrow> delegation_db \<Rightarrow> delegation_db" where
  "set_commit e delegator key delegatee t db =
    (let existing = find_by delegation_key (delegator, key) (dgRows db);
         ledger = the (ce_ledger e);
         history = insert_row (history_row e delegator key (Some delegatee) t) (dgHistory db)
     in if (case existing of Some d \<Rightarrow> dg_ledger d > ledger | None \<Rightarrow> False) then db\<lparr>dgHistory := history\<rparr>
        else db\<lparr>
          dgRows := upsert_by delegation_key (delegator, key)
            (\<lambda>d. d\<lparr>dg_delegatee := delegatee, dg_isActive := True, dg_ledger := ledger, dg_txHash := ce_txHash e, dg_occurredAt := t\<rparr>)
            \<lparr>dg_delegator = delegator, dg_keyId = key, dg_delegatee = delegatee, dg_isActive = True, dg_ledger = ledger,
             dg_txHash = ce_txHash e, dg_occurredAt = t\<rparr> (dgRows db),
          dgHistory := history,
          dgActivities := insert_row (set_activity e delegator key delegatee (map_option dg_delegatee existing) t) (dgActivities db)\<rparr>)"

definition set_handler :: "js_text_lib \<Rightarrow> chain_event \<Rightarrow> delegation_db \<Rightarrow> (delegation_error + unit) \<times> delegation_db" where
  "set_handler lib e db =
    (if ce_eventType e \<noteq> ''DELEGATION_SET'' \<or> \<not> all_present DELEGATION_SET_REQUIRED_FIELDS (raw_of e) \<or> recorded e db then (Inr (), db)
     else case read_scope lib e of
       None \<Rightarrow> (Inl DelegationValueRejected, db)
     | Some (delegator, key, t) \<Rightarrow> (case js_field ''delegateeWallet'' (raw_of e) of
         Jstr delegatee \<Rightarrow> (Inr (), set_commit e delegator key delegatee t db)
       | _ \<Rightarrow> (Inl DelegationValueRejected, db)))"

definition processDelegationSetEvents ::
  "js_text_lib \<Rightarrow> chain_event list \<Rightarrow> delegation_db \<Rightarrow> (delegation_error + unit) \<times> delegation_db" where
  "processDelegationSetEvents lib es db = processIndexerChainEvents (set_handler lib) es db"

section \<open>Revoking a delegation\<close>

definition DELEGATION_REVOKED_REQUIRED_FIELDS :: "string list" where
  "DELEGATION_REVOKED_REQUIRED_FIELDS = [''delegatorWallet'', ''keyId'', ''occurredAt'', ''ledger'', ''txHash'', ''eventIndex'']"

definition revoked_activity :: "chain_event \<Rightarrow> string \<Rightarrow> string \<Rightarrow> string \<Rightarrow> instant \<Rightarrow> nft_activity" where
  "revoked_activity e delegator key previous t =
    \<lparr>na_type = ''GOVERNANCE_DELEGATION_REVOKED'', na_actor = delegator, na_target = Some previous, na_creatorId = Some key,
     na_payload = [(''delegatorWallet'', Jstr delegator), (''revokedDelegatee'', Jstr previous), (''keyId'', Jstr key),
       (''ledger_sequence'', Jnum (Fin (of_int (the (ce_ledger e)))))],
     na_createdAt = t\<rparr>"

definition revoked_commit :: "chain_event \<Rightarrow> string \<Rightarrow> string \<Rightarrow> instant \<Rightarrow> delegation_db \<Rightarrow> delegation_db" where
  "revoked_commit e delegator key t db =
    (let history = insert_row (history_row e delegator key None t) (dgHistory db)
     in case find_by delegation_key (delegator, key) (dgRows db) of
          None \<Rightarrow> db\<lparr>dgHistory := history\<rparr>
        | Some d \<Rightarrow> db\<lparr>
            dgRows := modify_by delegation_key (delegator, key)
              (\<lambda>d. d\<lparr>dg_isActive := False, dg_ledger := the (ce_ledger e), dg_txHash := ce_txHash e, dg_occurredAt := t\<rparr>) (dgRows db),
            dgHistory := history,
            dgActivities := insert_row (revoked_activity e delegator key (dg_delegatee d) t) (dgActivities db)\<rparr>)"

definition revoked_handler :: "js_text_lib \<Rightarrow> chain_event \<Rightarrow> delegation_db \<Rightarrow> (delegation_error + unit) \<times> delegation_db" where
  "revoked_handler lib e db =
    (if ce_eventType e \<noteq> ''DELEGATION_REVOKED'' \<or> \<not> all_present DELEGATION_REVOKED_REQUIRED_FIELDS (raw_of e) \<or> recorded e db
     then (Inr (), db)
     else case read_scope lib e of
       None \<Rightarrow> (Inl DelegationValueRejected, db)
     | Some (delegator, key, t) \<Rightarrow> (Inr (), revoked_commit e delegator key t db))"

definition processDelegationRevokedEvents ::
  "js_text_lib \<Rightarrow> chain_event list \<Rightarrow> delegation_db \<Rightarrow> (delegation_error + unit) \<times> delegation_db" where
  "processDelegationRevokedEvents lib es db = processIndexerChainEvents (revoked_handler lib) es db"

section \<open>Reading delegations\<close>

text \<open>\<open>keyId\<close> narrows a query when it is given and not empty.\<close>

definition key_matches :: "string option \<Rightarrow> string \<Rightarrow> bool" where
  "key_matches keyId k \<longleftrightarrow> keyId = None \<or> keyId = Some [] \<or> keyId = Some k"

definition newest_by :: "('r \<Rightarrow> instant) \<Rightarrow> 'r list \<Rightarrow> 'r list" where
  "newest_by occurredAt rows = rev (sort_key occurredAt rows)"

definition getCurrentDelegate :: "string \<Rightarrow> string option \<Rightarrow> delegation_db \<Rightarrow> delegation option" where
  "getCurrentDelegate wallet keyId db =
    (case newest_by dg_occurredAt (filter (\<lambda>d. dg_delegator d = wallet \<and> dg_isActive d \<and> key_matches keyId (dg_keyId d)) (dgRows db)) of
      [] \<Rightarrow> None | d # _ \<Rightarrow> Some d)"

text \<open>A page and the number of rows in all.\<close>

definition getActiveDelegators :: "string \<Rightarrow> string option \<Rightarrow> nat \<Rightarrow> nat \<Rightarrow> delegation_db \<Rightarrow> delegation list \<times> nat" where
  "getActiveDelegators wallet keyId per skip db =
    (let rows = filter (\<lambda>d. dg_delegatee d = wallet \<and> dg_isActive d \<and> key_matches keyId (dg_keyId d)) (dgRows db)
     in (take per (drop skip (newest_by dg_occurredAt rows)), length rows))"

definition getDelegationHistory :: "string \<Rightarrow> string option \<Rightarrow> nat \<Rightarrow> nat \<Rightarrow> delegation_db \<Rightarrow> delegation_event list \<times> nat" where
  "getDelegationHistory wallet keyId per skip db =
    (let rows = filter (\<lambda>h. (dh_delegator h = wallet \<or> dh_delegatee h = Some wallet) \<and> key_matches keyId (dh_keyId h)) (dgHistory db)
     in (take per (drop skip (newest_by dh_occurredAt rows)), length rows))"

definition active_delegators :: "string \<Rightarrow> string \<Rightarrow> delegation_db \<Rightarrow> string list" where
  "active_delegators delegatee keyId db =
    map dg_delegator (filter (\<lambda>d. dg_delegatee d = delegatee \<and> dg_keyId d = keyId \<and> dg_isActive d) (dgRows db))"

definition getDelegatedVoteWeight :: "string \<Rightarrow> string \<Rightarrow> key_holding list \<Rightarrow> delegation_db \<Rightarrow> rat" where
  "getDelegatedVoteWeight delegatee keyId held db =
    (let wallets = active_delegators delegatee keyId db
     in if wallets = [] then 0
        else fl (sum_list (map kh_balance
          (filter (\<lambda>r. kh_owner r \<in> set wallets \<and> kh_creatorId r = keyId \<and> 0 < kh_balance r) held))))"

section \<open>Voting with delegated weight\<close>

datatype delegated_vote_error =
    ProposalNotFoundOrClosed
  | OptionIndexOutOfRange int nat
  | HolderNotEligible string
  | DuplicateVote
  | VoteUniqueViolation
  | VoteLanguageError js_error

record delegated_ballot =
  db_keyId :: string
  db_proposalId :: string
  db_wallet :: string
  db_optionIndex :: nat
  db_option :: string
  db_weight :: string
  db_ownWeight :: string
  db_delegatedWeight :: string
  db_delegatorCount :: nat

definition getProposalForVoting :: "string \<Rightarrow> string \<Rightarrow> gov_db \<Rightarrow> (proposal_status \<times> string list) option" where
  "getProposalForVoting keyId proposalId gov =
    map_option (\<lambda>p. (g_status p, options_of p)) (find_by prop_key (keyId, proposalId) (gprops gov))"

definition hasWalletVoted :: "string \<Rightarrow> string \<Rightarrow> string \<Rightarrow> gov_db \<Rightarrow> bool" where
  "hasWalletVoted keyId proposalId wallet gov \<longleftrightarrow> find_vote keyId proposalId wallet gov \<noteq> None"

definition own_balance :: "string \<Rightarrow> string \<Rightarrow> key_holding list \<Rightarrow> rat" where
  "own_balance wallet keyId held =
    (case find_by (\<lambda>r. (kh_owner r, kh_creatorId r)) (wallet, keyId) held of Some r \<Rightarrow> fl (kh_balance r) | None \<Rightarrow> 0)"

definition delegated_vote_check ::
  "js_text_lib \<Rightarrow> string \<Rightarrow> string \<Rightarrow> int \<Rightarrow> string \<Rightarrow> key_holding list \<Rightarrow> delegation_db \<Rightarrow> gov_db \<Rightarrow>
    delegated_vote_error + delegated_ballot" where
  "delegated_vote_check lib keyId proposalId optionIndex wallet held db gov =
    (case getProposalForVoting keyId proposalId gov of
      None \<Rightarrow> Inl ProposalNotFoundOrClosed
    | Some (_, options) \<Rightarrow>
        if optionIndex < 0 \<or> optionIndex \<ge> int (length options) then Inl (OptionIndexOutOfRange optionIndex (length options))
        else
          let ownBalance = own_balance wallet keyId held
          in if ownBalance \<le> 0 then Inl (HolderNotEligible wallet)
             else if hasWalletVoted keyId proposalId wallet gov then Inl DuplicateVote
             else
               let delegated = getDelegatedVoteWeight wallet keyId held db
               in Inr \<lparr>db_keyId = keyId, db_proposalId = proposalId, db_wallet = wallet, db_optionIndex = nat optionIndex,
                    db_option = options ! nat optionIndex, db_weight = num_text lib (Fin (fl (ownBalance + delegated))),
                    db_ownWeight = num_text lib (Fin ownBalance), db_delegatedWeight = num_text lib (Fin delegated),
                    db_delegatorCount = length (active_delegators wallet keyId db)\<rparr>)"

definition delegated_vote_commit ::
  "decimal_lib \<Rightarrow> instant \<Rightarrow> delegated_ballot \<Rightarrow> gov_db \<Rightarrow> delegated_vote_error + gov_db" where
  "delegated_vote_commit dec now b gov =
    (let k = (db_keyId b, db_proposalId b)
     in case find_by prop_key k (gprops gov) of
          None \<Rightarrow> Inl ProposalNotFoundOrClosed
        | Some p \<Rightarrow>
            if g_status p \<noteq> Active then Inl ProposalNotFoundOrClosed
            else (case applyVoteWeight (g_tally p) (db_weight b) (db_option b) of
              Inl e \<Rightarrow> Inl (VoteLanguageError e)
            | Inr tallies \<Rightarrow>
                if find_vote (db_keyId b) (db_proposalId b) (db_wallet b) gov \<noteq> None then Inl VoteUniqueViolation
                else Inr (gov\<lparr>
                  gprops := modify_by prop_key k (\<lambda>p. p\<lparr>g_tally := tallies\<rparr>) (gprops gov),
                  votes := votes gov @ [\<lparr>v_keyId = db_keyId b, v_proposalId = db_proposalId b, v_voter = db_wallet b,
                    v_optionIndex = db_optionIndex b, v_weight = dec_parse dec (db_weight b), v_createdAt = now\<rparr>],
                  activities := activities gov @ [\<lparr>act_type = ''GOVERNANCE_VOTE_CAST'', act_actor = db_wallet b,
                    act_creatorId = db_keyId b, act_proposalId = db_proposalId b\<rparr>]\<rparr>)))"

definition castKeyProposalVote ::
  "decimal_lib \<Rightarrow> js_text_lib \<Rightarrow> instant \<Rightarrow> string \<Rightarrow> string \<Rightarrow> int \<Rightarrow> string \<Rightarrow> key_holding list \<Rightarrow> delegation_db \<Rightarrow> gov_db \<Rightarrow>
    delegated_vote_error + delegated_ballot \<times> gov_db" where
  "castKeyProposalVote dec lib now keyId proposalId optionIndex wallet held db gov =
    and_then (delegated_vote_check lib keyId proposalId optionIndex wallet held db gov) (\<lambda>b.
    and_then (delegated_vote_commit dec now b gov) (\<lambda>gov'. Inr (b, gov')))"

section \<open>The delegated weight follows the events\<close>

definition delegation_history :: "string \<times> string \<Rightarrow> delegation_db \<Rightarrow> delegation_event list" where
  "delegation_history k db = filter (\<lambda>h. (dh_delegator h, dh_keyId h) = k) (dgHistory db)"

text \<open>The delegatee after an event, and whether the delegation is active.\<close>

definition after_event :: "delegation_event \<Rightarrow> (string \<times> bool) option \<Rightarrow> (string \<times> bool) option" where
  "after_event h acc = (case dh_delegatee h of Some d \<Rightarrow> Some (d, True) | None \<Rightarrow> map_option (\<lambda>(d, _). (d, False)) acc)"

definition delegate_now :: "delegation_event list \<Rightarrow> (string \<times> bool) option" where
  "delegate_now hs = fold after_event hs None"

text \<open>An event is timely when it is a repetition, or not older than what is recorded for its wallet and key.\<close>

definition timely :: "chain_event \<Rightarrow> delegation_db \<Rightarrow> bool" where
  "timely e db \<longleftrightarrow> recorded e db \<or> (\<forall>h \<in> set (dgHistory db).
    js_field ''delegatorWallet'' (raw_of e) = Jstr (dh_delegator h) \<and> js_field ''keyId'' (raw_of e) = Jstr (dh_keyId h) \<longrightarrow>
    dh_ledger h \<le> the (ce_ledger e))"

text \<open>The events of the batches, one by one.\<close>

inductive delegation_step :: "js_text_lib \<Rightarrow> delegation_db \<Rightarrow> delegation_db \<Rightarrow> bool" for lib where
  set: "timely e db \<Longrightarrow> set_handler lib e db = (res, db') \<Longrightarrow> delegation_step lib db db'"
| revoked: "timely e db \<Longrightarrow> revoked_handler lib e db = (res, db') \<Longrightarrow> delegation_step lib db db'"

definition delegation_ok :: "delegation_db \<Rightarrow> bool" where
  "delegation_ok db \<longleftrightarrow> distinct (map history_key (dgHistory db)) \<and> distinct (map delegation_key (dgRows db)) \<and>
    (\<forall>d \<in> set (dgRows db). \<exists>h \<in> set (dgHistory db). dh_ledger h = dg_ledger d \<and> (dh_delegator h, dh_keyId h) = delegation_key d) \<and>
    (\<forall>k. map_option (\<lambda>d. (dg_delegatee d, dg_isActive d)) (find_by delegation_key k (dgRows db)) =
      delegate_now (delegation_history k db))"

definition history_kept :: "delegation_db \<Rightarrow> delegation_db \<Rightarrow> bool" where
  "history_kept db db' \<longleftrightarrow> set (dgHistory db) \<subseteq> set (dgHistory db')"

text \<open>A row is written with the ledger of the event recorded with it.\<close>

lemma delegation_write_ok:
  assumes ok: "delegation_ok db" and new: "\<not> recorded e db"
    and hist: "dgHistory db' = dgHistory db @ [history_row e w k delegatee t]"
    and dist: "distinct (map delegation_key (dgRows db'))"
    and rows: "\<forall>d \<in> set (dgRows db'). d \<in> set (dgRows db) \<or> delegation_key d = (w, k) \<and> dg_ledger d = the (ce_ledger e)"
    and cur: "\<And>x. map_option (\<lambda>d. (dg_delegatee d, dg_isActive d)) (find_by delegation_key x (dgRows db')) =
      (if x = (w, k) then after_event (history_row e w k delegatee t) (delegate_now (delegation_history x db))
       else delegate_now (delegation_history x db))"
  shows "delegation_ok db' \<and> history_kept db db' \<and> recorded e db'"
proof -
  have key: "history_key (history_row e w k delegatee t) = (ce_txHash e, ce_eventIndex e)"
    by (simp add: history_key_def history_row_def)
  have hk: "delegation_history x db' = delegation_history x db @ (if x = (w, k) then [history_row e w k delegatee t] else [])" for x
    by (auto simp: delegation_history_def hist history_row_def)
  have "map_option (\<lambda>d. (dg_delegatee d, dg_isActive d)) (find_by delegation_key x (dgRows db')) = delegate_now (delegation_history x db')" for x
    by (simp add: cur hk delegate_now_def)
  moreover have "\<exists>h \<in> set (dgHistory db'). dh_ledger h = dg_ledger d \<and> (dh_delegator h, dh_keyId h) = delegation_key d"
    if d: "d \<in> set (dgRows db')" for d
  proof -
    from rows d consider "d \<in> set (dgRows db)" | "delegation_key d = (w, k)" "dg_ledger d = the (ce_ledger e)" by blast
    then show ?thesis
    proof cases
      case 1
      then have "\<exists>h \<in> set (dgHistory db). dh_ledger h = dg_ledger d \<and> (dh_delegator h, dh_keyId h) = delegation_key d"
        using ok unfolding delegation_ok_def by blast
      then show ?thesis unfolding hist by auto
    next
      case 2
      then show ?thesis by (simp add: hist history_row_def)
    qed
  qed
  moreover have "distinct (map history_key (dgHistory db'))"
    using ok new by (simp add: hist key delegation_ok_def recorded_def)
  ultimately show ?thesis
    using dist by (simp add: delegation_ok_def history_kept_def recorded_def hist key subset_insertI)
qed

lemma current_delegation: "delegation_ok db \<Longrightarrow>
    map_option (\<lambda>d. (dg_delegatee d, dg_isActive d)) (find_by delegation_key k (dgRows db)) = delegate_now (delegation_history k db)"
  unfolding delegation_ok_def by blast

lemma stored_ledger_le:
  assumes ok: "delegation_ok db" and late: "\<forall>h \<in> set (dgHistory db). (dh_delegator h, dh_keyId h) = k \<longrightarrow> dh_ledger h \<le> l"
    and d: "find_by delegation_key k (dgRows db) = Some d"
  shows "dg_ledger d \<le> l"
proof -
  have d': "d \<in> set (dgRows db)" "delegation_key d = k" using find_by_SomeD [OF d] by simp_all
  with ok obtain h where "h \<in> set (dgHistory db)" "dh_ledger h = dg_ledger d" "(dh_delegator h, dh_keyId h) = k"
    unfolding delegation_ok_def by metis
  then show ?thesis using late by auto
qed

lemma set_commit_ok:
  assumes ok: "delegation_ok db" and new: "\<not> recorded e db"
    and late: "\<forall>h \<in> set (dgHistory db). (dh_delegator h, dh_keyId h) = (w, k) \<longrightarrow> dh_ledger h \<le> the (ce_ledger e)"
  shows "delegation_ok (set_commit e w k g t db) \<and> history_kept db (set_commit e w k g t db) \<and> recorded e (set_commit e w k g t db)"
proof (rule delegation_write_ok [OF ok new])
  let ?db = "set_commit e w k g t db"
  let ?f = "\<lambda>d. d\<lparr>dg_delegatee := g, dg_isActive := True, dg_ledger := the (ce_ledger e), dg_txHash := ce_txHash e, dg_occurredAt := t\<rparr>"
  let ?r = "\<lparr>dg_delegator = w, dg_keyId = k, dg_delegatee = g, dg_isActive = True, dg_ledger = the (ce_ledger e),
    dg_txHash = ce_txHash e, dg_occurredAt = t\<rparr>"
  have fresh: "\<not> (case find_by delegation_key (w, k) (dgRows db) of Some d \<Rightarrow> dg_ledger d > the (ce_ledger e) | None \<Rightarrow> False)"
    using stored_ledger_le [OF ok late] by (auto split: option.split simp: not_less)
  show "dgHistory ?db = dgHistory db @ [history_row e w k (Some g) t]"
    unfolding set_commit_def Let_def if_not_P [OF fresh] by (simp add: insert_row_def)
  have rows: "dgRows ?db = upsert_by delegation_key (w, k) ?f ?r (dgRows db)"
    unfolding set_commit_def Let_def if_not_P [OF fresh] by simp
  have key: "delegation_key ?r = (w, k)" "\<And>d. delegation_key d = (w, k) \<Longrightarrow> delegation_key (?f d) = (w, k)"
    by (simp_all add: delegation_key_def)
  show "distinct (map delegation_key (dgRows ?db))"
    unfolding rows by (rule distinct_upsert) (use ok key in \<open>auto simp: delegation_ok_def\<close>)
  show "\<forall>d \<in> set (dgRows ?db). d \<in> set (dgRows db) \<or> delegation_key d = (w, k) \<and> dg_ledger d = the (ce_ledger e)"
    unfolding rows upsert_by_def using key
    by (auto split: option.splits simp: set_modify_by split: if_splits)
  fix x
  have "find_by delegation_key x (dgRows ?db) = (if x = (w, k) then Some (case find_by delegation_key (w, k) (dgRows db) of
      None \<Rightarrow> ?r | Some d \<Rightarrow> ?f d) else find_by delegation_key x (dgRows db))"
    unfolding rows by (rule find_by_upsert) (use key in auto)
  then show "map_option (\<lambda>d. (dg_delegatee d, dg_isActive d)) (find_by delegation_key x (dgRows ?db)) =
      (if x = (w, k) then after_event (history_row e w k (Some g) t) (delegate_now (delegation_history x db))
       else delegate_now (delegation_history x db))"
    using current_delegation [OF ok, of x] by (simp add: after_event_def history_row_def split: option.split)
qed

lemma revoked_commit_ok:
  assumes ok: "delegation_ok db" and new: "\<not> recorded e db"
  shows "delegation_ok (revoked_commit e w k t db) \<and> history_kept db (revoked_commit e w k t db) \<and> recorded e (revoked_commit e w k t db)"
proof (rule delegation_write_ok [OF ok new])
  let ?db = "revoked_commit e w k t db"
  let ?f = "\<lambda>d. d\<lparr>dg_isActive := False, dg_ledger := the (ce_ledger e), dg_txHash := ce_txHash e, dg_occurredAt := t\<rparr>"
  show "dgHistory ?db = dgHistory db @ [history_row e w k None t]"
    by (simp add: revoked_commit_def insert_row_def Let_def split: option.split)
  have key: "\<And>d. delegation_key d = (w, k) \<Longrightarrow> delegation_key (?f d) = (w, k)" by (simp add: delegation_key_def)
  have rows: "dgRows ?db = modify_by delegation_key (w, k) ?f (dgRows db)"
  proof (cases "find_by delegation_key (w, k) (dgRows db)")
    case None
    then have "(w, k) \<notin> delegation_key ` set (dgRows db)" by (simp add: find_by_None_iff)
    then have "modify_by delegation_key (w, k) ?f (dgRows db) = dgRows db"
      unfolding modify_by_def by (intro map_idI) (auto simp: rev_image_eqI)
    then show ?thesis using None by (simp add: revoked_commit_def Let_def)
  qed (simp add: revoked_commit_def Let_def)
  have keys: "map delegation_key (dgRows ?db) = map delegation_key (dgRows db)"
    unfolding rows by (rule keys_modify_by) (use key in auto)
  show "distinct (map delegation_key (dgRows ?db))" unfolding keys using ok by (simp add: delegation_ok_def)
  show "\<forall>d \<in> set (dgRows ?db). d \<in> set (dgRows db) \<or> delegation_key d = (w, k) \<and> dg_ledger d = the (ce_ledger e)"
    unfolding rows using key by (auto simp: set_modify_by split: if_splits)
  fix x
  have "find_by delegation_key x (dgRows ?db) =
      (if x = (w, k) then map_option ?f (find_by delegation_key (w, k) (dgRows db)) else find_by delegation_key x (dgRows db))"
    unfolding rows by (rule find_by_modify_by) (use key in auto)
  then show "map_option (\<lambda>d. (dg_delegatee d, dg_isActive d)) (find_by delegation_key x (dgRows ?db)) =
      (if x = (w, k) then after_event (history_row e w k None t) (delegate_now (delegation_history x db))
       else delegate_now (delegation_history x db))"
    using current_delegation [OF ok, of x] by (auto simp: after_event_def history_row_def option.map_comp comp_def simp flip: current_delegation [OF ok])
qed

lemma read_scopeD: "read_scope lib e = Some (w, k, t) \<Longrightarrow>
    js_field ''delegatorWallet'' (raw_of e) = Jstr w \<and> js_field ''keyId'' (raw_of e) = Jstr k"
  by (auto simp: read_scope_def split: js_value.splits option.splits)

lemma timely_scope:
  assumes "timely e db" "\<not> recorded e db" "read_scope lib e = Some (w, k, t)"
  shows "\<forall>h \<in> set (dgHistory db). (dh_delegator h, dh_keyId h) = (w, k) \<longrightarrow> dh_ledger h \<le> the (ce_ledger e)"
  using assms(1,2) read_scopeD [OF assms(3)] by (auto simp: timely_def)

lemma set_handler_ok:
  assumes ok: "delegation_ok db" and time: "timely e db" and h: "set_handler lib e db = (res, db')"
  shows "delegation_ok db' \<and> history_kept db db' \<and> (db' = db \<or> recorded e db' \<and> ce_eventType e = ''DELEGATION_SET'')"
proof (cases "db' = db")
  case False
  then obtain w k t g where g: "ce_eventType e = ''DELEGATION_SET''" "\<not> recorded e db" and r: "read_scope lib e = Some (w, k, t)"
    and db': "db' = set_commit e w k g t db"
    using h by (auto simp: set_handler_def split: if_splits option.splits js_value.splits)
  from set_commit_ok [OF ok g(2) timely_scope [OF time g(2) r]] g(1) show ?thesis by (simp add: db')
qed (use ok in \<open>simp add: history_kept_def\<close>)

lemma revoked_handler_ok:
  assumes ok: "delegation_ok db" and h: "revoked_handler lib e db = (res, db')"
  shows "delegation_ok db' \<and> history_kept db db' \<and> (db' = db \<or> recorded e db' \<and> ce_eventType e = ''DELEGATION_REVOKED'')"
proof (cases "db' = db")
  case False
  then obtain w k t where g: "ce_eventType e = ''DELEGATION_REVOKED''" "\<not> recorded e db" and db': "db' = revoked_commit e w k t db"
    using h by (auto simp: revoked_handler_def split: if_splits option.splits)
  from revoked_commit_ok [OF ok g(2)] g(1) show ?thesis by (simp add: db')
qed (use ok in \<open>simp add: history_kept_def\<close>)

lemma delegation_step_ok: "delegation_step lib db db' \<Longrightarrow> delegation_ok db \<Longrightarrow> delegation_ok db' \<and> history_kept db db'"
  by (erule delegation_step.cases) (use set_handler_ok revoked_handler_ok in blast)+

lemma delegation_steps_ok: "(delegation_step lib)\<^sup>*\<^sup>* db db' \<Longrightarrow> delegation_ok db \<Longrightarrow> delegation_ok db' \<and> history_kept db db'"
proof (induction rule: rtranclp_induct)
  case (step y z)
  then show ?case using delegation_step_ok [of lib y z] by (auto simp: history_kept_def)
qed (simp add: history_kept_def)

text \<open>The wallets whose latest event delegates to a wallet.\<close>

definition delegates_to :: "string \<Rightarrow> string \<Rightarrow> delegation_db \<Rightarrow> string \<Rightarrow> bool" where
  "delegates_to g k db w \<longleftrightarrow> delegate_now (delegation_history (w, k) db) = Some (g, True)"

lemma active_delegators_iff:
  assumes ok: "delegation_ok db"
  shows "w \<in> set (active_delegators g k db) \<longleftrightarrow> delegates_to g k db w"
proof
  assume "w \<in> set (active_delegators g k db)"
  then obtain d where d: "d \<in> set (dgRows db)" "dg_delegatee d = g" "dg_isActive d" "delegation_key d = (w, k)"
    by (auto simp: active_delegators_def delegation_key_def)
  have dist: "distinct (map delegation_key (dgRows db))" using ok by (simp add: delegation_ok_def)
  have "find_by delegation_key (w, k) (dgRows db) = Some d" using find_by_distinct [OF dist d(1)] d(4) by simp
  then show "delegates_to g k db w" using current_delegation [OF ok, of "(w, k)"] d by (simp add: delegates_to_def)
next
  assume "delegates_to g k db w"
  then obtain d where d: "find_by delegation_key (w, k) (dgRows db) = Some d" "dg_delegatee d = g" "dg_isActive d"
    using current_delegation [OF ok, of "(w, k)"] by (auto simp: delegates_to_def)
  have "d \<in> set (dgRows db) \<and> delegation_key d = (w, k)" using find_by_SomeD [OF d(1)] .
  then show "w \<in> set (active_delegators g k db)" using d by (force simp: active_delegators_def delegation_key_def)
qed


section \<open>Small runs\<close>

definition whole_lib :: js_text_lib where
  "whole_lib = \<lparr>num_text = (\<lambda>n. case n of Fin q \<Rightarrow> show_int \<lfloor>q\<rfloor> | _ \<Rightarrow> ''NaN''), parse_num = (\<lambda>_. NaN), parse_date = (\<lambda>_. Some 5)\<rparr>"

definition bob_delegates :: "int \<Rightarrow> chain_event" where
  "bob_delegates l = \<lparr>ce_txHash = ''s'', ce_eventIndex = 0, ce_ledger = Some l, ce_eventType = ''DELEGATION_SET'',
    ce_fields = [(''delegatorWallet'', Jstr ''bob''), (''delegateeWallet'', Jstr ''ann''), (''keyId'', Jstr ''k''), (''occurredAt'', Jstr ''now'')]\<rparr>"

definition bob_revokes :: "int \<Rightarrow> chain_event" where
  "bob_revokes l = \<lparr>ce_txHash = ''r'', ce_eventIndex = 0, ce_ledger = Some l, ce_eventType = ''DELEGATION_REVOKED'',
    ce_fields = [(''delegatorWallet'', Jstr ''bob''), (''keyId'', Jstr ''k''), (''occurredAt'', Jstr ''now'')]\<rparr>"

definition no_delegations :: delegation_db where
  "no_delegations = \<lparr>dgRows = [], dgHistory = [], dgActivities = []\<rparr>"

definition bob_delegated :: delegation_db where
  "bob_delegated = snd (set_handler whole_lib (bob_delegates 1) no_delegations)"

definition two_holders :: "key_holding list" where
  "two_holders = [\<lparr>kh_owner = ''ann'', kh_creatorId = ''k'', kh_balance = 1\<rparr>, \<lparr>kh_owner = ''bob'', kh_creatorId = ''k'', kh_balance = 1\<rparr>]"

lemma bob_history: "map (\<lambda>h. (dh_delegator h, dh_keyId h, dh_delegatee h)) (dgHistory bob_delegated) = [(''bob'', ''k'', Some ''ann'')]"
  by code_simp

lemma bob_delegates_to_ann: "delegates_to ''ann'' ''k'' bob_delegated w = (w = ''bob'')"
proof -
  obtain h where h: "dgHistory bob_delegated = [h]" "dh_delegator h = ''bob''" "dh_keyId h = ''k''" "dh_delegatee h = Some ''ann''"
    using bob_history by (auto simp: map_eq_Cons_conv)
  then show ?thesis by (auto simp: delegates_to_def delegate_now_def delegation_history_def after_event_def)
qed


text \<open>A revocation of ledger 3 that arrives after the delegation of ledger 5 ends it.\<close>

lemma stale_revocation_ends_delegation:
  "map dg_isActive (dgRows (snd (revoked_handler whole_lib (bob_revokes 3) (snd (set_handler whole_lib (bob_delegates 5) no_delegations))))) = [False]"
  by code_simp

end
