(* ===== verification/Invoice_Orders.thy ===== *)
theory Invoice_Orders
  imports Js_Values
begin

text \<open>
  \<open>src/modules/invoice/invoice-market.service.ts\<close>: purchases of invoices signed by their buyers, limit orders
  that store such an envelope, and the workers that submit them under a lease.

  \<open>io_decode\<close> decodes the XDR of a transaction, \<open>io_transfer\<close> is the answer of the transfer check of the contract,
  \<open>io_lease\<close> the length of a lease from the configuration. What became of a submission is an argument of the
  functions that record it. Row ids and lease tokens are arguments.
\<close>

section \<open>Signed envelopes\<close>

text \<open>Arguments of an invocation: addresses, \<open>u64\<close>, the other three integer types, and the rest.\<close>

datatype sc_value = ScAddress string | ScU64 int | ScInteger int | ScOther

datatype signed_operation = Invoke "string option" string string "sc_value list" | OtherOperation

record signed_envelope =
  sg_operations :: "signed_operation list"
  sg_source :: string
  sg_signatures :: nat
  sg_hash :: string

record market_abi =
  ab_function :: string
  ab_from :: nat
  ab_to :: nat
  ab_invoice :: nat
  ab_limitPrice :: "nat option"

datatype invoice_error =
    InvalidInvoiceTransaction
  | InvoiceProtocolUnavailable
  | InvoiceNotFound
  | TransferBlocked string string

record invoice_env =
  io_market :: "string option"
  io_abi :: "market_abi option"
  io_decode :: "string \<Rightarrow> signed_envelope option"
  io_transfer :: "string \<Rightarrow> string \<Rightarrow> string \<Rightarrow> invoice_error + unit"
  io_lease :: int

text \<open>\<open>abiSchema\<close>: the indexes are below 32 and distinct.\<close>

definition abi_indexes :: "market_abi \<Rightarrow> nat list" where
  "abi_indexes a = [ab_from a, ab_to a, ab_invoice a] @ (case ab_limitPrice a of Some i \<Rightarrow> [i] | None \<Rightarrow> [])"

definition abi_ok :: "market_abi \<Rightarrow> bool" where
  "abi_ok a \<longleftrightarrow> list_all (\<lambda>i. i \<le> 31) (abi_indexes a) \<and> distinct (abi_indexes a)"

definition marketAbi :: "invoice_env \<Rightarrow> invoice_error + string \<times> market_abi" where
  "marketAbi env =
    (case (io_market env, io_abi env) of
      (Some (c # cs), Some a) \<Rightarrow> if abi_ok a then Inr (c # cs, a) else Inl InvoiceProtocolUnavailable
    | _ \<Rightarrow> Inl InvoiceProtocolUnavailable)"

definition decodeEnvelope :: "invoice_env \<Rightarrow> string \<Rightarrow> invoice_error + signed_envelope" where
  "decodeEnvelope env xdr = (case io_decode env xdr of Some e \<Rightarrow> Inr e | None \<Rightarrow> Inl InvalidInvoiceTransaction)"

definition argument :: "sc_value list \<Rightarrow> nat \<Rightarrow> sc_value option" where
  "argument args i = (if i < length args then Some (args ! i) else None)"

definition address_argument :: "sc_value list \<Rightarrow> nat \<Rightarrow> invoice_error + string" where
  "address_argument args i = (case argument args i of Some (ScAddress a) \<Rightarrow> Inr a | _ \<Rightarrow> Inl InvalidInvoiceTransaction)"

definition unsignedId :: "sc_value option \<Rightarrow> invoice_error + string" where
  "unsignedId v = (case v of Some (ScU64 n) \<Rightarrow> Inr (show_int n) | _ \<Rightarrow> Inl InvalidInvoiceTransaction)"

definition limit_argument :: "sc_value list \<Rightarrow> nat option \<Rightarrow> invoice_error + int option" where
  "limit_argument args i =
    (case i of
      None \<Rightarrow> Inr None
    | Some j \<Rightarrow>
        (case argument args j of
          Some (ScU64 n) \<Rightarrow> if n \<le> 0 then Inl InvalidInvoiceTransaction else Inr (Some n)
        | Some (ScInteger n) \<Rightarrow> if n \<le> 0 then Inl InvalidInvoiceTransaction else Inr (Some n)
        | _ \<Rightarrow> Inl InvalidInvoiceTransaction))"

record invoice_purchase =
  pu_from :: string
  pu_to :: string
  pu_invoiceId :: string
  pu_limitPrice :: "string option"
  pu_txHash :: string

definition inspectInvoicePurchase :: "invoice_env \<Rightarrow> string \<Rightarrow> string \<Rightarrow> invoice_error + invoice_purchase" where
  "inspectInvoicePurchase env xdr buyer =
    and_then (marketAbi env) (\<lambda>(market, abi).
    and_then (decodeEnvelope env xdr) (\<lambda>e.
      if length (sg_operations e) \<noteq> 1 \<or> sg_source e \<noteq> buyer \<or> sg_signatures e = 0 then Inl InvalidInvoiceTransaction
      else case hd (sg_operations e) of
        OtherOperation \<Rightarrow> Inl InvalidInvoiceTransaction
      | Invoke opSource contract func args \<Rightarrow>
          if opSource \<noteq> None \<and> opSource \<noteq> Some [] \<and> opSource \<noteq> Some buyer then Inl InvalidInvoiceTransaction
          else if contract \<noteq> market \<or> func \<noteq> ab_function abi then Inl InvalidInvoiceTransaction
          else
            and_then (address_argument args (ab_from abi)) (\<lambda>from_wallet.
            and_then (address_argument args (ab_to abi)) (\<lambda>to_wallet.
              if to_wallet \<noteq> buyer then Inl InvalidInvoiceTransaction
              else
                and_then (unsignedId (argument args (ab_invoice abi))) (\<lambda>invoiceId.
                and_then (limit_argument args (ab_limitPrice abi)) (\<lambda>limitPrice.
                  Inr \<lparr>pu_from = from_wallet, pu_to = to_wallet, pu_invoiceId = invoiceId,
                    pu_limitPrice = map_option show_int limitPrice, pu_txHash = sg_hash e\<rparr>))))))"

text \<open>The check of every submission; one that does not touch the market passes.\<close>

definition touches_market :: "string \<Rightarrow> signed_operation \<Rightarrow> bool" where
  "touches_market market op = (case op of Invoke _ contract _ _ \<Rightarrow> contract = market | OtherOperation \<Rightarrow> False)"

definition guardInvoiceMarketSubmission :: "invoice_env \<Rightarrow> string \<Rightarrow> string \<Rightarrow> invoice_error + unit" where
  "guardInvoiceMarketSubmission env xdr submitter =
    (case io_market env of
      Some (c # cs) \<Rightarrow>
        and_then (decodeEnvelope env xdr) (\<lambda>e.
          if \<not> list_ex (touches_market (c # cs)) (sg_operations e) then Inr ()
          else and_then (inspectInvoicePurchase env xdr submitter) (\<lambda>p. io_transfer env (pu_from p) (pu_to p) (pu_invoiceId p)))
    | _ \<Rightarrow> Inr ())"

section \<open>Limit orders\<close>

datatype order_status = OrderPending | OrderSubmitting | OrderFilled | OrderFailed

record limit_order =
  lo_id :: string
  lo_invoiceId :: string
  lo_from :: string
  lo_buyer :: string
  lo_limitPrice :: string
  lo_xdr :: string
  lo_txHash :: string
  lo_status :: order_status
  lo_leaseUntil :: "instant option"
  lo_leaseToken :: "string option"
  lo_createdAt :: instant

record invoice_row =
  iv_id :: string
  iv_seller :: string

record invoice_db =
  io_invoices :: "invoice_row list"
  io_orders :: "limit_order list"

definition requireInvoice :: "string \<Rightarrow> invoice_db \<Rightarrow> invoice_error + invoice_row" where
  "requireInvoice invoiceId db = (case find_by iv_id invoiceId (io_invoices db) of Some i \<Rightarrow> Inr i | None \<Rightarrow> Inl InvoiceNotFound)"

definition validateInvoicePurchase ::
  "invoice_env \<Rightarrow> string \<Rightarrow> string \<Rightarrow> string \<Rightarrow> invoice_db \<Rightarrow> invoice_error + invoice_purchase" where
  "validateInvoicePurchase env invoiceId buyer xdr db =
    and_then (inspectInvoicePurchase env xdr buyer) (\<lambda>p.
    and_then (requireInvoice invoiceId db) (\<lambda>invoice.
      if pu_invoiceId p \<noteq> invoiceId \<or> pu_from p \<noteq> iv_seller invoice then Inl InvalidInvoiceTransaction else Inr p))"

text \<open>A second order for the same transaction returns the first.\<close>

definition placeInvoiceLimitOrder ::
  "invoice_env \<Rightarrow> instant \<Rightarrow> string \<Rightarrow> string \<Rightarrow> string \<Rightarrow> string \<Rightarrow> invoice_db \<Rightarrow> (invoice_error + limit_order) \<times> invoice_db" where
  "placeInvoiceLimitOrder env now rowId invoiceId buyer xdr db =
    (case validateInvoicePurchase env invoiceId buyer xdr db of
      Inl err \<Rightarrow> (Inl err, db)
    | Inr p \<Rightarrow>
        (case pu_limitPrice p of
          None \<Rightarrow> (Inl InvalidInvoiceTransaction, db)
        | Some price \<Rightarrow>
            (case find_by lo_txHash (pu_txHash p) (io_orders db) of
              Some r \<Rightarrow> (Inr r, db)
            | None \<Rightarrow>
                let r = \<lparr>lo_id = rowId, lo_invoiceId = invoiceId, lo_from = pu_from p, lo_buyer = buyer, lo_limitPrice = price,
                      lo_xdr = xdr, lo_txHash = pu_txHash p, lo_status = OrderPending, lo_leaseUntil = None, lo_leaseToken = None,
                      lo_createdAt = now\<rparr>
                in (Inr r, db\<lparr>io_orders := insert_row r (io_orders db)\<rparr>))))"

section \<open>Matching under a lease\<close>

text \<open>An order that a worker whose run began at \<open>now\<close> may take.\<close>

definition open_order :: "instant \<Rightarrow> limit_order \<Rightarrow> bool" where
  "open_order now r \<longleftrightarrow> lo_status r = OrderPending \<or>
    (lo_status r = OrderSubmitting \<and> (case lo_leaseUntil r of Some u \<Rightarrow> u < now | None \<Rightarrow> False))"

definition matchable :: "string \<Rightarrow> string \<Rightarrow> string \<Rightarrow> instant \<Rightarrow> limit_order \<Rightarrow> bool" where
  "matchable invoiceId seller buyer now r \<longleftrightarrow> lo_invoiceId r = invoiceId \<and> lo_createdAt r \<le> now \<and>
    (seller = buyer \<or> lo_buyer r = buyer) \<and> open_order now r"

text \<open>Taking the lease (\<open>clock\<close> is the time then), and giving it up; the numbers of rows changed.\<close>

definition claim_order :: "invoice_env \<Rightarrow> instant \<Rightarrow> instant \<Rightarrow> string \<Rightarrow> string \<Rightarrow> invoice_db \<Rightarrow> nat \<times> invoice_db" where
  "claim_order env now clock rowId token db =
    (let P = (\<lambda>r. lo_id r = rowId \<and> open_order now r)
     in (length (filter P (io_orders db)), db\<lparr>io_orders := modify_where P
          (\<lambda>r. r\<lparr>lo_status := OrderSubmitting, lo_leaseToken := Some token, lo_leaseUntil := Some (clock + io_lease env)\<rparr>) (io_orders db)\<rparr>))"

definition release_order :: "string \<Rightarrow> string \<Rightarrow> order_status \<Rightarrow> invoice_db \<Rightarrow> nat \<times> invoice_db" where
  "release_order rowId token status db =
    (let P = (\<lambda>r. lo_id r = rowId \<and> lo_leaseToken r = Some token)
     in (length (filter P (io_orders db)), db\<lparr>io_orders := modify_where P
          (\<lambda>r. r\<lparr>lo_status := status, lo_leaseToken := None, lo_leaseUntil := None\<rparr>) (io_orders db)\<rparr>))"

text \<open>What became of a submission: an answer, or an exception of the validation, the contract client or the transfer check.\<close>

datatype submission = Confirmed | Transient | FailedOnChain | Rejected | Blocked string string | OtherException

definition order_status_after :: "submission \<Rightarrow> order_status" where
  "order_status_after s =
    (case s of Confirmed \<Rightarrow> OrderFilled | Transient \<Rightarrow> OrderPending | FailedOnChain \<Rightarrow> OrderFailed | Rejected \<Rightarrow> OrderFailed
     | Blocked _ _ \<Rightarrow> OrderPending | OtherException \<Rightarrow> OrderPending)"

datatype match_result = Settled string order_status | Skipped string string string

text \<open>One order: \<open>None\<close> when the exception is passed on. Tokens and outcomes are given per order.\<close>

definition match_one ::
  "invoice_env \<Rightarrow> instant \<Rightarrow> (string \<Rightarrow> instant \<times> string \<times> submission) \<Rightarrow> limit_order \<Rightarrow> match_result list \<Rightarrow> invoice_db \<Rightarrow>
    match_result list option \<times> invoice_db" where
  "match_one env now world row acc db =
    (let (clock, token, outcome) = world (lo_id row)
     in case claim_order env now clock (lo_id row) token db of
          (0, db1) \<Rightarrow> (Some acc, db1)
        | (_, db1) \<Rightarrow>
            let db2 = snd (release_order (lo_id row) token (order_status_after outcome) db1)
            in case outcome of
                 Blocked reason kind \<Rightarrow> (Some (acc @ [Skipped (lo_id row) reason kind]), db2)
               | OtherException \<Rightarrow> (None, db2)
               | _ \<Rightarrow> (Some (acc @ [Settled (lo_id row) (order_status_after outcome)]), db2))"

fun match_rows ::
  "invoice_env \<Rightarrow> instant \<Rightarrow> (string \<Rightarrow> instant \<times> string \<times> submission) \<Rightarrow> limit_order list \<Rightarrow> match_result list \<Rightarrow> invoice_db \<Rightarrow>
    match_result list option \<times> invoice_db" where
  "match_rows env now world [] acc db = (Some acc, db)"
| "match_rows env now world (r # rs) acc db =
    (case match_one env now world r acc db of
      (None, db1) \<Rightarrow> (None, db1)
    | (Some acc1, db1) \<Rightarrow> match_rows env now world rs acc1 db1)"

section \<open>One worker at a time\<close>

text \<open>
  The run of all workers: what they did to the orders, with the clock at each claim. A release is logged when it changed
  a row.
\<close>

datatype order_log = Claimed string string instant instant | Released string string order_status

text \<open>
  The reachable states. A worker's \<open>now\<close> is some earlier time, and it may release at any moment, or never. Tokens and
  row ids are new when they are made.
\<close>

inductive orders_sys :: "invoice_env \<Rightarrow> instant \<Rightarrow> order_log list \<Rightarrow> invoice_db \<Rightarrow> bool" for env where
  init: "io_orders db = [] \<Longrightarrow> orders_sys env clock [] db"
| tick: "orders_sys env clock lg db \<Longrightarrow> clock \<le> clock' \<Longrightarrow> orders_sys env clock' lg (db\<lparr>io_invoices := ivs\<rparr>)"
| place: "orders_sys env clock lg db \<Longrightarrow> rowId \<notin> lo_id ` set (io_orders db) \<Longrightarrow>
    placeInvoiceLimitOrder env now rowId invoiceId buyer xdr db = (res, db') \<Longrightarrow> orders_sys env clock lg db'"
| claim: "orders_sys env clock lg db \<Longrightarrow> now \<le> clock \<Longrightarrow> (\<forall>rid c u. Claimed rid token c u \<notin> set lg) \<Longrightarrow>
    claim_order env now clock rowId token db = (n, db') \<Longrightarrow>
    orders_sys env clock (if n = 0 then lg else lg @ [Claimed rowId token clock (clock + io_lease env)]) db'"
| release: "orders_sys env clock lg db \<Longrightarrow> Claimed rowId token c u \<in> set lg \<Longrightarrow>
    release_order rowId token (order_status_after outcome) db = (n, db') \<Longrightarrow>
    orders_sys env clock (if n = 0 then lg else lg @ [Released rowId token (order_status_after outcome)]) db'"

text \<open>What the log says of an order: its status and its lease.\<close>

fun logged :: "string \<Rightarrow> order_log \<Rightarrow> order_status \<times> (string \<times> instant) option \<Rightarrow> order_status \<times> (string \<times> instant) option" where
  "logged rid (Claimed r token c u) acc = (if r = rid then (OrderSubmitting, Some (token, u)) else acc)"
| "logged rid (Released r token status) acc = (if r = rid then (status, None) else acc)"

definition logged_state :: "string \<Rightarrow> order_log list \<Rightarrow> order_status \<times> (string \<times> instant) option" where
  "logged_state rid lg = fold (logged rid) lg (OrderPending, None)"

definition row_state :: "limit_order \<Rightarrow> order_status \<times> (string \<times> instant) option" where
  "row_state r = (lo_status r, case (lo_leaseToken r, lo_leaseUntil r) of (Some t, Some u) \<Rightarrow> Some (t, u) | _ \<Rightarrow> None)"

text \<open>A logged action of an order was possible after the earlier ones.\<close>

definition log_enabled :: "order_log list \<Rightarrow> order_log \<Rightarrow> bool" where
  "log_enabled lg x \<longleftrightarrow>
    (case x of
      Claimed rid token c u \<Rightarrow> logged_state rid lg = (OrderPending, None) \<or>
        (\<exists>t' u'. logged_state rid lg = (OrderSubmitting, Some (t', u')) \<and> u' < c)
    | Released rid token status \<Rightarrow> (\<exists>u. logged_state rid lg = (OrderSubmitting, Some (token, u))))"

definition log_ok :: "instant \<Rightarrow> order_log list \<Rightarrow> bool" where
  "log_ok clock lg \<longleftrightarrow> (\<forall>i < length lg. log_enabled (take i lg) (lg ! i)) \<and>
    (\<forall>rid t c u. Claimed rid t c u \<in> set lg \<longrightarrow> c \<le> clock) \<and>
    (\<forall>i j rid t c u rid' t' c' u'. i < j \<and> j < length lg \<and> lg ! i = Claimed rid t c u \<and> lg ! j = Claimed rid' t' c' u' \<longrightarrow> c \<le> c')"

definition as_signed :: "invoice_env \<Rightarrow> limit_order \<Rightarrow> bool" where
  "as_signed env r \<longleftrightarrow> (\<exists>p. inspectInvoicePurchase env (lo_xdr r) (lo_buyer r) = Inr p \<and> pu_invoiceId p = lo_invoiceId r \<and>
    pu_from p = lo_from r \<and> pu_limitPrice p = Some (lo_limitPrice r) \<and> pu_txHash p = lo_txHash r)"

definition order_row_ok :: "invoice_env \<Rightarrow> order_log list \<Rightarrow> limit_order \<Rightarrow> bool" where
  "order_row_ok env lg r \<longleftrightarrow> row_state r = logged_state (lo_id r) lg \<and> as_signed env r \<and>
    ((lo_leaseToken r = None) = (lo_leaseUntil r = None)) \<and> ((lo_leaseToken r = None) = (lo_status r \<noteq> OrderSubmitting))"

lemma order_row_okD:
  assumes "order_row_ok env lg r" "lo_id r = rid"
  shows "logged_state rid lg = row_state r" "(lo_leaseToken r = None) = (lo_leaseUntil r = None)"
    "(lo_leaseToken r = None) = (lo_status r \<noteq> OrderSubmitting)"
proof -
  show "logged_state rid lg = row_state r" using assms(1) unfolding order_row_ok_def assms(2) by (elim conjE) (rule sym)
  show "(lo_leaseToken r = None) = (lo_leaseUntil r = None)" using assms(1) unfolding order_row_ok_def by (elim conjE)
  show "(lo_leaseToken r = None) = (lo_status r \<noteq> OrderSubmitting)" using assms(1) unfolding order_row_ok_def by (elim conjE)
qed

definition orders_inv :: "invoice_env \<Rightarrow> instant \<Rightarrow> order_log list \<Rightarrow> invoice_db \<Rightarrow> bool" where
  "orders_inv env clock lg db \<longleftrightarrow> distinct (map lo_id (io_orders db)) \<and> distinct (map lo_txHash (io_orders db)) \<and>
    (\<forall>r \<in> set (io_orders db). order_row_ok env lg r) \<and>
    (\<forall>rid t c u. Claimed rid t c u \<in> set lg \<longrightarrow> rid \<in> lo_id ` set (io_orders db)) \<and>
    (\<forall>rid t s. Released rid t s \<in> set lg \<longrightarrow> rid \<in> lo_id ` set (io_orders db)) \<and> log_ok clock lg"

lemma logged_state_snoc: "logged_state rid (lg @ [x]) = logged rid x (logged_state rid lg)"
  by (simp add: logged_state_def)

lemma logged_state_new: "(\<forall>t c u. Claimed rid t c u \<notin> set lg) \<Longrightarrow> (\<forall>t s. Released rid t s \<notin> set lg) \<Longrightarrow> logged_state rid lg = (OrderPending, None)"
proof (induction lg rule: rev_induct)
  case (snoc x xs)
  then show ?case by (cases x) (auto simp: logged_state_snoc)
qed (simp add: logged_state_def)

lemma log_ok_clock: "log_ok clock lg \<Longrightarrow> Claimed rid t c u \<in> set lg \<Longrightarrow> c \<le> clock"
  unfolding log_ok_def by blast

lemma log_ok_claim:
  assumes "log_ok clock lg" "log_enabled lg (Claimed rid t clock u)"
  shows "log_ok clock (lg @ [Claimed rid t clock u])"
  unfolding log_ok_def
proof (intro conjI allI impI)
  fix i assume "i < length (lg @ [Claimed rid t clock u])"
  then show "log_enabled (take i (lg @ [Claimed rid t clock u])) ((lg @ [Claimed rid t clock u]) ! i)"
    using assms by (cases "i = length lg") (auto simp: log_ok_def nth_append)
next
  fix rid' t' c' u' assume "Claimed rid' t' c' u' \<in> set (lg @ [Claimed rid t clock u])"
  then show "c' \<le> clock" using log_ok_clock [OF assms(1)] by auto
next
  fix i j r1 t1 c1 u1 r2 t2 c2 u2
  assume a: "i < j \<and> j < length (lg @ [Claimed rid t clock u]) \<and> (lg @ [Claimed rid t clock u]) ! i = Claimed r1 t1 c1 u1 \<and>
    (lg @ [Claimed rid t clock u]) ! j = Claimed r2 t2 c2 u2"
  then have i: "i < length lg" "lg ! i = Claimed r1 t1 c1 u1" by (auto simp: nth_append split: if_splits)
  then have "Claimed r1 t1 c1 u1 \<in> set lg" by (metis nth_mem)
  then have "c1 \<le> clock" using assms(1) unfolding log_ok_def by blast
  show "c1 \<le> c2"
  proof (cases "j < length lg")
    case True
    then have "lg ! j = Claimed r2 t2 c2 u2" using a by (simp add: nth_append)
    with a i True assms(1) show ?thesis unfolding log_ok_def by blast
  next
    case False
    then have "j = length lg" using a by simp
    then have "c2 = clock" using a by simp
    then show ?thesis using \<open>c1 \<le> clock\<close> by simp
  qed
qed

lemma log_ok_release:
  assumes "log_ok clock lg" "log_enabled lg (Released rid t s)"
  shows "log_ok clock (lg @ [Released rid t s])"
  unfolding log_ok_def
proof (intro conjI allI impI)
  fix i assume "i < length (lg @ [Released rid t s])"
  then show "log_enabled (take i (lg @ [Released rid t s])) ((lg @ [Released rid t s]) ! i)"
    using assms by (cases "i = length lg") (auto simp: log_ok_def nth_append)
next
  fix rid' t' c' u' assume "Claimed rid' t' c' u' \<in> set (lg @ [Released rid t s])"
  then show "c' \<le> clock" using log_ok_clock [OF assms(1)] by auto
next
  fix i j r1 t1 c1 u1 r2 t2 c2 u2
  assume a: "i < j \<and> j < length (lg @ [Released rid t s]) \<and> (lg @ [Released rid t s]) ! i = Claimed r1 t1 c1 u1 \<and>
    (lg @ [Released rid t s]) ! j = Claimed r2 t2 c2 u2"
  then have "j < length lg" by (cases "j = length lg") auto
  then have "i < length lg" using a by simp
  then have "lg ! i = Claimed r1 t1 c1 u1" "lg ! j = Claimed r2 t2 c2 u2"
    using a \<open>i < length lg\<close> \<open>j < length lg\<close> by (simp_all add: nth_append)
  with a \<open>j < length lg\<close> assms(1) show "c1 \<le> c2" unfolding log_ok_def by blast
qed

lemma place_cases:
  assumes "placeInvoiceLimitOrder env now rowId invoiceId buyer xdr db = (res, db')" "db' \<noteq> db"
  obtains r where "io_orders db' = io_orders db @ [r]" "lo_id r = rowId" "lo_txHash r \<notin> lo_txHash ` set (io_orders db)"
    "lo_status r = OrderPending" "lo_leaseToken r = None" "lo_leaseUntil r = None" "as_signed env r"
proof -
  from assms obtain p price where p: "validateInvoicePurchase env invoiceId buyer xdr db = Inr p" "pu_limitPrice p = Some price"
    "find_by lo_txHash (pu_txHash p) (io_orders db) = None"
    by (auto simp: placeInvoiceLimitOrder_def split: sum.splits option.splits)
  have "inspectInvoicePurchase env xdr buyer = Inr p" "pu_invoiceId p = invoiceId"
    using p(1) by (auto simp: validateInvoicePurchase_def and_then_Inr_iff split: if_splits)
  then show thesis
    using assms p by (intro that) (auto simp: placeInvoiceLimitOrder_def insert_row_def Let_def find_by_None_iff as_signed_def)
qed

lemma orders_keys_modify: "(\<And>r. lo_id (f r) = lo_id r) \<Longrightarrow> (\<And>r. lo_txHash (f r) = lo_txHash r) \<Longrightarrow>
    map lo_id (modify_where P f rs) = map lo_id rs \<and> map lo_txHash (modify_where P f rs) = map lo_txHash rs"
  by (induction rs) (auto simp: modify_where_def)

lemma order_row_ok_cong: "logged_state (lo_id r) lg' = logged_state (lo_id r) lg \<Longrightarrow> order_row_ok env lg' r = order_row_ok env lg r"
  by (simp only: order_row_ok_def)

lemma orders_invI:
  assumes "distinct (map lo_id (io_orders db))" "distinct (map lo_txHash (io_orders db))"
    "\<forall>r \<in> set (io_orders db). order_row_ok env lg r"
    "\<forall>rid t c u. Claimed rid t c u \<in> set lg \<longrightarrow> rid \<in> lo_id ` set (io_orders db)"
    "\<forall>rid t s. Released rid t s \<in> set lg \<longrightarrow> rid \<in> lo_id ` set (io_orders db)" "log_ok clock lg"
  shows "orders_inv env clock lg db"
  using assms unfolding orders_inv_def by blast

lemma orders_invD:
  assumes "orders_inv env clock lg db"
  shows "distinct (map lo_id (io_orders db))" "distinct (map lo_txHash (io_orders db))"
    "\<forall>r \<in> set (io_orders db). order_row_ok env lg r"
    "\<forall>rid t c u. Claimed rid t c u \<in> set lg \<longrightarrow> rid \<in> lo_id ` set (io_orders db)"
    "\<forall>rid t s. Released rid t s \<in> set lg \<longrightarrow> rid \<in> lo_id ` set (io_orders db)" "log_ok clock lg"
  using assms unfolding orders_inv_def by blast+

lemma place_inv:
  assumes inv: "orders_inv env clock lg db" and new: "rowId \<notin> lo_id ` set (io_orders db)"
    and p: "placeInvoiceLimitOrder env now rowId invoiceId buyer xdr db = (res, db')"
  shows "orders_inv env clock lg db'"
proof (cases "db' = db")
  case False
  obtain r where r: "io_orders db' = io_orders db @ [r]" "lo_id r = rowId" "lo_txHash r \<notin> lo_txHash ` set (io_orders db)"
    "lo_status r = OrderPending" "lo_leaseToken r = None" "lo_leaseUntil r = None" "as_signed env r"
    by (rule place_cases [OF p False])
  note d = orders_invD [OF inv]
  have "logged_state rowId lg = (OrderPending, None)" using d(4,5) new by (intro logged_state_new) blast+
  then have "order_row_ok env lg r" using r by (simp add: order_row_ok_def row_state_def)
  then show ?thesis using d r new by (intro orders_invI) auto
qed (simp add: inv)

text \<open>A guarded update of one order together with its log entry.\<close>

lemma update_inv:
  assumes inv: "orders_inv env clock lg db" and db': "io_orders db' = modify_where (\<lambda>r. lo_id r = rid \<and> P r) f (io_orders db)"
    and keep: "\<And>r. lo_id (f r) = lo_id r" "\<And>r. lo_txHash (f r) = lo_txHash r" "\<And>r. as_signed env r \<Longrightarrow> as_signed env (f r)"
    and r: "r \<in> set (io_orders db)" "lo_id r = rid" "P r"
    and x: "\<And>i acc. logged i x acc = (if i = rid then row_state (f r) else acc)" "log_ok clock (lg @ [x])"
      "\<And>i t c u. x = Claimed i t c u \<Longrightarrow> i = rid" "\<And>i t s. x = Released i t s \<Longrightarrow> i = rid"
    and f: "(lo_leaseToken (f r) = None) = (lo_leaseUntil (f r) = None)" "(lo_leaseToken (f r) = None) = (lo_status (f r) \<noteq> OrderSubmitting)"
  shows "orders_inv env clock (lg @ [x]) db'"
proof -
  note d = orders_invD [OF inv]
  have cols: "map lo_id (io_orders db') = map lo_id (io_orders db)" "map lo_txHash (io_orders db') = map lo_txHash (io_orders db)"
    unfolding db' using orders_keys_modify [of f, OF keep(1,2)] by simp_all
  have "order_row_ok env (lg @ [x]) y" if "y \<in> set (io_orders db')" for y
  proof -
    from that obtain z where z: "z \<in> set (io_orders db)" "y = (if lo_id z = rid \<and> P z then f z else z)"
      unfolding db' set_modify_where by blast
    have ok: "order_row_ok env lg z" using d(3) z(1) by blast
    show ?thesis
    proof (cases "lo_id z = rid")
      case True
      then have "z = r" using d(1) z(1) r by (metis distinct_map inj_onD)
      then have "y = f r" using z(2) r by simp
      then show ?thesis using ok f keep r x(1) \<open>z = r\<close> by (simp add: order_row_ok_def logged_state_snoc)
    next
      case False
      then have "logged_state (lo_id z) (lg @ [x]) = logged_state (lo_id z) lg" using x(1) by (simp add: logged_state_snoc)
      from order_row_ok_cong [OF this] show ?thesis using ok z(2) False by simp
    qed
  qed
  moreover have "lo_id ` set (io_orders db') = lo_id ` set (io_orders db)" using arg_cong [OF cols(1), of set] by simp
  moreover have "rid \<in> lo_id ` set (io_orders db)" using r by blast
  ultimately show ?thesis using d cols x by (intro orders_invI) (auto, metis+)
qed

lemma modify_where_none: "filter P rows = [] \<Longrightarrow> modify_where P f rows = rows"
  by (induction rows) (auto simp: modify_where_def split: if_splits)

lemma claim_order_inv:
  assumes inv: "orders_inv env clock lg db" and now: "now \<le> clock" and c: "claim_order env now clock rid token db = (n, db')"
  shows "orders_inv env clock (if n = 0 then lg else lg @ [Claimed rid token clock (clock + io_lease env)]) db'"
proof -
  let ?P = "\<lambda>r. lo_id r = rid \<and> open_order now r"
  let ?f = "\<lambda>r. r\<lparr>lo_status := OrderSubmitting, lo_leaseToken := Some token, lo_leaseUntil := Some (clock + io_lease env)\<rparr>"
  have n: "n = length (filter ?P (io_orders db))" and db': "db' = db\<lparr>io_orders := modify_where ?P ?f (io_orders db)\<rparr>"
    using c by (simp_all add: claim_order_def Let_def)
  show ?thesis
  proof (cases "n = 0")
    case True
    then have "db' = db" using n db' modify_where_none [of ?P "io_orders db" ?f] by simp
    then show ?thesis using True inv by simp
  next
    case False
    then obtain r where r: "r \<in> set (io_orders db)" "lo_id r = rid" "open_order now r"
      using n by (auto simp: filter_empty_conv)
    note d = orders_invD [OF inv]
    have ok: "order_row_ok env lg r" using d(3) r(1) by blast
    have "log_enabled lg (Claimed rid token clock (clock + io_lease env))"
    proof -
      note eq = order_row_okD [OF ok r(2)]
      then show ?thesis using r(3) now
        by (cases "lo_leaseToken r"; cases "lo_leaseUntil r") (auto simp: log_enabled_def row_state_def open_order_def)
    qed
    then have "log_ok clock (lg @ [Claimed rid token clock (clock + io_lease env)])" by (rule log_ok_claim [OF d(6)])
    then have "orders_inv env clock (lg @ [Claimed rid token clock (clock + io_lease env)]) db'"
      using r by (intro update_inv [OF inv, of db' rid "open_order now" ?f r])
        (auto simp: db' row_state_def as_signed_def)
    then show ?thesis using False by simp
  qed
qed

lemma release_order_inv:
  assumes inv: "orders_inv env clock lg db" and s: "s \<noteq> OrderSubmitting" and c: "release_order rid token s db = (n, db')"
  shows "orders_inv env clock (if n = 0 then lg else lg @ [Released rid token s]) db'"
proof -
  let ?P = "\<lambda>r. lo_id r = rid \<and> lo_leaseToken r = Some token"
  let ?f = "\<lambda>r. r\<lparr>lo_status := s, lo_leaseToken := None, lo_leaseUntil := None\<rparr>"
  have n: "n = length (filter ?P (io_orders db))" and db': "db' = db\<lparr>io_orders := modify_where ?P ?f (io_orders db)\<rparr>"
    using c by (simp_all add: release_order_def Let_def)
  show ?thesis
  proof (cases "n = 0")
    case True
    then have "db' = db" using n db' modify_where_none [of ?P "io_orders db" ?f] by simp
    then show ?thesis using True inv by simp
  next
    case False
    then obtain r where r: "r \<in> set (io_orders db)" "lo_id r = rid" "lo_leaseToken r = Some token"
      using n by (auto simp: filter_empty_conv)
    note d = orders_invD [OF inv]
    have ok: "order_row_ok env lg r" using d(3) r(1) by blast
    have "log_enabled lg (Released rid token s)"
    proof -
      note eq = order_row_okD [OF ok r(2)]
      then show ?thesis using r(3) by (cases "lo_leaseUntil r") (auto simp: log_enabled_def row_state_def)
    qed
    then have "log_ok clock (lg @ [Released rid token s])" by (rule log_ok_release [OF d(6)])
    then have "orders_inv env clock (lg @ [Released rid token s]) db'"
      using r s by (intro update_inv [OF inv, of db' rid "\<lambda>r. lo_leaseToken r = Some token" ?f r])
        (auto simp: db' row_state_def as_signed_def)
    then show ?thesis using False by simp
  qed
qed

lemma orders_sys_inv: "orders_sys env clock lg db \<Longrightarrow> orders_inv env clock lg db"
proof (induction rule: orders_sys.induct)
  case init
  then show ?case by (intro orders_invI) (auto simp: log_ok_def)
next
  case (tick clock lg db clock' ivs)
  note d = orders_invD [OF tick.IH]
  have "log_ok clock' lg" using d(6) tick.hyps(2) unfolding log_ok_def by (meson order_trans)
  then show ?case using d by (intro orders_invI) auto
next
  case place
  then show ?case by (auto intro: place_inv)
next
  case claim
  then show ?case by (intro claim_order_inv)
next
  case (release clock lg db rowId token c u outcome n db')
  have "order_status_after outcome \<noteq> OrderSubmitting" by (simp add: order_status_after_def split: submission.split)
  then show ?case using release by (intro release_order_inv)
qed

lemma logged_state_take_Suc: "m < length lg \<Longrightarrow> logged_state rid (take (Suc m) lg) = logged rid (lg ! m) (logged_state rid (take m lg))"
  by (simp add: take_Suc_conv_app_nth logged_state_snoc)

text \<open>After a claim the order is held, unless the holder released it or its lease ran out before another claim.\<close>

lemma held_until:
  assumes ok: "log_ok clock lg" and i: "lg ! i = Claimed rid t1 c1 u1" "i < length lg"
  shows "i < m \<Longrightarrow> m \<le> length lg \<Longrightarrow> (\<exists>k s. i < k \<and> k < m \<and> lg ! k = Released rid t1 s) \<or>
    (\<exists>k t c u. i < k \<and> k < m \<and> lg ! k = Claimed rid t c u \<and> u1 < c) \<or>
    logged_state rid (take m lg) = (OrderSubmitting, Some (t1, u1))"
proof (induction m)
  case (Suc m)
  show ?case
  proof (cases "m = i")
    case True
    then show ?thesis using i by (simp add: logged_state_take_Suc)
  next
    case False
    with Suc.prems have m: "i < m" "m < length lg" by simp_all
    have en: "log_enabled (take m lg) (lg ! m)" using ok m(2) unfolding log_ok_def by blast
    from Suc.IH m consider (released) k s where "i < k" "k < m" "lg ! k = Released rid t1 s"
      | (claimed) k t c u where "i < k" "k < m" "lg ! k = Claimed rid t c u" "u1 < c"
      | (held) "logged_state rid (take m lg) = (OrderSubmitting, Some (t1, u1))"
      by fastforce
    then show ?thesis
    proof cases
      case held
      show ?thesis
      proof (cases "lg ! m")
        case (Claimed r t c u)
        then show ?thesis using held en m by (cases "r = rid") (auto simp: log_enabled_def logged_state_take_Suc)
      next
        case (Released r t s)
        then show ?thesis using held en m by (cases "r = rid") (auto simp: log_enabled_def logged_state_take_Suc)
      qed
    qed (use less_SucI in blast)+
  qed
qed simp

lemma settled_stays:
  assumes ok: "log_ok clock lg" and i: "lg ! i = Released rid t s" "i < length lg" and s: "s \<in> {OrderFilled, OrderFailed}"
  shows "i < m \<Longrightarrow> m \<le> length lg \<Longrightarrow> logged_state rid (take m lg) = (s, None)"
proof (induction m)
  case (Suc m)
  show ?case
  proof (cases "m = i")
    case True
    then show ?thesis using i by (simp add: logged_state_take_Suc)
  next
    case False
    with Suc.prems have m: "i < m" "m < length lg" by simp_all
    have en: "log_enabled (take m lg) (lg ! m)" using ok m(2) unfolding log_ok_def by blast
    have held: "logged_state rid (take m lg) = (s, None)" using Suc.IH m by simp
    show ?thesis using held en m s
      by (cases "lg ! m") (auto simp: log_enabled_def logged_state_take_Suc)
  qed
qed simp

lemma orders_sys_log:
  assumes "orders_sys env clock lg db"
  shows "\<forall>i j rid t1 c1 u1 t2 c2 u2. i < j \<and> j < length lg \<and> lg ! i = Claimed rid t1 c1 u1 \<and> lg ! j = Claimed rid t2 c2 u2 \<longrightarrow>
      u1 < c2 \<or> (\<exists>k s. i < k \<and> k < j \<and> lg ! k = Released rid t1 s)"
    and "\<forall>i j rid t s t2 c2 u2. i < j \<and> j < length lg \<and> lg ! i = Released rid t s \<and> s \<in> {OrderFilled, OrderFailed} \<longrightarrow>
      lg ! j \<noteq> Claimed rid t2 c2 u2"
    and "\<forall>r \<in> set (io_orders db). row_state r = logged_state (lo_id r) lg \<and> as_signed env r"
proof -
  note inv = orders_invD [OF orders_sys_inv [OF assms]]
  have ok: "log_ok clock lg" by (rule inv)
  show "\<forall>i j rid t1 c1 u1 t2 c2 u2. i < j \<and> j < length lg \<and> lg ! i = Claimed rid t1 c1 u1 \<and> lg ! j = Claimed rid t2 c2 u2 \<longrightarrow>
      u1 < c2 \<or> (\<exists>k s. i < k \<and> k < j \<and> lg ! k = Released rid t1 s)"
  proof (intro allI impI, elim conjE)
    fix i j rid t1 c1 u1 t2 c2 u2
    assume a: "i < j" "j < length lg" "lg ! i = Claimed rid t1 c1 u1" "lg ! j = Claimed rid t2 c2 u2"
    have en: "log_enabled (take j lg) (lg ! j)" using ok a(2) unfolding log_ok_def by blast
    have "i < length lg" "j \<le> length lg" using a(1,2) by simp_all
    from held_until [OF ok a(3) this(1) a(1) this(2)] consider (released) k s where "i < k" "k < j" "lg ! k = Released rid t1 s"
      | (claimed) k t c u where "i < k" "k < j" "lg ! k = Claimed rid t c u" "u1 < c"
      | (held) "logged_state rid (take j lg) = (OrderSubmitting, Some (t1, u1))"
      by blast
    then show "u1 < c2 \<or> (\<exists>k s. i < k \<and> k < j \<and> lg ! k = Released rid t1 s)"
    proof cases
      case claimed
      then have "c \<le> c2" using ok a(2,4) unfolding log_ok_def by blast
      then show ?thesis using claimed(4) by simp
    next
      case held
      then show ?thesis using en a(4) by (simp add: log_enabled_def)
    qed blast
  qed
  show "\<forall>i j rid t s t2 c2 u2. i < j \<and> j < length lg \<and> lg ! i = Released rid t s \<and> s \<in> {OrderFilled, OrderFailed} \<longrightarrow>
      lg ! j \<noteq> Claimed rid t2 c2 u2"
  proof (intro allI impI notI, elim conjE)
    fix i j rid t s t2 c2 u2
    assume a: "i < j" "j < length lg" "lg ! i = Released rid t s" "s \<in> {OrderFilled, OrderFailed}" "lg ! j = Claimed rid t2 c2 u2"
    have en: "log_enabled (take j lg) (lg ! j)" using ok a(2) unfolding log_ok_def by blast
    have "logged_state rid (take j lg) = (s, None)" using settled_stays [OF ok a(3) _ a(4), of j] a(1,2) by simp
    then show False using en a(4,5) by (auto simp: log_enabled_def)
  qed
  show "\<forall>r \<in> set (io_orders db). row_state r = logged_state (lo_id r) lg \<and> as_signed env r"
    using inv(3) unfolding order_row_ok_def by blast
qed

text \<open>C40: Whatever the workers do and whenever they die, a limit order is in one pair of hands: between two claims of the
  same order the first worker gave it up under its own token, or its lease was over; an order that was filled or failed is
  never claimed again; and a stored order says what the envelope its buyer signed says.\<close>

theorem invoice_orders_exclusive:
  assumes "orders_sys env clock lg db"
  shows "(\<forall>i j rid t1 c1 u1 t2 c2 u2. i < j \<and> j < length lg \<and> lg ! i = Claimed rid t1 c1 u1 \<and> lg ! j = Claimed rid t2 c2 u2 \<longrightarrow>
      u1 < c2 \<or> (\<exists>k s. i < k \<and> k < j \<and> lg ! k = Released rid t1 s)) \<and>
    (\<forall>i j rid t s t2 c2 u2. i < j \<and> j < length lg \<and> lg ! i = Released rid t s \<and> s \<in> {OrderFilled, OrderFailed} \<longrightarrow>
      lg ! j \<noteq> Claimed rid t2 c2 u2) \<and>
    (\<forall>r \<in> set (io_orders db). row_state r = logged_state (lo_id r) lg \<and> as_signed env r)"
  by (intro conjI) (rule orders_sys_log [OF assms])+

text \<open>One order of the matching is a claim and a release of the run.\<close>

lemma match_one_sys:
  assumes sys: "orders_sys env clock lg db" and now: "now \<le> clock" and w: "world (lo_id r) = (clock, token, outcome)"
    and new: "\<forall>rid c u. Claimed rid token c u \<notin> set lg"
  shows "\<exists>lg'. orders_sys env clock (lg @ lg') (snd (match_one env now world r acc db))"
proof -
  obtain n db1 where c: "claim_order env now clock (lo_id r) token db = (n, db1)" by fastforce
  obtain m db2 where d: "release_order (lo_id r) token (order_status_after outcome) db1 = (m, db2)" by fastforce
  from orders_sys.claim [OF sys now new c]
  have s1: "orders_sys env clock (if n = 0 then lg else lg @ [Claimed (lo_id r) token clock (clock + io_lease env)]) db1" .
  show ?thesis
  proof (cases n)
    case 0
    then have "snd (match_one env now world r acc db) = db1" by (simp add: match_one_def w c)
    then show ?thesis using s1 0 by (intro exI [of _ "[]"]) simp
  next
    case (Suc k)
    then have "snd (match_one env now world r acc db) = db2"
      by (simp add: match_one_def w c d split: submission.split)
    moreover have "orders_sys env clock (if m = 0 then lg @ [Claimed (lo_id r) token clock (clock + io_lease env)]
        else (lg @ [Claimed (lo_id r) token clock (clock + io_lease env)]) @ [Released (lo_id r) token (order_status_after outcome)]) db2"
      using s1 Suc by (intro orders_sys.release [OF _ _ d, of env clock _ clock "clock + io_lease env"]) simp_all
    ultimately show ?thesis by (cases "m = 0") (simp, blast, simp, blast)
  qed
qed

section \<open>A small run\<close>

definition one_market :: invoice_env where
  "one_market = \<lparr>io_market = Some ''M'', io_abi = Some \<lparr>ab_function = ''buy'', ab_from = 0, ab_to = 1, ab_invoice = 2, ab_limitPrice = Some 3\<rparr>,
    io_decode = (\<lambda>x. Some \<lparr>sg_operations = [Invoke None ''M'' ''buy'' [ScAddress ''sue'', ScAddress ''ann'', ScU64 7, ScU64 5]],
      sg_source = ''ann'', sg_signatures = 1, sg_hash = x\<rparr>),
    io_transfer = (\<lambda>_ _ _. Inr ()), io_lease = 60\<rparr>"

definition one_invoice :: invoice_db where
  "one_invoice = \<lparr>io_invoices = [\<lparr>iv_id = ''7'', iv_seller = ''sue''\<rparr>], io_orders = []\<rparr>"

definition placed_order :: invoice_db where
  "placed_order = snd (placeInvoiceLimitOrder one_market 1 ''o'' ''7'' ''ann'' ''x'' one_invoice)"

definition claimed_order :: invoice_db where
  "claimed_order = snd (claim_order one_market 2 2 ''o'' ''t'' placed_order)"

lemma claimed_order_state: "map row_state (io_orders claimed_order) = [(OrderSubmitting, Some (''t'', 62))]"
  by code_simp

lemma second_claim: "fst (claim_order one_market 50 62 ''o'' ''u'' claimed_order) = 0" "fst (claim_order one_market 63 63 ''o'' ''u'' claimed_order) = 1"
  by code_simp+

theorem invoice_orders_exclusive_witness:
  "orders_sys one_market 2 [Claimed ''o'' ''t'' 2 62] claimed_order \<and> map (as_signed one_market) (io_orders claimed_order) = [True]"
proof -
  have "orders_sys one_market 2 [] placed_order"
    unfolding placed_order_def
    by (rule orders_sys.place [OF orders_sys.init _ surjective_pairing]) (simp_all add: one_invoice_def)
  moreover have "claim_order one_market 2 2 ''o'' ''t'' placed_order = (1, claimed_order)"
    unfolding claimed_order_def by (rule prod_eqI) (code_simp, simp)
  ultimately have sys: "orders_sys one_market 2 [Claimed ''o'' ''t'' 2 62] claimed_order"
    using orders_sys.claim [of one_market 2 "[]" placed_order 2 "''t''" "''o''" 1 claimed_order] by (simp add: one_market_def)
  have "length (io_orders claimed_order) = 1" using arg_cong [OF claimed_order_state, of length] by simp
  then obtain r where "io_orders claimed_order = [r]" by (cases "io_orders claimed_order") auto
  then show ?thesis using sys invoice_orders_exclusive [OF sys] by simp
qed

end
