(* ===== verification/Spec2Isabelle.thy ===== *)
theory Spec2Isabelle
  imports Bonding_Curve Circuit_Breaker Multisig Governance Auctions Nonce Idempotency Vesting Events Swaps Deprecation Reorg
    Dividends Acl Stake_Nfts Staking Pricing Revenue Vault Delegation Invoice_Orders
begin

text \<open>
  A verification library for the access-layer server, a TypeScript backend that prices, trades,
  stakes, auctions and governs creator keys around Soroban contracts. Paths below are relative to the
  repository; \<open>src/modules\<close>, \<open>src/utils\<close>, \<open>src/middlewares\<close> are directories of its \<open>src\<close>.

  \<^bold>\<open>How the program is put together.\<close> Express routes validate requests and call the services of
  \<open>src/modules\<close>. A service reads and writes tables through Prisma, caches answers in Redis through
  \<open>src/utils/redis.utils.ts\<close>, and reads chain state over RPC; both Redis and the RPC endpoints sit
  behind the circuit breakers of \<open>src/utils/circuit-breaker.utils.ts\<close>. Handlers are asynchronous:
  between two awaits any other handler may run.

  \<^bold>\<open>Theories.\<close>
  \<^item> \<open>Prelude\<close>: results of fallible calls, tables as lists of rows (locale \<open>keyed_table\<close>, instance for
    every table), the invariant method (locale \<open>invariant_system\<close>), list and page-count lemmas.
  \<^item> \<open>Js_Values\<close>, \<open>Js_Double\<close>, \<open>Decimal_Lib\<close>: JSON values, \<open>BigInt\<close> (truncating division, decimal
    printing and parsing with their round trip), strings; rounding of a rational to the nearest
    double (\<open>fl\<close>) and \<open>Math.round\<close>; the two conversions of the Decimal library.
  \<^item> \<open>Bonding_Curve\<close> (\<open>src/utils/bonding-curve.utils.ts\<close>): milestone validation, the spot price, the
    piecewise integral and the cost of a purchase. The lemmas identify the loops with an exact area
    function; the properties are splitting of purchases, the lower bound, agreement of the two ways to
    find an exponent, and soundness and completeness of the validation.
  \<^item> \<open>Circuit_Breaker\<close> (\<open>src/utils/circuit-breaker.utils.ts\<close>): the breaker as a record, each method a
    function of the clock, \<open>execute\<close> and \<open>probe\<close> cut at their await. The invariant holds for every
    interleaving; the properties are fast failure, opening, recovery, the range of the failure rate.
  \<^item> \<open>Redis_Cache\<close> (\<open>src/utils/redis.utils.ts\<close>): guarded reads, writes, set-if-absent and invalidation
    over a map of expiring texts; the laws of such a cache are the locale \<open>expiring_cache\<close>.
  \<^item> \<open>Pagination\<close> (\<open>src/utils/pagination.utils.ts\<close>): page metadata and cursor queries.
  \<^item> \<open>Audit_Log\<close>, \<open>Multisig\<close> (\<open>src/modules/admin/multisig-proposal.service.ts\<close>): proposals that execute
    when enough admins have signed, with the audit trails they write.
  \<^item> \<open>Governance\<close> (\<open>src/modules/governance/governance-proposals.service.ts\<close>,
    \<open>src/utils/vote-tally.utils.ts\<close>): snapshot voting, tallies, outcomes and the closing sweep.
  \<^item> \<open>Auctions\<close> (\<open>src/modules/auctions/auction.service.ts\<close>): bids, and settling an auction.
  \<^item> \<open>Nonce\<close> (\<open>src/modules/nonce\<close>): single-use nonces per wallet.
  \<^item> \<open>Idempotency\<close> (\<open>src/middlewares/idempotency.middleware.ts\<close>): the in-flight lock, the replay of stored
    responses, the waiting loop and the response hooks.
  \<^item> \<open>Vesting\<close> (\<open>src/modules/vesting\<close>): linear vesting by ledger, on-chain schedules, claims.
  \<^item> \<open>Merkle\<close> (\<open>src/utils/merkle.ts\<close>), \<open>Events\<close> (\<open>src/modules/events/events.service.ts\<close>): leaf hashing,
    and the append-only partitions with their incrementally maintained trees, roots and inclusion proofs.
    The lemmas relate the climb of one leaf to the levels of the complete tree.
  \<^item> \<open>Chain_Events\<close> (\<open>src/utils/indexer-dedupe.utils.ts\<close>, \<open>indexer-event-processor.utils.ts\<close>): batches of
    chain events, refined from a plan of actions; \<open>Ledger\<close>: checkpoints, gaps and the cursor row;
    \<open>Raw_Events\<close>: how the indexers read JSON fields as texts, numbers and dates.
  \<^item> \<open>Swaps\<close>, \<open>Bundles\<close>, \<open>Discounts\<close> (\<open>src/modules/indexer\<close>, \<open>src/modules/traders\<close>): the indexers of atomic
    swaps, bundle trades and volume discount tiers with the tables they keep.
  \<^item> \<open>Deprecation\<close> (\<open>src/modules/keys/key-deprecation.service.ts\<close>): quorum-signed deprecation of a key,
    notifications and the guaranteed buyback.
  \<^item> \<open>Signed_Cursor\<close> (\<open>src/utils/cursor.utils.ts\<close>), \<open>Referrals\<close> (\<open>src/modules/referrals/referrals.service.ts\<close>):
    cursors with a checksum; referral codes, registration, first-trade rewards and their listing.
  \<^item> \<open>Ownership\<close> (\<open>src/modules/ownership/ownership.service.ts\<close>): positions with cost basis and profit;
    \<open>Trades\<close> (\<open>src/modules/indexer/indexer-pipeline.service.ts\<close> and what \<open>processTradeEvents\<close> calls): activities,
    positions, supplies, milestones, price snapshots, dispatch and the cursor.
  \<^item> \<open>Trade_Replay\<close>: the books invariant of \<open>Trades\<close>; every number is determined by the trades processed.
    \<open>Reorg\<close> (\<open>src/modules/indexer/reorg-guard.service.ts\<close>): the ledger-by-ledger ingestion with fork detection,
    rollback and re-ingestion; its predicate \<open>chain_ok\<close> says that the tables follow a given chain, and
    each operation is shown to move it along the chain or back.
  \<^item> \<open>Dividends\<close> (\<open>src/modules/indexer/dividend-indexer.service.ts\<close>, \<open>src/modules/dividends\<close>): snapshots that
    create claims, claim events that settle them, contract logs, distributions by a creator, and the balances
    read back. Claims are settled once, whatever is delivered again and however keys move in between.
  \<^item> \<open>Acl\<close> (\<open>src/modules/acl/acl.service.ts\<close>): the signed whitelist of contracts and its events.
  \<^item> \<open>Staking\<close> (\<open>src/modules/staking\<close>): lock periods, multiplier tiers, staking and unstaking;
    \<open>Stake_Nfts\<close> (\<open>staking-indexer.service.ts\<close>): receipt NFTs and their owners.
  \<^item> \<open>Pricing\<close> (\<open>src/utils/pricing.utils.ts\<close>): the linear price curve of routes and limit checks.
  \<^item> \<open>Revenue\<close> (\<open>src/modules/revenue/revenue.service.ts\<close>): cycles, fee totals, weights and claims;
    \<open>Vault\<close> (\<open>vault-indexer.service.ts\<close>, \<open>src/modules/staking/vault.service.ts\<close>): vault positions as the replay of their
    log, and what the vault shows.
  \<^item> \<open>Delegation\<close> (\<open>src/modules/governance\<close>, \<open>key-proposal-votes.service.ts\<close>): delegation events and the weight they
    give a vote.
  \<^item> \<open>Invoice_Orders\<close> (\<open>src/modules/invoice/invoice-market.service.ts\<close>): signed purchases, and limit orders that
    workers submit under a lease.

  \<^bold>\<open>Modelling choices.\<close>
  \<^item> A table is a list of rows in insertion order, a unique key is enforced where the schema declares it
    and an insert could violate it, and a Prisma transaction is one step. So the theorems about
    interleavings are about handlers cut at their awaits around transactions that are serialised;
    what a weaker isolation level of the database could add is not modelled.
  \<^item> Operations that read before they write in a later step are two definitions (\<open>vote_check\<close> and
    \<open>vote_commit\<close>, \<open>bid_check\<close> and \<open>bid_commit\<close>, \<open>consume_check\<close> and \<open>consume_commit\<close>, \<open>claim_read\<close> and
    \<open>claim_write\<close>, \<open>acl_add_check\<close> and \<open>acl_add_commit\<close>, \<open>unstake_check\<close> and \<open>unstake_commit\<close>, \<open>claim_check\<close> and
    \<open>claim_commit\<close>, \<open>delegated_vote_check\<close> and \<open>delegated_vote_commit\<close>); the whole operation runs them in a row. The step relations interleave the halves
    where the code stays correct; where it does not, a closed theorem exhibits the bad run.
  \<^item> An exception is the \<open>Inl\<close> of the result, with one error constructor per class of the source.
  \<^item> The clock, generated row ids and random suffixes are arguments. Instants are milliseconds.
    Numbers used as counts, ledgers and instants are integers (they stay below \<open>2^53\<close>); doubles that
    are rounded go through \<open>fl\<close>.
  \<^item> Parameters for code outside the repository: the Decimal conversions (\<open>decimal_lib\<close>, with the
    documented laws \<open>decimal_laws\<close> and \<open>decimal_plain\<close>), what a decimal column stores of a text or number
    (laws \<open>column_near\<close>: within \<open>10^-7\<close>, \<open>fee_column\<close>, \<open>reads_same\<close>), JSON printing and parsing (\<open>json_lib\<close>, law
    \<open>json_roundtrip\<close>), glob matching of Redis, writing a double to a seven-place column (\<open>enc\<close>, law
    \<open>storable\<close>), the answers of the contracts (\<open>chain\<close>), SHA-256 (\<open>sha\<close>, law \<open>hex_digest\<close> where its
    shape matters), the publication of roots, signature verification (\<open>crypto_lib\<close>), the delivery of
    notifications, HMAC and base64url (\<open>cursor_lib\<close>), and \<open>String(number)\<close>, \<open>Number(text)\<close> and
    \<open>Date.parse\<close> (\<open>js_text_lib\<close>, law \<open>number_reads_integers\<close>).
  \<^item> Fuel occurs in the waiting loop of a duplicate request only; one turn per millisecond of the timeout
    is enough (\<open>wait_loop_ends\<close>), since the clock advances by the poll interval on every turn.
  \<^item> Log lines, HTTP envelopes and the simulated contract calls (log lines in the source) are left out.

  \<^bold>\<open>What the theorems found.\<close> Overlapping bids can lower an auction (\<open>overlapping_bids_lower_current\<close>);
  overlapping consumers can use one nonce twice (\<open>overlapping_consumers_both_succeed\<close>); overlapping
  claims pay a vested amount twice (\<open>overlapping_claims_pay_twice\<close>); overlapping ingestions corrupt a
  partition's tree (\<open>overlapping_ingests_corrupt_tree\<close>); a failed request with the
  idempotency key \<open>*\<close> erases the stored responses of a wallet (\<open>star_key_erases_stored_responses\<close>);
  unstaked positions keep their voting weight (\<open>unstaked_positions_still_counted\<close>); a swap executed
  before its proposal is indexed hides the proposal (\<open>early_execution_hides_proposal\<close>); a replayed
  dispatch skips holders that were never notified (\<open>replayed_dispatch_skips_everyone\<close>); a trade
  delivered in two batches is counted twice (\<open>redelivered_trade_counts_twice\<close>); a ledger that replaces
  the stored tip is not noticed as a reorganisation (\<open>replaced_tip_keeps_old_trades\<close>); a dividend event without
  an amount per key divides by holders but pays per key (\<open>distributed_event_overpays\<close>); keys that move between
  two claims of a cycle earn twice (\<open>moved_keys_claim_twice\<close>); a revocation delivered late ends a newer delegation
  (\<open>stale_revocation_ends_delegation\<close>).

  \<^bold>\<open>Not modelled.\<close> The dispatcher \<open>processIndexerEvents\<close> and some thirty smaller indexers behind it,
  the paging of open limit orders, and the read-only services that aggregate tables for display
  (portfolio, status, search, leaderboards, exports). Routes, controllers, request validation,
  Prisma configuration, RPC clients and XDR decoding are input and output around the services and are left out.
\<close>

end
